(* ===== verification/Prelude.thy ===== *)
theory Prelude
  imports Main "HOL-Library.Word" "HOL-Library.Multiset" "HOL-Library.Sublist"
begin

text \<open>
  What every component shares: bytes and Go strings, the fixed-width little-endian integers
  of \<^verbatim>\<open>encoding/binary\<close>, the result of an operation that can return an error or panic, and
  generic facts on lists.
\<close>

section \<open>Named collections\<close>

named_theorems file_simps \<open>equations of the file operations on concrete shapes of a file\<close>
named_theorems frame_simps \<open>fields that an operation leaves alone\<close>
named_theorems enc_simps \<open>lengths and shapes of encoded data\<close>

section \<open>Bytes and fixed-width integers\<close>

text \<open>A Go \<^verbatim>\<open>byte\<close>, and a Go \<^verbatim>\<open>[]byte\<close> or \<^verbatim>\<open>string\<close> as the list of its bytes.\<close>

type_synonym byte = "8 word"
type_synonym bytes = "byte list"

text \<open>
  \<open>le_enc k x\<close> is the \<open>k\<close>-byte little-endian two's complement form of \<open>x\<close>;
  \<open>le_dec\<close> reads such a form as an unsigned number and \<open>to_int64\<close> reinterprets an
  unsigned 64-bit number as Go's \<^verbatim>\<open>int64\<close>.
\<close>

fun le_enc :: "nat \<Rightarrow> int \<Rightarrow> bytes" where
  "le_enc 0 x = []"
| "le_enc (Suc k) x = word_of_int x # le_enc k (x div 256)"

fun le_dec :: "bytes \<Rightarrow> int" where
  "le_dec [] = 0"
| "le_dec (b # bs) = uint b + 256 * le_dec bs"

definition to_int64 :: "int \<Rightarrow> int" where
  "to_int64 x = (if x < 2 ^ 63 then x else x - 2 ^ 64)"

lemma length_le_enc [simp, enc_simps]: "length (le_enc k x) = k"
  by (induction k arbitrary: x) auto

lemma le_enc_Nil [simp]: "le_enc k x = [] \<longleftrightarrow> k = 0"
  by (cases k) auto

lemma le_dec_enc: "le_dec (le_enc k x) = x mod 256 ^ k"
proof (induction k arbitrary: x)
  case 0
  then show ?case by simp
next
  case (Suc k)
  have "x mod 256 + 256 * ((x div 256) mod 256 ^ k) = x mod (256 * 256 ^ k)"
    by (subst zmod_zmult2_eq) auto
  with Suc show ?case by (simp add: uint_word_of_int)
qed

lemma int64_roundtrip:
  assumes "- (2 ^ 63) \<le> x" and "x < 2 ^ 63"
  shows "to_int64 (le_dec (le_enc 8 x)) = x"
proof (cases "0 \<le> x")
  case True
  with assms show ?thesis by (simp add: le_dec_enc to_int64_def mod_pos_pos_trivial)
next
  case False
  have "x mod 256 ^ 8 = (x + 2 ^ 64) mod 2 ^ 64" by simp
  also have "\<dots> = x + 2 ^ 64" using False assms by (intro mod_pos_pos_trivial) auto
  finally show ?thesis using False assms by (simp add: le_dec_enc to_int64_def)
qed

section \<open>Lists\<close>

lemma take_append_exact: "length xs = n \<Longrightarrow> take n (xs @ ys) = xs"
  by simp

lemma drop_append_exact: "length xs = n \<Longrightarrow> drop n (xs @ ys) = ys"
  by simp

lemma strict_prefix_append_long:
  assumes "strict_prefix p (xs @ ys)" and "length xs \<le> length p"
  obtains q z where "p = xs @ q" "ys = q @ z" "z \<noteq> []"
proof -
  from assms(1) obtain z where z: "xs @ ys = p @ z" "z \<noteq> []"
    by (auto simp: strict_prefix_def prefix_def)
  with assms(2) obtain q where "p = xs @ q" "ys = q @ z"
    by (auto simp: append_eq_append_conv2)
  with z(2) that show ?thesis by blast
qed

lemma map_of_rev_last:
  assumes "k \<notin> fst ` set ys"
  shows "map_of (rev (xs @ (k, v) # ys)) k = Some v"
proof -
  have "map_of (rev ys) k = None" using assms by (simp add: map_of_eq_None_iff)
  then show ?thesis by (auto simp: map_add_Some_iff)
qed

lemma upt_split: "i \<le> j \<Longrightarrow> j \<le> k \<Longrightarrow> [i..<k] = [i..<j] @ [j..<k]"
  by (metis le_add_diff_inverse upt_add_eq_append)

lemma image_mset_sum_nat: "(\<Sum>k<(n::nat). image_mset f (A k)) = image_mset f (\<Sum>k<n. A k)"
  by (induction n) auto

lemma map_update_same: "f x = f (h ! i) \<Longrightarrow> i < length h \<Longrightarrow> map f (h[i := x]) = map f h"
  by (metis list_update_id map_update)

lemma foldl_Min: "foldl (\<lambda>m x. if f x < m then f x else m) a xs = Min (insert a (f ` set xs))"
  for a :: "'b::linorder"
proof (induction xs arbitrary: a)
  case (Cons x xs)
  have "insert a (f ` set (x # xs)) = insert (f x) (insert a (f ` set xs))" by auto
  moreover have "Min (insert (f x) (insert a (f ` set xs))) = Min (insert (if f x < a then f x else a) (f ` set xs))"
    by (cases "xs = []") (auto simp: min_def)
  ultimately show ?case using Cons by simp
qed simp

lemma foldl_Max: "foldl (\<lambda>m x. if m < f x then f x else m) a xs = Max (insert a (f ` set xs))"
  for a :: "'b::linorder"
proof (induction xs arbitrary: a)
  case (Cons x xs)
  have "insert a (f ` set (x # xs)) = insert (f x) (insert a (f ` set xs))" by auto
  moreover have "Max (insert (f x) (insert a (f ` set xs))) = Max (insert (if a < f x then f x else a) (f ` set xs))"
    by (cases "xs = []") (auto simp: max_def)
  ultimately show ?case using Cons by simp
qed simp

lemma Min_insert_Min:
  fixes a :: "'b::linorder"
  assumes "finite A" and "finite B"
  shows "Min (insert (Min (insert a A)) B) = Min (insert a (A \<union> B))"
proof (cases "B = {}")
  case False
  then have "Min (insert a A \<union> B) = min (Min (insert a A)) (Min B)"
    using assms by (intro Min_Un) auto
  moreover have "Min (insert (Min (insert a A)) B) = min (Min (insert a A)) (Min B)"
    using assms False by (intro Min_insert) auto
  ultimately show ?thesis by simp
qed simp

lemma Max_insert_Max:
  fixes a :: "'b::linorder"
  assumes "finite A" and "finite B"
  shows "Max (insert (Max (insert a A)) B) = Max (insert a (A \<union> B))"
proof (cases "B = {}")
  case False
  then have "Max (insert a A \<union> B) = max (Max (insert a A)) (Max B)"
    using assms by (intro Max_Un) auto
  moreover have "Max (insert (Max (insert a A)) B) = max (Max (insert a A)) (Max B)"
    using assms False by (intro Max_insert) auto
  ultimately show ?thesis by simp
qed simp

lemma sorted_wrt_distinct: "(\<And>x. \<not> R x x) \<Longrightarrow> sorted_wrt R xs \<Longrightarrow> distinct xs"
  by (induction xs) auto

section \<open>Sorting\<close>

text \<open>
  \<^verbatim>\<open>sort.Slice\<close> promises a sorted permutation and no more: the order of equal elements is
  unspecified. Code that calls it takes the sorting function as a parameter of which this is
  known.
\<close>

definition sorts_by :: "('a \<Rightarrow> 'k::linorder) \<Rightarrow> ('a list \<Rightarrow> 'a list) \<Rightarrow> bool" where
  "sorts_by key srt \<longleftrightarrow> (\<forall>xs. mset (srt xs) = mset xs \<and> sorted (map key (srt xs)))"

lemma sorts_by_mset: "sorts_by key srt \<Longrightarrow> mset (srt xs) = mset xs"
  by (simp add: sorts_by_def)

lemma sorts_by_set: "sorts_by key srt \<Longrightarrow> set (srt xs) = set xs"
  by (metis sorts_by_mset mset_eq_setD)

lemma sorts_by_sorted: "sorts_by key srt \<Longrightarrow> sorted (map key (srt xs))"
  by (simp add: sorts_by_def)

lemma sorts_by_sort_key: "sorts_by key (sort_key key)"
  by (simp add: sorts_by_def)

end
