(* ===== verification/GoFile.thy ===== *)
theory GoFile
  imports Prelude
begin

text \<open>
  The part of Go's \<^verbatim>\<open>os.File\<close>, \<^verbatim>\<open>io\<close> and \<^verbatim>\<open>encoding/binary\<close> that the converter uses on its
  intermediate files: a byte sequence, an offset, and the number of bytes the device still
  accepts. \<^verbatim>\<open>make([]byte, n)\<close> is here too, since its panic on a bad length is reachable from
  the contents of a file.
\<close>

section \<open>Errors and results\<close>

text \<open>
  \<open>ErrSeek\<close> carries the wrapped error, \<open>None\<close> being Go's nil. \<open>ErrCodec\<close> is an error of
  the protobuf code that a table is given, \<open>ErrText\<close> an error made with \<^verbatim>\<open>fmt.Errorf\<close>.
\<close>

datatype go_err =
    EOF | UnexpectedEOF | EINVAL | ENOSPC | ENOENT
  | ErrInvalidForMode | ErrBadSentinal | ErrAtSentinel | ErrBadData
  | ErrSeek "go_err option"
  | ErrCodec nat
  | ErrText string

datatype 'a res = Ok 'a | Err go_err | Panic

section \<open>The file\<close>

record os_file =
  f_data :: bytes
  f_off :: nat
  f_room :: "nat option"

datatype whence = SeekStart | SeekCurrent | SeekEnd

text \<open>
  \<^verbatim>\<open>Seek\<close> may go past the end, but not before the start of the file; it returns the new
  offset.
\<close>

definition file_seek :: "os_file \<Rightarrow> int \<Rightarrow> whence \<Rightarrow> int res \<times> os_file" where
  "file_seek f off wh =
     (let base = (case wh of SeekStart \<Rightarrow> 0 | SeekCurrent \<Rightarrow> int (f_off f) | SeekEnd \<Rightarrow> int (length (f_data f)));
          p = base + off
      in if p < 0 then (Err EINVAL, f) else (Ok p, f\<lparr>f_off := nat p\<rparr>))"

text \<open>
  \<^verbatim>\<open>Read\<close> into a buffer of \<open>n\<close> bytes returns what is there, which may be less than the
  buffer, and EOF only when nothing is left. \<^verbatim>\<open>io.ReadFull\<close>, on which \<^verbatim>\<open>binary.Read\<close> rests,
  also rejects a short read.
\<close>

definition file_read :: "os_file \<Rightarrow> nat \<Rightarrow> bytes res \<times> os_file" where
  "file_read f n =
     (let got = take n (drop (f_off f) (f_data f))
      in if n \<noteq> 0 \<and> got = [] then (Err EOF, f)
         else (Ok got, f\<lparr>f_off := f_off f + length got\<rparr>))"

definition binary_read_int64 :: "os_file \<Rightarrow> int res \<times> os_file" where
  "binary_read_int64 f =
     (case file_read f 8 of
        (Ok bs, f') \<Rightarrow> if length bs < 8 then (Err UnexpectedEOF, f') else (Ok (to_int64 (le_dec bs)), f')
      | (Err e, f') \<Rightarrow> (Err e, f')
      | (Panic, f') \<Rightarrow> (Panic, f'))"

text \<open>
  \<^verbatim>\<open>Write\<close> overwrites from the offset and extends the file, with zeros in between when the
  offset lies past the end. When the device accepts fewer bytes, the accepted prefix is in
  the file and the call fails.
\<close>

definition write_at :: "bytes \<Rightarrow> nat \<Rightarrow> bytes \<Rightarrow> bytes" where
  "write_at data off bs =
     (if bs = [] then data
      else take off data @ replicate (off - length data) 0 @ bs @ drop (off + length bs) data)"

definition file_write :: "os_file \<Rightarrow> bytes \<Rightarrow> unit res \<times> os_file" where
  "file_write f bs =
     (let n = (case f_room f of None \<Rightarrow> length bs | Some r \<Rightarrow> min r (length bs));
          bs' = take n bs;
          f' = f\<lparr>f_data := write_at (f_data f) (f_off f) bs', f_off := f_off f + n,
                 f_room := map_option (\<lambda>r. r - n) (f_room f)\<rparr>
      in if n < length bs then (Err ENOSPC, f') else (Ok (), f'))"

definition binary_write_int64 :: "os_file \<Rightarrow> int \<Rightarrow> unit res \<times> os_file" where
  "binary_write_int64 f x = file_write f (le_enc 8 x)"

text \<open>
  \<^verbatim>\<open>make([]byte, n)\<close> panics when \<open>n\<close> is negative or larger than the address space
  (\<open>2 ^ 48\<close> bytes on the 64-bit platforms the program is built for), and otherwise yields
  zeros; \<open>fill\<close> is the buffer after a read put \<open>got\<close> at its front.
\<close>

definition max_alloc :: int where
  "max_alloc = 2 ^ 48"

definition make_ok :: "int \<Rightarrow> bool" where
  "make_ok n \<longleftrightarrow> 0 \<le> n \<and> n \<le> max_alloc"

definition fill :: "int \<Rightarrow> bytes \<Rightarrow> bytes" where
  "fill n got = got @ replicate (nat n - length got) 0"

text \<open>
  The \<^verbatim>\<open>if err != nil { return err }\<close> that follows each call: go on with the value, or leave
  with the error.
\<close>

definition and_then :: "'a res \<times> 's \<Rightarrow> ('a \<Rightarrow> 's \<Rightarrow> 'b res \<times> 's) \<Rightarrow> 'b res \<times> 's" where
  "and_then rf k =
     (case rf of (Ok x, f) \<Rightarrow> k x f | (Err e, f) \<Rightarrow> (Err e, f) | (Panic, f) \<Rightarrow> (Panic, f))"

lemma and_then_simps [simp]:
  "and_then (Ok x, f) k = k x f"
  "and_then (Err e, f) k = (Err e, f)"
  "and_then (Panic, f) k = (Panic, f)"
  by (simp_all add: and_then_def)

lemma and_then_Ok:
  "and_then rf k = (Ok y, g) \<longleftrightarrow> (\<exists>x f. rf = (Ok x, f) \<and> k x f = (Ok y, g))"
  by (auto simp: and_then_def split: prod.splits res.splits)

section \<open>Reads leave the contents alone\<close>

lemma file_seek_frame [frame_simps]:
  "file_seek f off wh = (r, f') \<Longrightarrow> f_data f' = f_data f \<and> f_room f' = f_room f"
  by (auto simp: file_seek_def Let_def split: if_splits)

lemma file_read_frame [frame_simps]:
  "file_read f n = (r, f') \<Longrightarrow> f_data f' = f_data f \<and> f_room f' = f_room f \<and> f_off f \<le> f_off f'"
  by (auto simp: file_read_def Let_def split: if_splits)

lemma binary_read_frame [frame_simps]:
  "binary_read_int64 f = (r, f') \<Longrightarrow> f_data f' = f_data f \<and> f_room f' = f_room f \<and> f_off f \<le> f_off f'"
  by (auto simp: binary_read_int64_def split: prod.splits res.splits if_splits dest!: file_read_frame)

text \<open>
  The same for a chain of operations: \<open>keeps f m\<close> says that the run \<open>m\<close>, started in \<open>f\<close>,
  leaves the contents and the device alone.
\<close>

definition keeps :: "os_file \<Rightarrow> 'a \<times> os_file \<Rightarrow> bool" where
  "keeps f m \<longleftrightarrow> f_data (snd m) = f_data f \<and> f_room (snd m) = f_room f"

named_theorems keeps_intros \<open>runs that keep the file\<close>

lemma keeps_return [keeps_intros]: "keeps f (r, f)"
  by (simp add: keeps_def)

lemma keeps_seek [keeps_intros]: "keeps f (file_seek f off wh)"
  by (simp add: keeps_def file_seek_def Let_def)

lemma keeps_read [keeps_intros]: "keeps f (file_read f n)"
  using file_read_frame [of f n] by (cases "file_read f n") (auto simp: keeps_def)

lemma keeps_binary_read [keeps_intros]: "keeps f (binary_read_int64 f)"
  using binary_read_frame [of f] by (cases "binary_read_int64 f") (auto simp: keeps_def)

lemma keeps_and_then [keeps_intros]:
  assumes "keeps f m" and "\<And>x g. keeps g (k x g)"
  shows "keeps f (and_then m k)"
  using assms by (cases m; cases "fst m") (auto simp: keeps_def and_then_def)

lemma keeps_if [keeps_intros]:
  "\<lbrakk>b \<Longrightarrow> keeps f m; \<not> b \<Longrightarrow> keeps f n\<rbrakk> \<Longrightarrow> keeps f (if b then m else n)"
  by simp

lemma keeps_seek_case [keeps_intros]:
  assumes "\<And>e g. keeps g (h1 e g)" and "\<And>x g. keeps g (h2 x g)" and "\<And>g. keeps g (h3 g)"
  shows "keeps f (case file_seek f off wh of (Err e, g) \<Rightarrow> h1 e g | (Ok x, g) \<Rightarrow> h2 x g | (Panic, g) \<Rightarrow> h3 g)"
  using keeps_seek [of f off wh] assms
  by (cases "file_seek f off wh"; cases "fst (file_seek f off wh)") (auto simp: keeps_def)

lemma binary_read_Ok:
  assumes "binary_read_int64 f = (Ok x, f')"
  shows "f_off f' = f_off f + 8" and "f_off f + 8 \<le> length (f_data f)"
  using assms
  by (auto simp: binary_read_int64_def file_read_def Let_def split: if_splits)

section \<open>Reading at a known shape of the contents\<close>

text \<open>
  \<open>at f rest\<close>: the bytes from the offset on are \<open>rest\<close>. The lemmas below say what a read
  returns there.
\<close>

definition at :: "os_file \<Rightarrow> bytes \<Rightarrow> bool" where
  "at f rest \<longleftrightarrow> drop (f_off f) (f_data f) = rest"

definition adv :: "os_file \<Rightarrow> nat \<Rightarrow> os_file" where
  "adv f n = f\<lparr>f_off := f_off f + n\<rparr>"

lemma adv_fields [simp]:
  "f_data (adv f n) = f_data f" "f_room (adv f n) = f_room f" "f_off (adv f n) = f_off f + n"
  by (simp_all add: adv_def)

lemma adv_0 [simp]: "adv f 0 = f"
  by (simp add: adv_def)

lemma adv_adv [simp]: "adv (adv f m) n = adv f (m + n)"
  by (simp add: adv_def)

lemma at_adv: "at f (xs @ rest) \<Longrightarrow> at (adv f (length xs)) rest"
  unfolding at_def adv_def
  by (metis add.commute append_eq_conv_conj drop_drop os_file.select_convs(1,2)
      os_file.surjective os_file.update_convs(2))

lemma file_read_at [file_simps]:
  "at f rest \<Longrightarrow> file_read f n =
     (if n \<noteq> 0 \<and> rest = [] then (Err EOF, f) else (Ok (take n rest), adv f (min n (length rest))))"
  by (auto simp: file_read_def at_def Let_def adv_def min_def)

lemma binary_read_at [file_simps]:
  "at f rest \<Longrightarrow> binary_read_int64 f =
     (if rest = [] then (Err EOF, f)
      else if length rest < 8 then (Err UnexpectedEOF, adv f (length rest))
      else (Ok (to_int64 (le_dec (take 8 rest))), adv f 8))"
  by (auto simp: binary_read_int64_def file_read_at split: if_splits)

lemma binary_read_enc:
  assumes "at f (le_enc 8 x @ rest)" and "- (2 ^ 63) \<le> x" and "x < 2 ^ 63"
  shows "binary_read_int64 f = (Ok x, adv f 8)"
  using int64_roundtrip [OF assms(2,3)] by (simp add: binary_read_at [OF assms(1)])

lemma file_seek_start [file_simps]:
  "file_seek f (int p) SeekStart = (Ok (int p), f\<lparr>f_off := p\<rparr>)"
  by (simp add: file_seek_def)

lemma file_seek_current_0 [file_simps]:
  "file_seek f 0 SeekCurrent = (Ok (int (f_off f)), f)"
  by (simp add: file_seek_def)

section \<open>Writing at the end\<close>

lemma write_at_end: "off = length data \<Longrightarrow> write_at data off bs = data @ bs"
  by (simp add: write_at_def)

lemma write_at_inside:
  "off \<le> length data \<Longrightarrow> write_at data off bs = take off data @ bs @ drop (off + length bs) data"
  by (simp add: write_at_def)

lemma file_write_unlimited:
  "f_room f = None \<Longrightarrow> file_write f bs =
     (Ok (), f\<lparr>f_data := write_at (f_data f) (f_off f) bs, f_off := f_off f + length bs\<rparr>)"
  by (simp add: file_write_def)

end
