(* ===== verification/USTable.thy ===== *)
theory USTable
  imports GoFile
begin

text \<open>
  \<^verbatim>\<open>pkg/graphite/convert/ustable.go\<close>: the unsorted string-keyed table, a file of length-prefixed
  records closed by a sentinel, opened for reading or for appending. The file is an
  \<open>os_file\<close>; the protobuf code that a table is given is the parameter \<open>codec\<close>. The mutex makes
  every operation atomic, so an operation is a function on the table.
\<close>

section \<open>State and constants\<close>

definition sentinelCode :: int where
  "sentinelCode = 0"

definition sentinel :: bytes where
  "sentinel = [0x53, 0x45, 0x4E, 0x54, 0x49, 0x4E, 0x45, 0x4C]"

datatype umode = READ | APPEND

record ustable =
  u_fd :: os_file
  u_mode :: umode

text \<open>
  What a table asks of its values: \<^verbatim>\<open>Marshal\<close> of a value, \<^verbatim>\<open>Unmarshal\<close> into the fresh value
  that the \<^verbatim>\<open>ProtoConstructor\<close> makes, and that fresh value. An error of the protobuf code is a
  number.
\<close>

record 'v codec =
  cd_marshal :: "'v \<Rightarrow> nat + bytes"
  cd_unmarshal :: "bytes \<Rightarrow> nat + 'v"
  cd_new :: 'v

text \<open>
  What is on disk under the table's name: the contents if the file exists, the error that
  opening or creating it gives, and how much the device still accepts.
\<close>

record disk_file =
  d_data :: "bytes option"
  d_open :: "go_err option"
  d_room :: "nat option"

text \<open>
  \<^verbatim>\<open>errors.Is(err, ErrSeek{})\<close> compares with the struct whose \<^verbatim>\<open>Err\<close> is nil; \<^verbatim>\<open>ErrSeek\<close> has
  neither \<^verbatim>\<open>Is\<close> nor \<^verbatim>\<open>Unwrap\<close>.
\<close>

definition errors_is_ErrSeek :: "go_err \<Rightarrow> bool" where
  "errors_is_ErrSeek e \<longleftrightarrow> e = ErrSeek None"

section \<open>Opening\<close>

definition newUSTableForAppend :: "disk_file \<Rightarrow> bool \<Rightarrow> (ustable \<times> bool) res" where
  "newUSTableForAppend d overwrite =
     (case d_open d of
        Some e \<Rightarrow> Err e
      | None \<Rightarrow>
          let created = (overwrite \<or> d_data d = None);
              contents = (if created then [] else the (d_data d))
          in Ok (\<lparr>u_fd = \<lparr>f_data = contents, f_off = 0, f_room = d_room d\<rparr>, u_mode = APPEND\<rparr>, created))"

definition newUSTableForRead :: "disk_file \<Rightarrow> ustable res" where
  "newUSTableForRead d =
     (case (d_open d, d_data d) of
        (Some e, _) \<Rightarrow> Err e
      | (None, None) \<Rightarrow> Err ENOENT
      | (None, Some contents) \<Rightarrow>
          Ok \<lparr>u_fd = \<lparr>f_data = contents, f_off = 0, f_room = d_room d\<rparr>, u_mode = READ\<rparr>)"

section \<open>Writing\<close>

definition write_record :: "os_file \<Rightarrow> bytes \<Rightarrow> bytes \<Rightarrow> unit res \<times> os_file" where
  "write_record f key buf =
     and_then (binary_write_int64 f (int (length key))) (\<lambda>_ f.
     and_then (file_write f key) (\<lambda>_ f.
     and_then (binary_write_int64 f (int (length buf))) (\<lambda>_ f.
     file_write f buf)))"

definition ustable_append :: "'v codec \<Rightarrow> ustable \<Rightarrow> bytes \<Rightarrow> 'v \<Rightarrow> unit res \<times> ustable" where
  "ustable_append cd t key value =
     (if u_mode t \<noteq> APPEND then (Err ErrInvalidForMode, t)
      else case cd_marshal cd value of
        Inl e \<Rightarrow> (Err (ErrCodec e), t)
      | Inr valueBuf \<Rightarrow>
          (case write_record (u_fd t) key valueBuf of (r, f) \<Rightarrow> (r, t\<lparr>u_fd := f\<rparr>)))"

definition writeSentinel :: "os_file \<Rightarrow> unit res \<times> os_file" where
  "writeSentinel f =
     and_then (binary_write_int64 f 0) (\<lambda>_ f. file_write f sentinel)"

definition ustable_close :: "ustable \<Rightarrow> unit res \<times> ustable" where
  "ustable_close t =
     (if u_mode t = APPEND
      then (case writeSentinel (u_fd t) of (r, f) \<Rightarrow> (r, t\<lparr>u_fd := f\<rparr>))
      else (Ok (), t))"

section \<open>Reading\<close>

definition readValue :: "'v codec \<Rightarrow> os_file \<Rightarrow> 'v res \<times> os_file" where
  "readValue cd f =
     and_then (binary_read_int64 f) (\<lambda>valueLen f.
       if valueLen < 0 then (Err ErrBadData, f)
       else if valueLen = 0 then (Ok (cd_new cd), f)
       else if \<not> make_ok valueLen then (Panic, f)
       else and_then (file_read f (nat valueLen)) (\<lambda>got f.
         case cd_unmarshal cd (fill valueLen got) of
           Inl e \<Rightarrow> (Err (ErrCodec e), f)
         | Inr value \<Rightarrow> (Ok value, f)))"

text \<open>The body of \<^verbatim>\<open>readAt\<close> between its first seek and its deferred function.\<close>

definition readAt_body :: "'v codec \<Rightarrow> os_file \<Rightarrow> int \<Rightarrow> bool \<Rightarrow> (bytes \<times> 'v option) res \<times> os_file" where
  "readAt_body cd f recordStart rv =
     and_then (binary_read_int64 f) (\<lambda>nameLen f.
       if nameLen = sentinelCode then
         and_then (file_read f (length sentinel)) (\<lambda>got f.
           let err = (if fill (int (length sentinel)) got \<noteq> sentinel then ErrBadSentinal else ErrAtSentinel)
           in case file_seek f recordStart SeekStart of
                (Err e, f) \<Rightarrow> (Err (ErrSeek (Some e)), f)
              | (_, f) \<Rightarrow> (Err err, f))
       else if \<not> make_ok nameLen then (Panic, f)
       else and_then (file_read f (nat nameLen)) (\<lambda>got f.
         let key = fill nameLen got in
         if rv then and_then (readValue cd f) (\<lambda>v f. (Ok (key, Some v), f))
         else and_then (binary_read_int64 f) (\<lambda>valueLen f.
           case file_seek f valueLen SeekCurrent of
             (Err e, f) \<Rightarrow> (Err (ErrSeek (Some e)), f)
           | (_, f) \<Rightarrow> (Ok (key, None), f))))"

definition readAt :: "'v codec \<Rightarrow> os_file \<Rightarrow> int \<Rightarrow> bool \<Rightarrow> (bytes \<times> 'v option) res \<times> os_file" where
  "readAt cd f seekPos rv =
     (case (if seekPos = -1 then file_seek f 0 SeekCurrent else file_seek f seekPos SeekStart) of
        (Err e, f) \<Rightarrow> (Err (ErrSeek (Some e)), f)
      | (Panic, f) \<Rightarrow> (Panic, f)
      | (Ok recordStart, f) \<Rightarrow>
          (case readAt_body cd f recordStart rv of
             (Err e, f) \<Rightarrow>
               (case file_seek f recordStart SeekStart of
                  (Err e', f) \<Rightarrow> (Err (ErrSeek (Some e')), f)
                | (_, f) \<Rightarrow> (Err e, f))
           | (r, f) \<Rightarrow> (r, f)))"

definition ustable_next :: "'v codec \<Rightarrow> ustable \<Rightarrow> (bytes \<times> 'v option) res \<times> ustable" where
  "ustable_next cd t =
     (if u_mode t \<noteq> READ then (Err ErrInvalidForMode, t)
      else case readAt cd (u_fd t) (-1) True of (r, f) \<Rightarrow> (r, t\<lparr>u_fd := f\<rparr>))"

definition ustable_ReadAt :: "'v codec \<Rightarrow> ustable \<Rightarrow> int \<Rightarrow> (bytes \<times> 'v option) res \<times> ustable" where
  "ustable_ReadAt cd t seekPos =
     (if u_mode t \<noteq> READ then (Err ErrInvalidForMode, t)
      else case readAt cd (u_fd t) seekPos True of (r, f) \<Rightarrow> (r, t\<lparr>u_fd := f\<rparr>))"

text \<open>
  The loop of \<^verbatim>\<open>Index\<close>. It seeks over the values with whatever length the file gives, so a
  negative length can send it backwards for ever: not returning is \<open>None\<close>.
\<close>

partial_function (option) index_loop ::
    "'v codec \<Rightarrow> os_file \<Rightarrow> (bytes \<Rightarrow> int option) \<Rightarrow> ((bytes \<Rightarrow> int option) res \<times> os_file) option" where
  "index_loop cd f records =
     (case file_seek f 0 SeekCurrent of
        (Err e, f) \<Rightarrow> Some (Err (ErrSeek (Some e)), f)
      | (Panic, f) \<Rightarrow> Some (Panic, f)
      | (Ok pos, f) \<Rightarrow>
          (case readAt cd f (-1) False of
             (Err e, f) \<Rightarrow> Some (if errors_is_ErrSeek e then Err e else Ok records, f)
           | (Panic, f) \<Rightarrow> Some (Panic, f)
           | (Ok kv, f) \<Rightarrow> index_loop cd f (records(fst kv \<mapsto> pos))))"

definition ustable_Index :: "'v codec \<Rightarrow> ustable \<Rightarrow> ((bytes \<Rightarrow> int option) res \<times> ustable) option" where
  "ustable_Index cd t =
     (if u_mode t \<noteq> READ then Some (Err ErrInvalidForMode, t)
      else case file_seek (u_fd t) 0 SeekStart of
        (Err e, f) \<Rightarrow> Some (Err (ErrSeek (Some e)), t\<lparr>u_fd := f\<rparr>)
      | (Panic, f) \<Rightarrow> Some (Panic, t\<lparr>u_fd := f\<rparr>)
      | (Ok _, f) \<Rightarrow> map_option (\<lambda>(r, f). (r, t\<lparr>u_fd := f\<rparr>)) (index_loop cd f Map.empty))"

section \<open>Finding the place to append at\<close>

definition seekSentinel :: "os_file \<Rightarrow> bool \<times> os_file" where
  "seekSentinel f =
     (let atSentinelPos = - (8 + int (length sentinel))
      in case file_seek f atSentinelPos SeekEnd of
           (Ok _, f) \<Rightarrow>
             (case binary_read_int64 f of
                (Ok lenMarker, f) \<Rightarrow>
                  if lenMarker = sentinelCode then
                    (case file_read f (length sentinel) of
                       (Ok got, f) \<Rightarrow>
                         if fill (int (length sentinel)) got = sentinel then
                           (case file_seek f atSentinelPos SeekEnd of
                              (Ok _, f) \<Rightarrow> (False, f)
                            | (_, f) \<Rightarrow> (True, f))
                         else (False, f)
                     | (_, f) \<Rightarrow> (False, f))
                  else (False, f)
              | (_, f) \<Rightarrow> (False, f))
         | (_, f) \<Rightarrow> (False, f))"

text \<open>One iteration of the scanning loop of \<^verbatim>\<open>SeekLastValid\<close> after its seek, and the loop.\<close>

definition slv_body :: "'v codec \<Rightarrow> os_file \<Rightarrow> unit res \<times> os_file" where
  "slv_body cd f =
     and_then (binary_read_int64 f) (\<lambda>nameLen f.
       if nameLen = sentinelCode then (Err ErrBadData, f)
       else if \<not> make_ok nameLen then (Panic, f)
       else and_then (file_read f (nat nameLen)) (\<lambda>_ f.
         and_then (readValue cd f) (\<lambda>_ f. (Ok (), f))))"

lemma readValue_frame [frame_simps]:
  assumes "readValue cd f = (r, f')"
  shows "f_data f' = f_data f \<and> f_room f' = f_room f \<and> f_off f \<le> f_off f'"
  using assms unfolding readValue_def and_then_def
  by (fastforce split: prod.splits res.splits if_splits sum.splits
        dest!: file_read_frame binary_read_frame)

lemma slv_body_Ok:
  assumes "slv_body cd f = (Ok (), f')"
  shows "f_data f' = f_data f \<and> f_off f + 8 \<le> f_off f' \<and> f_off f + 8 \<le> length (f_data f)"
  using assms unfolding slv_body_def
  by (fastforce simp: and_then_Ok split: if_splits
        dest: binary_read_Ok file_read_frame binary_read_frame readValue_frame)

function slv_loop :: "'v codec \<Rightarrow> os_file \<Rightarrow> unit res \<times> int \<times> os_file" where
  "slv_loop cd f =
     (case file_seek f 0 SeekCurrent of
        (Err e, f1) \<Rightarrow> (Err (ErrSeek (Some e)), 0, f1)
      | (Panic, f1) \<Rightarrow> (Panic, 0, f1)
      | (Ok pos, f1) \<Rightarrow>
          (case slv_body cd f1 of
             (Ok _, f2) \<Rightarrow> slv_loop cd f2
           | (Err e, f2) \<Rightarrow> (Err e, pos, f2)
           | (Panic, f2) \<Rightarrow> (Panic, pos, f2)))"
  by pat_completeness auto
termination
  by (relation "measure (\<lambda>(cd, f). length (f_data f) - f_off f)")
    (auto simp: file_seek_current_0 dest!: slv_body_Ok [OF sym])

declare slv_loop.simps [simp del]

definition seekLastValid :: "'v codec \<Rightarrow> os_file \<Rightarrow> unit res \<times> os_file" where
  "seekLastValid cd f =
     (case seekSentinel f of
        (True, f) \<Rightarrow> (Ok (), f)
      | (False, f) \<Rightarrow>
          (case file_seek f 0 SeekStart of
             (Err e, f) \<Rightarrow> (Err (ErrSeek (Some e)), f)
           | (Panic, f) \<Rightarrow> (Panic, f)
           | (Ok _, f) \<Rightarrow>
               (case slv_loop cd f of
                  (Err e, pos, f) \<Rightarrow>
                    if \<not> errors_is_ErrSeek e then
                      (case file_seek f pos SeekStart of
                         (Err e', f) \<Rightarrow> (Err (ErrSeek (Some e')), f)
                       | (_, f) \<Rightarrow> (Ok (), f))
                    else (Err e, f)
                | (r, pos, f) \<Rightarrow> (r, f))))"

definition ustable_SeekLastValid :: "'v codec \<Rightarrow> ustable \<Rightarrow> unit res \<times> ustable" where
  "ustable_SeekLastValid cd t =
     (case seekLastValid cd (u_fd t) of (r, f) \<Rightarrow> (r, t\<lparr>u_fd := f\<rparr>))"

text \<open>The returned pointer (\<open>None\<close> for nil) and error.\<close>

definition NewUSTableForAppend :: "'v codec \<Rightarrow> disk_file \<Rightarrow> bool \<Rightarrow> unit res \<times> ustable option" where
  "NewUSTableForAppend cd d overwrite =
     (case newUSTableForAppend d overwrite of
        Err e \<Rightarrow> (Err e, None)
      | Panic \<Rightarrow> (Panic, None)
      | Ok (t, created) \<Rightarrow>
          if created then (Ok (), Some t)
          else (case ustable_SeekLastValid cd t of (r, t) \<Rightarrow> (r, Some t)))"

definition NewUSTableForAppendWithIndex ::
    "'v codec \<Rightarrow> disk_file \<Rightarrow> bool \<Rightarrow> (ustable \<times> (bytes \<Rightarrow> int option)) res option" where
  "NewUSTableForAppendWithIndex cd d overwrite =
     (case newUSTableForAppend d overwrite of
        Err e \<Rightarrow> Some (Err e)
      | Panic \<Rightarrow> Some Panic
      | Ok (t, created) \<Rightarrow>
          if created then Some (Ok (t, Map.empty))
          else (case ustable_Index cd (t\<lparr>u_mode := READ\<rparr>) of
                  None \<Rightarrow> None
                | Some (Ok m, t) \<Rightarrow> Some (Ok (t\<lparr>u_mode := APPEND\<rparr>, m))
                | Some (Err e, t) \<Rightarrow> Some (Err e)
                | Some (Panic, t) \<Rightarrow> Some Panic))"

end
