(* ===== verification/USTable_Correct.thy ===== *)
theory USTable_Correct
  imports USTable
begin

text \<open>
  What the table of \<^verbatim>\<open>ustable.go\<close> promises: the file format, what the reading operations return
  on a file of that format, where \<^verbatim>\<open>SeekLastValid\<close> and \<^verbatim>\<open>Index\<close> leave the head, and what a
  crash in the middle of an \<^verbatim>\<open>Append\<close> leads to after a reopening.
\<close>

section \<open>The file format\<close>

definition enc_record :: "bytes \<Rightarrow> bytes \<Rightarrow> bytes" where
  "enc_record k b = le_enc 8 (int (length k)) @ k @ le_enc 8 (int (length b)) @ b"

type_synonym 'v entry = "bytes \<times> bytes \<times> 'v"

fun encs :: "'v entry list \<Rightarrow> bytes" where
  "encs [] = []"
| "encs ((k, b, v) # es) = enc_record k b @ encs es"

definition trailer :: bytes where
  "trailer = le_enc 8 0 @ sentinel"

text \<open>
  An entry \<open>(k, b, v)\<close> is a key, the marshaled value and the value. The codec is asked for the
  round trip of this value only; a value of no bytes is never unmarshaled.
\<close>

definition decodes :: "'v codec \<Rightarrow> bytes \<Rightarrow> 'v \<Rightarrow> bool" where
  "decodes cd b v \<longleftrightarrow> (if b = [] then v = cd_new cd else cd_unmarshal cd b = Inr v)"

fun entry_ok :: "'v codec \<Rightarrow> 'v entry \<Rightarrow> bool" where
  "entry_ok cd (k, b, v) \<longleftrightarrow>
     k \<noteq> [] \<and> int (length k) \<le> max_alloc \<and> int (length b) \<le> max_alloc \<and>
     decodes cd b v \<and> cd_marshal cd v = Inr b"

text \<open>
  Of the record of \<open>k\<close> and \<open>b\<close> only the beginning \<open>p\<close> is in the file. Reading it, \<open>readValue\<close> gives the codec
  the bytes of the value that are there and zeros in place of the missing ones, because the number of
  bytes read is not looked at. The cut is noticed if no byte of the value is there, or if the codec refuses
  this buffer. A codec need not refuse it: a value that ends in a number of variable length, like the one
  the tables are used for, can be read from it with another number.
\<close>

definition padded_value :: "bytes \<Rightarrow> bytes \<Rightarrow> bytes \<Rightarrow> bytes" where
  "padded_value k b p = (let got = drop (16 + length k) p in got @ replicate (length b - length got) 0)"

definition cut_noticed :: "'v codec \<Rightarrow> bytes \<Rightarrow> bytes \<Rightarrow> bytes \<Rightarrow> bool" where
  "cut_noticed cd k b p \<longleftrightarrow> length p \<le> 16 + length k \<or> (\<exists>e. cd_unmarshal cd (padded_value k b p) = Inl e)"

lemma encs_append [simp]: "encs (xs @ ys) = encs xs @ encs ys"
  by (induction xs rule: encs.induct) auto

lemma length_sentinel [simp, enc_simps]: "length sentinel = 8"
  by (simp add: sentinel_def)

lemma length_trailer [simp, enc_simps]: "length trailer = 16"
  by (simp add: trailer_def)

lemma length_enc_record [simp, enc_simps]:
  "length (enc_record k b) = 16 + length k + length b"
  by (simp add: enc_record_def)

lemma enc_record_nonempty [simp]: "enc_record k b \<noteq> []"
  by (simp add: enc_record_def)

lemma max_alloc_bound: "n \<le> max_alloc \<Longrightarrow> n < 2 ^ 63"
  by (simp add: max_alloc_def)

section \<open>Reading one record\<close>

lemma binary_read_len:
  assumes "at f (le_enc 8 (int n) @ rest)" and "int n \<le> max_alloc"
  shows "binary_read_int64 f = (Ok (int n), adv f 8)" and "at (adv f 8) rest"
  using binary_read_enc [OF assms(1)] at_adv [OF assms(1)] max_alloc_bound [OF assms(2)] by simp_all

lemma fill_exact [simp]: "fill (int (length b)) b = b"
  by (simp add: fill_def)

lemma readValue_enc:
  assumes "at f (le_enc 8 (int (length b)) @ b @ rest)" and "int (length b) \<le> max_alloc"
    and "decodes cd b v"
  shows "readValue cd f = (Ok v, adv f (8 + length b))"
  using binary_read_len [OF assms(1,2)] assms(2,3)
  by (auto simp: readValue_def file_read_at make_ok_def decodes_def)

lemma key_read:
  assumes "at f (enc_record k b @ rest)" and "int (length k) \<le> max_alloc" and "k \<noteq> []"
  shows "binary_read_int64 f = (Ok (int (length k)), adv f 8)"
    and "file_read (adv f 8) (length k) = (Ok k, adv f (8 + length k))"
    and "at (adv f (8 + length k)) (le_enc 8 (int (length b)) @ b @ rest)"
proof -
  have a: "at f (le_enc 8 (int (length k)) @ k @ le_enc 8 (int (length b)) @ b @ rest)"
    using assms(1) by (simp add: enc_record_def)
  from binary_read_len [OF a assms(2)]
  show "binary_read_int64 f = (Ok (int (length k)), adv f 8)" by simp
  from binary_read_len [OF a assms(2)]
  have a2: "at (adv f 8) (k @ le_enc 8 (int (length b)) @ b @ rest)" by simp
  then show "file_read (adv f 8) (length k) = (Ok k, adv f (8 + length k))"
    using assms(3) by (simp add: file_read_at)
  show "at (adv f (8 + length k)) (le_enc 8 (int (length b)) @ b @ rest)"
    using at_adv [OF a2] by simp
qed

lemma slv_body_record:
  assumes "entry_ok cd (k, b, v)" and "at f (enc_record k b @ rest)"
  shows "slv_body cd f = (Ok (), adv f (length (enc_record k b)))"
proof -
  note kr = key_read [OF assms(2)]
  from assms(1) have rv: "readValue cd (adv f (8 + length k)) = (Ok v, adv f (16 + length k + length b))"
    using readValue_enc [OF kr(3)] by (auto simp: algebra_simps)
  show ?thesis using assms(1) kr rv
    by (auto simp: slv_body_def sentinelCode_def make_ok_def algebra_simps)
qed

lemma readAt_body_record:
  assumes "entry_ok cd (k, b, v)" and "at f (enc_record k b @ rest)"
  shows "readAt_body cd f p rv = (Ok (k, if rv then Some v else None), adv f (length (enc_record k b)))"
proof -
  note kr = key_read [OF assms(2)]
  from assms(1) have rv: "readValue cd (adv f (8 + length k)) = (Ok v, adv f (16 + length k + length b))"
    using readValue_enc [OF kr(3)] by (auto simp: algebra_simps)
  from assms(1) have bl: "binary_read_int64 (adv f (8 + length k)) = (Ok (int (length b)), adv f (16 + length k))"
    using binary_read_len(1) [OF kr(3)] by (simp add: algebra_simps)
  have sk: "file_seek (adv f (16 + length k)) (int (length b)) SeekCurrent
      = (Ok (int (f_off f) + 16 + int (length k) + int (length b)), adv f (16 + length k + length b))"
    by (simp add: file_seek_def adv_def nat_add_distrib)
  show ?thesis using assms(1) kr rv bl sk
    by (auto simp: readAt_body_def sentinelCode_def make_ok_def algebra_simps)
qed

lemma readAt_here:
  assumes "readAt_body cd f (int (f_off f)) rv = (Ok x, f')"
  shows "readAt cd f (-1) rv = (Ok x, f')"
  using assms by (simp add: readAt_def file_seek_current_0)

lemma readAt_pos:
  assumes "readAt_body cd (f\<lparr>f_off := p\<rparr>) (int p) rv = (Ok x, f')"
  shows "readAt cd f (int p) rv = (Ok x, f')"
  using assms by (simp add: readAt_def file_seek_start)

lemma readAt_trailer:
  assumes "at f (trailer @ rest)"
  shows "readAt cd f (-1) rv = (Err ErrAtSentinel, f)"
proof -
  have a: "at f (le_enc 8 (int 0) @ sentinel @ rest)" using assms by (simp add: trailer_def)
  have "binary_read_int64 f = (Ok 0, adv f 8)" "at (adv f 8) (sentinel @ rest)"
    using binary_read_len [OF a] by (simp_all add: max_alloc_def)
  moreover have "fill 8 sentinel = sentinel" using fill_exact [of sentinel] by simp
  moreover have "(adv f 16)\<lparr>f_off := f_off f\<rparr> = f" by (simp add: adv_def)
  ultimately have b: "readAt_body cd f (int (f_off f)) rv = (Err ErrAtSentinel, f)"
    by (auto simp: readAt_body_def sentinelCode_def file_read_at file_seek_start sentinel_def)
  show ?thesis by (simp add: readAt_def file_seek_current_0 b file_seek_start)
qed

lemma readAt_end:
  assumes "at f []"
  shows "readAt cd f (-1) rv = (Err EOF, f)"
proof -
  have "readAt_body cd f (int (f_off f)) rv = (Err EOF, f)"
    by (simp add: readAt_body_def binary_read_at [OF assms])
  then show ?thesis by (simp add: readAt_def file_seek_current_0 file_seek_start)
qed

text \<open>Without its value, a record is read over by the lengths alone, whatever bytes follow.\<close>

lemma readAt_skips_torn:
  assumes "entry_ok cd (k, b, v)"
    and "at f (le_enc 8 (int (length k)) @ k @ le_enc 8 (int (length b)) @ rest)"
  shows "readAt cd f (-1) False = (Ok (k, None), adv f (16 + length k + length b))"
proof -
  have kl: "int (length k) \<le> max_alloc" "k \<noteq> []" "int (length b) \<le> max_alloc" using assms(1) by auto
  note rd = binary_read_len [OF assms(2) kl(1)]
  have key: "file_read (adv f 8) (length k) = (Ok k, adv f (8 + length k))"
    using kl(2) by (simp add: file_read_at [OF rd(2)])
  have at2: "at (adv f (8 + length k)) (le_enc 8 (int (length b)) @ rest)"
    using at_adv [OF rd(2)] by simp
  have sk: "file_seek (adv f (16 + length k)) (int (length b)) SeekCurrent
      = (Ok (int (f_off f) + 16 + int (length k) + int (length b)), adv f (16 + length k + length b))"
    by (simp add: file_seek_def adv_def nat_add_distrib)
  have bl: "binary_read_int64 (adv f (8 + length k)) = (Ok (int (length b)), adv f (16 + length k))"
    using binary_read_len(1) [OF at2 kl(3)] by (simp add: algebra_simps)
  have "readAt_body cd f (int (f_off f)) False = (Ok (k, None), adv f (16 + length k + length b))"
    using rd(1) key bl sk kl by (auto simp: readAt_body_def sentinelCode_def make_ok_def algebra_simps)
  then show ?thesis by (rule readAt_here)
qed

section \<open>Writing\<close>

text \<open>
  Consecutive writes are one write of the concatenation, also when the device fails in the
  middle; an append is therefore one write of the encoded record.
\<close>

lemma write_at_twice:
  "write_at (write_at d n xs) (n + length xs) ys = write_at d n (xs @ ys)"
proof (cases "xs = [] \<or> ys = []")
  case True
  then show ?thesis by (auto simp: write_at_def)
next
  case False
  define p where "p = take n d @ replicate (n - length d) 0"
  have lp: "length p = n" by (simp add: p_def)
  have w: "write_at d n zs = p @ zs @ drop (n + length zs) d" if "zs \<noteq> []" for zs
    using that by (simp add: write_at_def p_def)
  let ?w = "p @ xs @ drop (n + length xs) d"
  have "write_at ?w (n + length xs) ys
      = take (n + length xs) ?w @ ys @ drop (n + length xs + length ys) ?w"
    using lp by (intro write_at_inside) simp
  also have "\<dots> = p @ xs @ ys @ drop (n + length (xs @ ys)) d"
    using lp by (simp add: algebra_simps)
  finally show ?thesis using False by (simp add: w)
qed

lemma file_write_room:
  assumes "f_room f = Some r"
  shows "file_write f bs =
    (if r < length bs then (Err ENOSPC, f\<lparr>f_data := write_at (f_data f) (f_off f) (take r bs),
                                           f_off := f_off f + r, f_room := Some 0\<rparr>)
     else (Ok (), f\<lparr>f_data := write_at (f_data f) (f_off f) bs,
                    f_off := f_off f + length bs, f_room := Some (r - length bs)\<rparr>))"
proof (cases "r < length bs")
  case True
  then have "min r (length bs) = r" by simp
  with True assms show ?thesis by (simp add: file_write_def Let_def)
next
  case False
  then have "min r (length bs) = length bs" by simp
  with False assms show ?thesis by (simp add: file_write_def Let_def)
qed

lemma file_write_append:
  "and_then (file_write f xs) (\<lambda>_ f. file_write f ys) = file_write f (xs @ ys)"
proof (cases "f_room f")
  case None
  then show ?thesis by (simp add: file_write_unlimited write_at_twice add.assoc)
next
  case (Some r)
  show ?thesis
  proof (cases "r < length xs")
    case True
    then show ?thesis by (simp add: file_write_room [OF Some])
  next
    case False
    define g where "g = f\<lparr>f_data := write_at (f_data f) (f_off f) xs,
        f_off := f_off f + length xs, f_room := Some (r - length xs)\<rparr>"
    have xs: "file_write f xs = (Ok (), g)"
      using False by (simp add: file_write_room [OF Some] g_def)
    have g: "f_room g = Some (r - length xs)" by (simp add: g_def)
    have lt: "r - length xs < length ys \<longleftrightarrow> r < length (xs @ ys)" using False by auto
    have "and_then (file_write f xs) (\<lambda>_ f. file_write f ys) = file_write g ys"
      by (simp add: xs)
    also have "\<dots> = file_write f (xs @ ys)"
      unfolding file_write_room [OF g] file_write_room [OF Some] lt
      using False by (auto simp: g_def write_at_twice)
    finally show ?thesis .
  qed
qed
lemma and_then_assoc: "and_then (and_then r g) h = and_then r (\<lambda>x f. and_then (g x f) h)"
  by (auto simp: and_then_def split: prod.splits res.splits)

lemma write_record_eq: "write_record f key buf = file_write f (enc_record key buf)"
  unfolding write_record_def binary_write_int64_def enc_record_def
  by (simp add: file_write_append [symmetric] and_then_assoc)

lemma writeSentinel_eq: "writeSentinel f = file_write f trailer"
  by (simp add: writeSentinel_def binary_write_int64_def trailer_def file_write_append)

section \<open>Scanning\<close>

text \<open>Every operation that reads leaves the contents and the device alone.\<close>

lemma keeps_readValue [keeps_intros]: "keeps f (readValue cd f)"
  using readValue_frame [of cd f] by (cases "readValue cd f") (auto simp: keeps_def)

lemma keeps_readAt_body [keeps_intros]: "keeps f (readAt_body cd f p rv)"
  unfolding readAt_body_def Let_def by (intro keeps_intros)

lemma readAt_body_frame [frame_simps]:
  "readAt_body cd f p rv = (r, f') \<Longrightarrow> f_data f' = f_data f \<and> f_room f' = f_room f"
  using keeps_readAt_body [of f cd p rv] by (simp add: keeps_def)

lemma slv_body_frame [frame_simps]:
  assumes "slv_body cd f = (r, f')"
  shows "f_data f' = f_data f \<and> f_room f' = f_room f"
  using assms unfolding slv_body_def and_then_def
  by (auto split: prod.splits res.splits if_splits
      dest!: binary_read_frame file_read_frame readValue_frame)

lemma slv_body_err:
  assumes "slv_body cd f = (Err e, f')"
  shows "\<not> errors_is_ErrSeek e"
proof -
  have br: "e = EOF \<or> e = UnexpectedEOF" if "binary_read_int64 g = (Err e, g')" for g g' e
    using that by (auto simp: binary_read_int64_def file_read_def Let_def split: if_splits)
  have fr: "e = EOF" if "file_read g n = (Err e, g')" for g g' n e
    using that by (auto simp: file_read_def Let_def split: if_splits)
  have rv: "\<not> errors_is_ErrSeek e" if "readValue cd g = (Err e, g')" for g g' e
    using that unfolding readValue_def and_then_def errors_is_ErrSeek_def
    by (auto split: prod.splits res.splits if_splits sum.splits dest!: br fr)
  show ?thesis using assms unfolding slv_body_def and_then_def
    by (auto split: prod.splits res.splits if_splits dest: rv dest!: br fr simp: errors_is_ErrSeek_def)
qed

text \<open>
  \<open>seekSentinel\<close> never reports a sentinel: it returns whether the last seek failed.
\<close>

lemma seekSentinel_False:
  obtains g where "seekSentinel f = (False, g)" "f_data g = f_data f" "f_room g = f_room f"
proof -
  let ?p = "- (8 + int (length sentinel))"
  have sk: "\<exists>f'. file_seek g ?p SeekEnd = (Ok (int (length (f_data g)) + ?p), f')
      \<and> f_data f' = f_data g \<and> f_room f' = f_room g" if "16 \<le> length (f_data g)" for g
    using that by (simp add: file_seek_def Let_def)
  have "\<exists>g. seekSentinel f = (False, g) \<and> f_data g = f_data f \<and> f_room g = f_room f"
  proof (cases "16 \<le> length (f_data f)")
    case False
    then show ?thesis by (simp add: seekSentinel_def file_seek_def)
  next
    case True
    then obtain f1 where f1: "file_seek f ?p SeekEnd = (Ok (int (length (f_data f)) + ?p), f1)"
      "f_data f1 = f_data f" "f_room f1 = f_room f" using sk by blast
    obtain r2 f2 where f2: "binary_read_int64 f1 = (r2, f2)" by fastforce
    obtain r3 f3 where f3: "file_read f2 (length sentinel) = (r3, f3)" by fastforce
    from f2 f3 f1 have d: "f_data f2 = f_data f" "f_room f2 = f_room f" "f_data f3 = f_data f" "f_room f3 = f_room f"
      by (auto dest!: binary_read_frame file_read_frame)
    with True sk [of f3] obtain f4 where f4: "file_seek f3 ?p SeekEnd = (Ok (int (length (f_data f3)) + ?p), f4)"
      "f_data f4 = f_data f" "f_room f4 = f_room f" by auto
    show ?thesis using f1 f2 f3 d f4
      by (cases r2; cases r3) (auto simp: seekSentinel_def Let_def)
  qed
  then show ?thesis using that by blast
qed

lemma slv_loop_skip:
  assumes "\<forall>x \<in> set es. entry_ok cd x" and "at f (encs es @ tail)"
  shows "slv_loop cd f = slv_loop cd (adv f (length (encs es)))"
  using assms
proof (induction es arbitrary: f)
  case (Cons x es)
  obtain k b v where x: "x = (k, b, v)" by (cases x)
  have at: "at f (enc_record k b @ encs es @ tail)" using Cons.prems(2) by (simp add: x)
  have body: "slv_body cd f = (Ok (), adv f (length (enc_record k b)))"
    using Cons.prems(1) at by (intro slv_body_record) (auto simp: x)
  have "slv_loop cd (adv f (length (enc_record k b)))
      = slv_loop cd (adv (adv f (length (enc_record k b))) (length (encs es)))"
    using Cons.prems at_adv [OF at] by (intro Cons.IH) (auto simp: x)
  with body show ?case
    by (simp add: slv_loop.simps [of cd f] file_seek_current_0 x algebra_simps)
qed simp

lemma slv_loop_stop:
  assumes "slv_body cd f = (Err e, f')"
  shows "slv_loop cd f = (Err e, int (f_off f), f')"
  using assms by (simp add: slv_loop.simps [of cd f] file_seek_current_0)

text \<open>Where the scan from the start stops is where the table is positioned.\<close>

lemma seekLastValid_at:
  fixes f :: os_file
  assumes "\<And>g :: os_file. f_data g = f_data f \<Longrightarrow> f_off g = 0 \<Longrightarrow> \<exists>h e h'. slv_loop cd g = slv_loop cd h \<and>
      slv_body cd h = (Err e, h') \<and> f_off h = n \<and> f_data h = f_data g \<and> f_room h = f_room g"
  shows "seekLastValid cd f = (Ok (), f\<lparr>f_off := n\<rparr>)"
proof -
  obtain g where g: "seekSentinel f = (False, g)" "f_data g = f_data f" "f_room g = f_room f"
    by (rule seekSentinel_False)
  obtain h e h' where h: "slv_loop cd (g\<lparr>f_off := 0\<rparr>) = slv_loop cd h" "slv_body cd h = (Err e, h')" "f_off h = n"
    "f_data h = f_data f" "f_room h = f_room f"
    using assms [of "g\<lparr>f_off := 0\<rparr>"] g by auto
  have "f_data h' = f_data f \<and> f_room h' = f_room f" using slv_body_frame [OF h(2)] h by simp
  then have "h'\<lparr>f_off := n\<rparr> = f\<lparr>f_off := n\<rparr>" by simp
  then show ?thesis using g(1) h(1,3) slv_loop_stop [OF h(2)] slv_body_err [OF h(2)] file_seek_start [of g 0]
    by (simp add: seekLastValid_def file_seek_start)
qed

lemma seekLastValid_records:
  assumes "\<forall>x \<in> set es. entry_ok cd x" and d: "f_data f = encs es @ tail"
    and tail: "\<And>g. at g tail \<Longrightarrow> \<exists>e g'. slv_body cd g = (Err e, g')"
  shows "seekLastValid cd f = (Ok (), f\<lparr>f_off := length (encs es)\<rparr>)"
proof (rule seekLastValid_at)
  fix g :: os_file assume g: "f_data g = f_data f" "f_off g = 0"
  then have at0: "at g (encs es @ tail)" using d by (simp add: at_def)
  then show "\<exists>h e h'. slv_loop cd g = slv_loop cd h \<and> slv_body cd h = (Err e, h') \<and>
      f_off h = length (encs es) \<and> f_data h = f_data g \<and> f_room h = f_room g"
    using slv_loop_skip [OF assms(1) at0] tail [OF at_adv [OF at0]] g
    by (intro exI [of _ "adv g (length (encs es))"]) auto
qed

section \<open>A torn tail\<close>

text \<open>
  At most 16 bytes never hold a record: the two lengths and a key of one byte need 17.
\<close>

lemma slv_body_short:
  assumes at: "at g tail" and short: "length tail \<le> 16"
    and hd: "8 \<le> length tail \<Longrightarrow> make_ok (to_int64 (le_dec (take 8 tail)))"
  shows "\<exists>e g'. slv_body cd g = (Err e, g')"
proof (cases "length tail < 8")
  case True
  then show ?thesis using binary_read_at [OF at] by (auto simp: slv_body_def)
next
  case False
  define n where "n = to_int64 (le_dec (take 8 tail))"
  have rd: "binary_read_int64 g = (Ok n, adv g 8)"
    using binary_read_at [OF at] False by (auto simp: n_def)
  have at8: "at (adv g 8) (drop 8 tail)"
    using at_adv [of g "take 8 tail" "drop 8 tail"] at False by simp
  show ?thesis
  proof (cases "n = 0 \<or> drop 8 tail = []")
    case True
    with rd hd False show ?thesis
      by (auto simp: slv_body_def sentinelCode_def file_read_at [OF at8] n_def [symmetric] make_ok_def)
  next
    case F: False
    let ?k = "min (nat n) (length tail - 8)"
    have pos: "0 < n" using F hd False by (simp add: n_def make_ok_def)
    have k1: "1 \<le> ?k" using F pos by auto
    have key: "file_read (adv g 8) (nat n) = (Ok (take (nat n) (drop 8 tail)), adv g (8 + ?k))"
      using F by (simp add: file_read_at [OF at8])
    have "at (adv g 8) (take ?k (drop 8 tail) @ drop ?k (drop 8 tail))"
      using at8 by (simp only: append_take_drop_id)
    from at_adv [OF this] have at2: "at (adv g (8 + ?k)) (drop ?k (drop 8 tail))" by simp
    have "length (drop ?k (drop 8 tail)) < 8" using short k1 by auto
    then have "\<exists>e g'. readValue cd (adv g (8 + ?k)) = (Err e, g')"
      using binary_read_at [OF at2] by (auto simp: readValue_def)
    with rd key hd False F show ?thesis
      by (auto simp: slv_body_def sentinelCode_def n_def [symmetric])
  qed
qed

lemma readValue_torn:
  assumes at: "at g rest" and pre: "strict_prefix rest (le_enc 8 (int (length b)) @ b)"
    and "int (length b) \<le> max_alloc"
    and "length rest \<le> 8 \<or> (\<exists>e. cd_unmarshal cd (drop 8 rest @ replicate (length b - length (drop 8 rest)) 0) = Inl e)"
  shows "\<exists>e g'. readValue cd g = (Err e, g')"
proof (cases "length rest < 8")
  case True
  then show ?thesis using binary_read_at [OF at] by (auto simp: readValue_def)
next
  case False
  with pre obtain q z where r: "rest = le_enc 8 (int (length b)) @ q" and b: "b = q @ z" and z: "z \<noteq> []"
    by (auto elim: strict_prefix_append_long)
  from at r have at': "at g (le_enc 8 (int (length b)) @ q)" by simp
  note rd = binary_read_len [OF at' assms(3)]
  show ?thesis
  proof (cases "q = []")
    case True
    with rd b z assms(3) show ?thesis
      by (auto simp: readValue_def make_ok_def file_read_at)
  next
    case F: False
    have "\<exists>e. cd_unmarshal cd (q @ replicate (length z) 0) = Inl e"
      using assms(4) F by (auto simp: r b)
    moreover have "int (length q) + int (length z) \<noteq> 0" using F by (cases q) auto
    moreover have "nat (int (length q) + int (length z)) - length q = length z" by simp
    ultimately show ?thesis using rd F b assms(3)
      by (auto simp: readValue_def make_ok_def file_read_at fill_def)
  qed
qed

lemma le_dec_replicate0 [simp]: "le_dec (xs @ replicate n 0) = le_dec xs"
proof -
  have "le_dec (replicate n 0) = 0" by (induction n) auto
  then show ?thesis by (induction xs) auto
qed

lemma take_le_enc: "m \<le> k \<Longrightarrow> take m (le_enc k x) = le_enc m x"
proof (induction k arbitrary: m x)
  case 0
  then show ?case by simp
next
  case (Suc k)
  then show ?case by (cases m) auto
qed

lemma make_ok_header:
  assumes "int n \<le> max_alloc"
  shows "make_ok (to_int64 (int n mod 256 ^ m))"
proof -
  have "0 \<le> int n mod 256 ^ m" "int n mod 256 ^ m \<le> int n"
    by (simp_all add: zmod_le_nonneg_dividend)
  then show ?thesis using assms by (simp add: make_ok_def to_int64_def max_alloc_def)
qed

text \<open>
  The tails a crash leaves: a proper prefix of a record, followed by what the old trailer has
  beyond it.
\<close>

lemma slv_body_torn:
  assumes ok: "entry_ok cd (k, b, v)" and torn: "cut_noticed cd k b p"
    and pre: "strict_prefix p (enc_record k b)" and at: "at g p"
  shows "\<exists>e g'. slv_body cd g = (Err e, g')"
proof (cases "length p \<le> 16")
  case True
  have "take 8 p = le_enc 8 (int (length k))" if "8 \<le> length p"
  proof -
    have "take 8 p = take 8 (enc_record k b)"
      using pre that by (auto simp: strict_prefix_def prefix_def)
    then show ?thesis by (simp add: enc_record_def)
  qed
  moreover have "make_ok (to_int64 (le_dec (le_enc 8 (int (length k)))))"
    using ok by (simp add: le_dec_enc make_ok_header del: power_numeral)
  ultimately show ?thesis using slv_body_short [OF at True] by metis
next
  case False
  from pre obtain q z where p: "p = le_enc 8 (int (length k)) @ q"
      and qz: "k @ le_enc 8 (int (length b)) @ b = q @ z" "z \<noteq> []"
    unfolding enc_record_def using False by (elim strict_prefix_append_long) auto
  then have qpre: "strict_prefix q (k @ le_enc 8 (int (length b)) @ b)"
    by (auto simp: strict_prefix_def prefix_def)
  have at': "at g (le_enc 8 (int (length k)) @ q)" using at p by simp
  have kl: "int (length k) \<le> max_alloc" "k \<noteq> []" using ok by auto
  note rd = binary_read_len [OF at' kl(1)]
  let ?n = "min (length k) (length q)"
  have "q \<noteq> []" using False p by auto
  then have key: "file_read (adv g 8) (length k) = (Ok (take (length k) q), adv g (8 + ?n))"
    by (simp add: file_read_at [OF rd(2)])
  have "at (adv g 8) (take ?n q @ drop ?n q)" using rd(2) by (simp only: append_take_drop_id)
  from at_adv [OF this] have at2: "at (adv g (8 + ?n)) (drop ?n q)" by simp
  have "\<exists>e g'. readValue cd (adv g (8 + ?n)) = (Err e, g')"
  proof (cases "length q < length k")
    case True
    then have "drop ?n q = []" by simp
    then show ?thesis using binary_read_at [OF at2] by (simp add: readValue_def)
  next
    case False
    then obtain q' z' where "q = k @ q'" and "le_enc 8 (int (length b)) @ b = q' @ z'" "z' \<noteq> []"
      using qpre by (auto elim: strict_prefix_append_long)
    then have "strict_prefix (drop ?n q) (le_enc 8 (int (length b)) @ b)"
      by (auto simp: strict_prefix_def prefix_def)
    moreover have tl: "drop 8 (drop ?n q) = drop (16 + length k) p" and len: "length p = 8 + length k + length (drop ?n q)"
      using False by (simp_all add: p add.commute)
    have "length (drop ?n q) \<le> 8 \<or>
        (\<exists>e. cd_unmarshal cd (drop 8 (drop ?n q) @ replicate (length b - length (drop 8 (drop ?n q))) 0) = Inl e)"
      using torn unfolding cut_noticed_def padded_value_def Let_def tl len by auto
    ultimately show ?thesis using readValue_torn [OF at2, of b cd] ok by auto
  qed
  with rd key kl show ?thesis
    by (auto simp: slv_body_def sentinelCode_def make_ok_def)
qed

text \<open>A cut that is not noticed: the scan goes on behind what is there of the record.\<close>

lemma slv_body_accepts:
  assumes ok: "entry_ok cd (k, b, v)" and cut: "\<not> cut_noticed cd k b p"
    and pre: "strict_prefix p (enc_record k b)" and at: "at g p"
  shows "slv_body cd g = (Ok (), adv g (length p))"
proof -
  let ?q = "drop (16 + length k) p"
  have long: "16 + length k < length p" and no: "\<nexists>e. cd_unmarshal cd (padded_value k b p) = Inl e"
    using cut by (simp_all add: cut_noticed_def)
  obtain z where z: "enc_record k b = p @ z" "z \<noteq> []" using pre by (auto simp: strict_prefix_def prefix_def)
  have "take (16 + length k) p = take (16 + length k) (enc_record k b)" using long by (simp add: z(1))
  also have "\<dots> = le_enc 8 (int (length k)) @ k @ le_enc 8 (int (length b))" by (simp add: enc_record_def)
  finally have p: "p = le_enc 8 (int (length k)) @ k @ le_enc 8 (int (length b)) @ ?q"
    using append_take_drop_id [of "16 + length k" p] by simp
  have at0: "at g (le_enc 8 (int (length k)) @ k @ le_enc 8 (int (length b)) @ ?q)" using at p by simp
  have lim: "int (length k) \<le> max_alloc" "int (length b) \<le> max_alloc" "k \<noteq> []" using ok by auto
  note rd = binary_read_len [OF at0 lim(1)]
  have key: "file_read (adv g 8) (length k) = (Ok k, adv g (8 + length k))"
    using lim(3) by (simp add: file_read_at [OF rd(2)])
  have at2: "at (adv g (8 + length k)) (le_enc 8 (int (length b)) @ ?q)" using at_adv [OF rd(2)] by simp
  note rd2 = binary_read_len [OF at2 lim(2)]
  have q: "?q \<noteq> []" "length ?q < length b"
  proof -
    show "?q \<noteq> []" using long by simp
    have "length p < length (enc_record k b)" using z by simp
    then show "length ?q < length b" using long by simp
  qed
  then have val: "file_read (adv g (16 + length k)) (length b) = (Ok ?q, adv g (length p))"
    using file_read_at [OF rd2(2)] long by simp
  obtain w where w: "cd_unmarshal cd (fill (int (length b)) ?q) = Inr w"
    using no by (cases "cd_unmarshal cd (padded_value k b p)") (auto simp: padded_value_def fill_def Let_def)
  have "b \<noteq> []" using q by auto
  then have "readValue cd (adv g (8 + length k)) = (Ok w, adv g (length p))"
    using rd2(1) val w lim(2) by (simp add: readValue_def make_ok_def)
  then show ?thesis using rd(1) key lim by (simp add: slv_body_def sentinelCode_def make_ok_def)
qed

lemma seekLastValid_accepts:
  assumes es: "\<forall>x \<in> set es. entry_ok cd x" and ok: "entry_ok cd (k, b, v)"
    and cut: "\<not> cut_noticed cd k b p" and pre: "strict_prefix p (enc_record k b)" and d: "f_data f = encs es @ p"
  shows "seekLastValid cd f = (Ok (), f\<lparr>f_off := length (f_data f)\<rparr>)"
proof (rule seekLastValid_at)
  fix g :: os_file assume g: "f_data g = f_data f" "f_off g = 0"
  let ?h = "adv g (length (encs es))" and ?e = "adv g (length (encs es) + length p)"
  have at0: "at g (encs es @ p)" using g d by (simp add: at_def)
  have "slv_body cd ?h = (Ok (), ?e)" using slv_body_accepts [OF ok cut pre at_adv [OF at0]] by simp
  then have "slv_loop cd g = slv_loop cd ?e"
    using slv_loop_skip [OF es at0] by (simp add: slv_loop.simps [of cd ?h] file_seek_current_0)
  moreover have "at ?e []" using g d by (simp add: at_def)
  ultimately show "\<exists>h e h'. slv_loop cd g = slv_loop cd h \<and> slv_body cd h = (Err e, h') \<and>
      f_off h = length (f_data f) \<and> f_data h = f_data g \<and> f_room h = f_room g"
    using g d by (intro exI [of _ ?e]) (simp add: slv_body_def binary_read_at)
qed

lemma slv_body_torn_trailer:
  assumes ok: "entry_ok cd (k, b, v)"
    and pre: "strict_prefix p (enc_record k b)" and p16: "length p \<le> 16"
    and at: "at g (p @ drop (length p) trailer)"
  shows "\<exists>e g'. slv_body cd g = (Err e, g')"
proof (rule slv_body_short [OF at])
  show "length (p @ drop (length p) trailer) \<le> 16" using p16 by simp
  let ?m = "min 8 (length p)"
  have pp: "p = take (length p) (enc_record k b)"
    using pre by (auto simp: strict_prefix_def prefix_def)
  have "take 8 p = take ?m (enc_record k b)" by (subst pp) (simp add: min_def)
  also have "\<dots> = le_enc ?m (int (length k))"
    by (simp add: enc_record_def take_le_enc)
  finally have tp: "take 8 p = le_enc ?m (int (length k))" .
  have "le_enc 8 0 = replicate 8 (0 :: byte)" by (simp add: numeral_eq_Suc)
  then have "take (8 - length p) (drop (length p) trailer) = replicate (8 - length p) 0"
    by (simp add: trailer_def)
  then have "take 8 (p @ drop (length p) trailer) = le_enc ?m (int (length k)) @ replicate (8 - length p) 0"
    using tp by simp
  then show "make_ok (to_int64 (le_dec (take 8 (p @ drop (length p) trailer))))"
    using ok by (simp add: le_dec_enc make_ok_header)
qed

text \<open>How many records of a list are written completely within \<open>r\<close> bytes.\<close>

fun fits :: "nat \<Rightarrow> 'v entry list \<Rightarrow> nat" where
  "fits r [] = 0"
| "fits r ((k, b, v) # es) =
     (if length (enc_record k b) \<le> r then Suc (fits (r - length (enc_record k b)) es) else 0)"

lemma fits_le: "fits r es \<le> length es"
  by (induction r es rule: fits.induct) auto

text \<open>The record of a list in which \<open>r\<close> bytes end: its key, its value and the part of it that is written.\<close>

fun torn_at :: "nat \<Rightarrow> 'v entry list \<Rightarrow> (bytes \<times> bytes \<times> bytes) option" where
  "torn_at r [] = None"
| "torn_at r ((k, b, v) # es) =
     (if length (enc_record k b) \<le> r then torn_at (r - length (enc_record k b)) es
      else Some (k, b, take r (enc_record k b)))"

lemma take_encs:
  obtains p where "take r (encs es) = encs (take (fits r es) es) @ p"
    and "p = [] \<or> (\<exists>k b v. (k, b, v) \<in> set es \<and> strict_prefix p (enc_record k b) \<and> torn_at r es = Some (k, b, p))"
proof -
  have "\<exists>p. take r (encs es) = encs (take (fits r es) es) @ p \<and>
      (p = [] \<or> (\<exists>k b v. (k, b, v) \<in> set es \<and> strict_prefix p (enc_record k b) \<and> torn_at r es = Some (k, b, p)))"
  proof (induction r es rule: fits.induct)
    case (1 r)
    then show ?case by simp
  next
    case (2 r k b v es)
    show ?case
    proof (cases "length (enc_record k b) \<le> r")
      case True
      with 2 show ?thesis by auto
    next
      case False
      then have "strict_prefix (take r (enc_record k b)) (enc_record k b)"
        by (auto simp: strict_prefix_def take_is_prefix simp del: length_enc_record
            dest: arg_cong [where f = length])
      with False show ?thesis by auto
    qed
  qed
  then show ?thesis using that by blast
qed

section \<open>Runs of the clients\<close>

text \<open>
  The clients of a table: a loop of appends that stops at the first error, as pass 1 does, and a
  loop of \<open>n\<close> reads.
\<close>

fun append_all :: "'v codec \<Rightarrow> ustable \<Rightarrow> (bytes \<times> 'v) list \<Rightarrow> unit res \<times> ustable" where
  "append_all cd t [] = (Ok (), t)"
| "append_all cd t ((k, v) # kvs) =
     and_then (ustable_append cd t k v) (\<lambda>_ t. append_all cd t kvs)"

fun next_n :: "'v codec \<Rightarrow> ustable \<Rightarrow> nat \<Rightarrow> (bytes \<times> 'v option) res list \<times> ustable" where
  "next_n cd t 0 = ([], t)"
| "next_n cd t (Suc n) =
     (case ustable_next cd t of (r, t') \<Rightarrow> (case next_n cd t' n of (rs, t'') \<Rightarrow> (r # rs, t'')))"

definition kv :: "'v entry \<Rightarrow> bytes \<times> 'v" where
  "kv e = (fst e, snd (snd e))"

definition got :: "'v entry \<Rightarrow> (bytes \<times> 'v option) res" where
  "got e = Ok (fst e, Some (snd (snd e)))"

lemma file_write_Nil [simp]: "file_write f [] = (Ok (), f)"
  by (cases "f_room f") (auto simp: file_write_def write_at_def)

lemma append_all_eq:
  assumes "\<forall>x \<in> set es. entry_ok cd x" and "u_mode t = APPEND"
  shows "append_all cd t (map kv es) =
    (case file_write (u_fd t) (encs es) of (r, f) \<Rightarrow> (r, t\<lparr>u_fd := f\<rparr>))"
  using assms
proof (induction es arbitrary: t rule: encs.induct)
  case 1
  then show ?case by simp
next
  case (2 k b v es)
  obtain r f where rf: "file_write (u_fd t) (enc_record k b) = (r, f)" by fastforce
  have one: "ustable_append cd t k v = (r, t\<lparr>u_fd := f\<rparr>)"
    using 2 rf by (simp add: ustable_append_def write_record_eq)
  show ?case
  proof (cases r)
    case (Ok u)
    with 2 one rf show ?thesis
      by (simp add: kv_def file_write_append [symmetric])
  qed (use 2 one rf in \<open>simp_all add: kv_def file_write_append [symmetric]\<close>)
qed

lemma next_record:
  assumes "entry_ok cd e" and "at (u_fd t) (encs [e] @ rest)" and "u_mode t = READ"
  shows "ustable_next cd t = (got e, t\<lparr>u_fd := adv (u_fd t) (length (encs [e]))\<rparr>)"
proof -
  obtain k b v where e: "e = (k, b, v)" by (cases e)
  have at: "at (u_fd t) (enc_record k b @ rest)" using assms(2) by (simp add: e)
  have ok: "entry_ok cd (k, b, v)" using assms(1) by (simp add: e)
  have "readAt cd (u_fd t) (-1) True = (Ok (k, Some v), adv (u_fd t) (length (encs [e])))"
    using readAt_here [OF readAt_body_record [OF ok at]] by (simp add: e)
  with assms(3) show ?thesis by (simp add: ustable_next_def e got_def)
qed

lemma next_n_trailer:
  assumes "at (u_fd t) (trailer @ rest)" and "u_mode t = READ"
  shows "next_n cd t n = (replicate n (Err ErrAtSentinel), t)"
  using assms by (induction n) (simp_all add: ustable_next_def readAt_trailer [OF assms(1)])

lemma next_n_skip:
  assumes "\<forall>x \<in> set es. entry_ok cd x" and "at (u_fd t) (encs es @ rest)" and "u_mode t = READ"
  shows "next_n cd t (length es + n) =
    (case next_n cd (t\<lparr>u_fd := adv (u_fd t) (length (encs es))\<rparr>) n of (rs, t') \<Rightarrow> (map got es @ rs, t'))"
  using assms
proof (induction es arbitrary: t)
  case Nil
  then show ?case by (simp split: prod.splits)
next
  case (Cons e es)
  obtain k b v where e: "e = (k, b, v)" by (cases e)
  have at: "at (u_fd t) (encs [e] @ encs es @ rest)" using Cons.prems(2) by (simp add: e)
  let ?t = "t\<lparr>u_fd := adv (u_fd t) (length (encs [e]))\<rparr>"
  have one: "ustable_next cd t = (got e, ?t)"
    using Cons.prems at by (intro next_record) auto
  have "next_n cd ?t (length es + n) =
      (case next_n cd (?t\<lparr>u_fd := adv (u_fd ?t) (length (encs es))\<rparr>) n of (rs, t') \<Rightarrow> (map got es @ rs, t'))"
    using Cons.prems at_adv [OF at] by (intro Cons.IH) auto
  with one show ?case by (simp add: e add.assoc split: prod.splits)
qed

lemma next_n_records:
  assumes "\<forall>x \<in> set es. entry_ok cd x" and "at (u_fd t) (encs es @ trailer @ rest)"
    and "u_mode t = READ"
  shows "fst (next_n cd t (length es + n)) = map got es @ replicate n (Err ErrAtSentinel)"
  using at_adv [OF assms(2)] assms(3) by (simp add: next_n_skip [OF assms] next_n_trailer)

text \<open>
  A table is \<open>positioned\<close> after \<open>es\<close>: its head stands where those records end, whatever lies
  beyond.
\<close>

definition positioned :: "ustable \<Rightarrow> 'v entry list \<Rightarrow> bool" where
  "positioned t es \<longleftrightarrow>
     u_mode t = APPEND \<and> f_off (u_fd t) = length (encs es) \<and>
     take (length (encs es)) (f_data (u_fd t)) = encs es"

lemma take_eq_length: "take (length xs) ys = xs \<Longrightarrow> length xs \<le> length ys"
  by (metis length_take min.cobounded1 min_def nat_le_linear)

lemma positioned_write:
  assumes "positioned t es" and "f_room (u_fd t) = None"
  obtains rest where "file_write (u_fd t) bs =
      (Ok (), (u_fd t)\<lparr>f_data := encs es @ bs @ rest, f_off := length (encs es) + length bs\<rparr>)"
proof -
  have p: "take (length (encs es)) (f_data (u_fd t)) = encs es" "f_off (u_fd t) = length (encs es)"
    using assms by (auto simp: positioned_def)
  have "write_at (f_data (u_fd t)) (length (encs es)) bs
      = encs es @ bs @ drop (length (encs es) + length bs) (f_data (u_fd t))"
    using p write_at_inside [OF take_eq_length [OF p(1)]] by simp
  with that p assms(2) show ?thesis by (simp add: file_write_unlimited)
qed

lemma append_all_positioned:
  assumes "\<forall>x \<in> set later. entry_ok cd x" and "positioned t es" and "f_room (u_fd t) = None"
  obtains t' where "append_all cd t (map kv later) = (Ok (), t')"
    and "positioned t' (es @ later)" and "f_room (u_fd t') = None"
proof -
  from assms(2) have m: "u_mode t = APPEND" by (simp add: positioned_def)
  obtain rest where w: "file_write (u_fd t) (encs later) =
      (Ok (), (u_fd t)\<lparr>f_data := encs es @ encs later @ rest, f_off := length (encs es) + length (encs later)\<rparr>)"
    by (rule positioned_write [OF assms(2,3)])
  show ?thesis using that append_all_eq [OF assms(1) m] m assms(3)
    by (simp add: w positioned_def)
qed

lemma close_positioned:
  assumes "positioned t es" and "f_room (u_fd t) = None"
  obtains t' rest where "ustable_close t = (Ok (), t')"
    and "f_data (u_fd t') = encs es @ trailer @ rest"
proof -
  from assms(1) have m: "u_mode t = APPEND" by (simp add: positioned_def)
  obtain rest where "file_write (u_fd t) trailer =
      (Ok (), (u_fd t)\<lparr>f_data := encs es @ trailer @ rest, f_off := length (encs es) + length trailer\<rparr>)"
    by (rule positioned_write [OF assms])
  then show ?thesis using that m by (simp add: ustable_close_def writeSentinel_eq)
qed

section \<open>A crash in the middle of an append\<close>

text \<open>The file that a run of appends leaves when the device stops after \<open>r\<close> bytes.\<close>

definition after_crash :: "'v entry list \<Rightarrow> bytes \<Rightarrow> nat \<Rightarrow> 'v entry list \<Rightarrow> bytes" where
  "after_crash old trail r new =
     encs old @ take r (encs new) @ drop (min r (length (encs new))) trail"

lemma append_all_crash:
  assumes "\<forall>x \<in> set new. entry_ok cd x" and "u_mode t = APPEND"
    and "f_data (u_fd t) = encs old @ trail" and "f_off (u_fd t) = length (encs old)"
    and "f_room (u_fd t) = Some r"
  shows "f_data (u_fd (snd (append_all cd t (map kv new)))) = after_crash old trail r new"
  using assms
  by (auto simp: append_all_eq file_write_room after_crash_def write_at_inside min_def
      split: prod.splits)

lemma slv_body_end: "at g [] \<Longrightarrow> \<exists>e g'. slv_body cd g = (Err e, g')"
  by (simp add: slv_body_def binary_read_at)

lemma slv_body_trailer: "at g trailer \<Longrightarrow> \<exists>e g'. slv_body cd g = (Err e, g')"
  using binary_read_len(1) [of g 0 sentinel]
  by (simp add: slv_body_def sentinelCode_def trailer_def max_alloc_def)

lemma encs_take_long:
  assumes "encs (take n es) \<noteq> []"
  shows "16 \<le> length (encs (take n es))"
proof (cases "take n es")
  case (Cons e es')
  then show ?thesis by (cases e) simp
qed (use assms in auto)

lemma after_crash_scan:
  assumes ok: "\<forall>x \<in> set new. entry_ok cd x"
    and torn: "\<And>k b p. torn_at r new = Some (k, b, p) \<Longrightarrow> cut_noticed cd k b p"
    and trail: "trail = [] \<or> trail = trailer"
  obtains tail where "after_crash old trail r new = encs (old @ take (fits r new) new) @ tail"
    and "\<And>g. at g tail \<Longrightarrow> \<exists>e g'. slv_body cd g = (Err e, g')"
proof -
  let ?w = "encs (take (fits r new) new)"
  obtain p where p: "take r (encs new) = ?w @ p"
    and pp: "p = [] \<or> (\<exists>k b v. (k, b, v) \<in> set new \<and> strict_prefix p (enc_record k b) \<and> torn_at r new = Some (k, b, p))"
    by (rule take_encs)
  define tail where "tail = p @ drop (length ?w + length p) trail"
  have "min r (length (encs new)) = length ?w + length p"
    using arg_cong [OF p, of length] by (simp add: min.commute)
  then have eq: "after_crash old trail r new = encs (old @ take (fits r new) new) @ tail"
    by (simp add: after_crash_def p tail_def)
  have err: "\<exists>e g'. slv_body cd g = (Err e, g')" if at: "at g tail" for g
  proof (cases "p = []")
    case True
    then show ?thesis using at trail encs_take_long [of "fits r new" new] slv_body_end [of g cd] slv_body_trailer [of g cd]
      by (cases "?w = []") (auto simp: tail_def)
  next
    case False
    with pp obtain k b v where kb: "(k, b, v) \<in> set new" "strict_prefix p (enc_record k b)" "torn_at r new = Some (k, b, p)" by blast
    then have okb: "entry_ok cd (k, b, v)" "cut_noticed cd k b p" using ok torn by auto
    show ?thesis
    proof (cases "trail = [] \<or> ?w \<noteq> [] \<or> 16 < length p")
      case True
      then have "tail = p" using trail encs_take_long [of "fits r new" new] by (auto simp: tail_def)
      with at slv_body_torn [OF okb kb(2)] show ?thesis by simp
    next
      case False
      then have "tail = p @ drop (length p) trailer" using trail by (simp add: tail_def)
      with at False slv_body_torn_trailer [OF okb(1) kb(2)] show ?thesis by simp
    qed
  qed
  from that eq err show ?thesis by blast
qed

lemma reopen_positioned:
  assumes "\<forall>x \<in> set es. entry_ok cd x" and "data = encs es @ tail"
    and "\<And>g. at g tail \<Longrightarrow> \<exists>e g'. slv_body cd g = (Err e, g')"
  obtains t where "NewUSTableForAppend cd \<lparr>d_data = Some data, d_open = None, d_room = room\<rparr> False = (Ok (), Some t)"
    and "positioned t es" and "f_room (u_fd t) = room" and "f_data (u_fd t) = data"
proof -
  let ?t = "\<lparr>u_fd = \<lparr>f_data = data, f_off = length (encs es), f_room = room\<rparr>, u_mode = APPEND\<rparr>"
  have "seekLastValid cd \<lparr>f_data = data, f_off = 0, f_room = room\<rparr> = (Ok (), u_fd ?t)"
    using seekLastValid_records [OF assms(1) _ assms(3), of "\<lparr>f_data = data, f_off = 0, f_room = room\<rparr>"]
      assms(2) by simp
  then show ?thesis using that [of ?t] assms(2)
    by (simp add: NewUSTableForAppend_def newUSTableForAppend_def ustable_SeekLastValid_def positioned_def)
qed

lemma close_read:
  assumes "\<forall>x \<in> set es. entry_ok cd x" and "f_data (u_fd t) = encs es @ trailer @ rest"
  obtains t' where "newUSTableForRead \<lparr>d_data = Some (f_data (u_fd t)), d_open = None, d_room = None\<rparr> = Ok t'"
    and "\<And>n. fst (next_n cd t' (length es + n)) = map got es @ replicate n (Err ErrAtSentinel)"
proof -
  let ?t = "\<lparr>u_fd = \<lparr>f_data = f_data (u_fd t), f_off = 0, f_room = None\<rparr>, u_mode = READ\<rparr>"
  have "fst (next_n cd ?t (length es + n)) = map got es @ replicate n (Err ErrAtSentinel)" for n
    by (rule next_n_records [OF assms(1)]) (simp_all add: at_def assms(2))
  with that [of ?t] show ?thesis by (simp add: newUSTableForRead_def)
qed

section \<open>The index\<close>

text \<open>The positions of the records, the last record of a key winning.\<close>

fun positions :: "nat \<Rightarrow> 'v entry list \<Rightarrow> (bytes \<Rightarrow> int option) \<Rightarrow> (bytes \<Rightarrow> int option)" where
  "positions p [] m = m"
| "positions p ((k, b, v) # es) m = positions (p + length (enc_record k b)) es (m(k \<mapsto> int p))"

lemma index_loop_skip:
  assumes "\<forall>x \<in> set es. entry_ok cd x" and "at f (encs es @ rest)"
  shows "index_loop cd f m = index_loop cd (adv f (length (encs es))) (positions (f_off f) es m)"
  using assms
proof (induction es arbitrary: f m)
  case Nil
  then show ?case by simp
next
  case (Cons e es)
  obtain k b v where e: "e = (k, b, v)" by (cases e)
  have at: "at f (enc_record k b @ encs es @ rest)" using Cons.prems(2) by (simp add: e)
  have ok: "entry_ok cd (k, b, v)" using Cons.prems(1) by (simp add: e)
  have one: "readAt cd f (-1) False = (Ok (k, None), adv f (length (enc_record k b)))"
    using readAt_here [OF readAt_body_record [OF ok at]] by simp
  then have "index_loop cd f m = index_loop cd (adv f (length (enc_record k b))) (m(k \<mapsto> int (f_off f)))"
    by (simp add: index_loop.simps [of cd f] file_seek_current_0)
  also have "\<dots> = index_loop cd (adv (adv f (length (enc_record k b))) (length (encs es)))
      (positions (f_off f + length (enc_record k b)) es (m(k \<mapsto> int (f_off f))))"
    using Cons.IH [of "adv f (length (enc_record k b))"] Cons.prems(1) at_adv [OF at] by simp
  finally show ?case by (simp add: e add.assoc)
qed

lemma index_loop_records:
  assumes "\<forall>x \<in> set es. entry_ok cd x" and "at f (encs es @ trailer @ rest)"
  shows "index_loop cd f m = Some (Ok (positions (f_off f) es m), adv f (length (encs es)))"
  by (simp add: index_loop_skip [OF assms] index_loop.simps [of cd "adv f (length (encs es))"]
      readAt_trailer [OF at_adv [OF assms(2)]] file_seek_current_0 errors_is_ErrSeek_def)

lemma positions_notin: "k \<notin> fst ` set es \<Longrightarrow> positions p es m k = m k"
  by (induction p es m rule: positions.induct) auto

lemma dom_positions: "dom (positions p es m) = fst ` set es \<union> dom m"
  by (induction p es m rule: positions.induct) (auto simp del: fun_upd_apply)

lemma positions_Some:
  assumes "k \<in> fst ` set es"
  obtains es1 b v es2 where "es = es1 @ (k, b, v) # es2" and "k \<notin> fst ` set es2"
    and "positions p es m k = Some (int (p + length (encs es1)))"
proof -
  have "\<exists>es1 b v es2. es = es1 @ (k, b, v) # es2 \<and> k \<notin> fst ` set es2 \<and>
      positions p es m k = Some (int (p + length (encs es1)))"
    using assms
  proof (induction p es m rule: positions.induct)
    case (1 p m)
    then show ?case by simp
  next
    case (2 p k' b' v' es m)
    show ?case
    proof (cases "k \<in> fst ` set es")
      case True
      from "2.IH" [OF True] obtain es1 b v es2 where
        i: "es = es1 @ (k, b, v) # es2" "k \<notin> fst ` set es2"
          "positions (p + length (enc_record k' b')) es (m(k' \<mapsto> int p)) k
            = Some (int (p + length (enc_record k' b') + length (encs es1)))" by blast
      show ?thesis
        by (rule exI [where x = "(k', b', v') # es1"], rule exI [where x = b], rule exI [where x = v],
            rule exI [where x = es2]) (use i in simp)
    next
      case False
      with "2.prems" have "k' = k" by auto
      with False show ?thesis
        by (intro exI [where x = "[]"] exI [where x = b'] exI [where x = v'] exI [where x = es])
          (simp add: positions_notin)
    qed
  qed
  with that show ?thesis by blast
qed

lemma ReadAt_record:
  assumes "entry_ok cd (k, b, v)" and "f_data (u_fd t) = encs es1 @ enc_record k b @ rest"
    and "u_mode t = READ"
  shows "fst (ustable_ReadAt cd t (int (length (encs es1)))) = Ok (k, Some v)"
proof -
  have "at ((u_fd t)\<lparr>f_off := length (encs es1)\<rparr>) (enc_record k b @ rest)"
    by (simp add: at_def assms(2))
  from readAt_pos [OF readAt_body_record [OF assms(1) this]] assms(3) show ?thesis
    by (simp add: ustable_ReadAt_def)
qed

lemma positions_ReadAt:
  assumes "\<forall>x \<in> set es. entry_ok cd x" and "f_data (u_fd t) = encs es @ rest"
    and "u_mode t = READ" and "k \<in> fst ` set es"
  shows "\<exists>p v. positions 0 es m k = Some p \<and> map_of (rev (map kv es)) k = Some v \<and>
    fst (ustable_ReadAt cd t p) = Ok (k, Some v)"
proof -
  obtain es1 b v es2 where es: "es = es1 @ (k, b, v) # es2" "k \<notin> fst ` set es2"
    and p: "positions 0 es m k = Some (int (0 + length (encs es1)))"
    using positions_Some [OF assms(4)] .
  have "fst (ustable_ReadAt cd t (int (length (encs es1)))) = Ok (k, Some v)"
    by (rule ReadAt_record) (use assms es in auto)
  moreover have "k \<notin> fst ` set (map kv es2)" using es(2) by (force simp: kv_def)
  then have "map_of (rev (map kv es)) k = Some v"
    using map_of_rev_last [of k "map kv es2" "map kv es1" v] by (simp add: es(1) kv_def)
  ultimately show ?thesis using p by simp
qed

lemma Index_records:
  assumes "\<forall>x \<in> set es. entry_ok cd x" and "f_data (u_fd t) = encs es @ trailer @ rest" and "u_mode t = READ"
  shows "ustable_Index cd t =
    Some (Ok (positions 0 es Map.empty), t\<lparr>u_fd := adv ((u_fd t)\<lparr>f_off := 0\<rparr>) (length (encs es))\<rparr>)"
proof -
  have "at ((u_fd t)\<lparr>f_off := 0\<rparr>) (encs es @ trailer @ rest)" by (simp add: at_def assms(2))
  from index_loop_records [OF assms(1) this, of Map.empty] show ?thesis
    using assms(3) file_seek_start [of "u_fd t" 0] by (simp add: ustable_Index_def)
qed

lemma keeps_readAt [keeps_intros]: "keeps f (readAt cd f p rv)"
proof -
  obtain r g where seek: "(if p = -1 then file_seek f 0 SeekCurrent else file_seek f p SeekStart) = (r, g)" by fastforce
  have g: "f_data g = f_data f" "f_room g = f_room f" using file_seek_frame seek by (metis)+
  show ?thesis
  proof (cases r)
    case (Ok q)
    obtain r2 h where b: "readAt_body cd g q rv = (r2, h)" by fastforce
    have h: "f_data h = f_data f" "f_room h = f_room f" using readAt_body_frame [OF b] g by simp_all
    obtain r3 i where s: "file_seek h q SeekStart = (r3, i)" by fastforce
    have "f_data i = f_data f" "f_room i = f_room f" using file_seek_frame [OF s] h by simp_all
    then show ?thesis using seek Ok b s h by (cases r2; cases r3) (simp_all add: readAt_def keeps_def)
  qed (use seek g in \<open>simp_all add: readAt_def keeps_def\<close>)
qed

lemma ReadAt_keeps:
  assumes "ustable_ReadAt cd t p = (r, t')"
  shows "f_data (u_fd t') = f_data (u_fd t)" and "u_mode t' = u_mode t"
  using assms keeps_readAt [of "u_fd t" cd p True]
  by (auto simp: ustable_ReadAt_def keeps_def split: if_splits prod.splits)

end
