(* ===== verification/USTable_Properties.thy ===== *)
theory USTable_Properties
  imports USTable_Correct
begin

text \<open>
  The properties of \<^verbatim>\<open>ustable.go\<close>, each with a run at a concrete table. The codec of the concrete
  runs carries byte strings as they are and refuses a zero byte.
\<close>

definition nz_codec :: "bytes codec" where
  "nz_codec = \<lparr>cd_marshal = Inr, cd_unmarshal = (\<lambda>b. if 0 \<in> set b then Inl 7 else Inr b), cd_new = []\<rparr>"

abbreviation nz :: "bytes \<Rightarrow> bytes \<Rightarrow> bytes entry" where
  "nz k b \<equiv> (k, b, b)"

lemma nz_simps [simp]:
  "cd_marshal nz_codec b = Inr b" "cd_new nz_codec = []" "cd_unmarshal nz_codec b = (if 0 \<in> set b then Inl 7 else Inr b)"
  "decodes nz_codec b b \<longleftrightarrow> (0 :: byte) \<notin> set b"
  by (auto simp: nz_codec_def decodes_def)

text \<open>
  A codec that cannot tell a value that was cut from a whole one: the last byte of a value is below 128, as
  in the encoding of a number of variable length.
\<close>

definition tail_codec :: "bytes codec" where
  "tail_codec = \<lparr>cd_marshal = Inr, cd_unmarshal = (\<lambda>b. if 128 \<le> last b then Inl 1 else Inr b), cd_new = []\<rparr>"

text \<open>
  C5. Crash recovery, end to end. A table that holds the records \<open>old\<close>, with or without a
  trailer, gets the records \<open>new\<close> appended, and the device stops after \<open>r\<close> bytes. If the cut of the
  torn record is noticed, which it always is when no byte of its value was written, and otherwise when the
  codec refuses what is there of the value with zeros behind it, then opening the
  file again for appending finds the place after the last complete record;
  the records \<open>later\<close> can be appended there; and after the close, a reader gets
  \<open>old\<close>, the new records that were complete, \<open>later\<close>, in this order, and then \<open>ErrAtSentinel\<close>
  for ever. What happens after a cut that is not noticed is stated by \<open>unnoticed_cut_corrupts\<close> below.
\<close>

theorem crash_resume_roundtrip:
  assumes "\<forall>e \<in> set (old @ new @ later). entry_ok cd e"
    and "\<forall>k b p. torn_at r new = Some (k, b, p) \<longrightarrow> cut_noticed cd k b p"
    and "trail = [] \<or> trail = trailer"
    and "t = \<lparr>u_fd = \<lparr>f_data = encs old @ trail, f_off = length (encs old), f_room = Some r\<rparr>, u_mode = APPEND\<rparr>"
    and "append_all cd t (map kv new) = (res, t1)"
  shows "\<exists>t2 t3 t4 t5.
    NewUSTableForAppend cd \<lparr>d_data = Some (f_data (u_fd t1)), d_open = None, d_room = None\<rparr> False = (Ok (), Some t2) \<and>
    append_all cd t2 (map kv later) = (Ok (), t3) \<and>
    ustable_close t3 = (Ok (), t4) \<and>
    newUSTableForRead \<lparr>d_data = Some (f_data (u_fd t4)), d_open = None, d_room = None\<rparr> = Ok t5 \<and>
    (\<forall>n. fst (next_n cd t5 (length old + fits r new + length later + n)) =
      map got (old @ take (fits r new) new @ later) @ replicate n (Err ErrAtSentinel))"
proof -
  let ?s = "old @ take (fits r new) new"
  have ok: "\<forall>x \<in> set new. entry_ok cd x" "\<forall>x \<in> set ?s. entry_ok cd x" "\<forall>x \<in> set later. entry_ok cd x"
    "\<forall>x \<in> set (?s @ later). entry_ok cd x"
    using assms(1) by (auto dest: in_set_takeD)
  obtain tail where tail: "after_crash old trail r new = encs ?s @ tail"
    and err: "\<And>g. at g tail \<Longrightarrow> \<exists>e g'. slv_body cd g = (Err e, g')"
    using after_crash_scan [OF ok(1) _ assms(3), of r old] assms(2) by metis
  have "f_data (u_fd t1) = after_crash old trail r new"
    using append_all_crash [OF ok(1), of t old trail r] assms(4,5) by simp
  with tail obtain t2 where t2: "NewUSTableForAppend cd \<lparr>d_data = Some (f_data (u_fd t1)), d_open = None, d_room = None\<rparr> False = (Ok (), Some t2)"
    "positioned t2 ?s" "f_room (u_fd t2) = None"
    using reopen_positioned [OF ok(2) _ err] by metis
  obtain t3 where t3: "append_all cd t2 (map kv later) = (Ok (), t3)" "positioned t3 (?s @ later)" "f_room (u_fd t3) = None"
    using append_all_positioned [OF ok(3) t2(2,3)] by metis
  obtain t4 rest where t4: "ustable_close t3 = (Ok (), t4)" "f_data (u_fd t4) = encs (?s @ later) @ trailer @ rest"
    using close_positioned [OF t3(2,3)] by metis
  obtain t5 where "newUSTableForRead \<lparr>d_data = Some (f_data (u_fd t4)), d_open = None, d_room = None\<rparr> = Ok t5"
    "\<And>n. fst (next_n cd t5 (length (?s @ later) + n)) = map got (?s @ later) @ replicate n (Err ErrAtSentinel)"
    using close_read [OF ok(4) t4(2)] by metis
  moreover have "length (?s @ later) = length old + fits r new + length later"
    using fits_le [of r new] by simp
  ultimately show ?thesis using t2(1) t3(1) t4(1) by (auto simp: add.assoc)
qed

text \<open>
  The record \<open>([2], [5, 6])\<close> takes 19 bytes; the device stops after 37, in the next value, of which only
  the first byte is written, and the codec refuses the zeros behind it.
\<close>

theorem crash_resume_roundtrip_witness:
  "\<exists>t2 t3 t4 t5.
    NewUSTableForAppend nz_codec \<lparr>d_data = Some (f_data (u_fd (snd (append_all nz_codec
      \<lparr>u_fd = \<lparr>f_data = encs [nz [1] [9]] @ trailer, f_off = 18, f_room = Some 37\<rparr>, u_mode = APPEND\<rparr>
      [([2], [5, 6]), ([3], [7, 8, 9])])))), d_open = None, d_room = None\<rparr> False = (Ok (), Some t2) \<and>
    append_all nz_codec t2 [([4], [])] = (Ok (), t3) \<and>
    ustable_close t3 = (Ok (), t4) \<and>
    newUSTableForRead \<lparr>d_data = Some (f_data (u_fd t4)), d_open = None, d_room = None\<rparr> = Ok t5 \<and>
    fst (next_n nz_codec t5 4) =
      [Ok ([1], Some [9]), Ok ([2], Some [5, 6]), Ok ([4], Some []), Err ErrAtSentinel]"
proof -
  let ?old = "[nz [1] [9]]" and ?new = "[nz [2] [5, 6], nz [3] [7, 8, 9]]"
  let ?t = "\<lparr>u_fd = \<lparr>f_data = encs ?old @ trailer, f_off = length (encs ?old), f_room = Some 37\<rparr>, u_mode = APPEND\<rparr>"
  have "\<exists>t2 t3 t4 t5.
    NewUSTableForAppend nz_codec \<lparr>d_data = Some (f_data (u_fd (snd (append_all nz_codec ?t (map kv ?new))))),
      d_open = None, d_room = None\<rparr> False = (Ok (), Some t2) \<and>
    append_all nz_codec t2 (map kv [nz [4] []]) = (Ok (), t3) \<and>
    ustable_close t3 = (Ok (), t4) \<and>
    newUSTableForRead \<lparr>d_data = Some (f_data (u_fd t4)), d_open = None, d_room = None\<rparr> = Ok t5 \<and>
    (\<forall>n. fst (next_n nz_codec t5 (length ?old + fits 37 ?new + length [nz [4] []] + n)) =
      map got (?old @ take (fits 37 ?new) ?new @ [nz [4] []]) @ replicate n (Err ErrAtSentinel))"
    by (rule crash_resume_roundtrip [OF _ _ _ refl prod.collapse [symmetric]])
      (auto simp: max_alloc_def cut_noticed_def padded_value_def enc_record_def)
  then obtain t2 t3 t4 t5 where
    "NewUSTableForAppend nz_codec \<lparr>d_data = Some (f_data (u_fd (snd (append_all nz_codec ?t (map kv ?new))))),
      d_open = None, d_room = None\<rparr> False = (Ok (), Some t2)"
    "append_all nz_codec t2 (map kv [nz [4] []]) = (Ok (), t3)"
    "ustable_close t3 = (Ok (), t4)"
    "newUSTableForRead \<lparr>d_data = Some (f_data (u_fd t4)), d_open = None, d_room = None\<rparr> = Ok t5"
    and n: "\<forall>n. fst (next_n nz_codec t5 (length ?old + fits 37 ?new + length [nz [4] []] + n)) =
      map got (?old @ take (fits 37 ?new) ?new @ [nz [4] []]) @ replicate n (Err ErrAtSentinel)"
    by blast
  moreover have "fst (next_n nz_codec t5 4) =
      [Ok ([1], Some [9]), Ok ([2], Some [5, 6]), Ok ([4], Some []), Err ErrAtSentinel]"
    using n [rule_format, of 1] by (simp add: got_def numeral_eq_Suc del: next_n.simps)
  moreover have "length (encs ?old) = 18" by simp
  ultimately show ?thesis by (simp add: kv_def del: next_n.simps encs.simps append_all.simps)
qed

text \<open>
  Without a crash: a new table (or an old one that is overwritten) to which records are
  appended and which is closed reads back as exactly those records in the order of the
  appends, repeated keys included, and then \<open>ErrAtSentinel\<close> for ever.
\<close>

theorem append_close_read:
  assumes "\<forall>e \<in> set es. entry_ok cd e"
    and "overwrite \<or> d_data d = None" and "d_open d = None" and "d_room d = None"
  shows "\<exists>t1 t2 t3 t4.
    NewUSTableForAppend cd d overwrite = (Ok (), Some t1) \<and>
    append_all cd t1 (map kv es) = (Ok (), t2) \<and>
    ustable_close t2 = (Ok (), t3) \<and>
    newUSTableForRead \<lparr>d_data = Some (f_data (u_fd t3)), d_open = None, d_room = None\<rparr> = Ok t4 \<and>
    (\<forall>n. fst (next_n cd t4 (length es + n)) = map got es @ replicate n (Err ErrAtSentinel))"
proof -
  let ?t1 = "\<lparr>u_fd = \<lparr>f_data = [], f_off = 0, f_room = None\<rparr>, u_mode = APPEND\<rparr>"
  have t1: "NewUSTableForAppend cd d overwrite = (Ok (), Some ?t1)"
    using assms(2-4) by (auto simp: NewUSTableForAppend_def newUSTableForAppend_def Let_def)
  have "positioned ?t1 []" by (simp add: positioned_def)
  then obtain t2 where t2: "append_all cd ?t1 (map kv es) = (Ok (), t2)" "positioned t2 ([] @ es)" "f_room (u_fd t2) = None"
    using append_all_positioned [OF assms(1), of ?t1 "[]"] by auto
  obtain t3 rest where t3: "ustable_close t2 = (Ok (), t3)" "f_data (u_fd t3) = encs ([] @ es) @ trailer @ rest"
    using close_positioned [OF t2(2,3)] by metis
  then have "f_data (u_fd t3) = encs es @ trailer @ rest" by simp
  then obtain t4 where "newUSTableForRead \<lparr>d_data = Some (f_data (u_fd t3)), d_open = None, d_room = None\<rparr> = Ok t4"
    "\<And>n. fst (next_n cd t4 (length es + n)) = map got es @ replicate n (Err ErrAtSentinel)"
    using close_read [OF assms(1)] by metis
  with t1 t2(1) t3(1) show ?thesis by blast
qed

theorem append_close_read_witness:
  "\<exists>t1 t2 t3 t4.
    NewUSTableForAppend nz_codec \<lparr>d_data = Some [1, 2, 3], d_open = None, d_room = None\<rparr> True = (Ok (), Some t1) \<and>
    append_all nz_codec t1 (map kv [nz [1] [5], nz [1] []]) = (Ok (), t2) \<and>
    ustable_close t2 = (Ok (), t3) \<and>
    newUSTableForRead \<lparr>d_data = Some (f_data (u_fd t3)), d_open = None, d_room = None\<rparr> = Ok t4 \<and>
    (\<forall>n. fst (next_n nz_codec t4 (length [nz [1] [5], nz [1] []] + n)) =
      map got [nz [1] [5], nz [1] []] @ replicate n (Err ErrAtSentinel))"
  by (rule append_close_read) (auto simp: max_alloc_def)

text \<open>
  C7. The index of a complete table: \<open>Index\<close> returns, its keys are the keys of the records,
  reading at an indexed position gives the key and its last value, and the head is left at the
  trailer, where an append continues the table.
\<close>

theorem Index_correct:
  assumes "\<forall>e \<in> set es. entry_ok cd e"
    and "f_data (u_fd t) = encs es @ trailer @ rest" and "u_mode t = READ"
  shows "\<exists>m t'. ustable_Index cd t = Some (Ok m, t') \<and>
    dom m = fst ` set es \<and> positioned (t'\<lparr>u_mode := APPEND\<rparr>) es \<and>
    (\<forall>k \<in> fst ` set es. \<exists>p v. m k = Some p \<and> map_of (rev (map kv es)) k = Some v \<and>
      fst (ustable_ReadAt cd t' p) = Ok (k, Some v))"
proof -
  let ?t = "t\<lparr>u_fd := adv ((u_fd t)\<lparr>f_off := 0\<rparr>) (length (encs es))\<rparr>"
  have ix: "ustable_Index cd t = Some (Ok (positions 0 es Map.empty), ?t)" by (rule Index_records [OF assms])
  have "dom (positions 0 es Map.empty) = fst ` set es" by (simp add: dom_positions)
  moreover have "positioned (?t\<lparr>u_mode := APPEND\<rparr>) es" by (simp add: positioned_def assms(2))
  moreover have "\<forall>k \<in> fst ` set es. \<exists>p v. positions 0 es Map.empty k = Some p \<and>
      map_of (rev (map kv es)) k = Some v \<and> fst (ustable_ReadAt cd ?t p) = Ok (k, Some v)"
    using assms by (intro ballI positions_ReadAt [OF assms(1)]) auto
  ultimately show ?thesis using ix by blast
qed

theorem Index_correct_witness:
  "\<exists>m t'. ustable_Index nz_codec \<lparr>u_fd = \<lparr>f_data = encs [nz [1] [5], nz [2] [6], nz [1] [7]] @ trailer @ [], f_off = 3, f_room = None\<rparr>, u_mode = READ\<rparr>
      = Some (Ok m, t') \<and>
    dom m = {[1], [2]} \<and> (\<exists>p. m [1] = Some p \<and> fst (ustable_ReadAt nz_codec t' p) = Ok ([1], Some [7]))"
proof -
  let ?es = "[nz [1] [5], nz [2] [6], nz [1] [7]]"
  let ?t = "\<lparr>u_fd = \<lparr>f_data = encs ?es @ trailer @ [], f_off = 3, f_room = None\<rparr>, u_mode = READ\<rparr>"
  have "\<exists>m t'. ustable_Index nz_codec ?t = Some (Ok m, t') \<and>
    dom m = fst ` set ?es \<and> positioned (t'\<lparr>u_mode := APPEND\<rparr>) ?es \<and>
    (\<forall>k \<in> fst ` set ?es. \<exists>p v. m k = Some p \<and> map_of (rev (map kv ?es)) k = Some v \<and>
      fst (ustable_ReadAt nz_codec t' p) = Ok (k, Some v))"
    by (rule Index_correct [where rest = "[]"]) (auto simp: max_alloc_def)
  moreover have "map_of (rev (map kv ?es)) [1] = Some [7]" by (simp add: kv_def)
  moreover have "fst ` set ?es = {[1], [2]}" by auto
  ultimately show ?thesis by (metis (no_types, lifting) insertI1 option.inject)
qed

text \<open>
  \<open>seekSentinel\<close> never reports that it found the sentinel, not even on a complete table: it
  returns whether its last seek failed. So \<open>SeekLastValid\<close> always scans the records from the
  start.
\<close>

theorem seekSentinel_never_true: "fst (seekSentinel f) = False"
  using seekSentinel_False [of f] by (metis fst_conv)

lemma readAt_Err:
  assumes "readAt cd f p rv = (Err e, f')" and "0 \<le> p \<or> p = -1"
  shows "f' = f\<lparr>f_off := (if p = -1 then f_off f else nat p)\<rparr>"
proof -
  define q where "q = (if p = -1 then f_off f else nat p)"
  have sk: "(if p = -1 then file_seek f 0 SeekCurrent else file_seek f p SeekStart)
      = (Ok (int q), f\<lparr>f_off := q\<rparr>)"
    using assms(2) by (auto simp: file_seek_def q_def)
  obtain r1 f1 where b: "readAt_body cd (f\<lparr>f_off := q\<rparr>) (int q) rv = (r1, f1)" by fastforce
  from readAt_body_frame [OF b] have fr: "f1\<lparr>f_off := q\<rparr> = f\<lparr>f_off := q\<rparr>" by simp
  from assms(1) have "f' = f1\<lparr>f_off := q\<rparr>"
    unfolding readAt_def sk by (cases r1) (simp_all add: b file_seek_start)
  with fr show ?thesis by (simp add: q_def)
qed

text \<open>
  A \<open>Next\<close> or \<open>ReadAt\<close> that returns an error leaves the contents alone and puts the head
  back: \<open>Next\<close> leaves the table as it was, \<open>ReadAt\<close> leaves it at the requested position.
\<close>

theorem read_error_restores:
  "(ustable_next cd t = (Err e, t') \<longrightarrow> t' = t) \<and>
   (ustable_ReadAt cd t p = (Err e, t') \<longrightarrow> 0 \<le> p \<longrightarrow> u_mode t = READ \<longrightarrow>
      t' = t\<lparr>u_fd := (u_fd t)\<lparr>f_off := nat p\<rparr>\<rparr>)"
proof (intro conjI impI)
  assume a: "ustable_next cd t = (Err e, t')"
  show "t' = t"
  proof (cases "u_mode t = READ")
    case True
    with a obtain f' where f': "readAt cd (u_fd t) (-1) True = (Err e, f')" "t' = t\<lparr>u_fd := f'\<rparr>"
      by (auto simp: ustable_next_def split: prod.splits)
    with readAt_Err [OF f'(1)] show ?thesis by simp
  qed (use a in \<open>simp add: ustable_next_def\<close>)
next
  assume a: "ustable_ReadAt cd t p = (Err e, t')" and p: "0 \<le> p" and m: "u_mode t = READ"
  then obtain f' where f': "readAt cd (u_fd t) p True = (Err e, f')" "t' = t\<lparr>u_fd := f'\<rparr>"
    by (auto simp: ustable_ReadAt_def split: prod.splits)
  have "p \<noteq> -1" using p by simp
  with readAt_Err [OF f'(1)] f'(2) p show "t' = t\<lparr>u_fd := (u_fd t)\<lparr>f_off := nat p\<rparr>\<rparr>" by simp
qed

theorem read_error_restores_witness:
  "\<exists>t'. ustable_ReadAt nz_codec \<lparr>u_fd = \<lparr>f_data = [1, 0, 0], f_off = 0, f_room = None\<rparr>, u_mode = READ\<rparr> 1
      = (Err UnexpectedEOF, t') \<and>
    t' = \<lparr>u_fd = \<lparr>f_data = [1, 0, 0], f_off = 1, f_room = None\<rparr>, u_mode = READ\<rparr>"
proof -
  let ?t = "\<lparr>u_fd = \<lparr>f_data = [1, 0, 0], f_off = 0, f_room = None\<rparr>, u_mode = READ\<rparr>"
  obtain t' where t': "ustable_ReadAt nz_codec ?t 1 = (Err UnexpectedEOF, t')"
    by (simp add: ustable_ReadAt_def readAt_def file_seek_def readAt_body_def binary_read_int64_def
        file_read_def Let_def)
  with read_error_restores [of nz_codec ?t UnexpectedEOF t' 1] show ?thesis by auto
qed

text \<open>
  C13. \<open>Index\<close> seeks over values instead of reading them, so on a file whose last value was cut
  short the two constructors for appending disagree, for every codec: with the index, the torn record is in
  the index and the head stands past the end of the file; without it, the head stands where the torn
  record starts if the codec notices the cut, and at the end of the file if it does not.
\<close>

theorem WithIndex_keeps_torn_record:
  assumes "\<forall>e \<in> set (es @ [(k, b, v)]). entry_ok cd e"
    and "0 < m" and "m < length b" and "p = take (16 + length k + m) (enc_record k b)"
    and "d = \<lparr>d_data = Some (encs es @ p), d_open = None, d_room = None\<rparr>"
  shows "(\<exists>t idx. NewUSTableForAppendWithIndex cd d False = Some (Ok (t, idx)) \<and>
      idx k = Some (int (length (encs es))) \<and>
      f_off (u_fd t) = length (f_data (u_fd t)) + (length b - m)) \<and>
    (\<exists>t. NewUSTableForAppend cd d False = (Ok (), Some t) \<and>
      f_off (u_fd t) = (if cut_noticed cd k b p then length (encs es) else length (f_data (u_fd t))))"
proof
  let ?q = "le_enc 8 (int (length k)) @ k @ le_enc 8 (int (length b)) @ take m b"
  have p: "p = ?q" by (simp add: assms(4) enc_record_def)
  have okb: "entry_ok cd (k, b, v)" and okes: "\<forall>e \<in> set es. entry_ok cd e" using assms(1) by simp_all
  have pre: "strict_prefix p (enc_record k b)"
    using assms(3) unfolding assms(4) by (auto simp: strict_prefix_def take_is_prefix dest: arg_cong [where f = length])
  let ?f = "\<lparr>f_data = encs es @ p, f_off = 0, f_room = None\<rparr>"
  show "\<exists>t. NewUSTableForAppend cd d False = (Ok (), Some t) \<and>
      f_off (u_fd t) = (if cut_noticed cd k b p then length (encs es) else length (f_data (u_fd t)))"
  proof (cases "cut_noticed cd k b p")
    case True
    obtain t where "NewUSTableForAppend cd d False = (Ok (), Some t)" "positioned t es"
      using reopen_positioned [OF okes refl slv_body_torn [OF okb True pre]] assms(5) by metis
    then show ?thesis using True by (simp add: positioned_def)
  next
    case False
    then have "seekLastValid cd ?f = (Ok (), ?f\<lparr>f_off := length (encs es) + length p\<rparr>)"
      using seekLastValid_accepts [OF okes okb False pre, of ?f] by simp
    then show ?thesis using False assms(5)
      by (simp add: NewUSTableForAppend_def newUSTableForAppend_def ustable_SeekLastValid_def)
  qed
  let ?g = "adv ?f (length (encs es))"
  let ?h = "adv ?g (16 + length k + length b)"
  have at: "at ?g ?q" by (simp add: at_def p)
  note torn = readAt_skips_torn [OF okb at]
  have at_end: "at ?h []" by (simp add: at_def p)
  note last = readAt_end [OF at_end]
  have "index_loop cd ?g m = Some (Ok (m(k \<mapsto> int (length (encs es)))), ?h)" for m
    by (simp add: index_loop.simps [of cd ?g] index_loop.simps [of cd ?h] file_seek_current_0 torn last
        errors_is_ErrSeek_def del: adv_adv)
  with index_loop_skip [OF okes, of ?f ?q] have "\<exists>idx. idx k = Some (int (length (encs es))) \<and>
      index_loop cd ?f Map.empty = Some (Ok idx, ?h)"
    by (auto simp: at_def p)
  then have "\<exists>t idx. NewUSTableForAppendWithIndex cd d False = Some (Ok (t, idx)) \<and>
      idx k = Some (int (length (encs es))) \<and> u_fd t = ?h"
    using file_seek_start [of ?f 0] assms(5)
    by (auto simp: NewUSTableForAppendWithIndex_def newUSTableForAppend_def ustable_Index_def)
  with assms(2,3) show "\<exists>t idx. NewUSTableForAppendWithIndex cd d False = Some (Ok (t, idx)) \<and>
      idx k = Some (int (length (encs es))) \<and>
      f_off (u_fd t) = length (f_data (u_fd t)) + (length b - m)" by (auto simp: p)
qed

theorem WithIndex_keeps_torn_record_witness:
  "\<exists>t idx u. NewUSTableForAppendWithIndex tail_codec
      \<lparr>d_data = Some (encs [nz [1] [5]] @ take 18 (enc_record [2] [6, 7, 8])), d_open = None, d_room = None\<rparr> False
      = Some (Ok (t, idx)) \<and> idx [2] = Some 18 \<and> f_off (u_fd t) = length (f_data (u_fd t)) + 2 \<and>
    NewUSTableForAppend tail_codec
      \<lparr>d_data = Some (encs [nz [1] [5]] @ take 18 (enc_record [2] [6, 7, 8])), d_open = None, d_room = None\<rparr> False
      = (Ok (), Some u) \<and> f_off (u_fd u) = length (f_data (u_fd u))"
proof -
  let ?p = "take (16 + length [2 :: byte] + 1) (enc_record [2] [6, 7, 8])"
  let ?d = "\<lparr>d_data = Some (encs [nz [1] [5]] @ ?p), d_open = None, d_room = None\<rparr>"
  have ok: "\<forall>e \<in> set ([nz [1] [5]] @ [nz [2] [6, 7, 8]]). entry_ok tail_codec e"
    by (simp add: max_alloc_def tail_codec_def decodes_def)
  have "\<not> cut_noticed tail_codec [2] [6, 7, 8] ?p"
    by (simp add: cut_noticed_def padded_value_def enc_record_def tail_codec_def)
  with WithIndex_keeps_torn_record [OF ok, of 1 ?p ?d] show ?thesis by auto
qed

text \<open>A record whose value is not the one that was written: \<open>Next\<close> gives what the codec makes of it.\<close>

lemma next_other_value:
  assumes "entry_ok cd (k, b, v)" and "b \<noteq> []" and "length b' = length b"
    and at: "at (u_fd t) (enc_record k b' @ rest)" and "u_mode t = READ"
  shows "ustable_next cd t =
    (case cd_unmarshal cd b' of
       Inl e \<Rightarrow> (Err (ErrCodec e), t)
     | Inr v' \<Rightarrow> (Ok (k, Some v'), t\<lparr>u_fd := adv (u_fd t) (length (enc_record k b'))\<rparr>))"
proof -
  let ?f = "u_fd t"
  have lim: "int (length k) \<le> max_alloc" "k \<noteq> []" "int (length b') \<le> max_alloc" "b' \<noteq> []" using assms(1-3) by auto
  note kr = key_read [OF at lim(1,2)]
  note vl = binary_read_len [OF kr(3) lim(3)]
  have got: "file_read (adv ?f (16 + length k)) (length b') = (Ok b', adv ?f (16 + length k + length b'))"
    using lim(4) vl(2) by (simp add: file_read_at)
  have body: "readAt_body cd ?f (int (f_off ?f)) True =
      (case cd_unmarshal cd b' of Inl e \<Rightarrow> (Err (ErrCodec e), adv ?f (16 + length k + length b'))
       | Inr v' \<Rightarrow> (Ok (k, Some v'), adv ?f (length (enc_record k b'))))"
    using kr(1,2) vl(1) got lim
    by (simp add: readAt_body_def readValue_def sentinelCode_def make_ok_def split: sum.splits)
  have restore: "(adv ?f n)\<lparr>f_off := f_off ?f\<rparr> = ?f" for n by (simp add: adv_def)
  show ?thesis using assms(5) body
    by (simp add: ustable_next_def readAt_def file_seek_current_0 file_seek_start restore split: sum.splits)
qed

text \<open>
  The length of a short key, read from its second byte on: the first byte of the key becomes the highest one
  of a number that is negative or too large.
\<close>

lemma shifted_length:
  assumes "length (x # xs) < 256" and "x \<noteq> 0"
  shows "le_enc 8 (int (length (x # xs))) = of_nat (length (x # xs)) # replicate 7 0"
    and "to_int64 (le_dec (replicate 7 0 @ [x])) \<noteq> 0" and "\<not> make_ok (to_int64 (le_dec (replicate 7 0 @ [x])))"
proof -
  have z: "le_enc n 0 = replicate n 0" for n by (induction n) simp_all
  have "int (length (x # xs)) div 256 = 0" using assms(1) by simp
  then show "le_enc 8 (int (length (x # xs))) = of_nat (length (x # xs)) # replicate 7 0"
    using z [of 7] by (simp add: numeral_eq_Suc del: replicate.simps)
  have "le_dec (replicate n 0 @ ys) = 256 ^ n * le_dec ys" for n ys by (induction n) simp_all
  then have d: "le_dec (replicate 7 0 @ [x]) = 256 ^ 7 * uint x" by simp
  have x: "0 < uint x" "uint x < 256"
    using assms(2) uint_bounded [of x] by (simp_all add: less_le uint_0_iff)
  then show "to_int64 (le_dec (replicate 7 0 @ [x])) \<noteq> 0" "\<not> make_ok (to_int64 (le_dec (replicate 7 0 @ [x])))"
    unfolding d by (simp_all add: to_int64_def make_ok_def max_alloc_def)
qed

lemma next_shifted_length:
  assumes "at (u_fd t) (replicate 7 0 @ x # rest)" and "x \<noteq> 0" and "u_mode t = READ"
  shows "fst (ustable_next cd t) = Panic"
proof -
  have "binary_read_int64 (u_fd t) = (Ok (to_int64 (le_dec (replicate 7 0 @ [x]))), adv (u_fd t) 8)"
    by (simp add: binary_read_at [OF assms(1)])
  then show ?thesis using shifted_length(2,3) [of x "[]"] assms(2,3)
    by (simp add: ustable_next_def readAt_def file_seek_current_0 readAt_body_def sentinelCode_def)
qed

text \<open>
  C40. What a cut that is not noticed leads to. The last byte of the last record is missing, and the codec
  takes its value with a zero there. Then the record is kept when the file is opened for appending, and the
  records that are appended and the trailer follow it directly, the first of them with a key of less than
  256 bytes that does not begin with a zero. To a reader the missing byte is then the first one of what
  follows, the length of this key. If the codec takes the value with this byte, the reader gets the torn
  record with it, reads the length of the next key from a wrong place, and panics; if not, it gets the error
  of the codec for ever. No record that was appended after the crash is read.
\<close>

theorem unnoticed_cut_corrupts:
  assumes "\<forall>e \<in> set (es @ (k, b, v) # (x # xs, b2, v2) # later). entry_ok cd e"
    and "2 \<le> length b" and "cd_unmarshal cd (butlast b @ [0]) = Inr w"
    and "length (x # xs) < 256" and "x \<noteq> 0"
  shows "\<exists>t2 t3 t4 t5.
    NewUSTableForAppend cd \<lparr>d_data = Some (encs es @ butlast (enc_record k b)), d_open = None, d_room = None\<rparr> False
      = (Ok (), Some t2) \<and>
    append_all cd t2 (map kv ((x # xs, b2, v2) # later)) = (Ok (), t3) \<and>
    ustable_close t3 = (Ok (), t4) \<and>
    newUSTableForRead \<lparr>d_data = Some (f_data (u_fd t4)), d_open = None, d_room = None\<rparr> = Ok t5 \<and>
    (case cd_unmarshal cd (butlast b @ [of_nat (length (x # xs))]) of
       Inl e \<Rightarrow> \<forall>n. fst (next_n cd t5 (length es + n)) = map got es @ replicate n (Err (ErrCodec e))
     | Inr v' \<Rightarrow> fst (next_n cd t5 (length es + 2)) = map got es @ [Ok (k, Some v'), Panic])"
proof -
  let ?p = "butlast (enc_record k b)" and ?later = "(x # xs, b2, v2) # later" and ?b = "butlast b @ [of_nat (length (x # xs))]"
  have ok: "\<forall>e \<in> set es. entry_ok cd e" "entry_ok cd (k, b, v)" "\<forall>e \<in> set ?later. entry_ok cd e" using assms(1) by auto
  have b: "b \<noteq> []" using assms(2) by auto
  have p: "?p = le_enc 8 (int (length k)) @ k @ le_enc 8 (int (length b)) @ butlast b"
    using b by (simp add: enc_record_def butlast_append)
  have pre: "strict_prefix ?p (enc_record k b)"
    by (metis append_butlast_last_id enc_record_nonempty not_Cons_self2 self_append_conv strict_prefixI')
  have "length b - (length b - Suc 0) = 1" using b by (cases b) simp_all
  then have "padded_value k b ?p = butlast b @ [0]" by (simp add: padded_value_def p Let_def)
  then have cut: "\<not> cut_noticed cd k b ?p" using assms(2,3) by (simp add: cut_noticed_def p)
  define f where "f = \<lparr>f_data = encs es @ ?p, f_off = length (encs es) + length ?p, f_room = None\<rparr>"
  define data where "data = encs es @ ?p @ encs ?later @ trailer"
  have open_again: "NewUSTableForAppend cd \<lparr>d_data = Some (encs es @ ?p), d_open = None, d_room = None\<rparr> False =
      (Ok (), Some \<lparr>u_fd = f, u_mode = APPEND\<rparr>)"
    using seekLastValid_accepts [OF ok(1,2) cut pre, of "\<lparr>f_data = encs es @ ?p, f_off = 0, f_room = None\<rparr>"]
    by (simp add: NewUSTableForAppend_def newUSTableForAppend_def ustable_SeekLastValid_def f_def del: length_butlast)
  define f3 where "f3 = f\<lparr>f_data := encs es @ ?p @ encs ?later, f_off := length (encs es @ ?p @ encs ?later)\<rparr>"
  have "file_write f (encs ?later) = (Ok (), f3)"
    by (simp add: file_write_unlimited write_at_end f_def f3_def del: length_butlast encs.simps)
  then have app: "append_all cd \<lparr>u_fd = f, u_mode = APPEND\<rparr> (map kv ?later) = (Ok (), \<lparr>u_fd = f3, u_mode = APPEND\<rparr>)"
    using append_all_eq [OF ok(3), of "\<lparr>u_fd = f, u_mode = APPEND\<rparr>"] by (simp del: append_all.simps encs.simps list.map)
  define f4 where "f4 = f3\<lparr>f_data := data, f_off := length data\<rparr>"
  have "file_write f3 trailer = (Ok (), f4)"
    by (simp add: file_write_unlimited write_at_end f3_def f4_def f_def data_def del: length_butlast encs.simps)
  then have cl: "ustable_close \<lparr>u_fd = f3, u_mode = APPEND\<rparr> = (Ok (), \<lparr>u_fd = f4, u_mode = APPEND\<rparr>)"
    by (simp add: ustable_close_def writeSentinel_eq)
  define t where "t = \<lparr>u_fd = \<lparr>f_data = data, f_off = 0, f_room = None\<rparr>, u_mode = READ\<rparr>"
  have rd: "newUSTableForRead \<lparr>d_data = Some (f_data f4), d_open = None, d_room = None\<rparr> = Ok t"
    by (simp add: newUSTableForRead_def f4_def t_def)
  obtain rest where rest: "encs ?later @ trailer = of_nat (length (x # xs)) # replicate 7 0 @ x # rest"
    using shifted_length(1) [OF assms(4,5)] by (simp add: enc_record_def del: length_Cons)
  have "?p @ encs ?later @ trailer = enc_record k ?b @ replicate 7 0 @ x # rest"
    unfolding rest p using b by (simp add: enc_record_def del: length_Cons replicate.simps)
  then have at0: "at (u_fd t) (encs es @ enc_record k ?b @ replicate 7 0 @ x # rest)"
    by (simp add: t_def at_def data_def)
  let ?u = "t\<lparr>u_fd := adv (u_fd t) (length (encs es))\<rparr>"
  have m: "u_mode t = READ" and mu: "u_mode ?u = READ" by (simp_all add: t_def)
  have at1: "at (u_fd ?u) (enc_record k ?b @ replicate 7 0 @ x # rest)" using at_adv [OF at0] by simp
  have lb: "length ?b = length b" using b by simp
  note one = next_other_value [OF ok(2) b lb at1 mu]
  note skip = next_n_skip [OF ok(1) at0 m]
  have "case cd_unmarshal cd ?b of
       Inl e \<Rightarrow> \<forall>n. fst (next_n cd t (length es + n)) = map got es @ replicate n (Err (ErrCodec e))
     | Inr v' \<Rightarrow> fst (next_n cd t (length es + 2)) = map got es @ [Ok (k, Some v'), Panic]"
  proof (cases "cd_unmarshal cd ?b")
    case (Inl e)
    have "next_n cd ?u n = (replicate n (Err (ErrCodec e)), ?u)" for n
      using one Inl by (induction n) simp_all
    then show ?thesis using skip Inl by simp
  next
    case (Inr v')
    let ?w = "?u\<lparr>u_fd := adv (u_fd ?u) (length (enc_record k ?b))\<rparr>"
    obtain w where "ustable_next cd ?w = (Panic, w)"
      using next_shifted_length [of ?w x rest cd] at_adv [OF at1] assms(5) m by (cases "ustable_next cd ?w") simp
    then have "fst (next_n cd ?u 2) = [Ok (k, Some v'), Panic]"
      using one Inr by (simp add: numeral_2_eq_2)
    then show ?thesis using skip [of 2] Inr by (simp split: prod.splits)
  qed
  then show ?thesis using open_again app cl rd by (intro exI conjI) (assumption, assumption, assumption, simp, simp)
qed

text \<open>A value that ended in 7 is read with the length of the next key at its end; the record behind it is not read.\<close>

theorem unnoticed_cut_corrupts_witness:
  "\<exists>t2 t3 t4 t5.
    NewUSTableForAppend tail_codec \<lparr>d_data = Some (encs [nz [1] [5]] @ butlast (enc_record [2] [6, 7])), d_open = None, d_room = None\<rparr> False
      = (Ok (), Some t2) \<and>
    append_all tail_codec t2 [([97, 98], [8])] = (Ok (), t3) \<and>
    ustable_close t3 = (Ok (), t4) \<and>
    newUSTableForRead \<lparr>d_data = Some (f_data (u_fd t4)), d_open = None, d_room = None\<rparr> = Ok t5 \<and>
    fst (next_n tail_codec t5 3) = [Ok ([1], Some [5]), Ok ([2], Some [6, 2]), Panic]"
proof -
  have ok: "\<forall>e \<in> set ([nz [1] [5]] @ nz [2] [6, 7] # ([97, 98], [8], [8]) # []). entry_ok tail_codec e"
    by (simp add: max_alloc_def tail_codec_def decodes_def)
  have w: "cd_unmarshal tail_codec (butlast [6, 7] @ [0]) = Inr [6, 0]"
    "cd_unmarshal tail_codec (butlast [6, 7] @ [of_nat (length [97, 98 :: byte])]) = Inr [6, 2]"
    by (simp_all add: tail_codec_def)
  have x: "(97 :: byte) \<noteq> 0" and l: "2 \<le> length [6 :: byte, 7]" "length [97 :: byte, 98] < 256" by simp_all
  have n: "length [nz [1] [5]] + 2 = 3" by simp
  show ?thesis
    using unnoticed_cut_corrupts [OF ok l(1) w(1) l(2) x] unfolding w(2) sum.case n
    by (simp add: kv_def got_def del: next_n.simps append_all.simps)
qed

text \<open>
  C14. Nor does \<open>Index\<close> check the sign of a value length, as \<open>readValue\<close> does: a record whose
  value length leads back to its own start keeps it reading that record for ever, whatever map
  it has built.
\<close>

theorem Index_negative_length_diverges:
  "ustable_Index cd \<lparr>u_fd = \<lparr>f_data = le_enc 8 1 @ [x] @ le_enc 8 (-17), f_off = p, f_room = room\<rparr>, u_mode = READ\<rparr> = None"
proof -
  define f where "f = \<lparr>f_data = le_enc 8 1 @ [x] @ le_enc 8 (-17), f_off = 0, f_room = room\<rparr>"
  have at0: "at f (le_enc 8 (int 1) @ [x] @ le_enc 8 (-17))" by (simp add: at_def f_def)
  note rd = binary_read_len [OF at0]
  have key: "file_read (adv f 8) 1 = (Ok [x], adv f 9)" and at9: "at (adv f 9) (le_enc 8 (-17) @ [])"
    using rd(2) at_adv [OF rd(2)] by (simp_all add: file_read_at max_alloc_def)
  have len: "binary_read_int64 (adv f 9) = (Ok (-17), adv f 17)"
    using binary_read_enc [OF at9] by simp
  have rewind: "file_seek (adv f 17) (-17) SeekCurrent = (Ok 0, f)"
    by (simp add: file_seek_def adv_def f_def)
  have "readAt_body cd f (int (f_off f)) False = (Ok ([x], None), f)"
    using rd(1) key len rewind fill_exact [of "[x]"]
    by (simp add: readAt_body_def sentinelCode_def make_ok_def max_alloc_def)
  then have one: "readAt cd f (-1) False = (Ok ([x], None), f)" by (rule readAt_here)
  have "index_loop cd f Map.empty \<noteq> Some r" for r
  proof
    assume ret: "index_loop cd f Map.empty = Some r"
    have "cd = cd \<longrightarrow> f \<noteq> f"
    proof (rule index_loop.raw_induct [where P = "\<lambda>c g m r. c = cd \<longrightarrow> g \<noteq> f", OF _ ret], rule impI, rule notI)
      fix F c g m r
      assume IH: "\<And>c g m r. F c g m = Some r \<Longrightarrow> c = cd \<longrightarrow> g \<noteq> f"
        and eq: "(case file_seek g 0 SeekCurrent of
            (Ok pos, h) \<Rightarrow> (case readAt c h (-1) False of
                (Ok y, h) \<Rightarrow> F c h (m(fst y \<mapsto> pos))
              | (Err e, h) \<Rightarrow> Some (if errors_is_ErrSeek e then Err e else Ok m, h)
              | (Panic, h) \<Rightarrow> Some (Panic, h))
          | (Err e, h) \<Rightarrow> Some (Err (ErrSeek (Some e)), h)
          | (Panic, h) \<Rightarrow> Some (Panic, h)) = Some r"
        and c: "c = cd" and g: "g = f"
      from eq have "F cd f (m([x] \<mapsto> int (f_off f))) = Some r"
        by (simp add: c g file_seek_current_0 one)
      from IH [OF this] show False by simp
    qed
    then show False by simp
  qed
  then have "index_loop cd f Map.empty = None" by (metis not_None_eq)
  then show ?thesis
    using file_seek_start [of "\<lparr>f_data = le_enc 8 1 @ [x] @ le_enc 8 (-17), f_off = p, f_room = room\<rparr>" 0]
    by (simp add: ustable_Index_def f_def)
qed

text \<open>
  A negative key length, which the format reserves for metadata, and any other length that
  \<^verbatim>\<open>make\<close> refuses: after the records before it have been read, \<open>Next\<close> panics there, and opening
  the file for appending panics.
\<close>

theorem bad_key_length_panics:
  assumes "\<forall>e \<in> set es. entry_ok cd e"
    and "- (2 ^ 63) \<le> n" and "n < 2 ^ 63" and "n < 0 \<or> max_alloc < n"
    and "data = encs es @ le_enc 8 n @ rest"
  shows "fst (NewUSTableForAppend cd \<lparr>d_data = Some data, d_open = None, d_room = room\<rparr> False) = Panic \<and>
    fst (ustable_next cd \<lparr>u_fd = \<lparr>f_data = data, f_off = length (encs es), f_room = room\<rparr>, u_mode = READ\<rparr>) = Panic"
proof -
  have hd: "binary_read_int64 f = (Ok n, adv f 8)" if "at f (le_enc 8 n @ rest)" for f
    using binary_read_enc [OF that assms(2,3)] .
  have nz: "n \<noteq> 0" "\<not> make_ok n" using assms(4) by (auto simp: make_ok_def max_alloc_def)
  have body: "slv_body cd f = (Panic, adv f 8)" if "at f (le_enc 8 n @ rest)" for f
    using hd [OF that] nz by (simp add: slv_body_def sentinelCode_def)
  have rbody: "readAt_body cd f p True = (Panic, adv f 8)" if "at f (le_enc 8 n @ rest)" for f p
    using hd [OF that] nz by (simp add: readAt_body_def sentinelCode_def)
  have scan: "fst (slv_loop cd f) = Panic" if "at f (encs es @ le_enc 8 n @ rest)" for f
    using assms(1) that
  proof (induction es arbitrary: f)
    case Nil
    then show ?case by (simp add: slv_loop.simps [of cd f] file_seek_current_0 body)
  next
    case (Cons e es)
    obtain k b v where e: "e = (k, b, v)" by (cases e)
    have at: "at f (enc_record k b @ encs es @ le_enc 8 n @ rest)" using Cons.prems(2) by (simp add: e)
    have ok: "entry_ok cd (k, b, v)" using Cons.prems(1) by (simp add: e)
    have "fst (slv_loop cd (adv f (length (enc_record k b)))) = Panic"
      using Cons.IH Cons.prems(1) at_adv [OF at] by simp
    then show ?case using slv_body_record [OF ok at]
      by (simp add: slv_loop.simps [of cd f] file_seek_current_0)
  qed
  obtain g where g: "seekSentinel \<lparr>f_data = data, f_off = 0, f_room = room\<rparr> = (False, g)"
    "f_data g = data" using seekSentinel_False [of "\<lparr>f_data = data, f_off = 0, f_room = room\<rparr>"] by auto
  have "fst (slv_loop cd (g\<lparr>f_off := 0\<rparr>)) = Panic"
    using g assms(5) by (intro scan) (simp add: at_def)
  then have "fst (seekLastValid cd \<lparr>f_data = data, f_off = 0, f_room = room\<rparr>) = Panic"
    using file_seek_start [of g 0]
    by (cases "slv_loop cd (g\<lparr>f_off := 0\<rparr>)") (simp add: seekLastValid_def g)
  moreover have "at \<lparr>f_data = data, f_off = length (encs es), f_room = room\<rparr> (le_enc 8 n @ rest)"
    using assms(5) by (simp add: at_def)
  ultimately show ?thesis
    by (auto simp: NewUSTableForAppend_def newUSTableForAppend_def ustable_SeekLastValid_def
        ustable_next_def readAt_def file_seek_current_0 rbody split: prod.split)
qed

theorem bad_key_length_panics_witness:
  "fst (NewUSTableForAppend nz_codec
     \<lparr>d_data = Some (encs [nz [1] [5]] @ le_enc 8 (-1) @ [9]), d_open = None, d_room = None\<rparr> False) = Panic"
  using bad_key_length_panics [of "[nz [1] [5]]" nz_codec "-1" _ "[9]" None]
  by (simp add: max_alloc_def)

text \<open>
  \<open>Append\<close> takes the empty key, but its length is the sentinel's code: reading stops there
  with \<open>ErrBadSentinal\<close>, so the record and everything appended after it are lost to readers.
\<close>

theorem empty_key_hides_rest:
  assumes "\<forall>e \<in> set es. entry_ok cd e" and "int (length b) \<le> max_alloc"
    and "f_data (u_fd t) = encs es @ enc_record [] b @ rest" and "f_off (u_fd t) = 0"
    and "u_mode t = READ"
  shows "fst (next_n cd t (length es + n)) = map got es @ replicate n (Err ErrBadSentinal)"
proof -
  have bad: "readAt cd f (-1) True = (Err ErrBadSentinal, f)" if "at f (enc_record [] b @ rest)" for f
  proof -
    have a: "at f (le_enc 8 (int 0) @ le_enc 8 (int (length b)) @ b @ rest)"
      using that by (simp add: enc_record_def)
    note rd = binary_read_len [OF a]
    have "int (length b) = le_dec (le_enc 8 (int (length b)))"
      using assms(2) by (simp add: le_dec_enc max_alloc_def)
    moreover have "le_dec sentinel > max_alloc" by (simp add: sentinel_def max_alloc_def)
    ultimately have ne: "le_enc 8 (int (length b)) \<noteq> sentinel" using assms(2) by auto
    have "fill 8 (le_enc 8 (int (length b))) = le_enc 8 (int (length b))"
      using fill_exact [of "le_enc 8 (int (length b))"] by simp
    moreover have "(adv f 16)\<lparr>f_off := f_off f\<rparr> = f" by (simp add: adv_def)
    ultimately have "readAt_body cd f (int (f_off f)) True = (Err ErrBadSentinal, f)"
      using rd ne by (simp add: readAt_body_def sentinelCode_def file_read_at file_seek_start max_alloc_def)
    then show ?thesis by (simp add: readAt_def file_seek_current_0 file_seek_start)
  qed
  have stuck: "next_n cd t n = (replicate n (Err ErrBadSentinal), t)"
    if "at (u_fd t) (enc_record [] b @ rest)" "u_mode t = READ" for t n
    using that by (induction n) (simp_all add: ustable_next_def bad)
  have "at (u_fd t) (encs es @ enc_record [] b @ rest)" using assms(3,4) by (simp add: at_def)
  from next_n_skip [OF assms(1) this assms(5)] show ?thesis
    using stuck at_adv [OF \<open>at (u_fd t) _\<close>] assms(5) by (auto split: prod.splits)
qed

theorem empty_key_hides_rest_witness:
  "fst (next_n nz_codec \<lparr>u_fd = \<lparr>f_data = encs [nz [1] [5]] @ enc_record [] [6] @ encs [nz [2] [7]] @ trailer,
      f_off = 0, f_room = None\<rparr>, u_mode = READ\<rparr> 3)
    = [Ok ([1], Some [5]), Err ErrBadSentinal, Err ErrBadSentinal]"
proof -
  let ?t = "\<lparr>u_fd = \<lparr>f_data = encs [nz [1] [5]] @ enc_record [] [6] @ encs [nz [2] [7]] @ trailer,
      f_off = 0, f_room = None\<rparr>, u_mode = READ\<rparr>"
  have "\<forall>e \<in> set [nz [1] [5]]. entry_ok nz_codec e" by (simp add: max_alloc_def)
  then have "fst (next_n nz_codec ?t (length [nz [1] [5]] + 2))
      = map got [nz [1] [5]] @ replicate 2 (Err ErrBadSentinal)"
    by (rule empty_key_hides_rest [where b = "[6]" and rest = "encs [nz [2] [7]] @ trailer"])
      (simp_all add: max_alloc_def)
  then show ?thesis by (simp add: got_def numeral_2_eq_2 numeral_3_eq_3 del: next_n.simps encs.simps)
qed

end
