(* ===== verification/Calendar.thy ===== *)
theory Calendar
  imports Prelude
begin

text \<open>
  The part of Go's \<^verbatim>\<open>time\<close> package that the converter uses on UTC times: the civil date of a
  millisecond timestamp (\<^verbatim>\<open>time.UnixMilli(ms).UTC().Date()\<close>), midnight of that date
  (\<^verbatim>\<open>time.Date(y, m, d, 0, 0, 0, 0, UTC)\<close>) and the next day (\<^verbatim>\<open>AddDate(0, 0, 1)\<close>). A date that is
  a multiple of 24 hours is named by its day number, counted from 1 January 1970; the civil
  date of a day number is computed the way the package does, and shown to determine it.
\<close>

definition ms_per_day :: int where
  "ms_per_day = 86400000"

definition day_of_ms :: "int \<Rightarrow> int" where
  "day_of_ms ms = ms div ms_per_day"

definition is_leap :: "int \<Rightarrow> bool" where
  "is_leap y \<longleftrightarrow> y mod 4 = 0 \<and> (y mod 100 \<noteq> 0 \<or> y mod 400 = 0)"

text \<open>Year and day of the year of a day number, by cycles of 400, 100, 4 and 1 years.\<close>

definition year_yday :: "int \<Rightarrow> int \<times> int" where
  "year_yday z =
     (let d = z + 719162;
          n400 = d div 146097; d = d mod 146097;
          n100 = d div 36524; n100 = n100 - n100 div 4; d = d - 36524 * n100;
          n4 = d div 1461; d = d - 1461 * n4;
          n1 = d div 365; n1 = n1 - n1 div 4; d = d - 365 * n1
      in (400 * n400 + 100 * n100 + 4 * n4 + n1 + 1, d))"

definition days_before :: "int list" where
  "days_before = [0, 31, 59, 90, 120, 151, 181, 212, 243, 273, 304, 334, 365]"

definition month_day :: "bool \<Rightarrow> int \<Rightarrow> int \<times> int" where
  "month_day leap yday =
     (if leap \<and> yday = 59 then (2, 29)
      else let day = (if leap \<and> 59 < yday then yday - 1 else yday);
               m = nat (day div 31);
               e = days_before ! Suc m
           in if e \<le> day then (int m + 2, day - e + 1)
              else (int m + 1, day - days_before ! m + 1))"

definition civil_date :: "int \<Rightarrow> int \<times> int \<times> int" where
  "civil_date z = (case year_yday z of (y, yday) \<Rightarrow> (y, month_day (is_leap y) yday))"

text \<open>The date back to its day number.\<close>

definition yday_of :: "bool \<Rightarrow> int \<times> int \<Rightarrow> int" where
  "yday_of leap md =
     (case md of (m, d) \<Rightarrow> days_before ! nat (m - 1) + d - 1 + (if leap \<and> 2 < m then 1 else 0))"

definition day_number :: "int \<times> int \<times> int \<Rightarrow> int" where
  "day_number ymd =
     (case ymd of (y, md) \<Rightarrow>
        365 * (y - 1) + (y - 1) div 4 - (y - 1) div 100 + (y - 1) div 400
        + yday_of (is_leap y) md - 719162)"

lemma year_yday_parts:
  obtains a b c e r where "z + 719162 = 146097 * a + 36524 * b + 1461 * c + 365 * e + r"
    and "0 \<le> b" "b \<le> 3" "0 \<le> c" "c \<le> 24" "0 \<le> e" "e \<le> 3" "0 \<le> r" "r \<le> 365"
    and "r = 365 \<longrightarrow> e = 3 \<and> (c = 24 \<longrightarrow> b = 3)"
    and "year_yday z = (400 * a + 100 * b + 4 * c + e + 1, r)"
proof -
  define d where "d = z + 719162"
  define a where "a = d div 146097"
  define d0 where "d0 = d mod 146097"
  have d0: "d = 146097 * a + d0" "0 \<le> d0" "d0 < 146097" by (simp_all add: a_def d0_def)
  define b' where "b' = d0 div 36524"
  define b where "b = b' - b' div 4"
  define d1 where "d1 = d0 - 36524 * b"
  have b': "36524 * b' \<le> d0" "d0 < 36524 * b' + 36524" by (simp_all add: b'_def)
  have "b' = 0 \<or> b' = 1 \<or> b' = 2 \<or> b' = 3 \<or> b' = 4" using b' d0 by linarith
  then have b: "0 \<le> b" "b \<le> 3" "b = b' \<or> b' = 4 \<and> b = 3" by (auto simp: b_def)
  have d1: "0 \<le> d1" "d1 \<le> 36524" "b < 3 \<longrightarrow> d1 < 36524"
    unfolding d1_def using b' b d0 by auto
  define c where "c = d1 div 1461"
  define d2 where "d2 = d1 - 1461 * c"
  have c': "1461 * c \<le> d1" "d1 < 1461 * c + 1461" by (simp_all add: c_def)
  have c: "0 \<le> c" "c \<le> 24" "0 \<le> d2" "d2 < 1461" "c = 24 \<and> b < 3 \<longrightarrow> d2 < 1460"
    unfolding d2_def using d1 c' by linarith+
  define e' where "e' = d2 div 365"
  define e where "e = e' - e' div 4"
  define r where "r = d2 - 365 * e"
  have e': "365 * e' \<le> d2" "d2 < 365 * e' + 365" by (simp_all add: e'_def)
  have "e' = 0 \<or> e' = 1 \<or> e' = 2 \<or> e' = 3 \<or> e' = 4" using e' c by linarith
  then have e: "0 \<le> e" "e \<le> 3" "e = e' \<or> e' = 4 \<and> e = 3" by (auto simp: e_def)
  have r: "0 \<le> r" "r \<le> 365" "r = 365 \<longrightarrow> e = 3 \<and> (c = 24 \<longrightarrow> b = 3)"
    unfolding r_def using e' e c b by auto
  have "year_yday z = (400 * a + 100 * b + 4 * c + e + 1, r)"
    unfolding year_yday_def Let_def d_def [symmetric] a_def [symmetric] d0_def [symmetric]
      b'_def [symmetric] b_def [symmetric] d1_def [symmetric] c_def [symmetric] d2_def [symmetric]
      e'_def [symmetric] e_def [symmetric] r_def [symmetric] by simp
  moreover have "z + 719162 = 146097 * a + 36524 * b + 1461 * c + 365 * e + r"
    unfolding d_def [symmetric] r_def d2_def d1_def using d0(1) by simp
  ultimately show ?thesis using that b c e r by blast
qed

lemma yday_month_day:
  assumes "0 \<le> r" "r \<le> 364 \<or> leap \<and> r = 365"
  shows "yday_of leap (month_day leap r) = r"
proof (cases "leap \<and> r = 59")
  case True
  then show ?thesis by (simp add: month_day_def yday_of_def days_before_def)
next
  case False
  define day where "day = (if leap \<and> 59 < r then r - 1 else r)"
  have day: "0 \<le> day" "day \<le> 364" using assms by (auto simp: day_def)
  define m where "m = nat (day div 31)"
  have "m \<le> 11" using day by (simp add: m_def)
  then have "m = 0 \<or> m = 1 \<or> m = 2 \<or> m = 3 \<or> m = 4 \<or> m = 5 \<or> m = 6 \<or> m = 7 \<or> m = 8 \<or> m = 9 \<or> m = 10 \<or> m = 11"
    by presburger
  moreover have "31 * int m \<le> day" "day < 31 * int m + 31" using day by (simp_all add: m_def) presburger+
  ultimately show ?thesis
    using False day unfolding month_day_def Let_def day_def [symmetric] m_def [symmetric]
    by (elim disjE) (auto simp: yday_of_def days_before_def day_def split: if_splits)
qed

text \<open>A year whose last day has the number 365 is a leap year.\<close>

lemma leap_last_day:
  assumes "0 \<le> c" "c \<le> 24" "0 \<le> b" "b \<le> 3" and "r = 365 \<longrightarrow> e = 3 \<and> (c = 24 \<longrightarrow> b = 3)" and "r = (365 :: int)"
  shows "is_leap (400 * a + 100 * b + 4 * c + e + 1)"
proof -
  let ?y = "400 * a + 100 * b + 4 * c + e + 1"
  have e3: "e = 3" "c = 24 \<longrightarrow> b = 3" using assms(5,6) by simp_all
  have "?y mod 4 = 0"
    by (rule int_mod_pos_eq [where q = "100 * a + 25 * b + c + 1"]) (use e3 in simp_all)
  moreover have "?y mod 100 \<noteq> 0 \<or> ?y mod 400 = 0"
  proof (cases "c = 24")
    case True
    have "?y mod 400 = 0"
      by (rule int_mod_pos_eq [where q = "a + 1"]) (use e3 True in simp_all)
    then show ?thesis ..
  next
    case False
    have "?y mod 100 = 4 * c + 4"
      by (rule int_mod_pos_eq [where q = "4 * a + b"]) (use e3 False assms(1-4) in simp_all)
    then show ?thesis using assms(1-4) by simp
  qed
  ultimately show ?thesis by (simp add: is_leap_def)
qed

lemma day_number_civil_date: "day_number (civil_date z) = z"
proof -
  obtain a b c e r where z: "z + 719162 = 146097 * a + 36524 * b + 1461 * c + 365 * e + r"
    and bnd: "0 \<le> b" "b \<le> 3" "0 \<le> c" "c \<le> 24" "0 \<le> e" "e \<le> 3" "0 \<le> r" "r \<le> 365"
    and r: "r = 365 \<longrightarrow> e = 3 \<and> (c = 24 \<longrightarrow> b = 3)"
    and y: "year_yday z = (400 * a + 100 * b + 4 * c + e + 1, r)"
    by (rule year_yday_parts)
  let ?y = "400 * a + 100 * b + 4 * c + e + 1"
  have "(?y - 1) div 4 = 100 * a + 25 * b + c"
    by (rule int_div_pos_eq [where r = e]) (use bnd in simp_all)
  moreover have "(?y - 1) div 100 = 4 * a + b"
    by (rule int_div_pos_eq [where r = "4 * c + e"]) (use bnd in simp_all)
  moreover have "(?y - 1) div 400 = a"
    by (rule int_div_pos_eq [where r = "100 * b + 4 * c + e"]) (use bnd in simp_all)
  moreover have "is_leap ?y" if "r = 365" using leap_last_day [of c b r e a] that bnd r by simp
  then have "yday_of (is_leap ?y) (month_day (is_leap ?y) r) = r"
    using bnd by (intro yday_month_day) auto
  ultimately show ?thesis using z by (simp add: day_number_def civil_date_def y)
qed

lemma civil_date_inj: "civil_date x = civil_date y \<longleftrightarrow> x = y"
  by (metis day_number_civil_date)

text \<open>Midnight of the civil date of a timestamp, as a day number.\<close>

definition rounded :: "int \<Rightarrow> int" where
  "rounded ms = day_number (civil_date (day_of_ms ms))"

lemma rounded_eq [simp]: "rounded ms = day_of_ms ms"
  by (simp add: rounded_def day_number_civil_date)

lemma civil_date_examples:
  "civil_date 0 = (1970, 1, 1)" "civil_date 19782 = (2024, 2, 29)" "civil_date 19783 = (2024, 3, 1)"
  "civil_date (-1) = (1969, 12, 31)" "civil_date 11016 = (2000, 2, 29)"
  by code_simp+

end
