(* ===== verification/Paths.thy ===== *)
theory Paths
  imports GoFile Calendar
begin

text \<open>
  \<^verbatim>\<open>pkg/graphite/convert/paths.go\<close>: the share of the work that a worker takes, and the dates for
  which a finished block exists.
\<close>

section \<open>The paths of a worker\<close>

text \<open>
  The loop \<^verbatim>\<open>for i := workerID; i < len(paths); i += workerCount\<close>. Indexing with a negative
  number panics; with a step of 0 the loop does not end, which is \<open>None\<close>.
\<close>

partial_function (option) pfw_loop :: "'a list \<Rightarrow> int \<Rightarrow> int \<Rightarrow> 'a list \<Rightarrow> 'a list res option" where
  "pfw_loop paths workerCount i acc =
     (if i < int (length paths) then
        (if i < 0 then Some Panic
         else pfw_loop paths workerCount (i + workerCount) (acc @ [paths ! nat i]))
      else Some (Ok acc))"

definition PathsForWorker :: "'a list \<Rightarrow> int \<Rightarrow> int \<Rightarrow> 'a list res option" where
  "PathsForWorker paths workerCount workerID =
     (if int (length paths) < workerCount then
        (if int (length paths) \<le> workerID then Some (Ok [])
         else if workerID < 0 then Some Panic
         else Some (Ok (drop (nat workerID) (take (nat workerID) paths))))
      else pfw_loop paths workerCount workerID [])"

text \<open>The share of worker \<open>k\<close> of \<open>n\<close>: every \<open>n\<close>-th path from the \<open>k\<close>-th on.\<close>

definition share :: "'a list \<Rightarrow> nat \<Rightarrow> nat \<Rightarrow> 'a list" where
  "share paths n k = map (nth paths) (filter (\<lambda>i. i mod n = k) [0..<length paths])"

lemma upt_filter_step:
  assumes "0 < n" and "i < m"
  shows "filter (\<lambda>j. j mod n = i mod n) [i..<m] = i # filter (\<lambda>j. j mod n = i mod n) [i + n..<m]"
proof -
  have none: "filter (\<lambda>j. j mod n = i mod n) [Suc i..<min (i + n) m] = []"
  proof -
    have "j mod n \<noteq> i mod n" if "Suc i \<le> j" "j < i + n" for j
    proof
      assume "j mod n = i mod n"
      then have "n dvd j - i" using that by (metis mod_eq_dvd_iff_nat Suc_leD)
      with that show False by (auto dest!: dvd_imp_le)
    qed
    then show ?thesis by (auto simp: filter_empty_conv)
  qed
  have "[i..<m] = i # [Suc i..<min (i + n) m] @ [min (i + n) m..<m]"
    using assms upt_split [of "Suc i" "min (i + n) m" m] by (simp add: upt_conv_Cons)
  moreover have "[min (i + n) m..<m] = [i + n..<m]" by (cases "i + n \<le> m") (auto simp: min_def)
  ultimately show ?thesis using none by simp
qed

lemma pfw_loop_eq:
  assumes "0 < n"
  shows "pfw_loop paths (int n) (int i) acc =
    Some (Ok (acc @ map (nth paths) (filter (\<lambda>j. j mod n = i mod n) [i..<length paths])))"
proof (induction "length paths - i" arbitrary: i acc rule: less_induct)
  case less
  show ?case
  proof (cases "i < length paths")
    case True
    then have "pfw_loop paths (int n) (int i) acc = pfw_loop paths (int n) (int (i + n)) (acc @ [paths ! i])"
      by (simp add: pfw_loop.simps [of paths "int n" "int i"])
    also have "\<dots> = Some (Ok ((acc @ [paths ! i]) @
        map (nth paths) (filter (\<lambda>j. j mod n = (i + n) mod n) [i + n..<length paths])))"
      using True assms by (intro less) arith
    finally show ?thesis using upt_filter_step [OF assms True] by simp
  next
    case False
    then show ?thesis by (simp add: pfw_loop.simps [of paths "int n" "int i"])
  qed
qed

lemma PathsForWorker_share:
  assumes "0 < n" and "n \<le> length paths" and "k < n"
  shows "PathsForWorker paths (int n) (int k) = Some (Ok (share paths n k))"
proof -
  have "filter (\<lambda>j. j mod n = k) [0..<length paths]
      = filter (\<lambda>j. j mod n = k) [0..<k] @ filter (\<lambda>j. j mod n = k) [k..<length paths]"
    using assms upt_split [of 0 k "length paths"] by simp
  moreover have "filter (\<lambda>j. j mod n = k) [0..<k] = []" using assms by (auto simp: filter_empty_conv)
  ultimately show ?thesis using assms
    by (simp add: PathsForWorker_def pfw_loop_eq share_def)
qed

lemma PathsForWorker_alone: "PathsForWorker paths 1 0 = Some (Ok paths)"
proof (cases "paths = []")
  case True
  then show ?thesis by (simp add: PathsForWorker_def)
next
  case False
  have "share paths 1 0 = paths" by (simp add: share_def map_nth)
  then show ?thesis using False PathsForWorker_share [of 1 paths 0] by (simp add: Suc_le_eq)
qed

lemma share_partition:
  assumes "0 < n"
  shows "(\<Sum>k<n. mset (share paths n k)) = mset paths"
proof -
  have "(\<Sum>k<n. filter_mset (\<lambda>i. i mod n = k) M) = M" for M
  proof (induction M)
    case (add x M)
    have "(\<Sum>k<n. if x mod n = k then {#x#} else {#}) = {#x#}" using assms by simp
    moreover have "filter_mset (\<lambda>i. i mod n = k) (add_mset x M)
        = (if x mod n = k then {#x#} else {#}) + filter_mset (\<lambda>i. i mod n = k) M" for k by simp
    ultimately show ?case using add by (simp add: sum.distrib del: filter_mset_add_mset)
  qed simp
  note part = this [of "mset [0..<length paths]"]
  have "mset (share paths n k)
      = image_mset (nth paths) (filter_mset (\<lambda>i. i mod n = k) (mset [0..<length paths]))" for k
    unfolding share_def by (simp only: mset_map mset_filter)
  then have "(\<Sum>k<n. mset (share paths n k)) = image_mset (nth paths) (mset [0..<length paths])"
    by (simp only: image_mset_sum_nat part)
  also have "\<dots> = mset paths" by (simp only: map_nth flip: mset_map)
  finally show ?thesis .
qed

section \<open>Finished blocks\<close>

text \<open>
  \<^verbatim>\<open>regexp.MustCompile(`/meta.json$`)\<close>: the dot stands for any character but a newline, and the
  match may start anywhere.
\<close>

definition metaFilter :: "string \<Rightarrow> bool" where
  "metaFilter path \<longleftrightarrow>
     10 \<le> length path \<and>
     (let s = drop (length path - 10) path
      in take 5 s = ''/meta'' \<and> s ! 5 \<noteq> CHR 0x0A \<and> drop 6 s = ''json'')"

text \<open>\<^verbatim>\<open>strings.Replace(s, old, "", 1)\<close>: the first occurrence of \<open>old\<close> goes.\<close>

fun remove_first :: "string \<Rightarrow> string \<Rightarrow> string" where
  "remove_first old [] = []"
| "remove_first old (c # s) =
     (if take (length old) (c # s) = old then drop (length old) (c # s) else c # remove_first old s)"

text \<open>
  The walked paths, and reading the metadata of a block directory, of which only the minimum
  time is used, are parameters; a walk never fails, because the callback drops every error.
\<close>

definition GetFinishedBlockDates :: "string list \<Rightarrow> (string \<Rightarrow> int option) \<Rightarrow> int set" where
  "GetFinishedBlockDates walked readMeta =
     (let blockPaths = map (remove_first ''meta.json'') (filter metaFilter walked)
      in set (map rounded (List.map_filter readMeta blockPaths)))"

section \<open>Properties\<close>

text \<open>
  With at least as many paths as workers, the workers' shares are together exactly the
  paths, each once: no worker diverges or panics, nothing is lost and nothing is done twice.
\<close>

theorem PathsForWorker_partition:
  assumes "0 < n" and "n \<le> length paths"
  shows "\<exists>ps. (\<forall>k<n. PathsForWorker paths (int n) (int k) = Some (Ok (ps k))) \<and>
    (\<Sum>k<n. mset (ps k)) = mset paths"
  using PathsForWorker_share [OF assms] share_partition [OF assms(1)] by blast

theorem PathsForWorker_partition_witness:
  "\<exists>ps. (\<forall>k<3. PathsForWorker [''a'', ''b'', ''c'', ''d''] 3 (int k) = Some (Ok (ps k))) \<and>
    (\<Sum>k<3. mset (ps k)) = {#''a'', ''b'', ''c'', ''d''#}"
  using PathsForWorker_partition [of 3 "[''a'', ''b'', ''c'', ''d'']"] by simp

text \<open>
  With more workers than paths, every worker gets the empty share, also the workers whose
  number is that of a path: no path is processed by anyone.
\<close>

theorem PathsForWorker_more_workers_than_paths:
  assumes "length paths < n" and "k < n"
  shows "PathsForWorker paths (int n) (int k) = Some (Ok [])"
  using assms by (simp add: PathsForWorker_def)

theorem PathsForWorker_more_workers_than_paths_witness:
  "PathsForWorker [''a''] 2 0 = Some (Ok []) \<and> PathsForWorker [''a''] 2 1 = Some (Ok [])"
  using PathsForWorker_more_workers_than_paths [of "[''a'']" 2 0]
    PathsForWorker_more_workers_than_paths [of "[''a'']" 2 1] by simp

end
