(* ===== verification/GoHeap.thy ===== *)
theory GoHeap
  imports Prelude
begin

text \<open>
  Go's \<^verbatim>\<open>container/heap\<close> as the merge iterators of \<^verbatim>\<open>pkg/tsdb\<close> use it: the operations work on a
  list through the methods of \<^verbatim>\<open>heap.Interface\<close>. \<^verbatim>\<open>Less\<close> is a method with an effect (it peeks
  into files and caches what it read), so it gives the changed list as well. The locale
  \<open>heap_order\<close> shows the operations correct for a \<^verbatim>\<open>Less\<close> that only compares, the locale
  \<open>peeking\<close> carries this over to a \<^verbatim>\<open>Less\<close> that changes the elements without changing what they
  stand for.
\<close>

section \<open>The operations\<close>

type_synonym 'f go_less = "'f list \<Rightarrow> nat \<Rightarrow> nat \<Rightarrow> bool \<times> 'f list"

definition swap :: "'f list \<Rightarrow> nat \<Rightarrow> nat \<Rightarrow> 'f list" where
  "swap h i j = h[i := h ! j, j := h ! i]"

definition smaller_child :: "'f go_less \<Rightarrow> 'f list \<Rightarrow> nat \<Rightarrow> nat \<Rightarrow> nat \<times> 'f list" where
  "smaller_child cmp h i n =
     (let j1 = 2 * i + 1
      in if j1 + 1 < n then (case cmp h (j1 + 1) j1 of (b, h) \<Rightarrow> (if b then j1 + 1 else j1, h)) else (j1, h))"

lemma smaller_child_cases:
  "fst (smaller_child cmp h i n) = 2 * i + 1 \<or> fst (smaller_child cmp h i n) = 2 * i + 2 \<and> 2 * i + 2 < n"
  by (auto simp: smaller_child_def Let_def split: prod.splits if_splits)

text \<open>\<open>heap_down\<close> gives the index at which the element has come to rest.\<close>

function heap_down :: "'f go_less \<Rightarrow> 'f list \<Rightarrow> nat \<Rightarrow> nat \<Rightarrow> nat \<times> 'f list" where
  "heap_down cmp h i n =
     (if n \<le> 2 * i + 1 then (i, h)
      else
        case smaller_child cmp h i n of (j, h1) \<Rightarrow>
        case cmp h1 j i of (b, h2) \<Rightarrow>
          if \<not> b then (i, h2) else heap_down cmp (swap h2 i j) j n)"
  by pat_completeness auto

termination
proof (relation "measure (\<lambda>(cmp, h, i, n). n - i)")
  fix cmp :: "'f go_less" and h h1 h2 i n j b
  assume "\<not> n \<le> 2 * i + 1" "(j, h1) = smaller_child cmp h i n"
  then show "((cmp, swap h2 i j, j, n), cmp, h, i, n) \<in> measure (\<lambda>(cmp, h, i, n). n - i)"
    using smaller_child_cases [of cmp h i n] by (auto simp: prod_eq_iff)
qed simp

declare heap_down.simps [simp del]

function heap_up :: "'f go_less \<Rightarrow> 'f list \<Rightarrow> nat \<Rightarrow> 'f list" where
  "heap_up cmp h j =
     (let i = (j - 1) div 2
      in if i = j then h
         else case cmp h j i of (b, h1) \<Rightarrow> if \<not> b then h1 else heap_up cmp (swap h1 i j) i)"
  by pat_completeness auto
termination by (relation "measure (\<lambda>(cmp, h, j). j)") auto

declare heap_up.simps [simp del]

definition heap_Fix :: "'f go_less \<Rightarrow> 'f list \<Rightarrow> nat \<Rightarrow> 'f list" where
  "heap_Fix cmp h i =
     (case heap_down cmp h i (length h) of (k, h) \<Rightarrow> if \<not> i < k then heap_up cmp h i else h)"

text \<open>\<^verbatim>\<open>Remove\<close> drops the element that it returns, as both callers do.\<close>

definition heap_Remove :: "'f go_less \<Rightarrow> 'f list \<Rightarrow> nat \<Rightarrow> 'f list" where
  "heap_Remove cmp h i =
     (let n = length h - 1;
          h = (if n \<noteq> i
               then (case heap_down cmp (swap h i n) i n of (k, h) \<Rightarrow> if \<not> i < k then heap_up cmp h i else h)
               else h)
      in butlast h)"

definition down_at :: "'f go_less \<Rightarrow> nat \<Rightarrow> 'f list \<Rightarrow> 'f list" where
  "down_at cmp i h = snd (heap_down cmp h i (length h))"

definition heap_Init :: "'f go_less \<Rightarrow> 'f list \<Rightarrow> 'f list" where
  "heap_Init cmp h = foldr (down_at cmp) [0..<length h div 2] h"

section \<open>Swapping\<close>

lemma length_swap [simp]: "length (swap h i j) = length h"
  by (simp add: swap_def)

lemma nth_swap:
  "i < length h \<Longrightarrow> j < length h \<Longrightarrow> k < length h \<Longrightarrow>
    swap h i j ! k = (if k = i then h ! j else if k = j then h ! i else h ! k)"
  by (auto simp: swap_def nth_list_update)

lemma mset_swap' [simp]: "i < length h \<Longrightarrow> j < length h \<Longrightarrow> mset (swap h i j) = mset h"
  by (simp add: swap_def mset_swap)

lemma map_swap: "i < length h \<Longrightarrow> j < length h \<Longrightarrow> map f (swap h i j) = swap (map f h) i j"
  by (simp add: swap_def map_update)

lemma heap_up_0 [simp]: "heap_up cmp xs 0 = xs"
  by (simp add: heap_up.simps)

text \<open>The operations at the root, where the second phase has nothing to do.\<close>

lemma heap_Fix_0: "heap_Fix cmp h 0 = snd (heap_down cmp h 0 (length h))"
  by (cases "heap_down cmp h 0 (length h)") (simp add: heap_Fix_def)

lemma heap_Remove_0:
  "heap_Remove cmp h 0 = butlast (if length h - 1 \<noteq> 0
    then snd (heap_down cmp (swap h 0 (length h - 1)) 0 (length h - 1)) else h)"
  by (cases "heap_down cmp (swap h 0 (length h - 1)) 0 (length h - 1)") (auto simp: heap_Remove_def Let_def)

section \<open>Contents\<close>

text \<open>
  The interface of a \<^verbatim>\<open>Less\<close> that peeks: an element \<open>f\<close> stands for \<open>rem f\<close>, and comparing two
  elements does not change what the elements stand for. The operations then keep the contents
  of the list, whatever the comparison says.
\<close>

locale peek_state =
  fixes cmp :: "'f go_less" and rem :: "'f \<Rightarrow> 'x"
  assumes cmp_snd: "i < length h \<Longrightarrow> j < length h \<Longrightarrow> map rem (snd (cmp h i j)) = map rem h"
begin

lemma rem_nth: "map rem h' = map rem h \<Longrightarrow> i < length h \<Longrightarrow> rem (h' ! i) = rem (h ! i)"
  by (metis length_map nth_map)

lemma cmp_cases:
  assumes "i < length h" "j < length h"
  obtains b h' where "cmp h i j = (b, h')" "map rem h' = map rem h" "length h' = length h"
  using cmp_snd [OF assms] that by (metis length_map prod.collapse)

lemma smaller_child_keeps:
  assumes "n \<le> length h" and "2 * i + 1 < n"
  obtains j h' where "smaller_child cmp h i n = (j, h')" "map rem h' = map rem h" "length h' = length h"
    "i < j" "j < n"
proof (cases "2 * i + 2 < n")
  case True
  obtain b h' where c: "cmp h (2 * i + 2) (2 * i + 1) = (b, h')" "map rem h' = map rem h" "length h' = length h"
    by (rule cmp_cases [of "2 * i + 2" h "2 * i + 1"]) (use assms True in auto)
  show ?thesis
    by (rule that [of "if b then 2 * i + 2 else 2 * i + 1" h'])
      (use c True in \<open>auto simp: smaller_child_def\<close>)
next
  case False
  show ?thesis
    by (rule that [of "2 * i + 1" h]) (use False assms in \<open>simp_all add: smaller_child_def\<close>)
qed

lemma heap_down_keeps:
  assumes "n \<le> length h" and "i < length h"
  shows "mset (map rem (snd (heap_down cmp h i n))) = mset (map rem h)
    \<and> (\<forall>k. n \<le> k \<and> k < length h \<longrightarrow> rem (snd (heap_down cmp h i n) ! k) = rem (h ! k))"
  using assms
proof (induction "n - i" arbitrary: i h rule: less_induct)
  case (less i h)
  show ?case
  proof (cases "n \<le> 2 * i + 1")
    case True
    then show ?thesis by (simp add: heap_down.simps)
  next
    case False
    then obtain j h1 where j: "smaller_child cmp h i n = (j, h1)" "map rem h1 = map rem h" "length h1 = length h"
      "i < j" "j < n"
      using smaller_child_keeps [OF less.prems(1), of i] by auto
    obtain b h2 where h2: "cmp h1 j i = (b, h2)" "map rem h2 = map rem h1" "length h2 = length h1"
      using cmp_cases [of j h1 i] j less.prems by auto
    have same: "rem (h2 ! k) = rem (h ! k)" if "k < length h" for k
      using rem_nth [of h2 h k] h2(2) j(2) that by simp
    show ?thesis
    proof (cases b)
      case True
      let ?s = "swap h2 i j"
      have "mset (map rem (snd (heap_down cmp ?s j n))) = mset (map rem ?s)
          \<and> (\<forall>k. n \<le> k \<and> k < length ?s \<longrightarrow> rem (snd (heap_down cmp ?s j n) ! k) = rem (?s ! k))"
        using less.prems j h2 by (intro less.hyps) auto
      moreover have "mset (map rem ?s) = mset (map rem h)"
        using less.prems j h2 by (simp add: map_swap)
      moreover have "\<forall>k. n \<le> k \<and> k < length h \<longrightarrow> rem (?s ! k) = rem (h ! k)"
        using less.prems j h2 same by (simp add: nth_swap)
      ultimately show ?thesis
        using False True j h2 by (simp add: heap_down.simps [of _ h i n])
    next
      case nb: False
      then show ?thesis
        using False j h2 same by (simp add: heap_down.simps [of _ h i n] flip: mset_map)
    qed
  qed
qed

lemma Fix_contents: "mset (map rem (heap_Fix cmp (f # h) 0)) = mset (map rem (f # h))"
  using heap_down_keeps [of "length (f # h)" "f # h" 0] by (simp add: heap_Fix_0)

lemma Remove_contents: "mset (map rem (heap_Remove cmp (f # h) 0)) = mset (map rem h)"
proof (cases "h = []")
  case True
  then show ?thesis by (simp add: heap_Remove_0)
next
  case False
  let ?n = "length h"
  let ?ys = "swap (f # h) 0 ?n"
  let ?zs = "snd (heap_down cmp ?ys 0 ?n)"
  have down: "mset (map rem ?zs) = mset (map rem ?ys)" "rem (?zs ! ?n) = rem (?ys ! ?n)"
    using heap_down_keeps [of ?n ?ys 0] by simp_all
  have "mset (map rem ?ys) = mset (map rem (f # h))" by (simp add: mset_swap' map_swap del: list.map)
  moreover have len: "length ?zs = Suc ?n" using mset_eq_length [OF down(1)] by simp
  moreover have "?ys ! ?n = f" using False by (subst nth_swap) auto
  moreover have "?zs = butlast ?zs @ [?zs ! ?n]"
    using len by (metis append_butlast_last_id diff_Suc_1 last_conv_nth length_0_conv nat.distinct(1))
  ultimately have "mset (map rem (butlast ?zs @ [?zs ! ?n])) = mset (map rem (f # h))" "rem (?zs ! ?n) = rem f"
    using down by (metis, metis)
  then show ?thesis using False by (simp add: heap_Remove_0)
qed

end

section \<open>The heap order\<close>

text \<open>
  The interface of the order: a strict order \<open>lt\<close> whose negation is transitive. \<open>pure_less\<close> is
  the \<^verbatim>\<open>Less\<close> that compares and changes nothing.
\<close>

definition pure_less :: "('x \<Rightarrow> 'x \<Rightarrow> bool) \<Rightarrow> 'x go_less" where
  "pure_less lt xs i j = (lt (xs ! i) (xs ! j), xs)"

definition parent :: "nat \<Rightarrow> nat" where
  "parent j = (j - 1) div 2"

lemma parent_simps [simp]: "parent (Suc (2 * i)) = i" "parent (Suc (Suc (2 * i))) = i"
  by (simp_all add: parent_def)

lemma parent_child: "parent (2 * i + 1) = i" "parent (2 * i + 2) = i" "0 < j \<Longrightarrow> parent j < j"
  by (auto simp: parent_def)

lemma child_cases: "0 < c \<Longrightarrow> parent c = i \<Longrightarrow> c = 2 * i + 1 \<or> c = 2 * i + 2"
  unfolding parent_def by presburger

locale heap_order =
  fixes lt :: "'x \<Rightarrow> 'x \<Rightarrow> bool"
  assumes asym: "lt x y \<Longrightarrow> \<not> lt y x"
    and neg_trans: "\<not> lt y x \<Longrightarrow> \<not> lt z y \<Longrightarrow> \<not> lt z x"
begin

abbreviation le :: "'x \<Rightarrow> 'x \<Rightarrow> bool" where
  "le x y \<equiv> \<not> lt y x"

lemma le_refl: "le x x" using asym by blast

text \<open>The heap order on the indices from \<open>s\<close> on and below \<open>n\<close>, but for the children of \<open>i\<close>.\<close>

definition heap_but :: "nat option \<Rightarrow> 'x list \<Rightarrow> nat \<Rightarrow> nat \<Rightarrow> bool" where
  "heap_but i xs s n \<longleftrightarrow>
     (\<forall>j. 0 < j \<and> j < n \<and> s \<le> parent j \<and> i \<noteq> Some (parent j) \<longrightarrow> le (xs ! parent j) (xs ! j)) \<and>
     (\<forall>k c. i = Some k \<and> 0 < k \<and> s \<le> parent k \<and> 0 < c \<and> c < n \<and> parent c = k \<longrightarrow> le (xs ! parent k) (xs ! c))"

lemma heap_butD: "heap_but i xs s n \<Longrightarrow> 0 < j \<Longrightarrow> j < n \<Longrightarrow> s \<le> parent j \<Longrightarrow> i \<noteq> Some (parent j)
    \<Longrightarrow> le (xs ! parent j) (xs ! j)"
  by (auto simp: heap_but_def)

sublocale pure: peek_state "pure_less lt" "\<lambda>x. x"
  by unfold_locales (simp add: pure_less_def)

lemma smaller_child_pure:
  "smaller_child (pure_less lt) xs i n =
    (if 2 * i + 2 < n \<and> lt (xs ! (2 * i + 2)) (xs ! (2 * i + 1)) then 2 * i + 2 else 2 * i + 1, xs)"
  by (simp add: smaller_child_def pure_less_def)

lemma heap_down_pure:
  assumes "n \<le> length xs" and "s \<le> i" and "i < n" and "heap_but (Some i) xs s n"
  shows "heap_but None (snd (heap_down (pure_less lt) xs i n)) s n
    \<and> mset (snd (heap_down (pure_less lt) xs i n)) = mset xs
    \<and> (\<forall>k. n \<le> k \<and> k < length xs \<longrightarrow> snd (heap_down (pure_less lt) xs i n) ! k = xs ! k)"
  using assms
proof (induction "n - i" arbitrary: i xs rule: less_induct)
  case less
  note [simp] = heap_down.simps [of "pure_less lt" xs i n]
  show ?case
  proof (cases "n \<le> 2 * i + 1")
    case True
    then have "0 < j \<and> j < n \<longrightarrow> Some i \<noteq> Some (parent j)" for j
      using child_cases [of j i] by auto
    with True less.prems show ?thesis by (auto simp: heap_but_def)
  next
    case False
    define j where "j = fst (smaller_child (pure_less lt) xs i n)"
    have sc: "smaller_child (pure_less lt) xs i n = (j, xs)" by (simp add: j_def smaller_child_pure)
    have j: "j = 2 * i + 1 \<or> j = 2 * i + 2" "j < n" "parent j = i" "i < j" "0 < j"
      using False by (auto simp: j_def smaller_child_pure parent_child)
    have least: "le (xs ! j) (xs ! c)" if "0 < c" "c < n" "parent c = i" for c
      using child_cases [OF that(1,3)] that(2) False asym le_refl by (auto simp: j_def smaller_child_pure)
    show ?thesis
    proof (cases "lt (xs ! j) (xs ! i)")
      case lt: False
      have "le (xs ! i) (xs ! c)" if "0 < c" "c < n" "parent c = i" for c
        using neg_trans [OF lt least [OF that]] .
      then have "heap_but None xs s n" using less.prems(4) by (auto simp: heap_but_def)
      with False lt sc show ?thesis by (simp add: pure_less_def)
    next
      case lt: True
      let ?xs = "swap xs i j"
      have nth: "k < n \<Longrightarrow> ?xs ! k = (if k = i then xs ! j else if k = j then xs ! i else xs ! k)" for k
        using less.prems(1,3) j by (intro nth_swap) auto
      have "heap_but (Some j) ?xs s n"
        unfolding heap_but_def
      proof (intro conjI allI impI)
        fix k assume k: "0 < k \<and> k < n \<and> s \<le> parent k \<and> Some j \<noteq> Some (parent k)"
        then have pk: "parent k < n" "parent k \<noteq> j" using parent_child(3) [of k] by auto
        consider "parent k = i" | "k = i" | "parent k \<noteq> i" "k \<noteq> i" by blast
        then show "le (?xs ! parent k) (?xs ! k)"
        proof cases
          case 1
          then show ?thesis using k pk nth j least asym lt parent_child(3) [of k] by (auto simp: nth)
        next
          case 2
          then have "le (xs ! parent i) (xs ! j)"
            using less.prems(4) k j by (auto simp: heap_but_def)
          then show ?thesis using 2 k pk parent_child(3) [of k] by (simp add: nth)
        next
          case 3
          then have "k \<noteq> j" using j(3) by auto
          then show ?thesis using 3 k pk heap_butD [OF less.prems(4), of k] by (simp add: nth)
        qed
      next
        fix k c assume k: "Some j = Some k \<and> 0 < k \<and> s \<le> parent k \<and> 0 < c \<and> c < n \<and> parent c = k"
        then have c: "0 < c" "c < n" "parent c = j" "c \<noteq> j" "c \<noteq> i"
          using parent_child(3) [of c] j(4) by auto
        then have "le (xs ! j) (xs ! c)"
          using heap_butD [OF less.prems(4), of c] less.prems(2) j(4) by simp
        moreover have "?xs ! i = xs ! j" using nth [of i] less.prems(3) by simp
        moreover have "?xs ! c = xs ! c" using nth [of c] c by simp
        moreover have "parent k = i" using k j(3) by simp
        ultimately show "le (?xs ! parent k) (?xs ! c)" by simp
      qed
      then have IH: "heap_but None (snd (heap_down (pure_less lt) ?xs j n)) s n
          \<and> mset (snd (heap_down (pure_less lt) ?xs j n)) = mset ?xs
          \<and> (\<forall>k. n \<le> k \<and> k < length ?xs \<longrightarrow> snd (heap_down (pure_less lt) ?xs j n) ! k = ?xs ! k)"
        using less.prems j False by (intro less.hyps) auto
      have "snd (heap_down (pure_less lt) xs i n) = snd (heap_down (pure_less lt) ?xs j n)"
        using False lt sc by (simp add: pure_less_def)
      moreover have "\<forall>k. n \<le> k \<and> k < length xs \<longrightarrow> ?xs ! k = xs ! k"
        using less.prems(1,3) j by (simp add: nth_swap)
      ultimately show ?thesis using IH less.prems(1,3) j by simp
    qed
  qed
qed

lemma heap_down_length [simp]: "length (snd (heap_down (pure_less lt) xs i n)) = length xs"
proof (induction "n - i" arbitrary: i xs rule: less_induct)
  case less
  show ?case
  proof (cases "n \<le> 2 * i + 1")
    case False
    obtain j where j: "smaller_child (pure_less lt) xs i n = (j, xs)" by (simp add: smaller_child_pure)
    then have "i < j" using smaller_child_cases [of "pure_less lt" xs i n] by auto
    with False j show ?thesis
      using less [of j "swap xs i j"] by (simp add: heap_down.simps [of _ xs i n] pure_less_def)
  qed (simp add: heap_down.simps)
qed

definition heap :: "'x list \<Rightarrow> bool" where
  "heap xs \<longleftrightarrow> heap_but None xs 0 (length xs)"

text \<open>The first element of a heap is a smallest one.\<close>

lemma heap_least:
  assumes "heap xs" and "x \<in> set xs"
  shows "le (xs ! 0) x"
proof -
  have "j < length xs \<Longrightarrow> le (xs ! 0) (xs ! j)" for j
  proof (induction j rule: less_induct)
    case (less j)
    show ?case
    proof (cases "j = 0")
      case False
      then have "le (xs ! 0) (xs ! parent j)" using less parent_child(3) [of j] by auto
      moreover have "le (xs ! parent j) (xs ! j)"
        using heap_butD [of None xs 0 "length xs" j] assms(1) False less.prems by (simp add: heap_def)
      ultimately show ?thesis by (rule neg_trans)
    qed (simp add: le_refl)
  qed
  with assms(2) show ?thesis by (auto simp: in_set_conv_nth)
qed

lemma heap_down_root:
  assumes "n \<le> length xs" and "0 < n" and "\<forall>j. 0 < j \<and> j < n \<and> parent j \<noteq> 0 \<longrightarrow> le (xs ! parent j) (xs ! j)"
  shows "heap_but (Some 0) xs 0 n"
  using assms by (auto simp: heap_but_def)

lemma heap_Fix_pure:
  assumes "xs \<noteq> []" and "\<forall>j. 0 < j \<and> j < length xs \<and> parent j \<noteq> 0 \<longrightarrow> le (xs ! parent j) (xs ! j)"
  shows "heap (heap_Fix (pure_less lt) xs 0) \<and> mset (heap_Fix (pure_less lt) xs 0) = mset xs"
proof -
  have "heap_Fix (pure_less lt) xs 0 = snd (heap_down (pure_less lt) xs 0 (length xs))"
    by (simp add: heap_Fix_0)
  moreover have "heap_but (Some 0) xs 0 (length xs)" using assms by (intro heap_down_root) auto
  ultimately show ?thesis using heap_down_pure [of "length xs" xs 0 0] assms(1) by (simp add: heap_def)
qed

text \<open>Replacing the first element of a heap and fixing it, and removing it.\<close>

lemma heap_replace:
  assumes "heap (x # xs)"
  shows "heap (heap_Fix (pure_less lt) (y # xs) 0)" and "mset (heap_Fix (pure_less lt) (y # xs) 0) = add_mset y (mset xs)"
proof -
  have "le ((y # xs) ! parent j) ((y # xs) ! j)" if "0 < j" "j < length (y # xs)" "parent j \<noteq> 0" for j
    using heap_butD [OF assms [unfolded heap_def], of j] that by (simp add: nth_Cons')
  then have "heap (heap_Fix (pure_less lt) (y # xs) 0) \<and> mset (heap_Fix (pure_less lt) (y # xs) 0) = mset (y # xs)"
    by (intro heap_Fix_pure) auto
  then show "heap (heap_Fix (pure_less lt) (y # xs) 0)"
    "mset (heap_Fix (pure_less lt) (y # xs) 0) = add_mset y (mset xs)" by simp_all
qed

lemma heap_Remove_first:
  assumes "heap (x # xs)"
  shows "heap (heap_Remove (pure_less lt) (x # xs) 0)" and "mset (heap_Remove (pure_less lt) (x # xs) 0) = mset xs"
proof -
  have "heap (heap_Remove (pure_less lt) (x # xs) 0) \<and> mset (heap_Remove (pure_less lt) (x # xs) 0) = mset xs"
  proof (cases "xs = []")
    case True
    then show ?thesis by (simp add: heap_Remove_def heap_def heap_but_def)
  next
    case False
    let ?n = "length xs"
    let ?ys = "swap (x # xs) 0 ?n"
    let ?zs = "snd (heap_down (pure_less lt) ?ys 0 ?n)"
    have n: "0 < ?n" using False by simp
    have nth: "?ys ! k = (if k = 0 then (x # xs) ! ?n else if k = ?n then x else (x # xs) ! k)" if "k \<le> ?n" for k
      using that by (subst nth_swap) auto
    have "le (?ys ! parent j) (?ys ! j)" if "0 < j" "j < ?n" "parent j \<noteq> 0" for j
      using heap_butD [OF assms [unfolded heap_def], of j] that parent_child(3) [of j] by (simp add: nth)
    then have but: "heap_but (Some 0) ?ys 0 ?n" using n by (intro heap_down_root) auto
    have down: "heap_but None ?zs 0 ?n" "length ?zs = Suc ?n"
      using heap_down_pure [of ?n ?ys 0 0] but n by simp_all
    have rem: "heap_Remove (pure_less lt) (x # xs) 0 = butlast ?zs"
      using n by (simp add: heap_Remove_0)
    have "heap (butlast ?zs)"
      using down by (auto simp: heap_def heap_but_def nth_butlast order.strict_trans [OF parent_child(3)])
    then show ?thesis using rem pure.Remove_contents [of x xs] by simp
  qed
  then show "heap (heap_Remove (pure_less lt) (x # xs) 0)"
    "mset (heap_Remove (pure_less lt) (x # xs) 0) = mset xs" by simp_all
qed

lemma heap_Init_pure: "heap (heap_Init (pure_less lt) xs) \<and> mset (heap_Init (pure_less lt) xs) = mset xs"
proof -
  let ?f = "down_at (pure_less lt)"
  have "heap_but None (foldr ?f [k..<length xs div 2] xs) k (length xs)
      \<and> mset (foldr ?f [k..<length xs div 2] xs) = mset xs" if "k \<le> length xs div 2" for k
    using that
  proof (induction rule: inc_induct)
    case base
    have "\<not> length xs div 2 \<le> parent j" if "0 < j" "j < length xs" for j
      using that unfolding parent_def by presburger
    then show ?case by (auto simp: heap_but_def)
  next
    case (step k)
    let ?ys = "foldr ?f [Suc k..<length xs div 2] xs"
    have len: "length ?ys = length xs" using step.IH by (metis size_mset)
    have "heap_but (Some k) ?ys k (length xs)"
      using step.IH parent_child(3) [of k] by (auto simp: heap_but_def not_less_eq_eq dest!: le_antisym)
    moreover have "k < length xs" using step.hyps by simp
    ultimately have "heap_but None (?f k ?ys) k (length xs) \<and> mset (?f k ?ys) = mset ?ys"
      using heap_down_pure [of "length xs" ?ys k k] len by (simp add: down_at_def)
    moreover have "foldr ?f [k..<length xs div 2] xs = ?f k ?ys"
      using step.hyps by (simp add: upt_conv_Cons)
    ultimately show ?case using step.IH by simp
  qed
  from this [of 0] have "heap_but None (heap_Init (pure_less lt) xs) 0 (length xs)"
    and "mset (heap_Init (pure_less lt) xs) = mset xs" by (simp_all add: heap_Init_def)
  then show ?thesis unfolding heap_def by (metis size_mset)
qed

end

section \<open>Peeking\<close>

text \<open>A \<^verbatim>\<open>Less\<close> that peeks and compares what the elements stand for.\<close>

locale peeking = heap_order lt + peek_state cmp rem
  for lt :: "'x \<Rightarrow> 'x \<Rightarrow> bool" and cmp :: "'f go_less" and rem :: "'f \<Rightarrow> 'x" +
  assumes less_fst: "i < length h \<Longrightarrow> j < length h \<Longrightarrow> fst (cmp h i j) \<longleftrightarrow> lt (rem (h ! i)) (rem (h ! j))"
begin

lemma less_cases:
  assumes "i < length h" "j < length h"
  obtains h' where "cmp h i j = (lt (rem (h ! i)) (rem (h ! j)), h')" "map rem h' = map rem h" "length h' = length h"
proof -
  obtain b h' where "cmp h i j = (b, h')" "map rem h' = map rem h" "length h' = length h"
    using assms by (rule cmp_cases)
  then show ?thesis using that less_fst [OF assms] by simp
qed

lemma smaller_child_refines:
  assumes "n \<le> length h" and "2 * i + 1 < n"
  obtains j h' where "smaller_child cmp h i n = (j, h')" "smaller_child (pure_less lt) (map rem h) i n = (j, map rem h)"
    "map rem h' = map rem h" "length h' = length h" "j < n"
proof (cases "2 * i + 2 < n")
  case True
  obtain h' where h': "cmp h (2 * i + 2) (2 * i + 1) = (lt (rem (h ! (2 * i + 2))) (rem (h ! (2 * i + 1))), h')"
    "map rem h' = map rem h" "length h' = length h"
    by (rule less_cases [of "2 * i + 2" h "2 * i + 1"]) (use assms True in auto)
  let ?j = "if lt (rem (h ! (2 * i + 2))) (rem (h ! (2 * i + 1))) then 2 * i + 2 else 2 * i + 1"
  show ?thesis
  proof (rule that [of ?j h'])
    show "smaller_child cmp h i n = (?j, h')" using True h'(1) by (simp add: smaller_child_def)
    show "smaller_child (pure_less lt) (map rem h) i n = (?j, map rem h)"
      using True assms by (simp add: smaller_child_pure)
  qed (use h' True in auto)
next
  case False
  show ?thesis
    by (rule that [of "2 * i + 1" h]) (use False assms in \<open>simp_all add: smaller_child_def\<close>)
qed

lemma heap_down_refines:
  assumes "n \<le> length h" and "i < length h"
  shows "fst (heap_down cmp h i n) = fst (heap_down (pure_less lt) (map rem h) i n)"
    and "map rem (snd (heap_down cmp h i n)) = snd (heap_down (pure_less lt) (map rem h) i n)"
proof -
  have "heap_down (pure_less lt) (map rem h) i n = map_prod id (map rem) (heap_down cmp h i n)"
    using assms
  proof (induction "n - i" arbitrary: i h rule: less_induct)
    case (less i h)
    show ?case
    proof (cases "n \<le> 2 * i + 1")
      case True
      then show ?thesis by (simp add: heap_down.simps)
    next
      case False
      then obtain j h1 where j: "smaller_child cmp h i n = (j, h1)"
        "smaller_child (pure_less lt) (map rem h) i n = (j, map rem h)"
        "map rem h1 = map rem h" "length h1 = length h" "j < n"
        using smaller_child_refines [OF less.prems(1), of i] by auto
      have ij: "i < j" using smaller_child_cases [of cmp h i n] j(1) by auto
      obtain h2 where h2: "cmp h1 j i = (lt (rem (h1 ! j)) (rem (h1 ! i)), h2)"
        "map rem h2 = map rem h1" "length h2 = length h1"
        using less_cases [of j h1 i] j less.prems by auto
      have r: "rem (h1 ! j) = rem (h ! j)" "rem (h1 ! i) = rem (h ! i)"
        using rem_nth [OF j(3)] j(5) less.prems by auto
      have "heap_down (pure_less lt) (map rem (swap h2 i j)) j n = map_prod id (map rem) (heap_down cmp (swap h2 i j) j n)"
        using less.hyps [of j "swap h2 i j"] less.prems j h2 ij False by simp
      moreover have "map rem (swap h2 i j) = swap (map rem h) i j"
        using j h2 less.prems by (simp add: map_swap)
      ultimately show ?thesis
        using False j h2 r less.prems
        by (simp add: heap_down.simps [of _ _ i] pure_less_def)
    qed
  qed
  then show "fst (heap_down cmp h i n) = fst (heap_down (pure_less lt) (map rem h) i n)"
    "map rem (snd (heap_down cmp h i n)) = snd (heap_down (pure_less lt) (map rem h) i n)"
    by simp_all
qed

lemma heap_Fix_refines:
  "h \<noteq> [] \<Longrightarrow> map rem (heap_Fix cmp h 0) = heap_Fix (pure_less lt) (map rem h) 0"
  using heap_down_refines [of "length h" h 0] by (simp add: heap_Fix_0)

lemma heap_Remove_refines:
  "h \<noteq> [] \<Longrightarrow> map rem (heap_Remove cmp h 0) = heap_Remove (pure_less lt) (map rem h) 0"
  using heap_down_refines [of "length h - 1" "swap h 0 (length h - 1)" 0]
  by (cases "length h - 1 = 0") (simp_all add: heap_Remove_0 map_swap map_butlast)

lemma down_at_refines:
  "i < length h \<Longrightarrow> map rem (down_at cmp i h) = down_at (pure_less lt) i (map rem h)"
  using heap_down_refines(2) [of "length h" h i] by (simp add: down_at_def)

lemma length_down_at: "i < length h \<Longrightarrow> length (down_at cmp i h) = length h"
  using down_at_refines [of i h] by (metis down_at_def heap_down_length length_map)

lemma heap_Init_refines: "map rem (heap_Init cmp h) = heap_Init (pure_less lt) (map rem h)"
proof -
  have "map rem (foldr (down_at cmp) [k..<n] h) = foldr (down_at (pure_less lt)) [k..<n] (map rem h)
      \<and> length (foldr (down_at cmp) [k..<n] h) = length h"
    if "k \<le> n" "n \<le> length h" for k n
    using that
  proof (induction rule: inc_induct)
    case (step k)
    then show ?case by (simp add: upt_conv_Cons down_at_refines length_down_at)
  qed simp
  from this [of 0 "length h div 2"] show ?thesis by (simp add: heap_Init_def)
qed

text \<open>What the iterators need: the heap order of what the files stand for, and the files kept.\<close>

abbreviation ordered :: "'f list \<Rightarrow> bool" where
  "ordered h \<equiv> heap (map rem h)"

lemma Init_ordered: "ordered (heap_Init cmp h)" "mset (map rem (heap_Init cmp h)) = mset (map rem h)"
  using heap_Init_pure unfolding heap_Init_refines by blast+

lemma Fix_ordered:
  assumes "ordered (f # h)"
  shows "ordered (heap_Fix cmp (g # h) 0)" "mset (map rem (heap_Fix cmp (g # h) 0)) = mset (map rem (g # h))"
  using heap_replace [of "rem f" "map rem h" "rem g"] assms heap_Fix_refines [of "g # h"] by simp_all

lemma Remove_ordered:
  assumes "ordered (f # h)"
  shows "ordered (heap_Remove cmp (f # h) 0)" "mset (map rem (heap_Remove cmp (f # h) 0)) = mset (map rem h)"
  using heap_Remove_first [of "rem f" "map rem h"] assms heap_Remove_refines [of "f # h"] by simp_all

lemma first_least: "ordered (f # h) \<Longrightarrow> g \<in> set (f # h) \<Longrightarrow> \<not> lt (rem g) (rem f)"
  using heap_least [of "map rem (f # h)" "rem g"] by auto

end

end
