(* ===== verification/Merge.thy ===== *)
theory Merge
  imports GoHeap GoFile
begin

text \<open>
  The merge of sorted files, common to the iterators over symbols and over series of
  \<^verbatim>\<open>pkg/tsdb\<close>: files that are read through a one-element cache are kept in a heap. What a file
  will still give is a stream, the results of the decoder in order; at its end a decoder gives
  \<^verbatim>\<open>io.EOF\<close> for ever. The locale \<open>file_merge\<close> is the interface between the files and the
  iterators.
\<close>

section \<open>Streams\<close>

type_synonym 'a stream = "(go_err + 'a) list"

text \<open>The ends of a stream cannot be told from its exhaustion.\<close>

fun strip :: "'a stream \<Rightarrow> 'a stream" where
  "strip [] = []"
| "strip (x # xs) = (if x = Inl EOF \<and> strip xs = [] then [] else x # strip xs)"

lemma tl_strip: "tl (strip (x # xs)) = strip xs"
  by auto

definition head_item :: "'a stream \<Rightarrow> go_err + 'a" where
  "head_item s = (case s of [] \<Rightarrow> Inl EOF | x # _ \<Rightarrow> x)"

lemma head_item_simps [simp]: "head_item [] = Inl EOF" "head_item (x # xs) = x"
  by (simp_all add: head_item_def)

lemma head_item_strip: "head_item (strip (x # xs)) = x"
  by auto

lemma strip_Inr [simp]: "strip (map Inr xs) = map Inr xs"
  by (induction xs) auto

text \<open>The key of the next result, the least key at the end and for an error.\<close>

definition head_key :: "('a \<Rightarrow> 'k) \<Rightarrow> 'k \<Rightarrow> 'a stream \<Rightarrow> 'k" where
  "head_key key k0 s = (case head_item s of Inl _ \<Rightarrow> k0 | Inr x \<Rightarrow> key x)"

section \<open>The interface of the files\<close>

text \<open>Files that can be peeked into and advanced; no order is needed to see that reading ends.\<close>

locale file_source = peek_state cmp rem
  for cmp :: "'f go_less" and rem :: "'f \<Rightarrow> 'a stream" +
  fixes advance :: "'f \<Rightarrow> (go_err + 'a) \<times> 'f"
  assumes advance_item: "fst (advance f) = head_item (rem f)"
    and advance_rem: "rem (snd (advance f)) = tl (rem f)"
begin

text \<open>What is left to read in all files, with one for each file: it decreases in every step.\<close>

definition left :: "'f list \<Rightarrow> nat" where
  "left h = (\<Sum>s \<in># mset (map rem h). Suc (length s))"

definition contents :: "'f list \<Rightarrow> 'a stream multiset" where
  "contents h = mset (map rem h)"

lemma contents_Cons [simp]: "contents (f # h) = add_mset (rem f) (contents h)"
  by (simp add: contents_def)

lemma contents_Nil [simp]: "contents [] = {#}"
  by (simp add: contents_def)

lemma left_contents: "left h = (\<Sum>s \<in># contents h. Suc (length s))"
  by (simp add: left_def contents_def)

lemma advanceD:
  assumes "advance f = (r, g)"
  shows "r = head_item (rem f)" and "rem g = tl (rem f)"
  using advance_item [of f] advance_rem [of f] assms by simp_all

lemma advance_error: "advance f = (Inl EOF, g) \<Longrightarrow> rem f = [] \<or> (\<exists>s. rem f = Inl EOF # s)"
  by (cases "rem f") (auto dest: advanceD(1))

lemma advance_value:
  assumes "advance f = (Inr x, g)"
  shows "rem f = Inr x # rem g"
  using advanceD [OF assms] by (cases "rem f") auto

lemma Remove_left: "left (heap_Remove cmp (g # h) 0) < left (f # h)"
  using Remove_contents [of g h] by (simp add: left_def)

lemma Fix_left:
  assumes "advance f = (Inr x, g)"
  shows "left (heap_Fix cmp (g # h) 0) < left (f # h)"
  using Fix_contents [of g h] advance_value [OF assms] by (simp add: left_def)

end

locale file_merge = file_source cmp rem advance
  for cmp :: "'f go_less" and rem :: "'f \<Rightarrow> 'a stream" and advance :: "'f \<Rightarrow> (go_err + 'a) \<times> 'f" +
  fixes klt :: "'k \<Rightarrow> 'k \<Rightarrow> bool" and k0 :: 'k and key :: "'a \<Rightarrow> 'k"
  assumes klt_asym: "klt a b \<Longrightarrow> \<not> klt b a"
    and klt_neg_trans: "\<not> klt b a \<Longrightarrow> \<not> klt c b \<Longrightarrow> \<not> klt c a"
    and k0_least: "\<not> klt a k0"
    and cmp_fst: "i < length h \<Longrightarrow> j < length h \<Longrightarrow>
      fst (cmp h i j) \<longleftrightarrow> klt (head_key key k0 (rem (h ! i))) (head_key key k0 (rem (h ! j)))"

sublocale file_merge \<subseteq> peeking "\<lambda>s t. klt (head_key key k0 s) (head_key key k0 t)" cmp rem
proof (unfold_locales, goal_cases)
  case 1
  then show ?case by (rule klt_asym)
next
  case 2
  then show ?case by (rule klt_neg_trans)
next
  case 3
  then show ?case by (rule cmp_fst)
qed

context file_merge begin

text \<open>A file at its end is dropped; a value is taken: contents and order.\<close>

lemma drop_step:
  assumes "ordered (f # h)" and "rem f = []" and "advance f = (Inl EOF, g)"
  shows "ordered (heap_Remove cmp (g # h) 0)" and "contents (heap_Remove cmp (g # h) 0) = contents h"
proof -
  have "map rem (g # h) = map rem (f # h)" using advanceD(2) [OF assms(3)] assms(2) by simp
  then have "ordered (g # h)" using assms(1) by metis
  then show "ordered (heap_Remove cmp (g # h) 0)" by (rule Remove_ordered)
  show "contents (heap_Remove cmp (g # h) 0) = contents h"
    using Remove_contents [of g h] by (simp add: contents_def)
qed

lemma take_step:
  assumes "ordered (f # h)"
  shows "ordered (heap_Fix cmp (g # h) 0)" and "contents (heap_Fix cmp (g # h) 0) = add_mset (rem g) (contents h)"
  using Fix_ordered [OF assms, of g] Fix_contents [of g h] by (simp_all add: contents_def)

text \<open>Streams of values in ascending order of their keys.\<close>

definition asc :: "'a list \<Rightarrow> bool" where
  "asc xs \<longleftrightarrow> sorted_wrt (\<lambda>a b. \<not> klt (key b) (key a)) xs"

definition ascending :: "'f list \<Rightarrow> bool" where
  "ascending h \<longleftrightarrow> (\<forall>s \<in># contents h. \<exists>xs. s = map Inr xs \<and> asc xs)"

definition vals :: "'f list \<Rightarrow> 'a multiset" where
  "vals h = (\<Sum>s \<in># contents h. mset (map projr s))"

lemma vals_Cons [simp]: "vals (f # h) = mset (map projr (rem f)) + vals h"
  by (simp add: vals_def)

lemma vals_Nil [simp]: "vals [] = {#}"
  by (simp add: vals_def)

lemma ascending_Cons: "ascending (f # h) \<longleftrightarrow> (\<exists>xs. rem f = map Inr xs \<and> asc xs) \<and> ascending h"
  by (simp add: ascending_def)

lemma ascending_cong: "contents h = contents h' \<Longrightarrow> ascending h = ascending h'"
  by (simp add: ascending_def)

lemma vals_cong: "contents h = contents h' \<Longrightarrow> vals h = vals h'"
  by (simp add: vals_def)

lemma ascending_advance:
  assumes "ascending (f # h)" and "advance f = (r, g)"
  shows "r = Inl EOF \<and> rem f = [] \<and> rem g = [] \<or> (\<exists>x. r = Inr x \<and> rem f = Inr x # rem g \<and> ascending (g # h))"
proof -
  obtain xs where xs: "rem f = map Inr xs" "asc xs" "ascending h" using assms(1) by (auto simp: ascending_Cons)
  show ?thesis
    using xs advanceD [OF assms(2)] by (cases xs) (auto simp: ascending_Cons asc_def)
qed

text \<open>A value that is taken is a least one of all that are left.\<close>

lemma taken_least:
  assumes "ordered (f # h)" and "ascending (f # h)" and "rem f = Inr x # s" and "y \<in># vals (f # h)"
  shows "\<not> klt (key y) (key x)"
proof -
  obtain t where t: "t \<in># contents (f # h)" "y \<in> set (map projr t)"
    using assms(4) by (auto simp: vals_def)
  then obtain xs where xs: "t = map Inr xs" "asc xs" using assms(2) by (auto simp: ascending_def)
  then have y: "y \<in> set xs" using t(2) by (simp add: comp_def)
  then obtain z zs where z: "xs = z # zs" by (cases xs) auto
  obtain g where g: "g \<in> set (f # h)" "rem g = t" using t(1) by (auto simp: contents_def)
  have "\<not> klt (key z) (key x)"
    using first_least [OF assms(1) g(1)] assms(3) g(2) xs(1) z by (simp add: head_key_def)
  moreover have "\<not> klt (key y) (key z)"
    using xs(2) y z klt_asym by (auto simp: asc_def)
  ultimately show ?thesis by (rule klt_neg_trans)
qed

end

end
