(* ===== verification/Strings.thy ===== *)
theory Strings
  imports Calendar
begin

text \<open>
  What the code uses of Go's \<^verbatim>\<open>strings\<close>, \<^verbatim>\<open>strconv\<close>, \<^verbatim>\<open>path/filepath\<close> and \<^verbatim>\<open>time\<close> packages on
  strings.
\<close>

section \<open>Numbers and dates\<close>

text \<open>The decimal digits of a number.\<close>

fun dec :: "nat \<Rightarrow> string" where
  "dec n = (if n < 10 then [char_of (48 + n)] else dec (n div 10) @ [char_of (48 + n mod 10)])"

declare dec.simps [simp del]

text \<open>Different numbers have different digits: they can be read back.\<close>

definition undec :: "string \<Rightarrow> nat" where
  "undec s = foldl (\<lambda>a c. 10 * a + (of_char c - 48)) 0 s"

lemma undec_dec [simp]: "undec (dec n) = n"
proof (induction n rule: dec.induct)
  case (1 n)
  have digit: "of_char (char_of (48 + d) :: char) - 48 = d" if "d < 10" for d :: nat
    using that by (simp add: of_char_of)
  show ?case
  proof (cases "n < 10")
    case True
    then show ?thesis using digit [of n] by (simp add: dec.simps [of n] undec_def)
  next
    case False
    then have "foldl (\<lambda>a c. 10 * a + (of_char c - 48)) 0 (dec (n div 10)) = n div 10"
      using 1 by (simp add: undec_def)
    then show ?thesis using False digit [of "n mod 10"] by (simp add: dec.simps [of n] undec_def)
  qed
qed

lemma dec_inject [simp]: "dec m = dec n \<longleftrightarrow> m = n"
  by (metis undec_dec)

lemma undec_zeros: "undec (replicate n (CHR ''0'') @ s) = undec s"
  by (induction n) (simp_all add: undec_def)

text \<open>\<^verbatim>\<open>appendInt\<close> of the \<^verbatim>\<open>time\<close> package: zero padded.\<close>

definition appendInt :: "int \<Rightarrow> nat \<Rightarrow> string" where
  "appendInt x width =
     (let ds = dec (nat \<bar>x\<bar>)
      in (if x < 0 then ''-'' else []) @ replicate (width - length ds) (CHR ''0'') @ ds)"

text \<open>\<^verbatim>\<open>Format("2006-01-02")\<close> of a date.\<close>

definition format_date :: "int \<times> int \<times> int \<Rightarrow> string" where
  "format_date ymd =
     (case ymd of (y, m, d) \<Rightarrow> appendInt y 4 @ ''-'' @ appendInt m 2 @ ''-'' @ appendInt d 2)"

lemma format_date_examples:
  "format_date (2024, 2, 9) = ''2024-02-09''" "format_date (987, 12, 31) = ''0987-12-31''"
  by code_simp+

section \<open>Strings\<close>

text \<open>\<^verbatim>\<open>strings.Join\<close>, \<^verbatim>\<open>strings.TrimPrefix\<close>, \<^verbatim>\<open>strings.TrimSuffix\<close>.\<close>

fun join :: "string \<Rightarrow> string list \<Rightarrow> string" where
  "join sep [] = []"
| "join sep [s] = s"
| "join sep (s # t # ts) = s @ sep @ join sep (t # ts)"

definition TrimPrefix :: "string \<Rightarrow> string \<Rightarrow> string" where
  "TrimPrefix s pre = (if prefix pre s then drop (length pre) s else s)"

definition TrimSuffix :: "string \<Rightarrow> string \<Rightarrow> string" where
  "TrimSuffix s suf = (if suffix suf s then take (length s - length suf) s else s)"

text \<open>\<^verbatim>\<open>strings.ReplaceAll\<close> of one character by another.\<close>

definition replace_char :: "char \<Rightarrow> char \<Rightarrow> string \<Rightarrow> string" where
  "replace_char old new s = map (\<lambda>c. if c = old then new else c) s"

text \<open>\<^verbatim>\<open>strings.ToLower\<close> of an ASCII string.\<close>

definition ToLower :: "string \<Rightarrow> string" where
  "ToLower s = map (\<lambda>c. let n = (of_char c :: nat) in if 65 \<le> n \<and> n \<le> 90 then char_of (n + 32) else c) s"

text \<open>
  \<^verbatim>\<open>utf8.ValidString\<close>, as the package does it: the first byte gives the number of bytes and the range of the
  second one, the others are continuation bytes.
\<close>

definition utf8_first :: "nat \<Rightarrow> (nat \<times> nat \<times> nat) option" where
  "utf8_first n =
     (if n < 194 then None
      else if n < 224 then Some (2, 128, 191)
      else if n = 224 then Some (3, 160, 191)
      else if n = 237 then Some (3, 128, 159)
      else if n < 240 then Some (3, 128, 191)
      else if n = 240 then Some (4, 144, 191)
      else if n < 244 then Some (4, 128, 191)
      else if n = 244 then Some (4, 128, 143)
      else None)"

function ValidString :: "string \<Rightarrow> bool" where
  "ValidString [] = True"
| "ValidString (c # s) =
     (if (of_char c :: nat) < 128 then ValidString s
      else
        (case utf8_first (of_char c) of
           None \<Rightarrow> False
         | Some (width, lo, hi) \<Rightarrow>
             width - 1 \<le> length s \<and> lo \<le> (of_char (hd s) :: nat) \<and> (of_char (hd s) :: nat) \<le> hi \<and>
             list_all (\<lambda>c. 128 \<le> (of_char c :: nat) \<and> (of_char c :: nat) \<le> 191) (take (width - 2) (tl s)) \<and>
             ValidString (drop (width - 1) s)))"
  by pat_completeness auto
termination by (relation "measure length") auto

lemma ValidString_ascii: "list_all (\<lambda>c. (of_char c :: nat) < 128) s \<Longrightarrow> ValidString s"
  by (induction s) simp_all

declare ValidString.simps(2) [simp del]

lemma ValidString_examples:
  "ValidString [CHR 0xE2, CHR 0x82, CHR 0xAC, CHR ''a'']" "\<not> ValidString [CHR ''a'', CHR 0xE2, CHR 0x82]"
  "\<not> ValidString [CHR 0xC0, CHR 0x80]" "\<not> ValidString [CHR 0xED, CHR 0xA0, CHR 0x80]"
  by code_simp+

text \<open>\<^verbatim>\<open>filepath.Ext\<close>: from the last dot of the last path element on.\<close>

definition Ext :: "string \<Rightarrow> string" where
  "Ext path =
     (let base = takeWhile (\<lambda>c. c \<noteq> CHR ''/'') (rev path);
          ext = takeWhile (\<lambda>c. c \<noteq> CHR ''.'') base
      in if length ext < length base then CHR ''.'' # rev ext else [])"

text \<open>A string as its bytes, and back.\<close>

definition to_bytes :: "string \<Rightarrow> bytes" where
  "to_bytes s = map of_char s"

definition from_bytes :: "bytes \<Rightarrow> string" where
  "from_bytes bs = map (\<lambda>b. char_of (unat b)) bs"

lemma to_bytes_inj [simp]: "to_bytes s = to_bytes t \<longleftrightarrow> s = t"
proof -
  have "inj (of_char :: char \<Rightarrow> byte)"
  proof (rule injI)
    fix a b :: char assume eq: "(of_char a :: byte) = of_char b"
    have "unat (of_char c :: byte) = of_char c" for c :: char
    proof -
      have "unat (of_nat (of_char c) :: byte) = of_char c mod 256" by (simp add: unat_of_nat)
      then show ?thesis by (simp only: of_nat_of_char of_char_mod_256)
    qed
    then show "a = b" using eq by (metis of_char_eq_iff)
  qed
  then show ?thesis by (simp add: to_bytes_def inj_map_eq_map)
qed

text \<open>\<^verbatim>\<open>strings.Split\<close> at a single byte: never empty.\<close>

fun split_at :: "'a \<Rightarrow> 'a list \<Rightarrow> 'a list list" where
  "split_at sep [] = [[]]"
| "split_at sep (c # cs) =
     (if c = sep then [] # split_at sep cs
      else case split_at sep cs of [] \<Rightarrow> [[c]] | p # ps \<Rightarrow> (c # p) # ps)"

text \<open>Putting the pieces together again.\<close>

fun unsplit :: "'a \<Rightarrow> 'a list list \<Rightarrow> 'a list" where
  "unsplit sep [] = []"
| "unsplit sep [p] = p"
| "unsplit sep (p # q # ps) = p @ sep # unsplit sep (q # ps)"

lemma split_at_nonempty [simp]: "split_at sep s \<noteq> []"
  by (cases s) (auto split: list.splits)

lemma unsplit_split_at [simp]: "unsplit sep (split_at sep s) = s"
proof (induction s)
  case (Cons c s)
  obtain p ps where "split_at sep s = p # ps" using split_at_nonempty [of sep s] by (cases "split_at sep s") auto
  then show ?case using Cons by (cases ps) auto
qed simp

lemma takeWhile_stop:
  assumes "length (takeWhile P xs) < length xs"
  obtains y ys where "xs = takeWhile P xs @ y # ys" "\<not> P y"
proof -
  have "dropWhile P xs \<noteq> []" using assms by (metis append_Nil2 less_irrefl takeWhile_dropWhile_id)
  then obtain y ys where "dropWhile P xs = y # ys" by (meson neq_Nil_conv)
  with that show ?thesis by (metis hd_dropWhile list.distinct(1) list.sel(1) takeWhile_dropWhile_id)
qed

lemma Ext_suffix: "suffix (Ext path) path"
proof -
  define base where "base = takeWhile (\<lambda>c. c \<noteq> CHR ''/'') (rev path)"
  define ext where "ext = takeWhile (\<lambda>c. c \<noteq> CHR ''.'') base"
  show ?thesis
  proof (cases "length ext < length base")
    case True
    then obtain y ys where base: "base = ext @ y # ys" "\<not> y \<noteq> CHR ''.''"
      using takeWhile_stop [of "\<lambda>c. c \<noteq> CHR ''.''" base] unfolding ext_def by blast
    obtain zs where "rev path = base @ zs"
      unfolding base_def by (metis takeWhile_dropWhile_id)
    then have "rev path = (ext @ [CHR ''.'']) @ ys @ zs" using base by simp
    then have "rev (rev path) = rev ((ext @ [CHR ''.'']) @ ys @ zs)" by (rule arg_cong)
    then have "path = rev (ys @ zs) @ CHR ''.'' # rev ext" by simp
    moreover have "Ext path = CHR ''.'' # rev ext"
      using True by (simp only: Ext_def Let_def base_def [symmetric] ext_def [symmetric] if_True)
    ultimately show ?thesis by (metis suffixI)
  next
    case False
    then have "Ext path = []"
      by (simp only: Ext_def Let_def base_def [symmetric] ext_def [symmetric] if_False)
    then show ?thesis by (metis suffix_bot.bot_least)
  qed
qed

lemma TrimSuffix_append [simp]: "TrimSuffix (s @ suf) suf = s"
  by (auto simp: TrimSuffix_def suffix_def)

lemma TrimPrefix_append [simp]: "TrimPrefix (pre @ s) pre = s"
  by (simp add: TrimPrefix_def)

end
