(* ===== verification/SymbolsBatch.thy ===== *)
theory SymbolsBatch
  imports Merge Strings "HOL-Library.List_Lexorder"
begin

text \<open>
  \<^verbatim>\<open>pkg/tsdb/symbols_batch.go\<close>: symbols are collected in memory, flushed to files in sorted
  batches, and read back as one sorted sequence without duplicates. A symbol is a Go string, a
  list of bytes with the lexicographic order. The codec (gob over snappy) is represented by what
  it does: the disk maps a file name to the results that decoding the file gives.
\<close>

section \<open>The batcher\<close>

type_synonym 'a batch_disk = "string \<Rightarrow> 'a stream option"

text \<open>
  What goes wrong when a file is written: nothing, or an error after which decoding the file
  gives some stream.
\<close>

type_synonym 'a batch_faults = "string \<Rightarrow> (go_err \<times> 'a stream) option"

record symbolsBatcher =
  syb_dir :: string
  syb_limit :: int
  syb_files :: "string list"
  syb_buffer :: "bytes set"

definition newSymbolsBatcher :: "int \<Rightarrow> string \<Rightarrow> symbolsBatcher" where
  "newSymbolsBatcher limit dir =
     \<lparr>syb_dir = dir, syb_limit = limit, syb_files = [], syb_buffer = {}\<rparr>"

definition writeSymbolsToFile ::
    "bytes batch_faults \<Rightarrow> string \<Rightarrow> bytes list \<Rightarrow> bytes batch_disk \<Rightarrow> go_err option \<times> bytes batch_disk" where
  "writeSymbolsToFile faults filename symbols disk =
     (case faults filename of
        None \<Rightarrow> (None, disk(filename \<mapsto> map Inr symbols))
      | Some (e, s) \<Rightarrow> (Some e, disk(filename \<mapsto> s)))"

definition batch_file :: "string \<Rightarrow> string \<Rightarrow> nat \<Rightarrow> string" where
  "batch_file dir kind n = dir @ ''/'' @ kind @ dec n"

definition flushSymbols ::
    "bytes batch_faults \<Rightarrow> bool \<Rightarrow> symbolsBatcher \<Rightarrow> bytes batch_disk \<Rightarrow> go_err option \<times> symbolsBatcher \<times> bytes batch_disk" where
  "flushSymbols faults force sw disk =
     (if \<not> force \<and> int (card (syb_buffer sw)) < syb_limit sw then (None, sw, disk)
      else if card (syb_buffer sw) = 0 then (None, sw, disk)
      else
        let symbolsFile = batch_file (syb_dir sw) ''symbols_'' (length (syb_files sw));
            sw = sw\<lparr>syb_files := syb_files sw @ [symbolsFile]\<rparr>;
            sortedSymbols = sorted_list_of_set (syb_buffer sw);
            sw = sw\<lparr>syb_buffer := {}\<rparr>;
            (err, disk) = writeSymbolsToFile faults symbolsFile sortedSymbols disk
        in (err, sw, disk))"

definition addSymbol ::
    "bytes batch_faults \<Rightarrow> bytes \<Rightarrow> symbolsBatcher \<Rightarrow> bytes batch_disk \<Rightarrow> go_err option \<times> symbolsBatcher \<times> bytes batch_disk" where
  "addSymbol faults symb sw disk =
     flushSymbols faults False (sw\<lparr>syb_buffer := insert symb (syb_buffer sw)\<rparr>) disk"

section \<open>Files of symbols\<close>

record symbolsFile =
  syf_dec :: "bytes stream"
  syf_nextValid :: bool
  syf_nextSymbol :: bytes
  syf_nextErr :: "go_err option"

definition newSymbolsFile :: "bytes stream \<Rightarrow> symbolsFile" where
  "newSymbolsFile f = \<lparr>syf_dec = f, syf_nextValid = False, syf_nextSymbol = [], syf_nextErr = None\<rparr>"

definition sym_readNext :: "symbolsFile \<Rightarrow> (bytes \<times> go_err option) \<times> symbolsFile" where
  "sym_readNext sf =
     (case syf_dec sf of
        [] \<Rightarrow> (([], Some EOF), sf)
      | Inl e # ds \<Rightarrow> (([], Some e), sf\<lparr>syf_dec := ds\<rparr>)
      | Inr s # ds \<Rightarrow> ((s, None), sf\<lparr>syf_dec := ds\<rparr>))"

definition sym_Peek :: "symbolsFile \<Rightarrow> (bytes \<times> go_err option) \<times> symbolsFile" where
  "sym_Peek sf =
     (if syf_nextValid sf then ((syf_nextSymbol sf, syf_nextErr sf), sf)
      else
        let sf = sf\<lparr>syf_nextValid := True\<rparr>;
            ((s, e), sf) = sym_readNext sf
        in ((s, e), sf\<lparr>syf_nextSymbol := s, syf_nextErr := e\<rparr>))"

definition sym_Next :: "symbolsFile \<Rightarrow> (bytes \<times> go_err option) \<times> symbolsFile" where
  "sym_Next sf =
     (if syf_nextValid sf
      then ((syf_nextSymbol sf, syf_nextErr sf),
        sf\<lparr>syf_nextValid := False, syf_nextSymbol := [], syf_nextErr := None\<rparr>)
      else sym_readNext sf)"

definition sym_Less :: "symbolsFile go_less" where
  "sym_Less s i j =
     (let ((iw, ierr), fi) = sym_Peek (s ! i);
          s = s[i := fi];
          iw = (if ierr \<noteq> None then [] else iw);
          ((jw, jerr), fj) = sym_Peek (s ! j);
          s = s[j := fj];
          jw = (if jerr \<noteq> None then [] else jw)
      in (iw < jw, s))"

definition openFiles :: "'a batch_disk \<Rightarrow> string list \<Rightarrow> go_err + 'a stream list" where
  "openFiles disk filenames =
     (if \<forall>fn \<in> set filenames. disk fn \<noteq> None then Inr (map (the \<circ> disk) filenames) else Inl ENOENT)"

record symbolsIterator =
  syi_heap :: "symbolsFile list"
  syi_lastReturned :: "bytes option"

definition newSymbolsIterator :: "bytes batch_disk \<Rightarrow> string list \<Rightarrow> go_err + symbolsIterator" where
  "newSymbolsIterator disk filenames =
     (case openFiles disk filenames of
        Inl e \<Rightarrow> Inl e
      | Inr files \<Rightarrow> Inr \<lparr>syi_heap = heap_Init sym_Less (map newSymbolsFile files), syi_lastReturned = None\<rparr>)"

section \<open>What a file stands for\<close>

definition as_item :: "'a \<times> go_err option \<Rightarrow> go_err + 'a" where
  "as_item r = (case r of (s, None) \<Rightarrow> Inr s | (s, Some e) \<Rightarrow> Inl e)"

definition sym_rem :: "symbolsFile \<Rightarrow> bytes stream" where
  "sym_rem sf = strip ((if syf_nextValid sf then [as_item (syf_nextSymbol sf, syf_nextErr sf)] else []) @ syf_dec sf)"

definition sym_advance :: "symbolsFile \<Rightarrow> (go_err + bytes) \<times> symbolsFile" where
  "sym_advance sf = map_prod as_item id (sym_Next sf)"

lemma sym_Peek_item: "as_item (fst (sym_Peek sf)) = head_item (sym_rem sf)"
  by (auto simp: sym_Peek_def sym_readNext_def sym_rem_def as_item_def Let_def head_item_strip
      simp del: strip.simps(2) split: list.splits sum.splits)

lemma sym_Peek_rem: "sym_rem (snd (sym_Peek sf)) = sym_rem sf"
  by (auto simp: sym_Peek_def sym_readNext_def sym_rem_def as_item_def Let_def split: list.splits sum.splits)

lemma sym_Next_item: "as_item (fst (sym_Next sf)) = head_item (sym_rem sf)"
  by (auto simp: sym_Next_def sym_readNext_def sym_rem_def as_item_def Let_def head_item_strip
      simp del: strip.simps(2) split: list.splits sum.splits)

lemma sym_Next_rem: "sym_rem (snd (sym_Next sf)) = tl (sym_rem sf)"
  by (auto simp: sym_Next_def sym_readNext_def sym_rem_def as_item_def Let_def tl_strip
      simp del: strip.simps(2) split: list.splits sum.splits)

lemma head_key_item:
  "as_item (w, err) = head_item s \<Longrightarrow> (if err \<noteq> None then k0 else key w) = head_key key k0 s"
  by (cases err) (auto simp: head_key_def as_item_def dest: sym)

lemma sym_Less_eq:
  assumes "i < length h" "j < length h"
  shows "fst (sym_Less h i j) \<longleftrightarrow> head_key (\<lambda>x. x) [] (sym_rem (h ! i)) < head_key (\<lambda>x. x) [] (sym_rem (h ! j))"
    and "map sym_rem (snd (sym_Less h i j)) = map sym_rem h"
proof -
  obtain iw ierr fi where i: "sym_Peek (h ! i) = ((iw, ierr), fi)" by (metis surj_pair)
  let ?h = "h[i := fi]"
  obtain jw jerr fj where j: "sym_Peek (?h ! j) = ((jw, jerr), fj)" by (metis surj_pair)
  have ri: "sym_rem fi = sym_rem (h ! i)" using sym_Peek_rem [of "h ! i"] i by simp
  then have h: "map sym_rem ?h = map sym_rem h"
    using assms by (intro map_update_same) auto
  have hj: "sym_rem (?h ! j) = sym_rem (h ! j)"
    using h assms by (metis length_list_update nth_map)
  then have rj: "sym_rem fj = sym_rem (h ! j)" using sym_Peek_rem [of "?h ! j"] j by simp
  have "(if ierr \<noteq> None then [] else iw) = head_key (\<lambda>x. x) [] (sym_rem (h ! i))"
    using head_key_item [of iw ierr "sym_rem (h ! i)" "[]" "\<lambda>x. x"] sym_Peek_item [of "h ! i"] i by (cases ierr) simp_all
  moreover have "(if jerr \<noteq> None then [] else jw) = head_key (\<lambda>x. x) [] (sym_rem (h ! j))"
    using head_key_item [of jw jerr "sym_rem (h ! j)" "[]" "\<lambda>x. x"] sym_Peek_item [of "?h ! j"] j hj by (cases jerr) simp_all
  ultimately show "fst (sym_Less h i j) \<longleftrightarrow> head_key (\<lambda>x. x) [] (sym_rem (h ! i)) < head_key (\<lambda>x. x) [] (sym_rem (h ! j))"
    using i j by (simp add: sym_Less_def)
  have "map sym_rem (?h[j := fj]) = map sym_rem ?h"
    using rj hj assms by (intro map_update_same) auto
  then show "map sym_rem (snd (sym_Less h i j)) = map sym_rem h"
    using i j h by (simp add: sym_Less_def)
qed

interpretation symf: file_merge sym_Less sym_rem sym_advance "(<)" "[]" "\<lambda>x. x"
proof (unfold_locales, goal_cases)
  case (1 i h j)
  then show ?case by (rule sym_Less_eq)
next
  case (2 f)
  then show ?case using sym_Next_item by (simp add: sym_advance_def)
next
  case (3 f)
  then show ?case using sym_Next_rem by (simp add: sym_advance_def)
next
  case (7 i h j)
  then show ?case by (rule sym_Less_eq)
qed auto

section \<open>The iterator\<close>

text \<open>
  The loop of \<^verbatim>\<open>NextSymbol\<close>. The measure is what is left in the files: a file at its end is
  removed, and a value that is skipped as a duplicate has been taken.
\<close>

function NextSymbol :: "symbolsIterator \<Rightarrow> (go_err + bytes) \<times> symbolsIterator" where
  "NextSymbol sit =
     (case syi_heap sit of
        [] \<Rightarrow> (Inl EOF, sit)
      | f # fs \<Rightarrow>
          (case sym_advance f of
             (Inl e, f') \<Rightarrow>
               if e = EOF then NextSymbol (sit\<lparr>syi_heap := heap_Remove sym_Less (f' # fs) 0\<rparr>)
               else (Inl e, sit\<lparr>syi_heap := f' # fs\<rparr>)
           | (Inr result, f') \<Rightarrow>
               let sit = sit\<lparr>syi_heap := heap_Fix sym_Less (f' # fs) 0\<rparr>
               in if syi_lastReturned sit = Some result then NextSymbol sit
                  else (Inr result, sit\<lparr>syi_lastReturned := Some result\<rparr>)))"
  by pat_completeness auto
termination
  by (relation "measure (\<lambda>sit. symf.left (syi_heap sit))")
    (use symf.Remove_left symf.Fix_left in \<open>auto dest: sym\<close>)

declare NextSymbol.simps [simp del]

lemma NextSymbol_left:
  "NextSymbol sit = (Inr s, sit') \<Longrightarrow> symf.left (syi_heap sit') < symf.left (syi_heap sit)"
proof (induction sit rule: NextSymbol.induct)
  case (1 sit)
  show ?case
  proof (cases "syi_heap sit")
    case Nil
    with "1.prems" show ?thesis by (simp add: NextSymbol.simps [of sit])
  next
    case (Cons f fs)
    obtain r g where a: "sym_advance f = (r, g)" by fastforce
    show ?thesis
    proof (cases r)
      case (Inl e)
      then have e: "e = EOF" using "1.prems" a Cons by (simp add: NextSymbol.simps [of sit] split: if_splits)
      have "symf.left (syi_heap sit') < symf.left (heap_Remove sym_Less (g # fs) 0)"
        using "1.IH"(1) [OF Cons a [symmetric] Inl e] "1.prems" a Cons Inl e by (simp add: NextSymbol.simps [of sit])
      then show ?thesis using symf.Remove_left [of g fs f] Cons by simp
    next
      case (Inr x)
      have smaller: "symf.left (heap_Fix sym_Less (g # fs) 0) < symf.left (f # fs)"
        using a Inr by (intro symf.Fix_left) simp
      show ?thesis
      proof (cases "syi_lastReturned sit = Some x")
        case True
        then have "symf.left (syi_heap sit') < symf.left (heap_Fix sym_Less (g # fs) 0)"
          using "1.IH"(2) [OF Cons a [symmetric] Inr refl] "1.prems" a Cons Inr by (simp add: NextSymbol.simps [of sit])
        then show ?thesis using smaller Cons by simp
      next
        case False
        then show ?thesis using "1.prems" a Cons Inr smaller by (auto simp: NextSymbol.simps [of sit])
      qed
    qed
  qed
qed

text \<open>\<open>add\<close> is the index writer's \<^verbatim>\<open>AddSymbol\<close>; closing the files may give an error.\<close>

function addSymbols_loop ::
    "('iw \<Rightarrow> bytes \<Rightarrow> go_err option \<times> 'iw) \<Rightarrow> symbolsIterator \<Rightarrow> 'iw \<Rightarrow> go_err \<times> 'iw" where
  "addSymbols_loop add si indexWriter =
     (case NextSymbol si of
        (Inl e, si) \<Rightarrow> (e, indexWriter)
      | (Inr symb, si) \<Rightarrow>
          (case add indexWriter symb of
             (Some e, indexWriter) \<Rightarrow> (e, indexWriter)
           | (None, indexWriter) \<Rightarrow> addSymbols_loop add si indexWriter))"
  by pat_completeness auto
termination
  by (relation "measure (\<lambda>(add, sit, iw). symf.left (syi_heap sit))") (auto dest: sym NextSymbol_left)

declare addSymbols_loop.simps [simp del]

definition addSymbolsToIndexWriter ::
    "('iw \<Rightarrow> bytes \<Rightarrow> go_err option \<times> 'iw) \<Rightarrow> go_err option \<Rightarrow> bytes batch_disk \<Rightarrow> 'iw \<Rightarrow> string list \<Rightarrow> go_err option \<times> 'iw" where
  "addSymbolsToIndexWriter add closeErr disk indexWriter symbolFiles =
     (case newSymbolsIterator disk symbolFiles of
        Inl e \<Rightarrow> (Some e, indexWriter)
      | Inr si \<Rightarrow>
          (case addSymbols_loop add si indexWriter of
             (e, indexWriter) \<Rightarrow>
               (if e = EOF then closeErr else Some e, indexWriter)))"

section \<open>What the iterator gives\<close>

lemma NextSymbol_spec:
  assumes "symf.ordered (syi_heap sit)" and "symf.ascending (syi_heap sit)"
    and "\<forall>l \<in> set_option (syi_lastReturned sit). \<forall>y \<in># symf.vals (syi_heap sit). l \<le> y"
    and "R = set_mset (symf.vals (syi_heap sit)) - set_option (syi_lastReturned sit)"
  shows "R = {} \<and> fst (NextSymbol sit) = Inl EOF \<or>
    (\<exists>sit'. R \<noteq> {} \<and> NextSymbol sit = (Inr (Min R), sit') \<and> symf.ordered (syi_heap sit') \<and>
      symf.ascending (syi_heap sit') \<and> syi_lastReturned sit' = Some (Min R) \<and>
      (\<forall>y \<in># symf.vals (syi_heap sit'). Min R \<le> y) \<and>
      set_mset (symf.vals (syi_heap sit')) - {Min R} = R - {Min R})"
  using assms
proof (induction sit arbitrary: R rule: NextSymbol.induct)
  case (1 sit)
  note prems = "1.prems"
  show ?case
  proof (cases "syi_heap sit")
    case Nil
    then show ?thesis using prems by (simp add: NextSymbol.simps [of sit])
  next
    case (Cons f fs)
    obtain r g where a: "sym_advance f = (r, g)" by fastforce
    from symf.ascending_advance [of f fs r g] prems(2) a Cons
    consider (eof) "r = Inl EOF" "sym_rem f = []"
      | (val) x where "r = Inr x" "sym_rem f = Inr x # sym_rem g" "symf.ascending (g # fs)" by auto
    then show ?thesis
    proof cases
      case eof
      let ?h = "heap_Remove sym_Less (g # fs) 0"
      have h: "symf.ordered ?h" "symf.contents ?h = symf.contents fs"
        using symf.drop_step [of f fs g] prems(1) eof a Cons by simp_all
      have asc: "symf.ascending ?h"
        using symf.ascending_cong [OF h(2)] prems(2) Cons by (simp add: symf.ascending_Cons)
      have vals: "symf.vals ?h = symf.vals (syi_heap sit)"
        using symf.vals_cong [OF h(2)] eof Cons by simp
      have "NextSymbol sit = NextSymbol (sit\<lparr>syi_heap := ?h\<rparr>)"
        using a Cons eof by (simp add: NextSymbol.simps [of sit])
      then show ?thesis
        using "1.IH"(1) [OF Cons a [symmetric] eof(1) refl, of R] h asc vals prems(3,4) by simp
    next
      case val
      let ?h = "heap_Fix sym_Less (g # fs) 0"
      let ?sit = "sit\<lparr>syi_heap := ?h\<rparr>"
      have h: "symf.ordered ?h" "symf.contents ?h = add_mset (sym_rem g) (symf.contents fs)"
        using symf.take_step [of f fs g] prems(1) Cons by simp_all
      have asc: "symf.ascending ?h"
        using symf.ascending_cong [of ?h "g # fs"] h(2) val(3) by simp
      have vals: "symf.vals (syi_heap sit) = add_mset x (symf.vals ?h)"
        using symf.vals_cong [of ?h "g # fs"] h(2) val(2) Cons by simp
      have least: "\<forall>y \<in># symf.vals (syi_heap sit). x \<le> y"
        using symf.taken_least [of f fs x "sym_rem g"] prems(1,2) val(2) Cons by fastforce
      show ?thesis
      proof (cases "syi_lastReturned sit = Some x")
        case True
        have "NextSymbol sit = NextSymbol ?sit"
          using a Cons val(1) True by (simp add: NextSymbol.simps [of sit])
        moreover have "R = set_mset (symf.vals (syi_heap ?sit)) - set_option (syi_lastReturned ?sit)"
          using prems(4) vals True by auto
        moreover have "\<forall>l \<in> set_option (syi_lastReturned ?sit). \<forall>y \<in># symf.vals (syi_heap ?sit). l \<le> y"
          using prems(3) vals by simp
        ultimately show ?thesis
          using "1.IH"(2) [OF Cons a [symmetric] val(1) refl] True h(1) asc by simp
      next
        case False
        then have "x \<notin> set_option (syi_lastReturned sit)" by (cases "syi_lastReturned sit") auto
        then have xR: "x \<in> R" using prems(4) vals by simp
        have fin: "finite R" using prems(4) by simp
        have min: "Min R = x" using xR fin least prems(4) by (intro Min_eqI) auto
        have nxt: "NextSymbol sit = (Inr x, ?sit\<lparr>syi_lastReturned := Some x\<rparr>)"
          using a Cons val(1) False by (simp add: NextSymbol.simps [of sit])
        have last: "l \<notin># symf.vals ?h \<or> l = x" if "l \<in> set_option (syi_lastReturned sit)" for l
        proof -
          have "l \<le> x" using prems(3) that vals by simp
          moreover have "l \<in># symf.vals ?h \<Longrightarrow> x \<le> l" using least vals by simp
          ultimately show ?thesis by fastforce
        qed
        then have "set_mset (symf.vals ?h) - {x} = R - {x}" using prems(4) vals by auto
        then show ?thesis using min nxt xR h(1) asc least vals by auto
      qed
    qed
  qed
qed

text \<open>Feeding the index: the symbols that are left, each once and in order.\<close>

lemma addSymbols_loop_spec:
  assumes "\<And>iw s. fst (add iw s) = None"
    and "symf.ordered (syi_heap sit)" and "symf.ascending (syi_heap sit)"
    and "\<forall>l \<in> set_option (syi_lastReturned sit). \<forall>y \<in># symf.vals (syi_heap sit). l \<le> y"
    and "R = set_mset (symf.vals (syi_heap sit)) - set_option (syi_lastReturned sit)"
  shows "addSymbols_loop add sit iw = (EOF, foldl (\<lambda>iw s. snd (add iw s)) iw (sorted_list_of_set R))"
  using assms(2-5)
proof (induction "card R" arbitrary: sit iw R rule: less_induct)
  case less
  have fin: "finite R" using less.prems(4) by simp
  from NextSymbol_spec [OF less.prems] show ?case
  proof (elim disjE exE conjE)
    assume "R = {}" "fst (NextSymbol sit) = Inl EOF"
    then show ?thesis by (cases "NextSymbol sit") (simp add: addSymbols_loop.simps [of add sit])
  next
    fix sit'
    assume R: "R \<noteq> {}" and nxt: "NextSymbol sit = (Inr (Min R), sit')"
      and h: "symf.ordered (syi_heap sit')" "symf.ascending (syi_heap sit')"
      and l: "syi_lastReturned sit' = Some (Min R)" "\<forall>y \<in># symf.vals (syi_heap sit'). Min R \<le> y"
      and left: "set_mset (symf.vals (syi_heap sit')) - {Min R} = R - {Min R}"
    obtain iw' where add: "add iw (Min R) = (None, iw')" using assms(1) [of iw "Min R"] by (metis prod.collapse)
    have "card (R - {Min R}) < card R" using R fin by (meson Min_in card_Diff1_less)
    then have "addSymbols_loop add sit' iw'
        = (EOF, foldl (\<lambda>iw s. snd (add iw s)) iw' (sorted_list_of_set (R - {Min R})))"
      by (rule less.hyps) (use h l left in simp_all)
    moreover have "sorted_list_of_set R = Min R # sorted_list_of_set (R - {Min R})"
      using R fin by (metis sorted_list_of_set_nonempty)
    ultimately show ?thesis using nxt add by (simp add: addSymbols_loop.simps [of add sit])
  qed
qed

lemma addSymbolsToIndexWriter_spec:
  assumes "\<And>iw s. fst (add iw s) = None"
    and "\<forall>fn \<in> set files. \<exists>xs. disk fn = Some (map Inr xs) \<and> sorted xs"
  shows "addSymbolsToIndexWriter add closeErr disk iw files = (closeErr, foldl (\<lambda>iw s. snd (add iw s)) iw
    (sorted_list_of_set (\<Union>fn \<in> set files. set (map projr (the (disk fn))))))"
proof -
  let ?fs = "map newSymbolsFile (map (the \<circ> disk) files)"
  let ?h = "heap_Init sym_Less ?fs"
  have opn: "openFiles disk files = Inr (map (the \<circ> disk) files)"
    using assms(2) by (auto simp: openFiles_def)
  have rem: "sym_rem (newSymbolsFile (map Inr xs)) = map Inr xs" for xs
    by (simp add: sym_rem_def newSymbolsFile_def)
  have c: "symf.contents ?h = symf.contents ?fs"
    unfolding symf.contents_def by (rule symf.Init_ordered(2))
  have asc: "symf.ascending ?fs"
    using assms(2) rem by (fastforce simp: symf.ascending_def symf.contents_def symf.asc_def not_less sorted_wrt01)
  have vals: "set_mset (symf.vals ?fs) = (\<Union>fn \<in> set files. set (map projr (the (disk fn))))"
    using assms(2)
  proof (induction files)
    case (Cons fn files)
    then obtain xs where "disk fn = Some (map Inr xs)" by auto
    with Cons show ?case by (simp add: rem image_image)
  qed simp
  have "addSymbols_loop add \<lparr>syi_heap = ?h, syi_lastReturned = None\<rparr> iw
      = (EOF, foldl (\<lambda>iw s. snd (add iw s)) iw (sorted_list_of_set (set_mset (symf.vals ?h))))"
    using symf.Init_ordered(1) [of ?fs] symf.ascending_cong [OF c] asc
    by (intro addSymbols_loop_spec assms(1)) simp_all
  then show ?thesis
    using opn vals symf.vals_cong [OF c] by (simp add: addSymbolsToIndexWriter_def newSymbolsIterator_def)
qed

section \<open>What the batcher keeps\<close>

lemma batch_file_inject [simp]: "batch_file dir kind m = batch_file dir kind n \<longleftrightarrow> m = n"
  by (simp add: batch_file_def)

text \<open>
  The invariant of a batcher whose writes succeed: the files have the numbers from 0 on, each
  holds symbols in strictly ascending order, and the files and the buffer together hold the
  symbols \<open>S\<close> that were added.
\<close>

definition batch_inv :: "symbolsBatcher \<Rightarrow> bytes batch_disk \<Rightarrow> bytes set \<Rightarrow> bool" where
  "batch_inv sw disk S \<longleftrightarrow>
     syb_files sw = map (batch_file (syb_dir sw) ''symbols_'') [0..<length (syb_files sw)] \<and>
     (\<forall>fn \<in> set (syb_files sw). \<exists>xs. disk fn = Some (map Inr xs) \<and> sorted_wrt (<) xs) \<and>
     finite (syb_buffer sw) \<and>
     S = syb_buffer sw \<union> (\<Union>fn \<in> set (syb_files sw). set (map projr (the (disk fn))))"

lemma batch_invD:
  assumes "batch_inv sw disk S"
  shows "syb_files sw = map (batch_file (syb_dir sw) ''symbols_'') [0..<length (syb_files sw)]"
    and "\<forall>fn \<in> set (syb_files sw). \<exists>xs. disk fn = Some (map Inr xs) \<and> sorted_wrt (<) xs"
    and "finite (syb_buffer sw)"
    and "S = syb_buffer sw \<union> (\<Union>fn \<in> set (syb_files sw). set (map projr (the (disk fn))))"
  using assms unfolding batch_inv_def by blast+

lemma new_inv: "batch_inv (newSymbolsBatcher limit dir) disk {}"
  by (simp add: batch_inv_def newSymbolsBatcher_def)

lemma flush_inv:
  assumes "batch_inv sw disk S"
  obtains sw' disk' where "flushSymbols (\<lambda>fn. None) force sw disk = (None, sw', disk')"
    and "batch_inv sw' disk' S" and "syb_limit sw' = syb_limit sw" and "syb_dir sw' = syb_dir sw"
    and "syb_buffer sw' = {} \<or> \<not> force \<and> sw' = sw \<and> int (card (syb_buffer sw)) < syb_limit sw"
proof (cases "(\<not> force \<and> int (card (syb_buffer sw)) < syb_limit sw) \<or> card (syb_buffer sw) = 0")
  case True
  then have "flushSymbols (\<lambda>fn. None) force sw disk = (None, sw, disk)" by (auto simp: flushSymbols_def)
  moreover have "syb_buffer sw = {} \<or> \<not> force \<and> sw = sw \<and> int (card (syb_buffer sw)) < syb_limit sw"
    using True assms by (auto simp: batch_inv_def)
  ultimately show ?thesis using that assms by blast
next
  case False
  let ?fn = "batch_file (syb_dir sw) ''symbols_'' (length (syb_files sw))"
  let ?sw = "sw\<lparr>syb_files := syb_files sw @ [?fn], syb_buffer := {}\<rparr>"
  let ?disk = "disk(?fn \<mapsto> map Inr (sorted_list_of_set (syb_buffer sw)))"
  have fl: "flushSymbols (\<lambda>fn. None) force sw disk = (None, ?sw, ?disk)"
  proof -
    have c: "(\<not> force \<and> int (card (syb_buffer sw)) < syb_limit sw) = False" "(card (syb_buffer sw) = 0) = False"
      using False by blast+
    show ?thesis unfolding flushSymbols_def c if_False by (simp add: writeSymbolsToFile_def Let_def)
  qed
  have files: "syb_files sw = map (batch_file (syb_dir sw) ''symbols_'') [0..<length (syb_files sw)]"
    using assms by (simp add: batch_inv_def)
  have new: "?fn \<notin> set (syb_files sw)" by (subst files) auto
  have fin: "finite (syb_buffer sw)" using assms by (simp add: batch_inv_def)
  have "batch_inv ?sw ?disk S"
    unfolding batch_inv_def
  proof (intro conjI)
    show "syb_files ?sw = map (batch_file (syb_dir ?sw) ''symbols_'') [0..<length (syb_files ?sw)]"
      using files by simp
    show "\<forall>fn \<in> set (syb_files ?sw). \<exists>xs. ?disk fn = Some (map Inr xs) \<and> sorted_wrt (<) xs"
    proof
      fix fn assume "fn \<in> set (syb_files ?sw)"
      then consider "fn = ?fn" | "fn \<in> set (syb_files sw)" "fn \<noteq> ?fn" using new by auto
      then show "\<exists>xs. ?disk fn = Some (map Inr xs) \<and> sorted_wrt (<) xs"
      proof cases
        case 1
        then show ?thesis using strict_sorted_list_of_set by auto
      next
        case 2
        then show ?thesis using assms by (auto simp: batch_inv_def)
      qed
    qed
    have "(\<Union>fn \<in> set (syb_files sw). set (map projr (the (?disk fn))))
        = (\<Union>fn \<in> set (syb_files sw). set (map projr (the (disk fn))))"
      using new by (intro SUP_cong) auto
    then show "S = syb_buffer ?sw \<union> (\<Union>fn \<in> set (syb_files ?sw). set (map projr (the (?disk fn))))"
      using assms fin by (auto simp: batch_inv_def image_image)
  qed simp
  then show ?thesis using that fl by simp
qed

lemma batch_inv_insert: "batch_inv sw disk S \<Longrightarrow> batch_inv (sw\<lparr>syb_buffer := insert s (syb_buffer sw)\<rparr>) disk (insert s S)"
  by (simp add: batch_inv_def)

text \<open>Symbols added one after the other, up to the first error.\<close>

fun add_all ::
    "bytes batch_faults \<Rightarrow> bytes list \<Rightarrow> symbolsBatcher \<Rightarrow> bytes batch_disk \<Rightarrow> go_err option \<times> symbolsBatcher \<times> bytes batch_disk" where
  "add_all faults [] sw disk = (None, sw, disk)"
| "add_all faults (s # ss) sw disk =
     (case addSymbol faults s sw disk of
        (Some e, sw, disk) \<Rightarrow> (Some e, sw, disk)
      | (None, sw, disk) \<Rightarrow> add_all faults ss sw disk)"

lemma addSymbol_inv:
  assumes "batch_inv sw disk S"
  obtains sw' disk' where "addSymbol (\<lambda>fn. None) s sw disk = (None, sw', disk')"
    and "batch_inv sw' disk' (insert s S)" and "syb_limit sw' = syb_limit sw" and "syb_dir sw' = syb_dir sw"
    and "0 < syb_limit sw \<Longrightarrow> int (card (syb_buffer sw')) < syb_limit sw"
proof (rule flush_inv [OF batch_inv_insert [OF assms, of s], of False])
  fix sw' disk'
  assume "flushSymbols (\<lambda>fn. None) False (sw\<lparr>syb_buffer := insert s (syb_buffer sw)\<rparr>) disk = (None, sw', disk')"
    "batch_inv sw' disk' (insert s S)"
    "syb_limit sw' = syb_limit (sw\<lparr>syb_buffer := insert s (syb_buffer sw)\<rparr>)"
    "syb_dir sw' = syb_dir (sw\<lparr>syb_buffer := insert s (syb_buffer sw)\<rparr>)"
    "syb_buffer sw' = {} \<or> \<not> False \<and> sw' = sw\<lparr>syb_buffer := insert s (syb_buffer sw)\<rparr> \<and>
      int (card (syb_buffer (sw\<lparr>syb_buffer := insert s (syb_buffer sw)\<rparr>))) < syb_limit (sw\<lparr>syb_buffer := insert s (syb_buffer sw)\<rparr>)"
  then show thesis by (intro that [of sw' disk']) (auto simp: addSymbol_def)
qed

lemma add_all_inv:
  assumes "batch_inv sw disk S" and "0 < syb_limit sw \<Longrightarrow> int (card (syb_buffer sw)) < syb_limit sw"
  obtains sw' disk' where "add_all (\<lambda>fn. None) ss sw disk = (None, sw', disk')"
    and "batch_inv sw' disk' (set ss \<union> S)" and "syb_limit sw' = syb_limit sw"
    and "0 < syb_limit sw \<Longrightarrow> int (card (syb_buffer sw')) < syb_limit sw"
proof -
  have "\<exists>sw' disk'. add_all (\<lambda>fn. None) ss sw disk = (None, sw', disk') \<and> batch_inv sw' disk' (set ss \<union> S) \<and>
    syb_limit sw' = syb_limit sw \<and> (0 < syb_limit sw \<longrightarrow> int (card (syb_buffer sw')) < syb_limit sw)"
    using assms
  proof (induction ss arbitrary: sw disk S)
    case (Cons s ss)
    obtain sw1 disk1 where 1: "addSymbol (\<lambda>fn. None) s sw disk = (None, sw1, disk1)"
      "batch_inv sw1 disk1 (insert s S)" "syb_limit sw1 = syb_limit sw"
      "0 < syb_limit sw \<Longrightarrow> int (card (syb_buffer sw1)) < syb_limit sw"
      using addSymbol_inv [OF Cons.prems(1)] by metis
    have eq: "set ss \<union> insert s S = set (s # ss) \<union> S" by auto
    from Cons.IH [OF 1(2)] 1 show ?case unfolding eq by simp
  qed simp
  then show ?thesis using that by blast
qed

section \<open>Properties\<close>

text \<open>
  C6. The batcher and the merge together: after symbols were added in any order and with any
  batch size, and the rest was flushed, the index writer gets every symbol exactly once, in
  ascending order, and nothing else.
\<close>

theorem symbols_sorted_distinct:
  assumes "\<And>iw s. fst (add iw s) = None"
    and "add_all (\<lambda>fn. None) symbols (newSymbolsBatcher limit dir) disk = (None, sw, disk1)"
    and "flushSymbols (\<lambda>fn. None) True sw disk1 = (None, sw2, disk2)"
  shows "addSymbolsToIndexWriter add closeErr disk2 iw (syb_files sw2)
    = (closeErr, foldl (\<lambda>iw s. snd (add iw s)) iw (sorted_list_of_set (set symbols)))"
proof -
  obtain sw' disk' where "add_all (\<lambda>fn. None) symbols (newSymbolsBatcher limit dir) disk = (None, sw', disk')"
    and "batch_inv sw' disk' (set symbols \<union> {})"
    by (rule add_all_inv [OF new_inv]) (auto simp: newSymbolsBatcher_def)
  then have inv1: "batch_inv sw disk1 (set symbols)" using assms(2) by simp
  obtain sw' disk' where "flushSymbols (\<lambda>fn. None) True sw disk1 = (None, sw', disk')"
    and "batch_inv sw' disk' (set symbols)" and "syb_buffer sw' = {}"
    by (rule flush_inv [OF inv1, of True]) auto
  then have inv: "batch_inv sw2 disk2 (set symbols)" and empty: "syb_buffer sw2 = {}"
    using assms(3) by simp_all
  have S: "set symbols = (\<Union>fn \<in> set (syb_files sw2). set (map projr (the (disk2 fn))))"
    using batch_invD(4) [OF inv] by (simp only: empty Un_empty_left)
  have "\<forall>fn \<in> set (syb_files sw2). \<exists>xs. disk2 fn = Some (map Inr xs) \<and> sorted xs"
    using batch_invD(2) [OF inv] strict_sorted_imp_sorted by metis
  then show ?thesis unfolding S by (intro addSymbolsToIndexWriter_spec assms(1))
qed

theorem symbols_sorted_distinct_witness:
  "\<exists>sw disk1 sw2 disk2.
    add_all (\<lambda>fn. None) [[], [98], [97], [98], [98, 0]] (newSymbolsBatcher 2 ''t'') Map.empty = (None, sw, disk1) \<and>
    flushSymbols (\<lambda>fn. None) True sw disk1 = (None, sw2, disk2) \<and> length (syb_files sw2) = 3 \<and>
    addSymbolsToIndexWriter (\<lambda>iw s. (None, iw @ [s])) None disk2 [] (syb_files sw2)
      = (None, [[], [97], [98], [98, 0]])"
proof -
  define a where "a = add_all (\<lambda>fn. None) [[], [98], [97], [98], [98, 0]] (newSymbolsBatcher 2 ''t'') Map.empty"
  define f where "f = flushSymbols (\<lambda>fn. None) True (fst (snd a)) (snd (snd a))"
  have n: "fst a = None" "fst f = None" "length (syb_files (fst (snd f))) = 3"
    unfolding f_def a_def by code_simp+
  have s: "sorted_list_of_set (set [[], [98], [97], [98], [98, 0 :: byte]]) = [[], [97], [98], [98, 0]]"
    by code_simp
  have a: "add_all (\<lambda>fn. None) [[], [98], [97], [98], [98, 0]] (newSymbolsBatcher 2 ''t'') Map.empty
      = (None, fst (snd a), snd (snd a))"
    unfolding a_def [symmetric] using n(1) by (metis prod.collapse)
  have f: "flushSymbols (\<lambda>fn. None) True (fst (snd a)) (snd (snd a)) = (None, fst (snd f), snd (snd f))"
    unfolding f_def [symmetric] using n(2) by (metis prod.collapse)
  have "addSymbolsToIndexWriter (\<lambda>iw s. (None, iw @ [s])) None (snd (snd f)) [] (syb_files (fst (snd f)))
      = (None, [[], [97], [98], [98, 0]])"
    by (subst symbols_sorted_distinct [OF _ a f]) (simp_all only: s, simp_all)
  with a f n(3) show ?thesis by blast
qed

text \<open>
  The batcher bounds the memory it uses: with a positive limit, every sequence of additions
  whose writes succeed ends with fewer symbols in the buffer than the limit, and the symbols are
  split between the buffer and the files without loss.
\<close>

theorem symbols_buffer_bounded:
  assumes "0 < limit"
  shows "\<exists>sw disk'. add_all (\<lambda>fn. None) symbols (newSymbolsBatcher limit dir) disk = (None, sw, disk') \<and>
    int (card (syb_buffer sw)) < limit \<and> batch_inv sw disk' (set symbols)"
proof -
  obtain sw' disk' where "add_all (\<lambda>fn. None) symbols (newSymbolsBatcher limit dir) disk = (None, sw', disk')"
    and "batch_inv sw' disk' (set symbols \<union> {})" and "int (card (syb_buffer sw')) < limit"
    by (rule add_all_inv [OF new_inv, where limit1 = limit]) (use assms in \<open>auto simp: newSymbolsBatcher_def\<close>)
  then show ?thesis by simp
qed

theorem symbols_buffer_bounded_witness:
  "\<exists>sw disk'. add_all (\<lambda>fn. None) [[1], [2], [3]] (newSymbolsBatcher 2 ''t'') Map.empty = (None, sw, disk') \<and>
    int (card (syb_buffer sw)) < 2"
  using symbols_buffer_bounded [of 2 "[[1], [2], [3]]" "''t''" Map.empty] by auto

end
