(* ===== verification/SeriesBatch.thy ===== *)
theory SeriesBatch
  imports SymbolsBatch
begin

text \<open>
  \<^verbatim>\<open>pkg/tsdb/series_batch.go\<close>: series are collected in memory, flushed to files in batches sorted
  by labels, and read back as one sequence in which a second series with the same labels is an
  error. \<^verbatim>\<open>labels.Compare\<close> of the Prometheus library and \<^verbatim>\<open>sort.Slice\<close> are the parameters \<open>lcmp\<close>
  and \<open>srt\<close>.
\<close>

section \<open>Labels\<close>

datatype label = Label (lname: bytes) (lvalue: bytes)

type_synonym labels = "label list"

instantiation label :: linorder
begin

definition less_eq_label :: "label \<Rightarrow> label \<Rightarrow> bool" where
  "less_eq_label a b \<longleftrightarrow> lname a < lname b \<or> lname a = lname b \<and> lvalue a \<le> lvalue b"

definition less_label :: "label \<Rightarrow> label \<Rightarrow> bool" where
  "less_label a b \<longleftrightarrow> lname a < lname b \<or> lname a = lname b \<and> lvalue a < lvalue b"

instance
  by standard (auto simp: less_eq_label_def less_label_def label.expand)

end

text \<open>
  What is known of \<^verbatim>\<open>labels.Compare\<close>: zero exactly for equal label sets, and a total order in
  which the empty label set comes first.
\<close>

definition compare_ok :: "(labels \<Rightarrow> labels \<Rightarrow> int) \<Rightarrow> bool" where
  "compare_ok lcmp \<longleftrightarrow>
     (\<forall>a b. lcmp a b = 0 \<longleftrightarrow> a = b) \<and> (\<forall>a b. lcmp a b < 0 \<longleftrightarrow> 0 < lcmp b a) \<and>
     (\<forall>a b c. lcmp a b \<le> 0 \<longrightarrow> lcmp b c \<le> 0 \<longrightarrow> lcmp a c \<le> 0) \<and> (\<forall>a. lcmp [] a \<le> 0)"

text \<open>The lexicographic comparison is one.\<close>

definition lex_compare :: "labels \<Rightarrow> labels \<Rightarrow> int" where
  "lex_compare a b = (if a < b then -1 else if a = b then 0 else 1)"

lemma lex_compare_ok: "compare_ok lex_compare"
proof -
  have "a \<noteq> [] \<Longrightarrow> [] < a" for a :: labels by (cases a) auto
  then show ?thesis by (auto simp: compare_ok_def lex_compare_def)
qed

section \<open>The batcher\<close>

record 'c series =
  metric :: labels
  chunks_of :: "'c list"

record 'c seriesBatcher =
  seb_dir :: string
  seb_limit :: int
  seb_files :: "string list"
  seb_buffer :: "'c series list"

text \<open>\<^verbatim>\<open>make([]series, 0, limit)\<close> panics for a negative limit and for one that cannot be allocated.\<close>

definition newSeriesBatcher :: "int \<Rightarrow> string \<Rightarrow> 'c seriesBatcher res" where
  "newSeriesBatcher limit dir =
     (if limit < 0 \<or> \<not> make_ok (48 * limit) then Panic
      else Ok \<lparr>seb_dir = dir, seb_limit = limit, seb_files = [], seb_buffer = []\<rparr>)"

definition writeSeriesToFile ::
    "'c series batch_faults \<Rightarrow> string \<Rightarrow> 'c series list \<Rightarrow> 'c series batch_disk \<Rightarrow> go_err option \<times> 'c series batch_disk" where
  "writeSeriesToFile faults filename sortedSeries disk =
     (case faults filename of
        None \<Rightarrow> (None, disk(filename \<mapsto> map Inr sortedSeries))
      | Some (e, s) \<Rightarrow> (Some e, disk(filename \<mapsto> s)))"

definition flushSeries ::
    "('c series list \<Rightarrow> 'c series list) \<Rightarrow> 'c series batch_faults \<Rightarrow> bool \<Rightarrow> 'c seriesBatcher \<Rightarrow> 'c series batch_disk
      \<Rightarrow> go_err option \<times> 'c seriesBatcher \<times> 'c series batch_disk" where
  "flushSeries srt faults force sb disk =
     (if \<not> force \<and> int (length (seb_buffer sb)) < seb_limit sb then (None, sb, disk)
      else if length (seb_buffer sb) = 0 then (None, sb, disk)
      else
        let seriesFile = batch_file (seb_dir sb) ''series_'' (length (seb_files sb));
            sb = sb\<lparr>seb_files := seb_files sb @ [seriesFile]\<rparr>;
            sortedSeries = srt (seb_buffer sb);
            sb = sb\<lparr>seb_buffer := []\<rparr>;
            (err, disk) = writeSeriesToFile faults seriesFile sortedSeries disk
        in (err, sb, disk))"

definition sb_addSeries ::
    "('c series list \<Rightarrow> 'c series list) \<Rightarrow> 'c series batch_faults \<Rightarrow> labels \<Rightarrow> 'c list \<Rightarrow> 'c seriesBatcher
      \<Rightarrow> 'c series batch_disk \<Rightarrow> go_err option \<times> 'c seriesBatcher \<times> 'c series batch_disk" where
  "sb_addSeries srt faults lbls chunks sb disk =
     flushSeries srt faults False (sb\<lparr>seb_buffer := seb_buffer sb @ [\<lparr>metric = lbls, chunks_of = chunks\<rparr>]\<rparr>) disk"

section \<open>Files of series\<close>

record 'c seriesFile =
  sef_dec :: "'c series stream"
  sef_nextValid :: bool
  sef_nextSeries :: "'c series"
  sef_nextErr :: "go_err option"

definition no_series :: "'c series" where
  "no_series = \<lparr>metric = [], chunks_of = []\<rparr>"

definition newSeriesFile :: "'c series stream \<Rightarrow> 'c seriesFile" where
  "newSeriesFile f = \<lparr>sef_dec = f, sef_nextValid = False, sef_nextSeries = no_series, sef_nextErr = None\<rparr>"

definition ser_readNext :: "'c seriesFile \<Rightarrow> ('c series \<times> go_err option) \<times> 'c seriesFile" where
  "ser_readNext sf =
     (case sef_dec sf of
        [] \<Rightarrow> ((no_series, Some EOF), sf)
      | Inl e # ds \<Rightarrow> ((no_series, Some e), sf\<lparr>sef_dec := ds\<rparr>)
      | Inr s # ds \<Rightarrow> ((s, None), sf\<lparr>sef_dec := ds\<rparr>))"

definition ser_Peek :: "'c seriesFile \<Rightarrow> ('c series \<times> go_err option) \<times> 'c seriesFile" where
  "ser_Peek sf =
     (if sef_nextValid sf then ((sef_nextSeries sf, sef_nextErr sf), sf)
      else
        let sf = sf\<lparr>sef_nextValid := True\<rparr>;
            ((s, e), sf) = ser_readNext sf
        in ((s, e), sf\<lparr>sef_nextSeries := s, sef_nextErr := e\<rparr>))"

definition ser_Next :: "'c seriesFile \<Rightarrow> ('c series \<times> go_err option) \<times> 'c seriesFile" where
  "ser_Next sf =
     (if sef_nextValid sf
      then ((sef_nextSeries sf, sef_nextErr sf),
        sf\<lparr>sef_nextValid := False, sef_nextSeries := no_series, sef_nextErr := None\<rparr>)
      else ser_readNext sf)"

definition ser_Less :: "(labels \<Rightarrow> labels \<Rightarrow> int) \<Rightarrow> 'c seriesFile go_less" where
  "ser_Less lcmp s i j =
     (let ((iw, ierr), fi) = ser_Peek (s ! i);
          s = s[i := fi];
          iw = (if ierr \<noteq> None then no_series else iw);
          ((jw, jerr), fj) = ser_Peek (s ! j);
          s = s[j := fj];
          jw = (if jerr \<noteq> None then no_series else jw)
      in (lcmp (metric iw) (metric jw) < 0, s))"

record 'c seriesIterator =
  sei_heap :: "'c seriesFile list"
  sei_last :: labels

definition newSeriesIterator ::
    "(labels \<Rightarrow> labels \<Rightarrow> int) \<Rightarrow> 'c series batch_disk \<Rightarrow> string list \<Rightarrow> go_err + 'c seriesIterator" where
  "newSeriesIterator lcmp disk filenames =
     (case openFiles disk filenames of
        Inl e \<Rightarrow> Inl e
      | Inr files \<Rightarrow> Inr \<lparr>sei_heap = heap_Init (ser_Less lcmp) (map newSeriesFile files), sei_last = []\<rparr>)"

section \<open>What a file stands for\<close>

definition ser_rem :: "'c seriesFile \<Rightarrow> 'c series stream" where
  "ser_rem sf = strip ((if sef_nextValid sf then [as_item (sef_nextSeries sf, sef_nextErr sf)] else []) @ sef_dec sf)"

definition ser_advance :: "'c seriesFile \<Rightarrow> (go_err + 'c series) \<times> 'c seriesFile" where
  "ser_advance sf = map_prod as_item id (ser_Next sf)"

lemma ser_Peek_item: "as_item (fst (ser_Peek sf)) = head_item (ser_rem sf)"
  by (auto simp: ser_Peek_def ser_readNext_def ser_rem_def as_item_def Let_def head_item_strip
      simp del: strip.simps(2) split: list.splits sum.splits)

lemma ser_Peek_rem: "ser_rem (snd (ser_Peek sf)) = ser_rem sf"
  by (auto simp: ser_Peek_def ser_readNext_def ser_rem_def as_item_def Let_def split: list.splits sum.splits)

lemma ser_Next_item: "as_item (fst (ser_Next sf)) = head_item (ser_rem sf)"
  by (auto simp: ser_Next_def ser_readNext_def ser_rem_def as_item_def Let_def head_item_strip
      simp del: strip.simps(2) split: list.splits sum.splits)

lemma ser_Next_rem: "ser_rem (snd (ser_Next sf)) = tl (ser_rem sf)"
  by (auto simp: ser_Next_def ser_readNext_def ser_rem_def as_item_def Let_def tl_strip
      simp del: strip.simps(2) split: list.splits sum.splits)

lemma ser_Less_eq:
  assumes "i < length h" "j < length h"
  shows "fst (ser_Less lcmp h i j) \<longleftrightarrow>
      lcmp (head_key metric [] (ser_rem (h ! i))) (head_key metric [] (ser_rem (h ! j))) < 0"
    and "map ser_rem (snd (ser_Less lcmp h i j)) = map ser_rem h"
proof -
  obtain iw ierr fi where i: "ser_Peek (h ! i) = ((iw, ierr), fi)" by (metis surj_pair)
  let ?h = "h[i := fi]"
  obtain jw jerr fj where j: "ser_Peek (?h ! j) = ((jw, jerr), fj)" by (metis surj_pair)
  have ri: "ser_rem fi = ser_rem (h ! i)" using ser_Peek_rem [of "h ! i"] i by simp
  then have h: "map ser_rem ?h = map ser_rem h"
    using assms by (intro map_update_same) auto
  have hj: "ser_rem (?h ! j) = ser_rem (h ! j)"
    using h assms by (metis length_list_update nth_map)
  then have rj: "ser_rem fj = ser_rem (h ! j)" using ser_Peek_rem [of "?h ! j"] j by simp
  have "metric (if ierr \<noteq> None then no_series else iw) = head_key metric [] (ser_rem (h ! i))"
    using head_key_item [of iw ierr "ser_rem (h ! i)" "[]" metric] ser_Peek_item [of "h ! i"] i
    by (cases ierr) (simp_all add: no_series_def)
  moreover have "metric (if jerr \<noteq> None then no_series else jw) = head_key metric [] (ser_rem (h ! j))"
    using head_key_item [of jw jerr "ser_rem (h ! j)" "[]" metric] ser_Peek_item [of "?h ! j"] j hj
    by (cases jerr) (simp_all add: no_series_def)
  ultimately show "fst (ser_Less lcmp h i j) \<longleftrightarrow>
      lcmp (head_key metric [] (ser_rem (h ! i))) (head_key metric [] (ser_rem (h ! j))) < 0"
    using i j by (simp add: ser_Less_def)
  have "map ser_rem (?h[j := fj]) = map ser_rem ?h"
    using rj hj assms by (intro map_update_same) auto
  then show "map ser_rem (snd (ser_Less lcmp h i j)) = map ser_rem h"
    using i j h by (simp add: ser_Less_def)
qed

text \<open>Reading ends whatever the comparison is.\<close>

interpretation serf: file_source "ser_Less lcmp" ser_rem ser_advance for lcmp
proof (unfold_locales, goal_cases)
  case (1 i h j)
  then show ?case by (rule ser_Less_eq)
next
  case (2 f)
  then show ?case using ser_Next_item by (simp add: ser_advance_def)
next
  case (3 f)
  then show ?case using ser_Next_rem by (simp add: ser_advance_def)
qed

section \<open>The iterator\<close>

definition ErrDuplicate :: go_err where
  "ErrDuplicate = ErrText ''duplicate series''"

function NextSeries :: "(labels \<Rightarrow> labels \<Rightarrow> int) \<Rightarrow> 'c seriesIterator \<Rightarrow> (go_err + 'c series) \<times> 'c seriesIterator" where
  "NextSeries lcmp sit =
     (case sei_heap sit of
        [] \<Rightarrow> (Inl EOF, sit)
      | f # fs \<Rightarrow>
          (case ser_advance f of
             (Inl e, f') \<Rightarrow>
               if e = EOF then NextSeries lcmp (sit\<lparr>sei_heap := heap_Remove (ser_Less lcmp) (f' # fs) 0\<rparr>)
               else (Inl e, sit\<lparr>sei_heap := f' # fs\<rparr>)
           | (Inr result, f') \<Rightarrow>
               let sit = sit\<lparr>sei_heap := heap_Fix (ser_Less lcmp) (f' # fs) 0\<rparr>
               in if 0 \<le> lcmp (sei_last sit) (metric result) then (Inl ErrDuplicate, sit)
                  else (Inr result, sit\<lparr>sei_last := metric result\<rparr>)))"
  by pat_completeness auto
termination
  by (relation "measure (\<lambda>(lcmp, sit). serf.left (sei_heap sit))") (use serf.Remove_left in auto)

declare NextSeries.simps [simp del]

lemma NextSeries_left:
  "NextSeries lcmp sit = (Inr s, sit') \<Longrightarrow> serf.left (sei_heap sit') < serf.left (sei_heap sit)"
proof (induction lcmp sit rule: NextSeries.induct)
  case (1 lcmp sit)
  show ?case
  proof (cases "sei_heap sit")
    case Nil
    with "1.prems" show ?thesis by (simp add: NextSeries.simps [of lcmp sit])
  next
    case (Cons f fs)
    obtain r g where a: "ser_advance f = (r, g)" by fastforce
    show ?thesis
    proof (cases r)
      case (Inl e)
      then have e: "e = EOF" using "1.prems" a Cons by (simp add: NextSeries.simps [of lcmp sit] split: if_splits)
      have "serf.left (sei_heap sit') < serf.left (heap_Remove (ser_Less lcmp) (g # fs) 0)"
        using "1.IH" [OF Cons a [symmetric] Inl e] "1.prems" a Cons Inl e by (simp add: NextSeries.simps [of lcmp sit])
      then show ?thesis using serf.Remove_left [of lcmp g fs f] Cons by simp
    next
      case (Inr x)
      have smaller: "serf.left (heap_Fix (ser_Less lcmp) (g # fs) 0) < serf.left (f # fs)"
        using a Inr by (intro serf.Fix_left) simp
      then show ?thesis using "1.prems" a Cons Inr
        by (auto simp: NextSeries.simps [of lcmp sit] Let_def split: if_splits)
    qed
  qed
qed

text \<open>Reading until an error: the series that were given, and the error.\<close>

function series_all :: "(labels \<Rightarrow> labels \<Rightarrow> int) \<Rightarrow> 'c seriesIterator \<Rightarrow> 'c series list \<times> go_err" where
  "series_all lcmp sit =
     (case NextSeries lcmp sit of
        (Inl e, sit) \<Rightarrow> ([], e)
      | (Inr s, sit) \<Rightarrow> (case series_all lcmp sit of (ss, e) \<Rightarrow> (s # ss, e)))"
  by pat_completeness auto
termination
  by (relation "measure (\<lambda>(lcmp, sit). serf.left (sei_heap sit))") (auto dest: sym NextSeries_left)

declare series_all.simps [simp del]

section \<open>What the iterator gives\<close>

locale labels_order =
  fixes lcmp :: "labels \<Rightarrow> labels \<Rightarrow> int"
  assumes ok: "compare_ok lcmp"
begin

abbreviation lless :: "labels \<Rightarrow> labels \<Rightarrow> bool" where
  "lless a b \<equiv> lcmp a b < 0"

lemma lless_asym: "lless a b \<Longrightarrow> \<not> lless b a"
  using ok unfolding compare_ok_def by (metis not_less_iff_gr_or_eq)

lemma lless_neg: "\<not> lless b a \<longleftrightarrow> lcmp a b \<le> 0"
  using ok unfolding compare_ok_def by (metis not_less linorder_neqE less_imp_le order_refl less_irrefl)

lemma lless_neg_trans: "\<not> lless b a \<Longrightarrow> \<not> lless c b \<Longrightarrow> \<not> lless c a"
  using ok unfolding lless_neg compare_ok_def by metis

lemma lless_cases: "lless a b \<or> a = b \<or> lless b a"
  using ok unfolding compare_ok_def by (metis linorder_neqE)

lemma lless_trans: "lless a b \<Longrightarrow> lless b c \<Longrightarrow> lless a c"
  using lless_neg_trans lless_asym lless_cases by metis

lemma lless_irrefl: "\<not> lless a a"
  using lless_asym by blast

lemma Nil_least: "\<not> lless a []"
  using ok unfolding lless_neg compare_ok_def by blast

end

sublocale labels_order \<subseteq> ord: file_merge "ser_Less lcmp" ser_rem ser_advance lless "[]" metric
  by unfold_locales (use lless_asym lless_neg_trans Nil_least ser_Less_eq(1) in blast)+

interpretation lex: labels_order lex_compare
  by unfold_locales (rule lex_compare_ok)

context labels_order begin

lemma NextSeries_spec:
  assumes "ord.ordered (sei_heap sit)" and "ord.ascending (sei_heap sit)"
  shows "ord.vals (sei_heap sit) = {#} \<and> fst (NextSeries lcmp sit) = Inl EOF \<or>
    (\<exists>x sit'. x \<in># ord.vals (sei_heap sit) \<and> (\<forall>y \<in># ord.vals (sei_heap sit). \<not> lless (metric y) (metric x)) \<and>
      (if lless (sei_last sit) (metric x)
       then NextSeries lcmp sit = (Inr x, sit') \<and> ord.ordered (sei_heap sit') \<and> ord.ascending (sei_heap sit') \<and>
         ord.vals (sei_heap sit) = add_mset x (ord.vals (sei_heap sit')) \<and> sei_last sit' = metric x
       else NextSeries lcmp sit = (Inl ErrDuplicate, sit')))"
  using assms
proof (induction "length (sei_heap sit)" arbitrary: sit rule: less_induct)
  case less
  note prems = less.prems
  show ?case
  proof (cases "sei_heap sit")
    case Nil
    then show ?thesis by (simp add: NextSeries.simps [of lcmp sit])
  next
    case (Cons f fs)
    obtain r g where a: "ser_advance f = (r, g)" by fastforce
    from ord.ascending_advance [of f fs r g] prems(2) a Cons
    consider (eof) "r = Inl EOF" "ser_rem f = []"
      | (val) x where "r = Inr x" "ser_rem f = Inr x # ser_rem g" "ord.ascending (g # fs)" by auto
    then show ?thesis
    proof cases
      case eof
      let ?h = "heap_Remove (ser_Less lcmp) (g # fs) 0"
      have h: "ord.ordered ?h" "ord.contents ?h = ord.contents fs"
        using ord.drop_step [of f fs g] prems(1) eof a Cons by simp_all
      have asc: "ord.ascending ?h"
        using ord.ascending_cong [OF h(2)] prems(2) Cons by (simp add: ord.ascending_Cons)
      have vals: "ord.vals ?h = ord.vals (sei_heap sit)"
        using ord.vals_cong [OF h(2)] eof Cons by simp
      have "length ?h = length fs" using h(2) unfolding ord.contents_def by (metis length_map size_mset)
      then have small: "length (sei_heap (sit\<lparr>sei_heap := ?h\<rparr>)) < length (sei_heap sit)" using Cons by simp
      have nxt: "NextSeries lcmp sit = NextSeries lcmp (sit\<lparr>sei_heap := ?h\<rparr>)"
        using a Cons eof by (simp add: NextSeries.simps [of lcmp sit])
      have sel: "sei_heap (sit\<lparr>sei_heap := ?h\<rparr>) = ?h" "sei_last (sit\<lparr>sei_heap := ?h\<rparr>) = sei_last sit"
        by simp_all
      show ?thesis
        using less.hyps [OF small, unfolded sel, OF h(1) asc] unfolding nxt vals .
    next
      case val
      let ?h = "heap_Fix (ser_Less lcmp) (g # fs) 0"
      have h: "ord.ordered ?h" "ord.contents ?h = add_mset (ser_rem g) (ord.contents fs)"
        using ord.take_step [of f fs g] prems(1) Cons by simp_all
      have asc: "ord.ascending ?h"
        using ord.ascending_cong [of ?h "g # fs"] h(2) val(3) by simp
      have vals: "ord.vals (sei_heap sit) = add_mset x (ord.vals ?h)"
        using ord.vals_cong [of ?h "g # fs"] h(2) val(2) Cons by simp
      have least: "\<forall>y \<in># ord.vals (sei_heap sit). \<not> lless (metric y) (metric x)"
        using ord.taken_least [of f fs x "ser_rem g"] prems(1,2) val(2) Cons by auto
      have nxt: "NextSeries lcmp sit = (if lless (sei_last sit) (metric x)
          then (Inr x, sit\<lparr>sei_heap := ?h, sei_last := metric x\<rparr>) else (Inl ErrDuplicate, sit\<lparr>sei_heap := ?h\<rparr>))"
        using a Cons val(1) by (simp add: NextSeries.simps [of lcmp sit])
      show ?thesis
      proof (cases "lless (sei_last sit) (metric x)")
        case True
        then show ?thesis using h(1) asc vals least nxt
          by (intro disjI2 exI [of _ x] exI [of _ "sit\<lparr>sei_heap := ?h, sei_last := metric x\<rparr>"]) simp
      next
        case False
        then show ?thesis using vals least nxt
          by (intro disjI2 exI [of _ x] exI [of _ "sit\<lparr>sei_heap := ?h\<rparr>"]) simp
      qed
    qed
  qed
qed

text \<open>
  Reading to the end gives all series in strictly ascending order; or it stops with the error
  of a duplicate, and then there is one (or a series without labels).
\<close>

lemma series_all_spec:
  assumes "ord.ordered (sei_heap sit)" and "ord.ascending (sei_heap sit)"
    and "series_all lcmp sit = (xs, e)"
  shows "sorted_wrt lless (sei_last sit # map metric xs) \<and> mset xs \<subseteq># ord.vals (sei_heap sit) \<and>
    (e = EOF \<and> mset xs = ord.vals (sei_heap sit) \<or>
     e = ErrDuplicate \<and> (\<exists>x \<in># ord.vals (sei_heap sit) - mset xs.
       metric x \<in> metric ` set xs \<or> \<not> lless (sei_last sit) (metric x)))"
  using assms
proof (induction "size (ord.vals (sei_heap sit))" arbitrary: sit xs rule: less_induct)
  case less
  from NextSeries_spec [OF less.prems(1,2)] show ?case
  proof (elim disjE exE conjE)
    assume "ord.vals (sei_heap sit) = {#}" "fst (NextSeries lcmp sit) = Inl EOF"
    then show ?thesis using less.prems(3)
      by (cases "NextSeries lcmp sit") (simp add: series_all.simps [of lcmp sit])
  next
    fix x sit'
    assume x: "x \<in># ord.vals (sei_heap sit)"
      and least: "\<forall>y \<in># ord.vals (sei_heap sit). \<not> lless (metric y) (metric x)"
      and step: "if lless (sei_last sit) (metric x)
       then NextSeries lcmp sit = (Inr x, sit') \<and> ord.ordered (sei_heap sit') \<and> ord.ascending (sei_heap sit') \<and>
         ord.vals (sei_heap sit) = add_mset x (ord.vals (sei_heap sit')) \<and> sei_last sit' = metric x
       else NextSeries lcmp sit = (Inl ErrDuplicate, sit')"
    show ?thesis
    proof (cases "lless (sei_last sit) (metric x)")
      case False
      then have "xs = []" "e = ErrDuplicate" using step less.prems(3) by (simp_all add: series_all.simps [of lcmp sit])
      then show ?thesis using x False by auto
    next
      case True
      then have nxt: "NextSeries lcmp sit = (Inr x, sit')" and ord': "ord.ordered (sei_heap sit')"
        and asc': "ord.ascending (sei_heap sit')" and last': "sei_last sit' = metric x"
        and vals': "ord.vals (sei_heap sit) = add_mset x (ord.vals (sei_heap sit'))" using step by simp_all
      obtain ys where ys: "series_all lcmp sit' = (ys, e)" "xs = x # ys"
        using less.prems(3) nxt by (auto simp: series_all.simps [of lcmp sit] split: prod.splits)
      have small: "size (ord.vals (sei_heap sit')) < size (ord.vals (sei_heap sit))" using vals' by simp
      have IH: "sorted_wrt lless (metric x # map metric ys)" "mset ys \<subseteq># ord.vals (sei_heap sit')"
        "e = EOF \<and> mset ys = ord.vals (sei_heap sit') \<or>
         e = ErrDuplicate \<and> (\<exists>z \<in># ord.vals (sei_heap sit') - mset ys.
           metric z \<in> metric ` set ys \<or> \<not> lless (metric x) (metric z))"
        using less.hyps [OF small ord' asc' ys(1)] last' by simp_all
      have "sorted_wrt lless (sei_last sit # map metric xs)"
        using IH(1) True ys(2) by (auto intro: lless_trans)
      moreover have "mset xs \<subseteq># ord.vals (sei_heap sit)" using IH(2) ys(2) vals' by simp
      moreover have "metric z \<in> metric ` set xs \<or> \<not> lless (sei_last sit) (metric z)"
        if "z \<in># ord.vals (sei_heap sit') - mset ys" "metric z \<in> metric ` set ys \<or> \<not> lless (metric x) (metric z)" for z
      proof -
        have "\<not> lless (metric z) (metric x)"
          using least vals' in_diffD [OF that(1)] by simp
        then show ?thesis using that(2) lless_cases [of "metric x" "metric z"] ys(2) by auto
      qed
      moreover have "ord.vals (sei_heap sit) - mset xs = ord.vals (sei_heap sit') - mset ys"
        using ys(2) vals' by simp
      moreover have "e = EOF \<and> mset xs = ord.vals (sei_heap sit) \<or> e = ErrDuplicate \<and>
          (\<exists>z \<in># ord.vals (sei_heap sit') - mset ys. metric z \<in> metric ` set ys \<or> \<not> lless (metric x) (metric z))"
        using IH(3) ys(2) vals' by simp
      ultimately show ?thesis by metis
    qed
  qed
qed

end

section \<open>What the batcher keeps\<close>

text \<open>\<^verbatim>\<open>sort.Slice\<close> with the comparison of labels: the order of equal labels is not known.\<close>

definition label_sort :: "(labels \<Rightarrow> labels \<Rightarrow> int) \<Rightarrow> ('c series list \<Rightarrow> 'c series list) \<Rightarrow> bool" where
  "label_sort lcmp srt \<longleftrightarrow>
     (\<forall>xs. mset (srt xs) = mset xs \<and> sorted_wrt (\<lambda>a b. \<not> lcmp (metric b) (metric a) < 0) (srt xs))"

definition file_series :: "'c series batch_disk \<Rightarrow> string list \<Rightarrow> 'c series multiset" where
  "file_series disk files = (\<Sum>fn \<leftarrow> files. mset (map projr (the (disk fn))))"

definition ser_inv ::
    "(labels \<Rightarrow> labels \<Rightarrow> int) \<Rightarrow> 'c seriesBatcher \<Rightarrow> 'c series batch_disk \<Rightarrow> 'c series multiset \<Rightarrow> bool" where
  "ser_inv lcmp sb disk M \<longleftrightarrow>
     seb_files sb = map (batch_file (seb_dir sb) ''series_'') [0..<length (seb_files sb)] \<and>
     (\<forall>fn \<in> set (seb_files sb). \<exists>xs. disk fn = Some (map Inr xs) \<and>
       sorted_wrt (\<lambda>a b. \<not> lcmp (metric b) (metric a) < 0) xs) \<and>
     M = mset (seb_buffer sb) + file_series disk (seb_files sb)"

lemma ser_invD:
  assumes "ser_inv lcmp sb disk M"
  shows "seb_files sb = map (batch_file (seb_dir sb) ''series_'') [0..<length (seb_files sb)]"
    and "\<forall>fn \<in> set (seb_files sb). \<exists>xs. disk fn = Some (map Inr xs) \<and>
       sorted_wrt (\<lambda>a b. \<not> lcmp (metric b) (metric a) < 0) xs"
    and "M = mset (seb_buffer sb) + file_series disk (seb_files sb)"
  using assms unfolding ser_inv_def by blast+

lemma file_series_fresh: "fn \<notin> set files \<Longrightarrow> file_series (disk(fn \<mapsto> s)) files = file_series disk files"
  by (induction files) (auto simp: file_series_def)

lemma file_series_append: "file_series disk (fs @ gs) = file_series disk fs + file_series disk gs"
  by (simp add: file_series_def)

lemma file_series_single:
  assumes "disk fn = Some (map Inr xs)"
  shows "file_series disk [fn] = mset xs"
proof -
  have "map projr (the (disk fn)) = xs" using assms by (simp add: comp_def)
  then show ?thesis by (simp add: file_series_def del: mset_map)
qed

lemma flushSeries_inv:
  assumes "label_sort lcmp srt" and "ser_inv lcmp sb disk M"
  obtains sb' disk' where "flushSeries srt (\<lambda>fn. None) force sb disk = (None, sb', disk')"
    and "ser_inv lcmp sb' disk' M" and "force \<Longrightarrow> seb_buffer sb' = []"
proof (cases "(\<not> force \<and> int (length (seb_buffer sb)) < seb_limit sb) \<or> length (seb_buffer sb) = 0")
  case True
  then have "flushSeries srt (\<lambda>fn. None) force sb disk = (None, sb, disk)" by (auto simp: flushSeries_def)
  then show ?thesis by (rule that) (use True assms(2) in auto)
next
  case False
  let ?fn = "batch_file (seb_dir sb) ''series_'' (length (seb_files sb))"
  let ?sb = "sb\<lparr>seb_files := seb_files sb @ [?fn], seb_buffer := []\<rparr>"
  let ?disk = "disk(?fn \<mapsto> map Inr (srt (seb_buffer sb)))"
  note srt = assms(1) [unfolded label_sort_def, rule_format, of "seb_buffer sb"]
  note inv = ser_invD [OF assms(2)]
  have fl: "flushSeries srt (\<lambda>fn. None) force sb disk = (None, ?sb, ?disk)"
  proof -
    have c: "(\<not> force \<and> int (length (seb_buffer sb)) < seb_limit sb) = False" "(length (seb_buffer sb) = 0) = False"
      using False by blast+
    show ?thesis unfolding flushSeries_def c if_False by (simp add: writeSeriesToFile_def Let_def)
  qed
  have new: "?fn \<notin> set (seb_files sb)" by (subst inv(1)) auto
  have "ser_inv lcmp ?sb ?disk M"
    unfolding ser_inv_def
  proof (intro conjI)
    show "seb_files ?sb = map (batch_file (seb_dir ?sb) ''series_'') [0..<length (seb_files ?sb)]"
      using inv(1) by simp
    show "\<forall>fn \<in> set (seb_files ?sb). \<exists>xs. ?disk fn = Some (map Inr xs) \<and>
        sorted_wrt (\<lambda>a b. \<not> lcmp (metric b) (metric a) < 0) xs"
    proof
      fix fn assume "fn \<in> set (seb_files ?sb)"
      then consider "fn = ?fn" | "fn \<in> set (seb_files sb)" "fn \<noteq> ?fn" using new by auto
      then show "\<exists>xs. ?disk fn = Some (map Inr xs) \<and> sorted_wrt (\<lambda>a b. \<not> lcmp (metric b) (metric a) < 0) xs"
      proof cases
        case 1
        then show ?thesis using srt by auto
      next
        case 2
        then show ?thesis using inv(2) by auto
      qed
    qed
    have "file_series ?disk (seb_files sb @ [?fn]) = file_series disk (seb_files sb) + mset (srt (seb_buffer sb))"
      unfolding file_series_append file_series_fresh [OF new]
      using file_series_single [of ?disk ?fn "srt (seb_buffer sb)"] by simp
    then show "M = mset (seb_buffer ?sb) + file_series ?disk (seb_files ?sb)"
      using inv(3) srt by (simp add: add.commute)
  qed
  then show ?thesis by (rule that [OF fl]) simp
qed

text \<open>Series added one after the other, up to the first error.\<close>

fun add_series_all ::
    "('c series list \<Rightarrow> 'c series list) \<Rightarrow> 'c series batch_faults \<Rightarrow> 'c series list \<Rightarrow> 'c seriesBatcher
      \<Rightarrow> 'c series batch_disk \<Rightarrow> go_err option \<times> 'c seriesBatcher \<times> 'c series batch_disk" where
  "add_series_all srt faults [] sb disk = (None, sb, disk)"
| "add_series_all srt faults (s # ss) sb disk =
     (case sb_addSeries srt faults (metric s) (chunks_of s) sb disk of
        (Some e, sb, disk) \<Rightarrow> (Some e, sb, disk)
      | (None, sb, disk) \<Rightarrow> add_series_all srt faults ss sb disk)"

lemma sb_addSeries_inv:
  assumes "label_sort lcmp srt" and "ser_inv lcmp sb disk M"
  obtains sb' disk' where "sb_addSeries srt (\<lambda>fn. None) (metric s) (chunks_of s) sb disk = (None, sb', disk')"
    and "ser_inv lcmp sb' disk' (add_mset s M)"
proof -
  have s: "\<lparr>metric = metric s, chunks_of = chunks_of s\<rparr> = s" by simp
  have "ser_inv lcmp (sb\<lparr>seb_buffer := seb_buffer sb @ [s]\<rparr>) disk (add_mset s M)"
    unfolding ser_inv_def using ser_invD [OF assms(2)] by simp
  then obtain sb' disk' where "flushSeries srt (\<lambda>fn. None) False (sb\<lparr>seb_buffer := seb_buffer sb @ [s]\<rparr>) disk
      = (None, sb', disk')" "ser_inv lcmp sb' disk' (add_mset s M)"
    using flushSeries_inv [OF assms(1)] by metis
  then show ?thesis by (intro that [of sb' disk']) (simp_all add: sb_addSeries_def s)
qed

lemma add_series_all_inv:
  assumes "label_sort lcmp srt" and "ser_inv lcmp sb disk M"
  shows "\<exists>sb' disk'. add_series_all srt (\<lambda>fn. None) ss sb disk = (None, sb', disk') \<and>
    ser_inv lcmp sb' disk' (mset ss + M)"
  using assms(2)
proof (induction ss arbitrary: sb disk M)
  case (Cons s ss)
  obtain sb1 disk1 where 1: "sb_addSeries srt (\<lambda>fn. None) (metric s) (chunks_of s) sb disk = (None, sb1, disk1)"
    "ser_inv lcmp sb1 disk1 (add_mset s M)"
    using sb_addSeries_inv [OF assms(1) Cons.prems] by metis
  from Cons.IH [OF 1(2)] 1(1) show ?case by simp
qed simp

lemma newSeriesBatcher_inv: "newSeriesBatcher limit dir = Ok sb \<Longrightarrow> ser_inv lcmp sb disk {#}"
  by (auto simp: newSeriesBatcher_def ser_inv_def file_series_def split: if_splits)

context labels_order begin

lemma newSeriesIterator_ordered:
  assumes "\<forall>fn \<in> set files. \<exists>xs. disk fn = Some (map Inr xs) \<and> sorted_wrt (\<lambda>a b. \<not> lless (metric b) (metric a)) xs"
  obtains sit where "newSeriesIterator lcmp disk files = Inr sit" and "sei_last sit = []"
    and "ord.ordered (sei_heap sit)" and "ord.ascending (sei_heap sit)"
    and "ord.vals (sei_heap sit) = file_series disk files"
proof -
  let ?fs = "map newSeriesFile (map (the \<circ> disk) files)"
  let ?h = "heap_Init (ser_Less lcmp) ?fs"
  have opn: "openFiles disk files = Inr (map (the \<circ> disk) files)"
    using assms by (auto simp: openFiles_def)
  have rem: "ser_rem (newSeriesFile (map Inr xs)) = map Inr xs" for xs :: "'a series list"
    by (simp add: ser_rem_def newSeriesFile_def)
  have c: "ord.contents ?h = ord.contents ?fs"
    unfolding ord.contents_def by (rule ord.Init_ordered(2))
  have asc: "ord.ascending ?fs \<and> ord.vals ?fs = file_series disk files"
    using assms
  proof (induction files)
    case Nil
    then show ?case by (simp add: ord.ascending_def file_series_def)
  next
    case (Cons fn files)
    then obtain xs where xs: "disk fn = Some (map Inr xs)" "sorted_wrt (\<lambda>a b. \<not> lless (metric b) (metric a)) xs"
      by auto
    have "ord.ascending (newSeriesFile (map Inr xs) # map newSeriesFile (map (the \<circ> disk) files))"
      unfolding ord.ascending_Cons rem using Cons xs(2) by (auto simp: ord.asc_def comp_def)
    moreover have "file_series disk (fn # files) = mset xs + file_series disk files"
      using file_series_append [of disk "[fn]" files] file_series_single [of disk fn xs] xs(1) by simp
    moreover have "map projr (map Inr xs) = xs" by (simp add: comp_def)
    ultimately show ?case using Cons xs(1) rem by (simp add: comp_def)
  qed
  show ?thesis
  proof (rule that)
    show "newSeriesIterator lcmp disk files = Inr \<lparr>sei_heap = ?h, sei_last = []\<rparr>"
      using opn by (simp add: newSeriesIterator_def)
  qed (use asc ord.Init_ordered(1) [of ?fs] ord.ascending_cong [OF c] ord.vals_cong [OF c] in simp_all)
qed

text \<open>Reading is complete exactly if the series have distinct, nonempty labels.\<close>

lemma complete_iff:
  assumes s: "sorted_wrt lless ([] # map metric xs)" and sub: "mset xs \<subseteq># mset ss"
    and e: "e = EOF \<and> mset xs = mset ss \<or>
      e = ErrDuplicate \<and> (\<exists>x \<in># mset ss - mset xs. metric x \<in> metric ` set xs \<or> \<not> lless [] (metric x))"
  shows "if distinct (map metric ss) \<and> [] \<notin> metric ` set ss then e = EOF \<and> mset xs = mset ss else e = ErrDuplicate"
proof (cases "distinct (map metric ss) \<and> [] \<notin> metric ` set ss")
  case True
  have "metric x \<notin> metric ` set xs \<and> lless [] (metric x)" if "x \<in># mset ss - mset xs" for x
  proof -
    obtain ys where ys: "mset ys = mset ss - mset xs" by (metis ex_mset)
    then have "mset (ys @ xs) = mset ss" using sub by simp
    then have "mset (map metric (ys @ xs)) = mset (map metric ss)" by (simp only: mset_map)
    then have "distinct (map metric (ys @ xs))" using True mset_eq_imp_distinct_iff by blast
    moreover have "x \<in> set ys" using that ys by (metis set_mset_mset)
    ultimately have "metric x \<notin> metric ` set xs" by auto
    moreover have "metric x \<noteq> []" using True in_diffD [OF that] by force
    ultimately show ?thesis using lless_cases [of "[]" "metric x"] Nil_least by force
  qed
  then show ?thesis using e True by auto
next
  case False
  have "mset xs \<noteq> mset ss"
  proof
    assume eq: "mset xs = mset ss"
    have "distinct (map metric xs)"
      using s by (intro sorted_wrt_distinct [of lless]) (simp_all add: lless_irrefl)
    then have "distinct (map metric ss)" using eq by (metis mset_eq_imp_distinct_iff mset_map)
    moreover have "[] \<notin> metric ` set ss" using s lless_irrefl mset_eq_setD [OF eq] by auto
    ultimately show False using False by blast
  qed
  then show ?thesis using e False by auto
qed

text \<open>Reading a batcher that has been flushed.\<close>

lemma read_flushed:
  assumes inv: "ser_inv lcmp sb disk M" and empty: "seb_buffer sb = []" and ss: "mset ss = M"
  obtains sit xs e where "newSeriesIterator lcmp disk (seb_files sb) = Inr sit" and "series_all lcmp sit = (xs, e)"
    and "sorted_wrt lless ([] # map metric xs)" and "mset xs \<subseteq># mset ss"
    and "e = EOF \<and> mset xs = mset ss \<or>
      e = ErrDuplicate \<and> (\<exists>x \<in># mset ss - mset xs. metric x \<in> metric ` set xs \<or> \<not> lless [] (metric x))"
proof -
  have M: "file_series disk (seb_files sb) = mset ss" using ser_invD(3) [OF inv] empty ss by simp
  obtain sit where sit: "newSeriesIterator lcmp disk (seb_files sb) = Inr sit" "sei_last sit = []"
    "ord.ordered (sei_heap sit)" "ord.ascending (sei_heap sit)" "ord.vals (sei_heap sit) = mset ss"
    using newSeriesIterator_ordered [OF ser_invD(2) [OF inv]] M by metis
  obtain xs e where all: "series_all lcmp sit = (xs, e)" by fastforce
  show ?thesis using that [OF sit(1) all] series_all_spec [OF sit(3,4) all] sit(2,5) by simp
qed

lemma series_all_file:
  assumes "label_sort lcmp srt" and "newSeriesBatcher limit dir = Ok sb"
    and "add_series_all srt (\<lambda>fn. None) ss sb disk = (None, sb1, disk1)"
    and "flushSeries srt (\<lambda>fn. None) True sb1 disk1 = (None, sb2, disk2)"
  obtains sit xs e where "newSeriesIterator lcmp disk2 (seb_files sb2) = Inr sit" and "series_all lcmp sit = (xs, e)"
    and "sorted_wrt lless ([] # map metric xs)" and "mset xs \<subseteq># mset ss"
    and "e = EOF \<and> mset xs = mset ss \<or>
      e = ErrDuplicate \<and> (\<exists>x \<in># mset ss - mset xs. metric x \<in> metric ` set xs \<or> \<not> lless [] (metric x))"
proof -
  have "ser_inv lcmp sb1 disk1 (mset ss)"
    using add_series_all_inv [OF assms(1) newSeriesBatcher_inv [OF assms(2)], where disk = disk and ss = ss] assms(3) by auto
  then have "ser_inv lcmp sb2 disk2 (mset ss)" and "seb_buffer sb2 = []"
    using flushSeries_inv [OF assms(1), of sb1 disk1 "mset ss" True] assms(4) by fastforce+
  from read_flushed [OF this refl] that show ?thesis by blast
qed

end

section \<open>Properties\<close>

text \<open>
  C3. If the label sets of the added series are nonempty and no two are equal, then whatever the
  order of the additions, the size of the batches and the order that the sort gives to equal
  elements, reading gives every series exactly once, in strictly ascending order of the labels,
  and then ends.
\<close>

theorem series_sorted_distinct:
  assumes "compare_ok lcmp" and "label_sort lcmp srt" and "newSeriesBatcher limit dir = Ok sb"
    and "add_series_all srt (\<lambda>fn. None) ss sb disk = (None, sb1, disk1)"
    and "flushSeries srt (\<lambda>fn. None) True sb1 disk1 = (None, sb2, disk2)"
    and "distinct (map metric ss)" and "[] \<notin> metric ` set ss"
  shows "\<exists>sit xs. newSeriesIterator lcmp disk2 (seb_files sb2) = Inr sit \<and> series_all lcmp sit = (xs, EOF) \<and>
    mset xs = mset ss \<and> sorted_wrt (\<lambda>a b. lcmp (metric a) (metric b) < 0) xs"
proof -
  note o = labels_order.intro [OF assms(1)]
  obtain sit xs e where r: "newSeriesIterator lcmp disk2 (seb_files sb2) = Inr sit" "series_all lcmp sit = (xs, e)"
    and s: "sorted_wrt (\<lambda>a b. lcmp a b < 0) ([] # map metric xs)" "mset xs \<subseteq># mset ss"
    and e: "e = EOF \<and> mset xs = mset ss \<or>
      e = ErrDuplicate \<and> (\<exists>x \<in># mset ss - mset xs. metric x \<in> metric ` set xs \<or> \<not> lcmp [] (metric x) < 0)"
    using labels_order.series_all_file [OF o assms(2-5)] .
  have "e = EOF \<and> mset xs = mset ss" using labels_order.complete_iff [OF o s e] assms(6,7) by simp
  then show ?thesis using r s(1) by (auto simp: sorted_wrt_map)
qed

abbreviation example_label :: "byte \<Rightarrow> labels" where
  "example_label v \<equiv> [Label [110] [v]]"

text \<open>A sort that the model can run: insertion by the comparison.\<close>

fun insert_by :: "(labels \<Rightarrow> labels \<Rightarrow> int) \<Rightarrow> 'c series \<Rightarrow> 'c series list \<Rightarrow> 'c series list" where
  "insert_by lcmp s [] = [s]"
| "insert_by lcmp s (t # ts) = (if lcmp (metric s) (metric t) \<le> 0 then s # t # ts else t # insert_by lcmp s ts)"

definition sort_by :: "(labels \<Rightarrow> labels \<Rightarrow> int) \<Rightarrow> 'c series list \<Rightarrow> 'c series list" where
  "sort_by lcmp ss = foldr (insert_by lcmp) ss []"

lemma mset_insert_by [simp]: "mset (insert_by lcmp s ts) = add_mset s (mset ts)"
  by (induction ts) auto

lemma sort_by_ok:
  assumes "compare_ok lcmp"
  shows "label_sort lcmp (sort_by lcmp)"
proof -
  note o = labels_order.intro [OF assms]
  have set: "set (insert_by lcmp s ts) = insert s (set ts)" for s :: "'a series" and ts
    by (metis mset_insert_by set_mset_add_mset_insert set_mset_mset)
  have "sorted_wrt (\<lambda>a b. \<not> lcmp (metric b) (metric a) < 0) (insert_by lcmp s ts)"
    if "sorted_wrt (\<lambda>a b. \<not> lcmp (metric b) (metric a) < 0) ts" for s :: "'a series" and ts
    using that
  proof (induction ts)
    case (Cons t ts)
    show ?case
    proof (cases "lcmp (metric s) (metric t) \<le> 0")
      case True
      then have "\<not> lcmp (metric t) (metric s) < 0" using labels_order.lless_neg [OF o] by blast
      then show ?thesis using True Cons.prems labels_order.lless_neg_trans [OF o] by auto
    next
      case False
      then have "\<not> lcmp (metric s) (metric t) < 0" by simp
      then show ?thesis using False Cons by (auto simp: set)
    qed
  qed simp
  then have "sorted_wrt (\<lambda>a b. \<not> lcmp (metric b) (metric a) < 0) (foldr (insert_by lcmp) ss [])" for ss :: "'a series list"
    by (induction ss) auto
  moreover have "mset (foldr (insert_by lcmp) ss []) = mset ss" for ss :: "'a series list"
    by (induction ss) auto
  ultimately show ?thesis by (simp add: label_sort_def sort_by_def)
qed

theorem series_sorted_distinct_witness:
  "\<exists>sb sb1 disk1 sb2 disk2 sit xs. newSeriesBatcher 2 ''t'' = Ok sb \<and>
    add_series_all (sort_by lex_compare) (\<lambda>fn. None)
      [\<lparr>metric = example_label 3, chunks_of = [1::nat]\<rparr>, \<lparr>metric = example_label 1, chunks_of = [2]\<rparr>,
       \<lparr>metric = example_label 2, chunks_of = [3]\<rparr>] sb Map.empty = (None, sb1, disk1) \<and>
    flushSeries (sort_by lex_compare) (\<lambda>fn. None) True sb1 disk1 = (None, sb2, disk2) \<and>
    newSeriesIterator lex_compare disk2 (seb_files sb2) = Inr sit \<and> series_all lex_compare sit = (xs, EOF) \<and>
    length xs = 3"
proof -
  let ?ss = "[\<lparr>metric = example_label 3, chunks_of = [1::nat]\<rparr>, \<lparr>metric = example_label 1, chunks_of = [2]\<rparr>,
       \<lparr>metric = example_label 2, chunks_of = [3]\<rparr>]"
  note srt = sort_by_ok [OF lex_compare_ok]
  obtain sb where sb: "newSeriesBatcher 2 ''t'' = Ok (sb :: nat seriesBatcher)"
    by (simp add: newSeriesBatcher_def make_ok_def max_alloc_def)
  obtain sb1 disk1 where 1: "add_series_all (sort_by lex_compare) (\<lambda>fn. None) ?ss sb Map.empty = (None, sb1, disk1)"
    and i1: "ser_inv lex_compare sb1 disk1 (mset ?ss + {#})"
    using add_series_all_inv [OF srt newSeriesBatcher_inv [OF sb]] by blast
  obtain sb2 disk2 where 2: "flushSeries (sort_by lex_compare) (\<lambda>fn. None) True sb1 disk1 = (None, sb2, disk2)"
    using flushSeries_inv [OF srt i1] by metis
  obtain sit xs where "newSeriesIterator lex_compare disk2 (seb_files sb2) = Inr sit"
    "series_all lex_compare sit = (xs, EOF)" "mset xs = mset ?ss"
    using series_sorted_distinct [OF lex_compare_ok srt sb 1 2] by auto
  then show ?thesis using sb 1 2 mset_eq_length [of xs ?ss] by fastforce
qed

text \<open>
  Two series with equal labels are never merged or dropped silently: if two added series have
  equal labels, or one has none, reading stops with the error of a duplicate and never reaches
  the end; the series given before it are distinct and in order.
\<close>

theorem series_duplicate_error:
  assumes "compare_ok lcmp" and "label_sort lcmp srt" and "newSeriesBatcher limit dir = Ok sb"
    and "add_series_all srt (\<lambda>fn. None) ss sb disk = (None, sb1, disk1)"
    and "flushSeries srt (\<lambda>fn. None) True sb1 disk1 = (None, sb2, disk2)"
    and "\<not> distinct (map metric ss) \<or> [] \<in> metric ` set ss"
  shows "\<exists>sit xs. newSeriesIterator lcmp disk2 (seb_files sb2) = Inr sit \<and> series_all lcmp sit = (xs, ErrDuplicate) \<and>
    sorted_wrt (\<lambda>a b. lcmp (metric a) (metric b) < 0) xs"
proof -
  note o = labels_order.intro [OF assms(1)]
  obtain sit xs e where r: "newSeriesIterator lcmp disk2 (seb_files sb2) = Inr sit" "series_all lcmp sit = (xs, e)"
    and s: "sorted_wrt (\<lambda>a b. lcmp a b < 0) ([] # map metric xs)" "mset xs \<subseteq># mset ss"
    and e: "e = EOF \<and> mset xs = mset ss \<or>
      e = ErrDuplicate \<and> (\<exists>x \<in># mset ss - mset xs. metric x \<in> metric ` set xs \<or> \<not> lcmp [] (metric x) < 0)"
    using labels_order.series_all_file [OF o assms(2-5)] .
  have "e = ErrDuplicate" using labels_order.complete_iff [OF o s e] assms(6) by (simp split: if_splits)
  then show ?thesis using r s(1) by (auto simp: sorted_wrt_map)
qed

theorem series_duplicate_error_witness:
  "\<exists>sb sb1 disk1 sb2 disk2 sit xs. newSeriesBatcher 2 ''t'' = Ok sb \<and>
    add_series_all (sort_by lex_compare) (\<lambda>fn. None)
      [\<lparr>metric = example_label 3, chunks_of = [1::nat]\<rparr>, \<lparr>metric = example_label 1, chunks_of = [2]\<rparr>,
       \<lparr>metric = example_label 3, chunks_of = [3]\<rparr>] sb Map.empty = (None, sb1, disk1) \<and>
    flushSeries (sort_by lex_compare) (\<lambda>fn. None) True sb1 disk1 = (None, sb2, disk2) \<and>
    newSeriesIterator lex_compare disk2 (seb_files sb2) = Inr sit \<and> series_all lex_compare sit = (xs, ErrDuplicate)"
proof -
  let ?ss = "[\<lparr>metric = example_label 3, chunks_of = [1::nat]\<rparr>, \<lparr>metric = example_label 1, chunks_of = [2]\<rparr>,
       \<lparr>metric = example_label 3, chunks_of = [3]\<rparr>]"
  note srt = sort_by_ok [OF lex_compare_ok]
  obtain sb where sb: "newSeriesBatcher 2 ''t'' = Ok (sb :: nat seriesBatcher)"
    by (simp add: newSeriesBatcher_def make_ok_def max_alloc_def)
  obtain sb1 disk1 where 1: "add_series_all (sort_by lex_compare) (\<lambda>fn. None) ?ss sb Map.empty = (None, sb1, disk1)"
    and i1: "ser_inv lex_compare sb1 disk1 (mset ?ss + {#})"
    using add_series_all_inv [OF srt newSeriesBatcher_inv [OF sb]] by blast
  obtain sb2 disk2 where 2: "flushSeries (sort_by lex_compare) (\<lambda>fn. None) True sb1 disk1 = (None, sb2, disk2)"
    using flushSeries_inv [OF srt i1] by metis
  show ?thesis using sb 1 2 series_duplicate_error [OF lex_compare_ok srt sb 1 2] by fastforce
qed

end
