(* ===== verification/Chunks.thy ===== *)
theory Chunks
  imports GoFile
begin

text \<open>
  \<^verbatim>\<open>samplesToChunks\<close> of \<^verbatim>\<open>pkg/tsdb/builder.go\<close>: the samples of a series are put into chunks of at
  most 120 samples. The chunk encoding of the Prometheus library is the parameter \<open>lib\<close>.
\<close>

section \<open>Data\<close>

record ('k, 'v) chunk_lib =
  ck_new :: 'k
  ck_append :: "'k \<Rightarrow> int \<Rightarrow> 'v \<Rightarrow> 'k"
  ck_num :: "'k \<Rightarrow> nat"

text \<open>What is relied on: the number of samples counts the appended ones.\<close>

definition chunk_lib_ok :: "('k, 'v) chunk_lib \<Rightarrow> bool" where
  "chunk_lib_ok lib \<longleftrightarrow>
     ck_num lib (ck_new lib) = 0 \<and> (\<forall>c t v. ck_num lib (ck_append lib c t v) = Suc (ck_num lib c))"

record 'k chunk_meta =
  cm_ref :: "64 word"
  cm_chunk :: "'k option"
  cm_min :: int
  cm_max :: int

definition samplesPerChunk :: nat where
  "samplesPerChunk = 120"

text \<open>
  A sample iterator, by what it gives: for each \<^verbatim>\<open>Next\<close> a float sample or, as \<open>None\<close>, a sample of
  another type, and the error at the end.
\<close>

record 'v sample_iter =
  it_samples :: "(int \<times> 'v) option list"
  it_err :: "go_err option"

definition ErrNonFloat :: go_err where
  "ErrNonFloat = ErrText ''non-float sample type''"

definition ErrNotIncreasing :: go_err where
  "ErrNotIncreasing = ErrText ''sample timestamps are not increasing''"

section \<open>The loop\<close>

definition finishChunk :: "'k chunk_meta list \<Rightarrow> 'k \<Rightarrow> int \<Rightarrow> int \<Rightarrow> 'k chunk_meta list" where
  "finishChunk metas chunk minTime maxTime =
     metas @ [\<lparr>cm_ref = 0, cm_chunk = Some chunk, cm_min = minTime, cm_max = maxTime\<rparr>]"

text \<open>The state: the finished chunks, the open chunk with its first time, the last time taken.\<close>

fun stc_loop ::
    "('k, 'v) chunk_lib \<Rightarrow> int \<Rightarrow> int \<Rightarrow> (int \<times> 'v) option list \<Rightarrow> 'k chunk_meta list \<Rightarrow> ('k \<times> int) option \<Rightarrow> int
      \<Rightarrow> go_err + 'k chunk_meta list \<times> ('k \<times> int) option \<times> int" where
  "stc_loop lib minBlockTime maxBlockTime [] metas chunk prevTS = Inr (metas, chunk, prevTS)"
| "stc_loop lib minBlockTime maxBlockTime (None # ss) metas chunk prevTS = Inl ErrNonFloat"
| "stc_loop lib minBlockTime maxBlockTime (Some (ts, val) # ss) metas chunk prevTS =
     (if ts \<le> prevTS then Inl ErrNotIncreasing
      else if minBlockTime \<noteq> 0 \<and> ts < minBlockTime then stc_loop lib minBlockTime maxBlockTime ss metas chunk prevTS
      else if maxBlockTime \<noteq> 0 \<and> maxBlockTime \<le> ts then stc_loop lib minBlockTime maxBlockTime ss metas chunk prevTS
      else
        let (c, minTime) = (case chunk of None \<Rightarrow> (ck_new lib, ts) | Some cm \<Rightarrow> cm);
            c = ck_append lib c ts val
        in if samplesPerChunk \<le> ck_num lib c
           then stc_loop lib minBlockTime maxBlockTime ss (finishChunk metas c minTime ts) None ts
           else stc_loop lib minBlockTime maxBlockTime ss metas (Some (c, minTime)) ts)"

definition samplesToChunks ::
    "('k, 'v) chunk_lib \<Rightarrow> 'v sample_iter \<Rightarrow> int \<Rightarrow> int \<Rightarrow> go_err + 'k chunk_meta list" where
  "samplesToChunks lib samples minBlockTime maxBlockTime =
     (case stc_loop lib minBlockTime maxBlockTime (it_samples samples) [] None 0 of
        Inl e \<Rightarrow> Inl e
      | Inr (metas, chunk, prevTS) \<Rightarrow>
          let metas = (case chunk of None \<Rightarrow> metas | Some (c, minTime) \<Rightarrow> finishChunk metas c minTime prevTS)
          in case it_err samples of Some e \<Rightarrow> Inl e | None \<Rightarrow> Inr metas)"

section \<open>What the chunks are\<close>

text \<open>Cutting a list into pieces of \<open>n\<close>, the last one shorter if need be.\<close>

function chop :: "nat \<Rightarrow> 'a list \<Rightarrow> 'a list list" where
  "chop n xs = (if n = 0 \<or> xs = [] then [] else take n xs # chop n (drop n xs))"
  by pat_completeness auto
termination by (relation "measure (\<lambda>(n, xs). length xs)") auto

declare chop.simps [simp del]

lemma chop_Nil [simp]: "chop n [] = []"
  by (simp add: chop.simps)

lemma concat_chop: "0 < n \<Longrightarrow> concat (chop n xs) = xs"
proof (induction n xs rule: chop.induct)
  case (1 n xs)
  then show ?case by (cases "xs = []") (simp_all add: chop.simps [of n xs])
qed

lemma chop_lengths: "b \<in> set (chop n xs) \<Longrightarrow> b \<noteq> [] \<and> length b \<le> n"
proof (induction n xs rule: chop.induct)
  case (1 n xs)
  then show ?case by (cases "n = 0 \<or> xs = []") (auto simp: chop.simps [of n xs])
qed

lemma chop_full: "b \<in> set (butlast (chop n xs)) \<Longrightarrow> length b = n"
proof (induction n xs rule: chop.induct)
  case (1 n xs)
  show ?case
  proof (cases "n = 0 \<or> xs = []")
    case False
    then have "chop n xs = take n xs # chop n (drop n xs)" by (simp add: chop.simps [of n xs])
    then show ?thesis using 1 False by (cases "chop n (drop n xs) = []") (auto simp: chop.simps [of n "drop n xs"] split: if_splits)
  qed (use 1 in \<open>simp add: chop.simps [of n xs]\<close>)
qed

lemma chop_short: "0 < length xs \<Longrightarrow> length xs \<le> n \<Longrightarrow> chop n xs = [xs]"
  by (cases n) (simp_all add: chop.simps [of n xs] chop.simps [of "Suc _" xs])

lemma chop_append: "length b = n \<Longrightarrow> 0 < n \<Longrightarrow> chop n (b @ xs) = b # chop n xs"
  by (subst chop.simps) auto

text \<open>The chunk of a list of samples, and its metadata.\<close>

definition chunk_of :: "('k, 'v) chunk_lib \<Rightarrow> (int \<times> 'v) list \<Rightarrow> 'k" where
  "chunk_of lib b = foldl (\<lambda>c (t, v). ck_append lib c t v) (ck_new lib) b"

definition meta_of :: "('k, 'v) chunk_lib \<Rightarrow> (int \<times> 'v) list \<Rightarrow> 'k chunk_meta" where
  "meta_of lib b =
     \<lparr>cm_ref = 0, cm_chunk = Some (chunk_of lib b), cm_min = fst (hd b), cm_max = fst (last b)\<rparr>"

lemma num_chunk_of: "chunk_lib_ok lib \<Longrightarrow> ck_num lib (chunk_of lib b) = length b"
  by (induction b rule: rev_induct) (auto simp: chunk_of_def chunk_lib_ok_def)

lemma chunk_of_snoc: "ck_append lib (chunk_of lib b) t v = chunk_of lib (b @ [(t, v)])"
  by (simp add: chunk_of_def)

text \<open>The samples inside the bounds of the block; a bound of zero is no bound.\<close>

definition in_block :: "int \<Rightarrow> int \<Rightarrow> int \<Rightarrow> bool" where
  "in_block minBlockTime maxBlockTime ts \<longleftrightarrow>
     (minBlockTime = 0 \<or> minBlockTime \<le> ts) \<and> (maxBlockTime = 0 \<or> ts < maxBlockTime)"

text \<open>A sample is accepted if it is newer than the last one that was taken.\<close>

fun accepted :: "int \<Rightarrow> int \<Rightarrow> int \<Rightarrow> (int \<times> 'v) option list \<Rightarrow> bool" where
  "accepted lo hi prev [] = True"
| "accepted lo hi prev (None # ss) = False"
| "accepted lo hi prev (Some (t, v) # ss) =
     (prev < t \<and> accepted lo hi (if in_block lo hi t then t else prev) ss)"

definition taken :: "int \<Rightarrow> int \<Rightarrow> (int \<times> 'v) option list \<Rightarrow> (int \<times> 'v) list" where
  "taken lo hi ss = filter (\<lambda>(t, v). in_block lo hi t) (List.map_filter id ss)"

lemma taken_simps [simp]:
  "taken lo hi [] = []"
  "taken lo hi (Some (t, v) # ss) = (if in_block lo hi t then (t, v) # taken lo hi ss else taken lo hi ss)"
  by (simp_all add: taken_def List.map_filter_simps)

definition open_chunk :: "('k, 'v) chunk_lib \<Rightarrow> (int \<times> 'v) list \<Rightarrow> ('k \<times> int) option" where
  "open_chunk lib b = (if b = [] then None else Some (chunk_of lib b, fst (hd b)))"

definition close_chunk :: "'k chunk_meta list \<times> ('k \<times> int) option \<times> int \<Rightarrow> 'k chunk_meta list" where
  "close_chunk r =
     (case r of (metas, chunk, prevTS) \<Rightarrow> (case chunk of None \<Rightarrow> metas | Some (c, minTime) \<Rightarrow> finishChunk metas c minTime prevTS))"

lemma stc_loop_spec:
  assumes "chunk_lib_ok lib" and "length b < samplesPerChunk" and "b \<noteq> [] \<Longrightarrow> prev = fst (last b)"
  shows "map_sum (\<lambda>_. ()) close_chunk (stc_loop lib lo hi ss metas (open_chunk lib b) prev) =
    (if accepted lo hi prev ss then Inr (metas @ map (meta_of lib) (chop samplesPerChunk (b @ taken lo hi ss))) else Inl ())"
  using assms(2,3)
proof (induction ss arbitrary: metas b prev)
  case Nil
  then show ?case
    by (cases "b = []") (simp_all add: open_chunk_def close_chunk_def finishChunk_def meta_of_def chop_short)
next
  case (Cons s ss)
  show ?case
  proof (cases s)
    case None
    then show ?thesis by simp
  next
    case (Some tv)
    obtain t v where s: "s = Some (t, v)" using Some by (cases tv) simp
    consider (old) "t \<le> prev" | (out) "prev < t" "\<not> in_block lo hi t" | (take) "prev < t" "in_block lo hi t"
      by linarith
    then show ?thesis
    proof cases
      case old
      then show ?thesis using s by simp
    next
      case out
      then have "stc_loop lib lo hi (s # ss) metas (open_chunk lib b) prev = stc_loop lib lo hi ss metas (open_chunk lib b) prev"
        using s by (auto simp: in_block_def)
      then show ?thesis using Cons.IH [OF Cons.prems] out s by simp
    next
      case take
      let ?b = "b @ [(t, v)]"
      have ch: "(case open_chunk lib b of None \<Rightarrow> (ck_new lib, t) | Some cm \<Rightarrow> cm) = (chunk_of lib b, fst (hd ?b))"
        by (simp add: open_chunk_def chunk_of_def)
      have num: "ck_num lib (chunk_of lib ?b) = length ?b" by (rule num_chunk_of [OF assms(1)])
      have step: "stc_loop lib lo hi (s # ss) metas (open_chunk lib b) prev =
        (if samplesPerChunk \<le> length ?b
         then stc_loop lib lo hi ss (finishChunk metas (chunk_of lib ?b) (fst (hd ?b)) t) None t
         else stc_loop lib lo hi ss metas (Some (chunk_of lib ?b, fst (hd ?b))) t)"
        using take s num by (auto simp: in_block_def ch chunk_of_snoc Let_def simp del: length_append)
      show ?thesis
      proof (cases "samplesPerChunk \<le> length ?b")
        case True
        then have full: "length ?b = samplesPerChunk" using Cons.prems(1) by simp
        have f: "finishChunk metas (chunk_of lib ?b) (fst (hd ?b)) t = metas @ [meta_of lib ?b]"
          by (simp add: finishChunk_def meta_of_def)
        have "chop samplesPerChunk (?b @ taken lo hi ss) = ?b # chop samplesPerChunk (taken lo hi ss)"
          by (rule chop_append [OF full]) (simp add: samplesPerChunk_def)
        then show ?thesis
          using Cons.IH [of "[]" t "metas @ [meta_of lib ?b]"] step True f take s
          by (simp add: open_chunk_def samplesPerChunk_def)
      next
        case False
        then have "open_chunk lib ?b = Some (chunk_of lib ?b, fst (hd ?b))" by (simp add: open_chunk_def)
        then show ?thesis
          using Cons.IH [of ?b t metas] step False take s by simp
      qed
    qed
  qed
qed

lemma samplesToChunks_spec:
  assumes "chunk_lib_ok lib" and "it_err it = None"
  shows "map_sum (\<lambda>_. ()) id (samplesToChunks lib it lo hi) =
    (if accepted lo hi 0 (it_samples it) then Inr (map (meta_of lib) (chop samplesPerChunk (taken lo hi (it_samples it))))
     else Inl ())"
  using stc_loop_spec [OF assms(1), of "[]" 0 lo hi "it_samples it" "[]"] assms(2)
  by (auto simp: samplesToChunks_def open_chunk_def close_chunk_def samplesPerChunk_def split: sum.splits prod.splits if_splits)

lemma accepted_sorted:
  "accepted lo hi prev ss \<Longrightarrow> sorted_wrt (<) (prev # map fst (taken lo hi ss))"
proof (induction lo hi prev ss rule: accepted.induct)
  case (3 lo hi prev t v ss)
  then show ?case by (cases "in_block lo hi t") auto
qed simp_all

lemma sorted_accepted:
  "sorted_wrt (<) (prev # map fst ss) \<Longrightarrow> accepted lo hi prev (map Some ss)"
  by (induction ss arbitrary: prev) auto

lemma samplesToChunks_Inr:
  assumes "chunk_lib_ok lib" and "samplesToChunks lib it lo hi = Inr metas"
  shows "accepted lo hi 0 (it_samples it)"
    and "metas = map (meta_of lib) (chop samplesPerChunk (taken lo hi (it_samples it)))"
proof -
  have "it_err it = None"
    using assms(2) by (auto simp: samplesToChunks_def split: sum.splits prod.splits option.splits)
  note spec = samplesToChunks_spec [OF assms(1) this, of lo hi]
  show "accepted lo hi 0 (it_samples it)"
    using spec assms(2) by (simp split: if_splits)
  then show "metas = map (meta_of lib) (chop samplesPerChunk (taken lo hi (it_samples it)))"
    using spec assms(2) by simp
qed

lemma chop_ordered:
  assumes "sorted_wrt (<) (map fst xs)"
  shows "sorted_wrt (\<lambda>a b. cm_max a < cm_min b) (map (meta_of lib) (chop n xs)) \<and>
    (\<forall>m \<in> set (map (meta_of lib) (chop n xs)). cm_min m \<le> cm_max m \<and> cm_min m \<in> fst ` set xs \<and> cm_max m \<in> fst ` set xs)"
  using assms
proof (induction n xs rule: chop.induct)
  case (1 n xs)
  show ?case
  proof (cases "n = 0 \<or> xs = []")
    case True
    then show ?thesis by (simp add: chop.simps [of n xs])
  next
    case False
    let ?b = "take n xs" and ?r = "drop n xs"
    have eq: "chop n xs = ?b # chop n ?r" using False by (simp add: chop.simps [of n xs])
    have srt: "sorted_wrt (<) (map fst ?b)" "sorted_wrt (<) (map fst ?r)"
      "\<forall>x \<in> fst ` set ?b. \<forall>y \<in> fst ` set ?r. x < y"
    proof -
      have "sorted_wrt (<) (map fst (?b @ ?r))" using "1.prems" by simp
      then show "sorted_wrt (<) (map fst ?b)" "sorted_wrt (<) (map fst ?r)"
        "\<forall>x \<in> fst ` set ?b. \<forall>y \<in> fst ` set ?r. x < y"
        unfolding map_append sorted_wrt_append set_map by blast+
    qed
    have b: "?b \<noteq> []" using False by simp
    then have mem: "fst (hd ?b) \<in> fst ` set ?b" "fst (last ?b) \<in> fst ` set ?b"
      by (metis hd_in_set imageI, metis last_in_set imageI)
    have first: "fst (hd ?b) \<le> fst (last ?b)"
    proof (cases ?b)
      case (Cons y ys)
      then show ?thesis using srt(1) by (cases "ys = []") (auto intro: less_imp_le)
    qed (use b in simp)
    have sub: "fst ` set ?b \<subseteq> fst ` set xs" "fst ` set ?r \<subseteq> fst ` set xs"
      using set_take_subset [of n xs] set_drop_subset [of n xs] by blast+
    note IH = "1.IH" [OF False srt(2)]
    have later: "\<forall>m \<in> set (map (meta_of lib) (chop n ?r)). cm_max (meta_of lib ?b) < cm_min m"
    proof
      fix m assume "m \<in> set (map (meta_of lib) (chop n ?r))"
      then have "cm_min m \<in> fst ` set ?r" using IH by blast
      then have "fst (last ?b) < cm_min m" using mem(2) srt(3) by blast
      then show "cm_max (meta_of lib ?b) < cm_min m" by (simp add: meta_of_def)
    qed
    have m: "cm_min (meta_of lib ?b) = fst (hd ?b)" "cm_max (meta_of lib ?b) = fst (last ?b)"
      by (simp_all add: meta_of_def)
    show ?thesis
      unfolding eq
    proof (intro conjI ballI)
      show "sorted_wrt (\<lambda>a b. cm_max a < cm_min b) (map (meta_of lib) (?b # chop n ?r))"
        using IH later by simp
      fix m assume "m \<in> set (map (meta_of lib) (?b # chop n ?r))"
      then consider "m = meta_of lib ?b" | "m \<in> set (map (meta_of lib) (chop n ?r))" by auto
      then have "cm_min m \<le> cm_max m \<and> cm_min m \<in> fst ` set xs \<and> cm_max m \<in> fst ` set xs"
      proof cases
        case 1
        then show ?thesis using m first mem sub(1) by auto
      next
        case 2
        then show ?thesis using IH sub(2) by blast
      qed
      then show "cm_min m \<le> cm_max m" "cm_min m \<in> fst ` set xs" "cm_max m \<in> fst ` set xs" by blast+
    qed
  qed
qed

section \<open>Properties\<close>

text \<open>
  C11. A series of samples with positive, strictly increasing times is cut without loss: the
  chunks hold, in order, exactly the samples inside the bounds of the block; every chunk but the
  last holds 120 samples and the last between 1 and 120; the metadata of a chunk give its first
  and its last time.
\<close>

theorem samplesToChunks_groups:
  assumes "chunk_lib_ok lib" and "sorted_wrt (<) (0 # map fst ss)"
  shows "\<exists>bs. samplesToChunks lib \<lparr>it_samples = map Some ss, it_err = None\<rparr> lo hi =
      Inr (map (\<lambda>b. \<lparr>cm_ref = 0, cm_chunk = Some (foldl (\<lambda>c (t, v). ck_append lib c t v) (ck_new lib) b),
        cm_min = fst (hd b), cm_max = fst (last b)\<rparr>) bs) \<and>
    concat bs = filter (\<lambda>(t, v). (lo = 0 \<or> lo \<le> t) \<and> (hi = 0 \<or> t < hi)) ss \<and>
    (\<forall>b \<in> set bs. b \<noteq> [] \<and> length b \<le> 120) \<and> (\<forall>b \<in> set (butlast bs). length b = 120)"
proof -
  let ?ks = "taken lo hi (map Some ss)"
  have "samplesToChunks lib \<lparr>it_samples = map Some ss, it_err = None\<rparr> lo hi = Inr (map (meta_of lib) (chop 120 ?ks))"
    using samplesToChunks_spec [OF assms(1), of "\<lparr>it_samples = map Some ss, it_err = None\<rparr>" lo hi]
      sorted_accepted [OF assms(2)]
    by (cases "samplesToChunks lib \<lparr>it_samples = map Some ss, it_err = None\<rparr> lo hi") (simp_all add: samplesPerChunk_def)
  moreover have "?ks = filter (\<lambda>(t, v). (lo = 0 \<or> lo \<le> t) \<and> (hi = 0 \<or> t < hi)) ss"
    by (induction ss) (auto simp: in_block_def split: if_splits)
  ultimately show ?thesis
    by (intro exI [of _ "chop 120 ?ks"])
      (simp add: meta_of_def [abs_def] chunk_of_def concat_chop chop_lengths chop_full)
qed

abbreviation list_lib :: "((int \<times> 'v) list, 'v) chunk_lib" where
  "list_lib \<equiv> \<lparr>ck_new = [], ck_append = (\<lambda>c t v. c @ [(t, v)]), ck_num = length\<rparr>"

lemma list_lib_ok: "chunk_lib_ok list_lib"
  by (simp add: chunk_lib_ok_def)

theorem samplesToChunks_groups_witness:
  "\<exists>bs. samplesToChunks list_lib \<lparr>it_samples = map Some [(5, 1 :: nat), (7, 2), (12, 3)], it_err = None\<rparr> 6 0 =
      Inr (map (\<lambda>b. \<lparr>cm_ref = 0, cm_chunk = Some (foldl (\<lambda>c (t, v). c @ [(t, v)]) [] b),
        cm_min = fst (hd b), cm_max = fst (last b)\<rparr>) bs) \<and> concat bs = [(7, 2), (12, 3)]"
  using samplesToChunks_groups [OF list_lib_ok, of "[(5, 1 :: nat), (7, 2), (12, 3)]" 6 0] by auto

text \<open>
  Whatever the iterator gives: if chunks are made at all, they are in order and do not
  overlap, each spans its times, all their times are positive and inside the bounds of the block,
  and no chunk has more than 120 samples.
\<close>

theorem samplesToChunks_ordered:
  assumes "chunk_lib_ok lib" and "samplesToChunks lib it lo hi = Inr metas"
  shows "sorted_wrt (\<lambda>a b. cm_max a < cm_min b) metas \<and>
    (\<forall>m \<in> set metas. 0 < cm_min m \<and> cm_min m \<le> cm_max m \<and> (lo = 0 \<or> lo \<le> cm_min m) \<and> (hi = 0 \<or> cm_max m < hi) \<and>
      (\<exists>c. cm_chunk m = Some c \<and> 0 < ck_num lib c \<and> ck_num lib c \<le> 120))"
proof -
  let ?ks = "taken lo hi (it_samples it)"
  note r = samplesToChunks_Inr [OF assms]
  have pos: "sorted_wrt (<) (0 # map fst ?ks)" using accepted_sorted [OF r(1)] .
  have ord: "sorted_wrt (\<lambda>a b. cm_max a < cm_min b) metas"
    "\<forall>m \<in> set metas. cm_min m \<le> cm_max m \<and> cm_min m \<in> fst ` set ?ks \<and> cm_max m \<in> fst ` set ?ks"
    using chop_ordered [of ?ks lib samplesPerChunk] pos unfolding r(2) by simp_all
  have times: "\<forall>t \<in> fst ` set ?ks. 0 < t \<and> in_block lo hi t"
    using pos by (auto simp: taken_def)
  have "\<exists>c. cm_chunk m = Some c \<and> 0 < ck_num lib c \<and> ck_num lib c \<le> 120" if m: "m \<in> set metas" for m
  proof -
    obtain b where "b \<in> set (chop samplesPerChunk ?ks)" "m = meta_of lib b" using m unfolding r(2) by auto
    then show ?thesis using chop_lengths [of b samplesPerChunk ?ks]
      by (simp add: meta_of_def num_chunk_of [OF assms(1)] samplesPerChunk_def)
  qed
  then show ?thesis using ord times by (fastforce simp: in_block_def)
qed

theorem samplesToChunks_ordered_witness:
  "\<exists>metas. samplesToChunks list_lib \<lparr>it_samples = map Some [(5, 1 :: nat), (7, 2)], it_err = None\<rparr> 0 0 = Inr metas \<and>
    metas \<noteq> [] \<and> sorted_wrt (\<lambda>a b. cm_max a < cm_min b) metas"
proof -
  obtain metas where m: "samplesToChunks list_lib \<lparr>it_samples = map Some [(5, 1 :: nat), (7, 2)], it_err = None\<rparr> 0 0 = Inr metas"
    "metas \<noteq> []"
    by (simp add: samplesToChunks_def samplesPerChunk_def finishChunk_def)
  then show ?thesis using samplesToChunks_ordered [OF list_lib_ok m(1)] by blast
qed

text \<open>
  A sample at or before the time of the last one that was taken is refused, wherever it
  stands, and so is a first sample at time 0 or earlier: then there are no chunks at all.
\<close>

theorem samplesToChunks_rejects_old_sample:
  assumes "t \<le> foldl (\<lambda>p (u, w). if (lo = 0 \<or> lo \<le> u) \<and> (hi = 0 \<or> u < hi) then u else p) 0 before"
  shows "\<exists>e. samplesToChunks lib \<lparr>it_samples = map Some before @ Some (t, v) # after, it_err = err\<rparr> lo hi = Inl e"
proof -
  have "\<exists>e. stc_loop lib lo hi (map Some before @ Some (t, v) # after) metas c prev = Inl e"
    if "t \<le> foldl (\<lambda>p (u, w). if (lo = 0 \<or> lo \<le> u) \<and> (hi = 0 \<or> u < hi) then u else p) prev before" for metas c prev
    using that
  proof (induction before arbitrary: metas c prev)
    case (Cons s before)
    obtain u w where s: "s = (u, w)" by fastforce
    show ?case
    proof (cases "(lo = 0 \<or> lo \<le> u) \<and> (hi = 0 \<or> u < hi)")
      case True
      then show ?thesis using Cons s by (auto simp: Let_def split: prod.splits)
    next
      case False
      then have "t \<le> foldl (\<lambda>p (u, w). if (lo = 0 \<or> lo \<le> u) \<and> (hi = 0 \<or> u < hi) then u else p) prev before"
        using Cons.prems s by auto
      then show ?thesis using False Cons.IH s by auto
    qed
  qed simp
  then obtain e where "stc_loop lib lo hi (map Some before @ Some (t, v) # after) [] None 0 = Inl e"
    using assms by blast
  then show ?thesis by (simp add: samplesToChunks_def)
qed

theorem samplesToChunks_rejects_old_sample_witness:
  "\<exists>e. samplesToChunks list_lib \<lparr>it_samples = map Some [(5, 1 :: nat)] @ Some (5, 2) # [], it_err = None\<rparr> 0 0 = Inl e"
  using samplesToChunks_rejects_old_sample [of 5 0 0 "[(5, 1 :: nat)]"] by simp

end
