(* ===== verification/Builder.thy ===== *)
theory Builder
  imports SeriesBatch Chunks
begin

text \<open>
  \<^verbatim>\<open>pkg/tsdb/builder.go\<close>: building a TSDB block from series that are added in any order
  (\<open>NewBuilder\<close>, \<open>AddSeriesWithSamples\<close>, \<open>FinishBlock\<close>) and from series in memory
  (\<open>CreateBlock\<close>). The Prometheus library (chunk encoding, chunk writer and reader, index writer,
  comparison of labels) is the record \<open>tsdb_lib\<close>; the outcomes of the operating system are
  \<open>block_env\<close>.
\<close>

section \<open>Data\<close>

record Options =
  SymbolsBatchSize :: int
  SeriesBatchSize :: int
  MinBlockTime :: "int option"
  MaxBlockTime :: "int option"

definition DefaultOptions :: Options where
  "DefaultOptions =
     \<lparr>SymbolsBatchSize = 10000, SeriesBatchSize = 10000, MinBlockTime = None, MaxBlockTime = None\<rparr>"

text \<open>
  \<open>t_write\<close> stores chunks and sets their references, \<open>t_load\<close> reads a chunk that such a writer
  has stored, \<open>t_addSymbol\<close> and \<open>t_addSeries\<close> are the index writer's.
\<close>

record ('k, 'v, 'cw, 'iw) tsdb_lib =
  t_chunk :: "('k, 'v) chunk_lib"
  t_write :: "'cw \<Rightarrow> 'k chunk_meta list \<Rightarrow> (go_err option \<times> 'k chunk_meta list) \<times> 'cw"
  t_load :: "'cw \<Rightarrow> 'k chunk_meta \<Rightarrow> go_err + 'k option"
  t_addSymbol :: "'iw \<Rightarrow> bytes \<Rightarrow> go_err option \<times> 'iw"
  t_addSeries :: "'iw \<Rightarrow> 64 word \<Rightarrow> labels \<Rightarrow> 'k chunk_meta list \<Rightarrow> go_err option \<times> 'iw"
  t_compare :: "labels \<Rightarrow> labels \<Rightarrow> int"
  t_sort :: "'k chunk_meta series list \<Rightarrow> 'k chunk_meta series list"

record 'k block_env =
  e_mkdir :: "go_err option"
  e_newChunks :: "go_err option"
  e_symbols :: "bytes batch_faults"
  e_series :: "'k chunk_meta series batch_faults"
  e_closeUnsorted :: "go_err option"
  e_newIndex :: "go_err option"
  e_closeSymbols :: "go_err option"
  e_newReader :: "go_err option"
  e_newWriter :: "go_err option"
  e_closeSeries :: "go_err option"
  e_closers :: "go_err option"
  e_removeAll :: "go_err option"
  e_meta :: "go_err option"

record ('k, 'cw) builder =
  bd_opts :: Options
  bd_blockID :: string
  bd_symbols :: symbolsBatcher
  bd_series :: "'k chunk_meta seriesBatcher"
  bd_symDisk :: "bytes batch_disk"
  bd_serDisk :: "'k chunk_meta series batch_disk"
  bd_chunks :: 'cw

section \<open>Adding series\<close>

text \<open>
  The block directory is \<open>workDirectory/blockID\<close>, the batches go to its \<open>temp\<close> directory. Both
  batchers get the limit for symbols. If the empty symbol cannot be stored the constructor
  panics.
\<close>

definition NewBuilder :: "'k block_env \<Rightarrow> string \<Rightarrow> string \<Rightarrow> Options \<Rightarrow> 'cw \<Rightarrow> ('k, 'cw) builder res" where
  "NewBuilder env blockID workDirectory opts cw =
     (case e_mkdir env of Some e \<Rightarrow> Err e | None \<Rightarrow>
      case e_newChunks env of Some e \<Rightarrow> Err e | None \<Rightarrow>
        let blockTempDir = workDirectory @ ''/'' @ blockID @ ''/temp''
        in case newSeriesBatcher (SymbolsBatchSize opts) blockTempDir of
             Err e \<Rightarrow> Err e
           | Panic \<Rightarrow> Panic
           | Ok sb \<Rightarrow>
               (case addSymbol (e_symbols env) [] (newSymbolsBatcher (SymbolsBatchSize opts) blockTempDir) Map.empty of
                  (Some e, _) \<Rightarrow> Panic
                | (None, sw, disk) \<Rightarrow>
                    Ok \<lparr>bd_opts = opts, bd_blockID = blockID, bd_symbols = sw, bd_series = sb,
                        bd_symDisk = disk, bd_serDisk = Map.empty, bd_chunks = cw\<rparr>))"

fun addSymbols ::
    "'k block_env \<Rightarrow> labels \<Rightarrow> ('k, 'cw) builder \<Rightarrow> go_err option \<times> ('k, 'cw) builder" where
  "addSymbols env [] b = (None, b)"
| "addSymbols env (l # lbls) b =
     (case addSymbol (e_symbols env) (lname l) (bd_symbols b) (bd_symDisk b) of
        (Some e, sw, disk) \<Rightarrow> (Some e, b\<lparr>bd_symbols := sw, bd_symDisk := disk\<rparr>)
      | (None, sw, disk) \<Rightarrow>
          (case addSymbol (e_symbols env) (lvalue l) sw disk of
             (Some e, sw, disk) \<Rightarrow> (Some e, b\<lparr>bd_symbols := sw, bd_symDisk := disk\<rparr>)
           | (None, sw, disk) \<Rightarrow> addSymbols env lbls (b\<lparr>bd_symbols := sw, bd_symDisk := disk\<rparr>)))"

definition writeChunksForUnsortedSeries ::
    "('k, 'v, 'cw, 'iw) tsdb_lib \<Rightarrow> 'k chunk_meta list \<Rightarrow> ('k, 'cw) builder
      \<Rightarrow> (go_err option \<times> 'k chunk_meta list) \<times> ('k, 'cw) builder" where
  "writeChunksForUnsortedSeries lib chks b =
     (case t_write lib (bd_chunks b) (map (\<lambda>c. c\<lparr>cm_ref := 0\<rparr>) chks) of
        (r, cw) \<Rightarrow> (r, b\<lparr>bd_chunks := cw\<rparr>))"

text \<open>The check of the label names: each is greater than the one before, the first not empty.\<close>

fun names_sorted :: "bytes \<Rightarrow> labels \<Rightarrow> bool" where
  "names_sorted prev [] = True"
| "names_sorted prev (l # lbls) = (prev < lname l \<and> names_sorted (lname l) lbls)"

definition ErrLabelNames :: go_err where
  "ErrLabelNames = ErrText ''labels names not unique or sorted''"

definition ErrNoRef :: go_err where
  "ErrNoRef = ErrText ''chunk reference not set''"

definition bd_addSeries ::
    "('k, 'v, 'cw, 'iw) tsdb_lib \<Rightarrow> 'k block_env \<Rightarrow> labels \<Rightarrow> 'k chunk_meta list \<Rightarrow> ('k, 'cw) builder
      \<Rightarrow> go_err option \<times> ('k, 'cw) builder" where
  "bd_addSeries lib env lbls chks b =
     (if \<not> names_sorted [] lbls then (Some ErrLabelNames, b)
      else if \<exists>c \<in> set chks. cm_ref c = 0 then (Some ErrNoRef, b)
      else
        (case sb_addSeries (t_sort lib) (e_series env) lbls (map (\<lambda>c. c\<lparr>cm_chunk := None\<rparr>) chks)
                (bd_series b) (bd_serDisk b) of
           (e, sb, disk) \<Rightarrow> (e, b\<lparr>bd_series := sb, bd_serDisk := disk\<rparr>)))"

definition AddSeriesWithSamples ::
    "('k, 'v, 'cw, 'iw) tsdb_lib \<Rightarrow> 'k block_env \<Rightarrow> labels \<Rightarrow> 'v sample_iter \<Rightarrow> ('k, 'cw) builder
      \<Rightarrow> go_err option \<times> ('k, 'cw) builder" where
  "AddSeriesWithSamples lib env lbls samples b =
     (let minBlockTime = (case MinBlockTime (bd_opts b) of None \<Rightarrow> 0 | Some t \<Rightarrow> t);
          maxBlockTime = (case MaxBlockTime (bd_opts b) of None \<Rightarrow> 0 | Some t \<Rightarrow> t)
      in case samplesToChunks (t_chunk lib) samples minBlockTime maxBlockTime of
           Inl e \<Rightarrow> (Some e, b)
         | Inr chks \<Rightarrow>
             if chks = [] then (None, b)
             else
               (case addSymbols env lbls b of
                  (Some e, b) \<Rightarrow> (Some e, b)
                | (None, b) \<Rightarrow>
                    (case writeChunksForUnsortedSeries lib chks b of
                       ((Some e, chks), b) \<Rightarrow> (Some e, b)
                     | ((None, chks), b) \<Rightarrow> bd_addSeries lib env lbls chks b)))"

section \<open>Series into the index\<close>

record block_stats =
  NumSeries :: "64 word"
  NumChunks :: "64 word"
  NumSamples :: "64 word"

record span =
  sp_stats :: block_stats
  sp_min :: int
  sp_max :: int

definition no_span :: span where
  "no_span = \<lparr>sp_stats = \<lparr>NumSeries = 0, NumChunks = 0, NumSamples = 0\<rparr>, sp_min = 2 ^ 63 - 1, sp_max = 0\<rparr>"

text \<open>The update of the statistics for one chunk.\<close>

definition count_chunk :: "('k, 'v) chunk_lib \<Rightarrow> 'k \<Rightarrow> 'k chunk_meta \<Rightarrow> span \<Rightarrow> span" where
  "count_chunk lib ch c sp =
     (let st = sp_stats sp;
          st = st\<lparr>NumChunks := NumChunks st + 1, NumSamples := NumSamples st + of_nat (ck_num lib ch)\<rparr>
      in \<lparr>sp_stats = st,
          sp_min = (if cm_min c < sp_min sp then cm_min c else sp_min sp),
          sp_max = (if sp_max sp < cm_max c then cm_max c else sp_max sp)\<rparr>)"

definition count_series :: "span \<Rightarrow> span" where
  "count_series sp = sp\<lparr>sp_stats := (sp_stats sp)\<lparr>NumSeries := NumSeries (sp_stats sp) + 1\<rparr>\<rparr>"

definition ErrLoad :: go_err where
  "ErrLoad = ErrText ''failed to load chunk''"

fun load_chunks ::
    "('k, 'v, 'cw, 'iw) tsdb_lib \<Rightarrow> 'cw \<Rightarrow> 'k chunk_meta list \<Rightarrow> span \<Rightarrow> (go_err + 'k chunk_meta list) \<times> span" where
  "load_chunks lib reader [] sp = (Inr [], sp)"
| "load_chunks lib reader (c # cs) sp =
     (case t_load lib reader c of
        Inl e \<Rightarrow> (Inl e, sp)
      | Inr None \<Rightarrow> (Inl ErrLoad, sp)
      | Inr (Some ch) \<Rightarrow>
          (case load_chunks lib reader cs (count_chunk (t_chunk lib) ch c sp) of
             (r, sp) \<Rightarrow> (map_sum id ((#) (c\<lparr>cm_chunk := Some ch, cm_ref := 0\<rparr>)) r, sp)))"

text \<open>The loop over the series, with the index writer, the chunk writer and the series reference.\<close>

function asi_loop ::
    "('k, 'v, 'cw, 'iw) tsdb_lib \<Rightarrow> 'cw \<Rightarrow> 'k chunk_meta seriesIterator \<Rightarrow> 'iw \<Rightarrow> 'cw \<Rightarrow> 64 word \<Rightarrow> span
      \<Rightarrow> go_err option \<times> span \<times> 'iw \<times> 'cw" where
  "asi_loop lib reader si iw cw ref sp =
     (case NextSeries (t_compare lib) si of
        (Inl e, si) \<Rightarrow> (if e = EOF then None else Some e, sp, iw, cw)
      | (Inr ser, si) \<Rightarrow>
          (case load_chunks lib reader (chunks_of ser) (count_series sp) of
             (Inl e, sp) \<Rightarrow> (Some e, sp, iw, cw)
           | (Inr chks, sp) \<Rightarrow>
               (case t_write lib cw chks of
                  ((Some e, chks), cw) \<Rightarrow> (Some e, sp, iw, cw)
                | ((None, chks), cw) \<Rightarrow>
                    if \<exists>c \<in> set chks. cm_ref c = 0 then (Some ErrNoRef, sp, iw, cw)
                    else
                      (case t_addSeries lib iw (ref + 1) (metric ser) chks of
                         (Some e, iw) \<Rightarrow> (Some e, sp, iw, cw)
                       | (None, iw) \<Rightarrow> asi_loop lib reader si iw cw (ref + 1) sp))))"
  by pat_completeness auto
termination
  by (relation "measure (\<lambda>(lib, reader, si, iw, cw, ref, sp). serf.left (sei_heap si))")
    (auto dest: sym NextSeries_left)

declare asi_loop.simps [simp del]

text \<open>The error of closing the series files is reported only if there is no other.\<close>

definition addSeriesToIndex ::
    "('k, 'v, 'cw, 'iw) tsdb_lib \<Rightarrow> go_err option \<Rightarrow> 'cw \<Rightarrow> 'k chunk_meta series batch_disk \<Rightarrow> string list \<Rightarrow> 'iw \<Rightarrow> 'cw
      \<Rightarrow> go_err option \<times> span \<times> 'iw \<times> 'cw" where
  "addSeriesToIndex lib closeErr reader disk seriesFiles iw cw =
     (case newSeriesIterator (t_compare lib) disk seriesFiles of
        Inl e \<Rightarrow> (Some e, no_span, iw, cw)
      | Inr si \<Rightarrow>
          (case asi_loop lib reader si iw cw 0 no_span of
             (None, r) \<Rightarrow> (closeErr, r)
           | (Some e, r) \<Rightarrow> (Some e, r)))"

section \<open>Finishing a block\<close>

record block_meta =
  bm_ulid :: string
  bm_min :: int
  bm_max :: int
  bm_stats :: block_stats
  bm_level :: nat
  bm_sources :: "string list"
  bm_version :: nat

text \<open>Adding one to an \<^verbatim>\<open>int64\<close>: the largest one becomes the smallest.\<close>

definition int64_inc :: "int \<Rightarrow> int" where
  "int64_inc x = to_int64 ((x + 1) mod 2 ^ 64)"

definition writeMetaFile ::
    "go_err option \<Rightarrow> (block_meta \<Rightarrow> 'm) \<Rightarrow> string \<Rightarrow> span \<Rightarrow> go_err option \<times> 'm option" where
  "writeMetaFile metaErr extendMeta blockID sp =
     (let meta = \<lparr>bm_ulid = blockID, bm_min = sp_min sp, bm_max = int64_inc (sp_max sp), bm_stats = sp_stats sp,
                  bm_level = 1, bm_sources = [blockID], bm_version = 1\<rparr>
      in case metaErr of Some e \<Rightarrow> (Some e, None) | None \<Rightarrow> (None, Some (extendMeta meta)))"

text \<open>The error of a \<^verbatim>\<open>MultiError\<close>: some error if one was added; here the first.\<close>

fun merr :: "go_err option list \<Rightarrow> go_err option" where
  "merr [] = None"
| "merr (Some e # es) = Some e"
| "merr (None # es) = merr es"

text \<open>
  \<open>FinishBlock\<close> gives the error and, on success, the metadata written to the block, the index
  writer and the chunk writer. The reader of the unsorted chunks sees what their writer wrote.
\<close>

definition on_ok :: "go_err option \<Rightarrow> go_err option \<times> 'r option \<Rightarrow> go_err option \<times> 'r option" where
  "on_ok err rest = (case err of Some e \<Rightarrow> (Some e, None) | None \<Rightarrow> rest)"

lemma on_ok_simps [simp]: "on_ok None r = r" "on_ok (Some e) r = (Some e, None)"
  by (simp_all add: on_ok_def)

definition finish_meta ::
    "'k block_env \<Rightarrow> (block_meta \<Rightarrow> 'm) \<Rightarrow> string \<Rightarrow> span \<times> 'iw \<times> 'cw \<Rightarrow> go_err option \<times> ('m \<times> 'iw \<times> 'cw) option" where
  "finish_meta env extendMeta blockID r =
     (let (err, m) = writeMetaFile (e_meta env) extendMeta blockID (fst r)
      in on_ok err (None, Some (the m, snd r)))"

definition FinishBlock ::
    "('k, 'v, 'cw, 'iw) tsdb_lib \<Rightarrow> 'k block_env \<Rightarrow> (block_meta \<Rightarrow> 'm) \<Rightarrow> 'iw \<Rightarrow> 'cw \<Rightarrow> ('k, 'cw) builder
      \<Rightarrow> go_err option \<times> ('m \<times> 'iw \<times> 'cw) option" where
  "FinishBlock lib env extendMeta iw cw b =
     (let (err1, sw, symDisk) = flushSymbols (e_symbols env) True (bd_symbols b) (bd_symDisk b);
          (err2, sb, serDisk) = flushSeries (t_sort lib) (e_series env) True (bd_series b) (bd_serDisk b)
      in on_ok (merr [err1, err2, e_closeUnsorted env]) (
         on_ok (e_newIndex env) (
         let (err, iw) = addSymbolsToIndexWriter (t_addSymbol lib) (e_closeSymbols env) symDisk iw (syb_files sw)
         in on_ok err (
            on_ok (e_newReader env) (
            on_ok (e_newWriter env) (
            let (err, r) = addSeriesToIndex lib (e_closeSeries env) (bd_chunks b) serDisk (seb_files sb) iw cw
            in on_ok err (
               on_ok (e_closers env) (
               on_ok (e_removeAll env) (
               finish_meta env extendMeta (bd_blockID b) r)))))))))"

section \<open>Blocks from series in memory\<close>

fun add_symbol_list ::
    "('iw \<Rightarrow> bytes \<Rightarrow> go_err option \<times> 'iw) \<Rightarrow> 'iw \<Rightarrow> bytes list \<Rightarrow> go_err option \<times> 'iw" where
  "add_symbol_list add iw [] = (None, iw)"
| "add_symbol_list add iw (s # ss) =
     (case add iw s of (Some e, iw) \<Rightarrow> (Some e, iw) | (None, iw) \<Rightarrow> add_symbol_list add iw ss)"

definition addSortedInMemorySeriesSymbolsToIndex ::
    "('k, 'v, 'cw, 'iw) tsdb_lib \<Rightarrow> 'iw \<Rightarrow> (labels \<times> 'v sample_iter) list \<Rightarrow> go_err option \<times> 'iw" where
  "addSortedInMemorySeriesSymbolsToIndex lib iw ss =
     add_symbol_list (t_addSymbol lib) iw
       (sorted_list_of_set (insert [] (\<Union>s \<in> set ss. \<Union>l \<in> set (fst s). {lname l, lvalue l})))"

definition ErrNotSorted :: go_err where
  "ErrNotSorted = ErrText ''series not sorted by labels''"

text \<open>
  The loop over the series. The code compares with \<^verbatim>\<open>prevLbls\<close>, which it never sets: it stays
  the empty label set.
\<close>

definition prevLbls :: labels where
  "prevLbls = []"

fun mem_loop ::
    "('k, 'v, 'cw, 'iw) tsdb_lib \<Rightarrow> (labels \<times> 'v sample_iter) list \<Rightarrow> 'iw \<Rightarrow> 'cw \<Rightarrow> 64 word \<Rightarrow> span
      \<Rightarrow> go_err option \<times> span \<times> 'iw \<times> 'cw" where
  "mem_loop lib [] iw cw ref sp = (None, sp, iw, cw)"
| "mem_loop lib ((lbls, it) # ss) iw cw ref sp =
     (if 0 \<le> t_compare lib prevLbls lbls then (Some ErrNotSorted, sp, iw, cw)
      else
        let sp = count_series sp
        in case samplesToChunks (t_chunk lib) it 0 0 of
             Inl e \<Rightarrow> (Some e, sp, iw, cw)
           | Inr chks \<Rightarrow>
               (case t_write lib cw chks of
                  ((Some e, chks), cw) \<Rightarrow> (Some e, sp, iw, cw)
                | ((None, chks), cw) \<Rightarrow>
                    (case foldl (\<lambda>r c. case r of Inl e \<Rightarrow> Inl e | Inr sp \<Rightarrow>
                              if cm_ref c = 0 then Inl (ErrNoRef, sp)
                              else Inr (count_chunk (t_chunk lib) (the (cm_chunk c)) c sp)) (Inr sp) chks of
                       Inl (e, sp) \<Rightarrow> (Some e, sp, iw, cw)
                     | Inr sp \<Rightarrow>
                         (case t_addSeries lib iw (ref + 1) lbls chks of
                            (Some e, iw) \<Rightarrow> (Some e, sp, iw, cw)
                          | (None, iw) \<Rightarrow> mem_loop lib ss iw cw (ref + 1) sp))))"

definition addSortedInMemorySeriesToIndex ::
    "('k, 'v, 'cw, 'iw) tsdb_lib \<Rightarrow> 'iw \<Rightarrow> 'cw \<Rightarrow> (labels \<times> 'v sample_iter) list \<Rightarrow> go_err option \<times> span \<times> 'iw \<times> 'cw" where
  "addSortedInMemorySeriesToIndex lib iw cw ss = mem_loop lib ss iw cw 0 no_span"

definition CreateBlock ::
    "('k, 'v, 'cw, 'iw) tsdb_lib \<Rightarrow> 'k block_env \<Rightarrow> (block_meta \<Rightarrow> 'm) \<Rightarrow> string \<Rightarrow> 'iw \<Rightarrow> 'cw
      \<Rightarrow> (labels \<times> 'v sample_iter) list \<Rightarrow> go_err option \<times> ('m \<times> 'iw \<times> 'cw) option" where
  "CreateBlock lib env extendMeta blockID iw cw ss =
     on_ok (e_mkdir env) (
     on_ok (e_newIndex env) (
     let (err, iw) = addSortedInMemorySeriesSymbolsToIndex lib iw ss
     in on_ok err (
        on_ok (e_newWriter env) (
        let (err, r) = addSortedInMemorySeriesToIndex lib iw cw ss
        in on_ok err (
           on_ok (e_closers env) (
           finish_meta env extendMeta blockID r))))))"

end
