(* ===== verification/Builder_Correct.thy ===== *)
theory Builder_Correct
  imports Builder
begin

text \<open>
  The block builder is correct: what reaches the index and the metadata of a block, for the
  builder of \<open>Builder\<close> with a library that behaves as documented and no failing system call.
\<close>

section \<open>A recording index writer and a faithful library\<close>

type_synonym 'k index_log = "bytes list \<times> (64 word \<times> labels \<times> 'k chunk_meta list) list"

definition log_symbol :: "'k index_log \<Rightarrow> bytes \<Rightarrow> go_err option \<times> 'k index_log" where
  "log_symbol iw s = (None, fst iw @ [s], snd iw)"

definition log_series ::
    "'k index_log \<Rightarrow> 64 word \<Rightarrow> labels \<Rightarrow> 'k chunk_meta list \<Rightarrow> go_err option \<times> 'k index_log" where
  "log_series iw ref lbls chks = (None, fst iw, snd iw @ [(ref, lbls, chks)])"

definition unref :: "'k chunk_meta \<Rightarrow> 'k chunk_meta" where
  "unref c = c\<lparr>cm_ref := 0\<rparr>"

definition cleared :: "'k chunk_meta \<Rightarrow> 'k chunk_meta" where
  "cleared c = c\<lparr>cm_chunk := None\<rparr>"

lemma meta_simps [simp]:
  "cm_min (unref c) = cm_min c" "cm_max (unref c) = cm_max c" "cm_chunk (unref c) = cm_chunk c" "cm_ref (unref c) = 0"
  "cm_min (cleared c) = cm_min c" "cm_max (cleared c) = cm_max c" "cm_ref (cleared c) = cm_ref c"
  by (simp_all add: unref_def cleared_def)

text \<open>
  What is relied on: the chunk library counts, the comparison orders, the sort sorts; while there
  is room for them (\<open>room\<close>: references are 64-bit numbers and never reused), writing chunks gives
  every chunk a reference other than zero and changes nothing else, and a chunk that was written
  can be loaded by its metadata from then on.
\<close>

definition lib_ok :: "('cw \<Rightarrow> nat) \<Rightarrow> ('k, 'v, 'cw, 'k index_log) tsdb_lib \<Rightarrow> bool" where
  "lib_ok room lib \<longleftrightarrow>
     chunk_lib_ok (t_chunk lib) \<and> compare_ok (t_compare lib) \<and> label_sort (t_compare lib) (t_sort lib) \<and>
     t_addSymbol lib = log_symbol \<and> t_addSeries lib = log_series \<and>
     (\<forall>cw cs. length cs \<le> room cw \<longrightarrow> (\<exists>cs' cw'. t_write lib cw cs = ((None, cs'), cw') \<and>
       room cw \<le> length cs + room cw' \<and> map unref cs' = map unref cs \<and>
       (\<forall>c \<in> set cs'. cm_ref c \<noteq> 0) \<and>
       (\<forall>c \<in> set cs'. t_load lib cw' (cleared c) = Inr (cm_chunk c)) \<and>
       (\<forall>c ch. t_load lib cw c = Inr (Some ch) \<longrightarrow> t_load lib cw' c = Inr (Some ch))))"

definition no_faults :: "'k block_env" where
  "no_faults =
     \<lparr>e_mkdir = None, e_newChunks = None, e_symbols = (\<lambda>fn. None), e_series = (\<lambda>fn. None), e_closeUnsorted = None,
      e_newIndex = None, e_closeSymbols = None, e_newReader = None, e_newWriter = None, e_closeSeries = None,
      e_closers = None, e_removeAll = None, e_meta = None\<rparr>"

lemma lib_okD:
  assumes "lib_ok room lib"
  shows "chunk_lib_ok (t_chunk lib)" and "compare_ok (t_compare lib)" and "label_sort (t_compare lib) (t_sort lib)"
    and "t_addSymbol lib = log_symbol" and "t_addSeries lib = log_series"
  using assms unfolding lib_ok_def by blast+

lemma lib_ok_write:
  assumes "lib_ok room lib" and "length cs \<le> room cw"
  obtains cs' cw' where "t_write lib cw cs = ((None, cs'), cw')" and "map unref cs' = map unref cs"
    and "\<forall>c \<in> set cs'. cm_ref c \<noteq> 0" and "\<forall>c \<in> set cs'. t_load lib cw' (cleared c) = Inr (cm_chunk c)"
    and "\<forall>c ch. t_load lib cw c = Inr (Some ch) \<longrightarrow> t_load lib cw' c = Inr (Some ch)"
    and "room cw \<le> length cs + room cw'"
proof -
  have "length cs \<le> room cw \<longrightarrow> (\<exists>cs' cw'. t_write lib cw cs = ((None, cs'), cw') \<and>
       room cw \<le> length cs + room cw' \<and> map unref cs' = map unref cs \<and>
       (\<forall>c \<in> set cs'. cm_ref c \<noteq> 0) \<and>
       (\<forall>c \<in> set cs'. t_load lib cw' (cleared c) = Inr (cm_chunk c)) \<and>
       (\<forall>c ch. t_load lib cw c = Inr (Some ch) \<longrightarrow> t_load lib cw' c = Inr (Some ch)))"
    using assms(1) unfolding lib_ok_def by blast
  from mp [OF this assms(2)] that show ?thesis by (elim exE conjE)
qed

section \<open>Loading chunks and counting\<close>

definition loads :: "('k, 'v, 'cw, 'iw) tsdb_lib \<Rightarrow> 'cw \<Rightarrow> 'k chunk_meta \<Rightarrow> bool" where
  "loads lib rd c \<longleftrightarrow> (\<exists>ch. t_load lib rd c = Inr (Some ch))"

definition loaded :: "('k, 'v, 'cw, 'iw) tsdb_lib \<Rightarrow> 'cw \<Rightarrow> 'k chunk_meta \<Rightarrow> 'k chunk_meta" where
  "loaded lib rd c = c\<lparr>cm_chunk := projr (t_load lib rd c), cm_ref := 0\<rparr>"

definition count_all :: "('k, 'v) chunk_lib \<Rightarrow> 'k chunk_meta list \<Rightarrow> span \<Rightarrow> span" where
  "count_all lib cs sp = foldl (\<lambda>sp c. count_chunk lib (the (cm_chunk c)) c sp) sp cs"

lemma count_chunk_cong: "cm_min c = cm_min c' \<Longrightarrow> cm_max c = cm_max c' \<Longrightarrow> count_chunk lib ch c sp = count_chunk lib ch c' sp"
  by (simp add: count_chunk_def)

lemma load_chunks_spec:
  assumes "\<forall>c \<in> set cs. loads lib rd c"
  shows "load_chunks lib rd cs sp = (Inr (map (loaded lib rd) cs), count_all (t_chunk lib) (map (loaded lib rd) cs) sp)"
  using assms
proof (induction cs arbitrary: sp)
  case (Cons c cs)
  then obtain ch where ch: "t_load lib rd c = Inr (Some ch)" by (auto simp: loads_def)
  have "loaded lib rd c = c\<lparr>cm_chunk := Some ch, cm_ref := 0\<rparr>" by (simp add: loaded_def ch)
  moreover have "count_chunk (t_chunk lib) ch c sp = count_chunk (t_chunk lib) ch (loaded lib rd c) sp"
    by (intro count_chunk_cong) (simp_all add: loaded_def)
  ultimately show ?case using Cons ch by (simp add: count_all_def)
qed (simp add: count_all_def)

lemma count_all_fields:
  "sp_min (count_all lib cs sp) = Min (insert (sp_min sp) (cm_min ` set cs))"
  "sp_max (count_all lib cs sp) = Max (insert (sp_max sp) (cm_max ` set cs))"
  "NumChunks (sp_stats (count_all lib cs sp)) = NumChunks (sp_stats sp) + of_nat (length cs)"
  "NumSeries (sp_stats (count_all lib cs sp)) = NumSeries (sp_stats sp)"
  "NumSamples (sp_stats (count_all lib cs sp)) = NumSamples (sp_stats sp) + of_nat (\<Sum>c \<leftarrow> cs. ck_num lib (the (cm_chunk c)))"
proof -
  have "sp_min (count_all lib cs sp) = foldl (\<lambda>m c. if cm_min c < m then cm_min c else m) (sp_min sp) cs"
    unfolding count_all_def by (induction cs arbitrary: sp) (simp_all add: count_chunk_def Let_def)
  then show "sp_min (count_all lib cs sp) = Min (insert (sp_min sp) (cm_min ` set cs))" by (simp add: foldl_Min)
  have "sp_max (count_all lib cs sp) = foldl (\<lambda>m c. if m < cm_max c then cm_max c else m) (sp_max sp) cs"
    unfolding count_all_def by (induction cs arbitrary: sp) (simp_all add: count_chunk_def Let_def)
  then show "sp_max (count_all lib cs sp) = Max (insert (sp_max sp) (cm_max ` set cs))" by (simp add: foldl_Max)
  show "NumChunks (sp_stats (count_all lib cs sp)) = NumChunks (sp_stats sp) + of_nat (length cs)"
    unfolding count_all_def by (induction cs arbitrary: sp) (simp_all add: count_chunk_def Let_def)
  show "NumSeries (sp_stats (count_all lib cs sp)) = NumSeries (sp_stats sp)"
    unfolding count_all_def by (induction cs arbitrary: sp) (simp_all add: count_chunk_def Let_def)
  show "NumSamples (sp_stats (count_all lib cs sp)) = NumSamples (sp_stats sp) + of_nat (\<Sum>c \<leftarrow> cs. ck_num lib (the (cm_chunk c)))"
    unfolding count_all_def by (induction cs arbitrary: sp) (simp_all add: count_chunk_def Let_def)
qed

text \<open>All series of a block.\<close>

definition count_block :: "('k, 'v) chunk_lib \<Rightarrow> 'k chunk_meta list list \<Rightarrow> span \<Rightarrow> span" where
  "count_block lib css sp = foldl (\<lambda>sp cs. count_all lib cs (count_series sp)) sp css"

lemma count_series_fields [simp]:
  "sp_min (count_series sp) = sp_min sp" "sp_max (count_series sp) = sp_max sp"
  "NumChunks (sp_stats (count_series sp)) = NumChunks (sp_stats sp)"
  "NumSeries (sp_stats (count_series sp)) = NumSeries (sp_stats sp) + 1"
  "NumSamples (sp_stats (count_series sp)) = NumSamples (sp_stats sp)"
  by (simp_all add: count_series_def)

lemma count_block_fields:
  "sp_min (count_block lib css sp) = Min (insert (sp_min sp) (cm_min ` set (concat css)))"
  "sp_max (count_block lib css sp) = Max (insert (sp_max sp) (cm_max ` set (concat css)))"
  "NumSeries (sp_stats (count_block lib css sp)) = NumSeries (sp_stats sp) + of_nat (length css)"
  "NumChunks (sp_stats (count_block lib css sp)) = NumChunks (sp_stats sp) + of_nat (length (concat css))"
  "NumSamples (sp_stats (count_block lib css sp)) =
    NumSamples (sp_stats sp) + of_nat (\<Sum>c \<leftarrow> concat css. ck_num lib (the (cm_chunk c)))"
proof -
  have "sp_min (count_block lib css sp) = Min (insert (sp_min sp) (cm_min ` set (concat css)))
    \<and> sp_max (count_block lib css sp) = Max (insert (sp_max sp) (cm_max ` set (concat css)))
    \<and> NumSeries (sp_stats (count_block lib css sp)) = NumSeries (sp_stats sp) + of_nat (length css)
    \<and> NumChunks (sp_stats (count_block lib css sp)) = NumChunks (sp_stats sp) + of_nat (length (concat css))"
  proof (induction css arbitrary: sp)
    case (Cons cs css)
    show ?case
      using Cons by (simp add: count_block_def count_all_fields image_Un Min_insert_Min Max_insert_Max)
  qed (simp_all add: count_block_def)
  then show "sp_min (count_block lib css sp) = Min (insert (sp_min sp) (cm_min ` set (concat css)))"
    "sp_max (count_block lib css sp) = Max (insert (sp_max sp) (cm_max ` set (concat css)))"
    "NumSeries (sp_stats (count_block lib css sp)) = NumSeries (sp_stats sp) + of_nat (length css)"
    "NumChunks (sp_stats (count_block lib css sp)) = NumChunks (sp_stats sp) + of_nat (length (concat css))"
    by blast+
  show "NumSamples (sp_stats (count_block lib css sp)) =
      NumSamples (sp_stats sp) + of_nat (\<Sum>c \<leftarrow> concat css. ck_num lib (the (cm_chunk c)))"
  proof (induction css arbitrary: sp)
    case (Cons cs css)
    then show ?case by (simp add: count_block_def count_all_fields)
  qed (simp add: count_block_def)
qed

section \<open>Adding a series\<close>

text \<open>The data of a block: label sets with their chunks, in the order of the additions.\<close>

type_synonym 'k block_data = "(labels \<times> 'k chunk_meta list) list"

definition label_symbols :: "labels \<Rightarrow> bytes set" where
  "label_symbols lbls = (\<Union>l \<in> set lbls. {lname l, lvalue l})"

definition block_symbols :: "'k block_data \<Rightarrow> bytes set" where
  "block_symbols D = insert [] (\<Union>d \<in> set D. label_symbols (fst d))"

text \<open>
  The invariant of a builder: the symbols are those of the data, and the series that were batched,
  with their chunks as they can be loaded, are the data.
\<close>

definition blk_inv :: "('k, 'v, 'cw, 'k index_log) tsdb_lib \<Rightarrow> ('k, 'cw) builder \<Rightarrow> 'k block_data \<Rightarrow> bool" where
  "blk_inv lib b D \<longleftrightarrow>
     batch_inv (bd_symbols b) (bd_symDisk b) (block_symbols D) \<and>
     (\<exists>M. ser_inv (t_compare lib) (bd_series b) (bd_serDisk b) M \<and>
       (\<forall>s \<in># M. \<forall>c \<in> set (chunks_of s). loads lib (bd_chunks b) c) \<and>
       image_mset (\<lambda>s. (metric s, map (loaded lib (bd_chunks b)) (chunks_of s))) M = mset D)"

lemma no_faults_simps [simp]:
  "e_mkdir no_faults = None" "e_newChunks no_faults = None" "e_symbols no_faults = (\<lambda>fn. None)"
  "e_series no_faults = (\<lambda>fn. None)" "e_closeUnsorted no_faults = None" "e_newIndex no_faults = None"
  "e_closeSymbols no_faults = None" "e_newReader no_faults = None" "e_newWriter no_faults = None"
  "e_closeSeries no_faults = None" "e_closers no_faults = None" "e_removeAll no_faults = None" "e_meta no_faults = None"
  by (simp_all add: no_faults_def)

lemma addSymbols_inv:
  assumes "batch_inv (bd_symbols b) (bd_symDisk b) S"
  shows "\<exists>sw disk. addSymbols no_faults lbls b = (None, b\<lparr>bd_symbols := sw, bd_symDisk := disk\<rparr>) \<and>
    batch_inv sw disk (label_symbols lbls \<union> S)"
  using assms
proof (induction lbls arbitrary: b S)
  case Nil
  then show ?case by (intro exI [of _ "bd_symbols b"] exI [of _ "bd_symDisk b"]) (simp add: label_symbols_def)
next
  case (Cons l lbls)
  obtain sw1 d1 where 1: "addSymbol (\<lambda>fn. None) (lname l) (bd_symbols b) (bd_symDisk b) = (None, sw1, d1)"
    "batch_inv sw1 d1 (insert (lname l) S)"
    using addSymbol_inv [OF Cons.prems, of "lname l"] by metis
  obtain sw2 d2 where 2: "addSymbol (\<lambda>fn. None) (lvalue l) sw1 d1 = (None, sw2, d2)"
    "batch_inv sw2 d2 (insert (lvalue l) (insert (lname l) S))"
    using addSymbol_inv [OF 1(2), of "lvalue l"] by metis
  let ?b = "b\<lparr>bd_symbols := sw2, bd_symDisk := d2\<rparr>"
  have "batch_inv (bd_symbols ?b) (bd_symDisk ?b) (insert (lvalue l) (insert (lname l) S))" using 2(2) by simp
  from Cons.IH [OF this] obtain sw disk where
    "addSymbols no_faults lbls ?b = (None, ?b\<lparr>bd_symbols := sw, bd_symDisk := disk\<rparr>)"
    "batch_inv sw disk (label_symbols lbls \<union> insert (lvalue l) (insert (lname l) S))" by blast
  moreover have "label_symbols lbls \<union> insert (lvalue l) (insert (lname l) S) = label_symbols (l # lbls) \<union> S"
    by (auto simp: label_symbols_def)
  ultimately show ?case using 1 2 by (intro exI [of _ sw] exI [of _ disk]) simp
qed

text \<open>The chunks that \<open>samplesToChunks\<close> makes have no reference yet, and all have data.\<close>

lemma samplesToChunks_fresh:
  assumes "chunk_lib_ok lib" and "samplesToChunks lib it lo hi = Inr chks" and "c \<in> set chks"
  shows "unref c = c" and "cm_chunk c \<noteq> None"
  using samplesToChunks_Inr(2) [OF assms(1,2)] assms(3) by (auto simp: meta_of_def unref_def)

lemma write_and_load:
  assumes "lib_ok room lib" and "length cs \<le> room cw"
  obtains cs' cw' where "t_write lib cw cs = ((None, cs'), cw')" and "map unref cs' = map unref cs"
    and "\<forall>c \<in> set cs'. cm_ref c \<noteq> 0" and "\<forall>c \<in> set cs'. t_load lib cw' (cleared c) = Inr (cm_chunk c)"
    and "map (\<lambda>c. loaded lib cw' (cleared c)) cs' = map unref cs"
    and "\<forall>c ch. t_load lib cw c = Inr (Some ch) \<longrightarrow> t_load lib cw' c = Inr (Some ch)"
    and "room cw \<le> length cs + room cw'"
proof -
  obtain cs' cw' where w: "t_write lib cw cs = ((None, cs'), cw')" "map unref cs' = map unref cs"
    "\<forall>c \<in> set cs'. cm_ref c \<noteq> 0" "\<forall>c \<in> set cs'. t_load lib cw' (cleared c) = Inr (cm_chunk c)"
    "\<forall>c ch. t_load lib cw c = Inr (Some ch) \<longrightarrow> t_load lib cw' c = Inr (Some ch)" "room cw \<le> length cs + room cw'"
    using lib_ok_write [OF assms] .
  have "loaded lib cw' (cleared c) = unref c" if "c \<in> set cs'" for c
    using w(4) that by (simp add: loaded_def cleared_def unref_def)
  then have "map (\<lambda>c. loaded lib cw' (cleared c)) cs' = map unref cs'" by simp
  then show ?thesis using that [OF w(1-4) _ w(5,6)] w(2) by simp
qed

lemma loaded_mono:
  assumes "loads lib cw c" and "\<forall>c ch. t_load lib cw c = Inr (Some ch) \<longrightarrow> t_load lib cw' c = Inr (Some ch)"
  shows "loads lib cw' c" and "loaded lib cw' c = loaded lib cw c"
  using assms by (auto simp: loads_def loaded_def)

text \<open>The bounds of a builder, as \<open>AddSeriesWithSamples\<close> uses them.\<close>

definition lo_of :: "Options \<Rightarrow> int" where
  "lo_of opts = (case MinBlockTime opts of None \<Rightarrow> 0 | Some t \<Rightarrow> t)"

definition hi_of :: "Options \<Rightarrow> int" where
  "hi_of opts = (case MaxBlockTime opts of None \<Rightarrow> 0 | Some t \<Rightarrow> t)"

lemma AddSeries_inv:
  assumes ok: "lib_ok room lib" and inv: "blk_inv lib b D"
    and chks: "samplesToChunks (t_chunk lib) it (lo_of (bd_opts b)) (hi_of (bd_opts b)) = Inr chks"
    and names: "names_sorted [] lbls" and rm: "length chks \<le> room (bd_chunks b)"
  shows "\<exists>b'. AddSeriesWithSamples lib no_faults lbls it b = (None, b') \<and>
    blk_inv lib b' (if chks = [] then D else D @ [(lbls, chks)]) \<and> bd_opts b' = bd_opts b \<and> bd_blockID b' = bd_blockID b \<and>
    room (bd_chunks b) \<le> length chks + room (bd_chunks b')"
proof (cases "chks = []")
  case True
  then show ?thesis using inv chks by (simp add: AddSeriesWithSamples_def Let_def lo_of_def hi_of_def)
next
  case False
  obtain M where sym: "batch_inv (bd_symbols b) (bd_symDisk b) (block_symbols D)"
    and ser: "ser_inv (t_compare lib) (bd_series b) (bd_serDisk b) M"
    and ld: "\<forall>s \<in># M. \<forall>c \<in> set (chunks_of s). loads lib (bd_chunks b) c"
    and D: "image_mset (\<lambda>s. (metric s, map (loaded lib (bd_chunks b)) (chunks_of s))) M = mset D"
    using inv unfolding blk_inv_def by blast
  obtain sw disk where s1: "addSymbols no_faults lbls b = (None, b\<lparr>bd_symbols := sw, bd_symDisk := disk\<rparr>)"
    "batch_inv sw disk (label_symbols lbls \<union> block_symbols D)"
    using addSymbols_inv [OF sym, of lbls] by blast
  have un: "map unref chks = chks"
    using samplesToChunks_fresh(1) [OF lib_okD(1) [OF ok] chks] by (simp add: map_idI)
  have zero: "map (\<lambda>c. c\<lparr>cm_ref := 0\<rparr>) chks = chks" using un unfolding unref_def .
  obtain cs cw where w: "t_write lib (bd_chunks b) chks = ((None, cs), cw)" "map unref cs = map unref chks"
    "\<forall>c \<in> set cs. cm_ref c \<noteq> 0" "\<forall>c \<in> set cs. t_load lib cw (cleared c) = Inr (cm_chunk c)"
    "map (\<lambda>c. loaded lib cw (cleared c)) cs = map unref chks"
    "\<forall>c ch. t_load lib (bd_chunks b) c = Inr (Some ch) \<longrightarrow> t_load lib cw c = Inr (Some ch)"
    "room (bd_chunks b) \<le> length chks + room cw"
    by (rule write_and_load [OF ok rm])
  let ?s = "\<lparr>metric = lbls, chunks_of = map cleared cs\<rparr>"
  obtain sb sdisk where a: "sb_addSeries (t_sort lib) (\<lambda>fn. None) (metric ?s) (chunks_of ?s) (bd_series b) (bd_serDisk b) = (None, sb, sdisk)"
    "ser_inv (t_compare lib) sb sdisk (add_mset ?s M)"
    using sb_addSeries_inv [OF lib_okD(3) [OF ok] ser] by metis
  have a': "sb_addSeries (t_sort lib) (\<lambda>fn. None) lbls (map (\<lambda>c. c\<lparr>cm_chunk := None\<rparr>) cs) (bd_series b) (bd_serDisk b) = (None, sb, sdisk)"
    using a(1) by (simp add: cleared_def [abs_def])
  let ?b = "b\<lparr>bd_symbols := sw, bd_symDisk := disk, bd_chunks := cw, bd_series := sb, bd_serDisk := sdisk\<rparr>"
  have "\<not> (\<exists>c \<in> set cs. cm_ref c = 0)" using w(3) by blast
  then have run: "AddSeriesWithSamples lib no_faults lbls it b = (None, ?b)"
    using chks False s1(1) w(1) names a'
    by (simp add: AddSeriesWithSamples_def Let_def lo_of_def hi_of_def writeChunksForUnsortedSeries_def zero bd_addSeries_def)
  have inv': "blk_inv lib ?b (D @ [(lbls, chks)])"
    unfolding blk_inv_def
  proof (intro conjI exI [of _ "add_mset ?s M"])
    have "block_symbols (D @ [(lbls, chks)]) = label_symbols lbls \<union> block_symbols D" by (auto simp: block_symbols_def)
    then show "batch_inv (bd_symbols ?b) (bd_symDisk ?b) (block_symbols (D @ [(lbls, chks)]))" using s1(2) by simp
    show "ser_inv (t_compare lib) (bd_series ?b) (bd_serDisk ?b) (add_mset ?s M)" using a(2) by simp
    have "cm_chunk c \<noteq> None" if "c \<in> set cs" for c
    proof -
      have "unref c \<in> set chks" using that w(2) un by (metis image_eqI list.set_map)
      then have "cm_chunk (unref c) \<noteq> None" by (rule samplesToChunks_fresh(2) [OF lib_okD(1) [OF ok] chks])
      then show ?thesis by simp
    qed
    then have new: "\<forall>c \<in> set cs. loads lib cw (cleared c)" using w(4) by (auto simp: loads_def)
    then show "\<forall>s \<in># add_mset ?s M. \<forall>c \<in> set (chunks_of s). loads lib (bd_chunks ?b) c"
      using ld loaded_mono(1) [OF _ w(6)] by auto
    have old: "image_mset (\<lambda>s. (metric s, map (loaded lib cw) (chunks_of s))) M =
        image_mset (\<lambda>s. (metric s, map (loaded lib (bd_chunks b)) (chunks_of s))) M"
      using ld loaded_mono(2) [OF _ w(6)] by (intro image_mset_cong) simp
    have "map (loaded lib cw) (map cleared cs) = chks" using w(5) un by (simp add: comp_def)
    then show "image_mset (\<lambda>s. (metric s, map (loaded lib (bd_chunks ?b)) (chunks_of s))) (add_mset ?s M) = mset (D @ [(lbls, chks)])"
      using old D by simp
  qed
  show ?thesis using run inv' False w(7) by (intro exI [of _ ?b]) simp
qed

section \<open>Feeding the index\<close>

definition stored :: "('k, 'v, 'cw, 'iw) tsdb_lib \<Rightarrow> 'cw \<Rightarrow> (64 word \<times> labels \<times> 'k chunk_meta list) list \<Rightarrow> bool" where
  "stored lib cw entries \<longleftrightarrow>
     (\<forall>(ref, lbls, chks) \<in> set entries. \<forall>c \<in> set chks. cm_ref c \<noteq> 0 \<and>
       (\<exists>ch. cm_chunk c = Some ch \<and> t_load lib cw (cleared c) = Inr (Some ch)))"

lemma stored_mono:
  "stored lib cw entries \<Longrightarrow> \<forall>c ch. t_load lib cw c = Inr (Some ch) \<longrightarrow> t_load lib cw' c = Inr (Some ch) \<Longrightarrow>
    stored lib cw' entries"
  by (fastforce simp: stored_def)

lemma asi_loop_spec:
  assumes ok: "lib_ok room lib"
  shows "series_all (t_compare lib) si = (xs, EOF) \<Longrightarrow> \<forall>s \<in> set xs. \<forall>c \<in> set (chunks_of s). loads lib rd c \<Longrightarrow>
    (\<Sum>s \<leftarrow> xs. length (chunks_of s)) \<le> room cw \<Longrightarrow>
    \<exists>entries cw'. asi_loop lib rd si (syms, log) cw ref sp =
        (None, count_block (t_chunk lib) (map (\<lambda>s. map (loaded lib rd) (chunks_of s)) xs) sp, (syms, log @ entries), cw') \<and>
      map (\<lambda>(r, l, cs). (l, map unref cs)) entries = map (\<lambda>s. (metric s, map (loaded lib rd) (chunks_of s))) xs \<and>
      map fst entries = map (\<lambda>i. ref + of_nat (Suc i)) [0..<length xs] \<and> stored lib cw' entries \<and>
      (\<forall>c ch. t_load lib cw c = Inr (Some ch) \<longrightarrow> t_load lib cw' c = Inr (Some ch))"
proof (induction xs arbitrary: si log cw ref sp)
  case Nil
  obtain si' where "NextSeries (t_compare lib) si = (Inl EOF, si')"
    using Nil(1) by (auto simp: series_all.simps [of _ si] split: prod.splits sum.splits)
  then show ?case
    by (intro exI [of _ "[]"] exI [of _ cw]) (simp add: asi_loop.simps [of lib rd si] count_block_def stored_def)
next
  case (Cons s xs)
  obtain si' where nxt: "NextSeries (t_compare lib) si = (Inr s, si')" and rest: "series_all (t_compare lib) si' = (xs, EOF)"
    using Cons.prems(1) by (auto simp: series_all.simps [of _ si] split: prod.splits sum.splits)
  let ?cs = "map (loaded lib rd) (chunks_of s)"
  have lc: "load_chunks lib rd (chunks_of s) (count_series sp) = (Inr ?cs, count_all (t_chunk lib) ?cs (count_series sp))"
    using Cons.prems(2) by (intro load_chunks_spec) simp
  have rm1: "length ?cs \<le> room cw" using Cons.prems(3) by simp
  obtain cs1 cw1 where w: "t_write lib cw ?cs = ((None, cs1), cw1)" "map unref cs1 = map unref ?cs"
    "\<forall>c \<in> set cs1. cm_ref c \<noteq> 0" "\<forall>c \<in> set cs1. t_load lib cw1 (cleared c) = Inr (cm_chunk c)"
    "\<forall>c ch. t_load lib cw c = Inr (Some ch) \<longrightarrow> t_load lib cw1 c = Inr (Some ch)" "room cw \<le> length ?cs + room cw1"
    using write_and_load [OF ok rm1] .
  have rm2: "(\<Sum>s \<leftarrow> xs. length (chunks_of s)) \<le> room cw1" using Cons.prems(3) w(6) by simp
  have un: "map unref ?cs = ?cs" by (simp add: unref_def loaded_def)
  have data: "cm_chunk c \<noteq> None" if "c \<in> set cs1" for c
  proof -
    have "unref c \<in> set ?cs" using that w(2) un by (metis image_eqI list.set_map)
    then obtain c0 where c0: "c0 \<in> set (chunks_of s)" "unref c = loaded lib rd c0" by auto
    then have "loads lib rd c0" using Cons.prems(2) by simp
    then have "cm_chunk (unref c) \<noteq> None" using c0(2) by (auto simp: loads_def loaded_def)
    then show ?thesis by simp
  qed
  have sub: "\<forall>s \<in> set xs. \<forall>c \<in> set (chunks_of s). loads lib rd c" using Cons.prems(2) by simp
  let ?e = "(ref + 1, metric s, cs1)" and ?sp = "count_all (t_chunk lib) ?cs (count_series sp)"
  obtain entries cw' where IH: "asi_loop lib rd si' (syms, log @ [?e]) cw1 (ref + 1) ?sp =
      (None, count_block (t_chunk lib) (map (\<lambda>s. map (loaded lib rd) (chunks_of s)) xs) ?sp, (syms, (log @ [?e]) @ entries), cw')"
    "map (\<lambda>(r, l, cs). (l, map unref cs)) entries = map (\<lambda>s. (metric s, map (loaded lib rd) (chunks_of s))) xs"
    "map fst entries = map (\<lambda>i. (ref + 1) + of_nat (Suc i)) [0..<length xs]" "stored lib cw' entries"
    "\<forall>c ch. t_load lib cw1 c = Inr (Some ch) \<longrightarrow> t_load lib cw' c = Inr (Some ch)"
    using Cons.IH [OF rest sub rm2, where log = "log @ [?e]" and ref = "ref + 1" and sp = ?sp]
    by (elim exE conjE)
  have "\<not> (\<exists>c \<in> set cs1. cm_ref c = 0)" using w(3) by blast
  then have run: "asi_loop lib rd si (syms, log) cw ref sp = asi_loop lib rd si' (syms, log @ [?e]) cw1 (ref + 1) ?sp"
    using nxt lc w(1) by (simp add: asi_loop.simps [of lib rd si] lib_okD(5) [OF ok] log_series_def)
  have "stored lib cw1 [?e]" using w(3,4) data by (auto simp: stored_def)
  then have st: "stored lib cw' (?e # entries)"
    using IH(4) stored_mono [OF _ IH(5), of "[?e]"] by (simp add: stored_def)
  have refs: "map fst (?e # entries) = map (\<lambda>i. ref + of_nat (Suc i)) [0..<length (s # xs)]"
  proof -
    have "[0..<length (s # xs)] = 0 # map Suc [0..<length xs]" by (simp add: upt_conv_Cons map_Suc_upt del: upt_Suc)
    then show ?thesis using IH(3) by (simp add: add.assoc comp_def)
  qed
  have span: "count_block lib' (map (\<lambda>s. map (loaded lib rd) (chunks_of s)) (s # xs)) sp =
      count_block lib' (map (\<lambda>s. map (loaded lib rd) (chunks_of s)) xs) (count_all lib' ?cs (count_series sp))" for lib'
    by (simp add: count_block_def)
  show ?case
  proof (intro exI conjI)
    show "asi_loop lib rd si (syms, log) cw ref sp =
        (None, count_block (t_chunk lib) (map (\<lambda>s. map (loaded lib rd) (chunks_of s)) (s # xs)) sp, (syms, log @ ?e # entries), cw')"
      unfolding run IH(1) span by simp
    show "map (\<lambda>(r, l, cs). (l, map unref cs)) (?e # entries) = map (\<lambda>s. (metric s, map (loaded lib rd) (chunks_of s))) (s # xs)"
      using IH(2) w(2) un by simp
    show "map fst (?e # entries) = map (\<lambda>i. ref + of_nat (Suc i)) [0..<length (s # xs)]" by (rule refs)
    show "stored lib cw' (?e # entries)" by (rule st)
    show "\<forall>c ch. t_load lib cw c = Inr (Some ch) \<longrightarrow> t_load lib cw' c = Inr (Some ch)" using w(5) IH(5) by blast
  qed
qed

end
