(* ===== verification/Block_Properties.thy ===== *)
theory Block_Properties
  imports Builder_Correct
begin

text \<open>
  What a finished block contains: the properties of the block builder of
  \<^verbatim>\<open>pkg/tsdb/builder.go\<close>, from the additions to the index, the chunks and the metadata.
\<close>

section \<open>Building\<close>

text \<open>Series added one after the other, up to the first error.\<close>

fun add_series_list ::
    "('k, 'v, 'cw, 'iw) tsdb_lib \<Rightarrow> 'k block_env \<Rightarrow> (labels \<times> 'v sample_iter) list \<Rightarrow> ('k, 'cw) builder
      \<Rightarrow> go_err option \<times> ('k, 'cw) builder" where
  "add_series_list lib env [] b = (None, b)"
| "add_series_list lib env ((lbls, it) # ss) b =
     (case AddSeriesWithSamples lib env lbls it b of
        (Some e, b) \<Rightarrow> (Some e, b)
      | (None, b) \<Rightarrow> add_series_list lib env ss b)"

text \<open>The series that have chunks, with their chunks.\<close>

definition kept_series ::
    "('k, 'v, 'cw, 'iw) tsdb_lib \<Rightarrow> Options \<Rightarrow> (labels \<times> 'v sample_iter) list \<Rightarrow> 'k block_data" where
  "kept_series lib opts ss =
     filter (\<lambda>d. snd d \<noteq> [])
       (map (\<lambda>(lbls, it). (lbls, projr (samplesToChunks (t_chunk lib) it (lo_of opts) (hi_of opts)))) ss)"

text \<open>A series that can be added: label names in order, samples that can be put into chunks.\<close>

definition addable :: "('k, 'v, 'cw, 'iw) tsdb_lib \<Rightarrow> Options \<Rightarrow> labels \<times> 'v sample_iter \<Rightarrow> bool" where
  "addable lib opts s \<longleftrightarrow>
     names_sorted [] (fst s) \<and> (\<exists>chks. samplesToChunks (t_chunk lib) (snd s) (lo_of opts) (hi_of opts) = Inr chks)"

definition chunk_total :: "'k block_data \<Rightarrow> nat" where
  "chunk_total D = (\<Sum>d \<leftarrow> D. length (snd d))"

text \<open>The number of samples in the chunks, and that of the samples inside the bounds that the series had.\<close>

definition chunk_samples :: "('k, 'v) chunk_lib \<Rightarrow> 'k block_data \<Rightarrow> nat" where
  "chunk_samples lib D = (\<Sum>c \<leftarrow> concat (map snd D). ck_num lib (the (cm_chunk c)))"

definition sample_total :: "Options \<Rightarrow> (labels \<times> 'v sample_iter) list \<Rightarrow> nat" where
  "sample_total opts ss = (\<Sum>s \<leftarrow> ss. length (taken (lo_of opts) (hi_of opts) (it_samples (snd s))))"

lemma kept_samples:
  assumes "lib_ok room lib" and "\<forall>s \<in> set ss. addable lib opts s"
  shows "chunk_samples (t_chunk lib) (kept_series lib opts ss) = sample_total opts ss"
  using assms(2)
proof (induction ss)
  case Nil
  then show ?case by (simp add: kept_series_def chunk_samples_def sample_total_def)
next
  case (Cons s ss)
  let ?xs = "taken (lo_of opts) (hi_of opts) (it_samples (snd s))"
  have ck: "chunk_lib_ok (t_chunk lib)" using assms(1) by (simp add: lib_ok_def)
  obtain chks where chks: "samplesToChunks (t_chunk lib) (snd s) (lo_of opts) (hi_of opts) = Inr chks"
    using Cons.prems by (auto simp: addable_def)
  have "(\<Sum>c \<leftarrow> chks. ck_num (t_chunk lib) (the (cm_chunk c))) = (\<Sum>b \<leftarrow> chop samplesPerChunk ?xs. length b)"
    unfolding samplesToChunks_Inr(2) [OF ck chks] by (simp add: comp_def meta_of_def num_chunk_of [OF ck])
  also have "\<dots> = length ?xs"
    using concat_chop [of samplesPerChunk ?xs] length_concat [of "chop samplesPerChunk ?xs"] by (simp add: samplesPerChunk_def)
  finally have "chunk_samples (t_chunk lib) (kept_series lib opts [s]) = length ?xs"
    using chks by (cases chks) (auto simp: kept_series_def chunk_samples_def split_beta)
  moreover have "chunk_samples (t_chunk lib) (kept_series lib opts (s # ss)) =
      chunk_samples (t_chunk lib) (kept_series lib opts [s]) + chunk_samples (t_chunk lib) (kept_series lib opts ss)"
    by (simp add: kept_series_def chunk_samples_def)
  ultimately show ?case using Cons by (simp add: sample_total_def)
qed

lemma add_series_list_inv:
  assumes ok: "lib_ok room lib" and "blk_inv lib b D" and "\<forall>s \<in> set ss. addable lib (bd_opts b) s"
    and "chunk_total (kept_series lib (bd_opts b) ss) \<le> room (bd_chunks b)"
  shows "\<exists>b'. add_series_list lib no_faults ss b = (None, b') \<and> blk_inv lib b' (D @ kept_series lib (bd_opts b) ss) \<and>
    bd_opts b' = bd_opts b \<and> bd_blockID b' = bd_blockID b"
  using assms(2-)
proof (induction ss arbitrary: b D)
  case Nil
  then show ?case by (simp add: kept_series_def)
next
  case (Cons s ss)
  obtain lbls it where s: "s = (lbls, it)" by fastforce
  obtain chks where c: "samplesToChunks (t_chunk lib) it (lo_of (bd_opts b)) (hi_of (bd_opts b)) = Inr chks"
    and n: "names_sorted [] lbls" using Cons.prems(2) s by (auto simp: addable_def)
  have kept: "kept_series lib (bd_opts b) (s # ss) =
      (if chks = [] then [] else [(lbls, chks)]) @ kept_series lib (bd_opts b) ss"
    using c by (simp add: kept_series_def s)
  have rm: "length chks \<le> room (bd_chunks b)" using Cons.prems(3) by (auto simp: kept chunk_total_def split: if_splits)
  obtain b1 where b1: "AddSeriesWithSamples lib no_faults lbls it b = (None, b1)"
    "blk_inv lib b1 (if chks = [] then D else D @ [(lbls, chks)])" "bd_opts b1 = bd_opts b" "bd_blockID b1 = bd_blockID b"
    "room (bd_chunks b) \<le> length chks + room (bd_chunks b1)"
    using AddSeries_inv [OF ok Cons.prems(1) c n rm] by blast
  have rm1: "chunk_total (kept_series lib (bd_opts b1) ss) \<le> room (bd_chunks b1)"
    using Cons.prems(3) b1(3,5) by (auto simp: kept chunk_total_def split: if_splits)
  have "\<forall>s \<in> set ss. addable lib (bd_opts b1) s" using Cons.prems(2) b1(3) by simp
  from Cons.IH [OF b1(2) this rm1] obtain b2 where b2: "add_series_list lib no_faults ss b1 = (None, b2)"
    "blk_inv lib b2 ((if chks = [] then D else D @ [(lbls, chks)]) @ kept_series lib (bd_opts b1) ss)"
    "bd_opts b2 = bd_opts b1" "bd_blockID b2 = bd_blockID b1" by blast
  have "(if chks = [] then D else D @ [(lbls, chks)]) @ kept_series lib (bd_opts b1) ss = D @ kept_series lib (bd_opts b) (s # ss)"
    using b1(3) by (simp add: kept)
  then show ?case using b1 b2 s by (intro exI [of _ b2]) simp
qed

lemma NewBuilder_inv:
  fixes b :: "('k, 'cw) builder"
  assumes "NewBuilder no_faults blockID dir opts cw = Ok b"
  shows "blk_inv lib b []" and "bd_opts b = opts" and "bd_blockID b = blockID" and "bd_chunks b = cw"
proof -
  let ?tmp = "dir @ ''/'' @ blockID @ ''/temp''"
  obtain sb :: "'k chunk_meta seriesBatcher" where sb: "newSeriesBatcher (SymbolsBatchSize opts) ?tmp = Ok sb"
    using assms by (auto simp: NewBuilder_def Let_def split: res.splits)
  obtain sw disk where sym: "addSymbol (\<lambda>fn. None) [] (newSymbolsBatcher (SymbolsBatchSize opts) ?tmp) Map.empty = (None, sw, disk)"
    "batch_inv sw disk (insert [] {})"
    using addSymbol_inv [OF new_inv, of "[]" "SymbolsBatchSize opts" ?tmp Map.empty] by metis
  have b: "b = \<lparr>bd_opts = opts, bd_blockID = blockID, bd_symbols = sw, bd_series = sb, bd_symDisk = disk,
      bd_serDisk = Map.empty, bd_chunks = cw\<rparr>"
    using assms sb sym(1) by (simp add: NewBuilder_def Let_def)
  show "bd_opts b = opts" "bd_blockID b = blockID" "bd_chunks b = cw" using b by simp_all
  have "ser_inv (t_compare lib) sb Map.empty {#}" using newSeriesBatcher_inv [OF sb] .
  then show "blk_inv lib b []"
    unfolding blk_inv_def using sym(2) b by (intro conjI exI [of _ "{#}"]) (simp_all add: block_symbols_def)
qed

section \<open>Finishing\<close>

lemma foldl_log_symbol: "foldl (\<lambda>iw s. snd (log_symbol iw s)) (syms, log) ss = (syms @ ss, log)"
  by (induction ss arbitrary: syms) (simp_all add: log_symbol_def)

lemma asi_loop_error:
  assumes ok: "lib_ok room lib"
  shows "series_all (t_compare lib) si = (xs, e) \<Longrightarrow> e \<noteq> EOF \<Longrightarrow> \<forall>s \<in> set xs. \<forall>c \<in> set (chunks_of s). loads lib rd c \<Longrightarrow>
    (\<Sum>s \<leftarrow> xs. length (chunks_of s)) \<le> room cw \<Longrightarrow> fst (asi_loop lib rd si iw cw ref sp) = Some e"
proof (induction xs arbitrary: si iw cw ref sp)
  case Nil
  obtain si' where "NextSeries (t_compare lib) si = (Inl e, si')"
    using Nil(1) by (auto simp: series_all.simps [of _ si] split: prod.splits sum.splits)
  then show ?case using Nil(2) by (simp add: asi_loop.simps [of lib rd si])
next
  case (Cons s xs)
  obtain si' where nxt: "NextSeries (t_compare lib) si = (Inr s, si')" and rest: "series_all (t_compare lib) si' = (xs, e)"
    using Cons.prems(1) by (auto simp: series_all.simps [of _ si] split: prod.splits sum.splits)
  let ?cs = "map (loaded lib rd) (chunks_of s)"
  have lc: "load_chunks lib rd (chunks_of s) (count_series sp) = (Inr ?cs, count_all (t_chunk lib) ?cs (count_series sp))"
    using Cons.prems(3) by (intro load_chunks_spec) simp
  have rm1: "length ?cs \<le> room cw" using Cons.prems(4) by simp
  obtain cs1 cw1 where w: "t_write lib cw ?cs = ((None, cs1), cw1)" "\<forall>c \<in> set cs1. cm_ref c \<noteq> 0" "room cw \<le> length ?cs + room cw1"
    using write_and_load [OF ok rm1] by metis
  have rm2: "(\<Sum>s \<leftarrow> xs. length (chunks_of s)) \<le> room cw1" using Cons.prems(4) w(3) by simp
  have sub: "\<forall>s \<in> set xs. \<forall>c \<in> set (chunks_of s). loads lib rd c" using Cons.prems(3) by simp
  have "\<not> (\<exists>c \<in> set cs1. cm_ref c = 0)" using w(2) by blast
  then show ?case using nxt lc w(1) Cons.IH [OF rest Cons.prems(2) sub rm2]
    by (simp add: asi_loop.simps [of lib rd si] lib_okD(5) [OF ok] log_series_def)
qed

text \<open>
  The steps of \<open>FinishBlock\<close> up to the loop over the series, for a builder in its invariant: the
  symbols are in the index, and the iterator will give the series of the block.
\<close>

lemma finish_prepare:
  fixes lib :: "('k, 'v, 'cw, 'k index_log) tsdb_lib"
  assumes ok: "lib_ok room lib" and inv: "blk_inv lib b D"
  obtains sw symDisk sb serDisk sit xs e where
    "flushSymbols (\<lambda>fn. None) True (bd_symbols b) (bd_symDisk b) = (None, sw, symDisk)"
    and "flushSeries (t_sort lib) (\<lambda>fn. None) True (bd_series b) (bd_serDisk b) = (None, sb, serDisk)"
    and "addSymbolsToIndexWriter (t_addSymbol lib) None symDisk ([], []) (syb_files sw) =
      (None, (sorted_list_of_set (block_symbols D), []))"
    and "newSeriesIterator (t_compare lib) serDisk (seb_files sb) = Inr sit"
    and "series_all (t_compare lib) sit = (xs, e)"
    and "\<forall>s \<in> set xs. \<forall>c \<in> set (chunks_of s). loads lib (bd_chunks b) c"
    and "sorted_wrt (\<lambda>s t. t_compare lib (metric s) (metric t) < 0) xs"
    and "(\<Sum>s \<leftarrow> xs. length (chunks_of s)) \<le> chunk_total D"
    and "if distinct (map fst D) \<and> [] \<notin> fst ` set D
      then e = EOF \<and> mset (map (\<lambda>s. (metric s, map (loaded lib (bd_chunks b)) (chunks_of s))) xs) = mset D
      else e = ErrDuplicate"
proof -
  note o = labels_order.intro [OF lib_okD(2) [OF ok]]
  obtain M where sym: "batch_inv (bd_symbols b) (bd_symDisk b) (block_symbols D)"
    and ser: "ser_inv (t_compare lib) (bd_series b) (bd_serDisk b) M"
    and ld: "\<forall>s \<in># M. \<forall>c \<in> set (chunks_of s). loads lib (bd_chunks b) c"
    and D: "image_mset (\<lambda>s. (metric s, map (loaded lib (bd_chunks b)) (chunks_of s))) M = mset D"
    using inv unfolding blk_inv_def by blast
  obtain sw symDisk where f1: "flushSymbols (\<lambda>fn. None) True (bd_symbols b) (bd_symDisk b) = (None, sw, symDisk)"
    "batch_inv sw symDisk (block_symbols D)" "syb_buffer sw = {}"
    by (rule flush_inv [OF sym, of True]) auto
  obtain sb serDisk where f2: "flushSeries (t_sort lib) (\<lambda>fn. None) True (bd_series b) (bd_serDisk b) = (None, sb, serDisk)"
    "ser_inv (t_compare lib) sb serDisk M" "seb_buffer sb = []"
    by (rule flushSeries_inv [OF lib_okD(3) [OF ok] ser, of True]) auto
  have files: "\<forall>fn \<in> set (syb_files sw). \<exists>xs. symDisk fn = Some (map Inr xs) \<and> sorted xs"
    using batch_invD(2) [OF f1(2)] strict_sorted_imp_sorted by metis
  have S: "block_symbols D = (\<Union>fn \<in> set (syb_files sw). set (map projr (the (symDisk fn))))"
    using batch_invD(4) [OF f1(2)] by (simp only: f1(3) Un_empty_left)
  have none: "fst (log_symbol iw s) = None" for iw :: "'k index_log" and s by (simp add: log_symbol_def)
  have a: "addSymbolsToIndexWriter (t_addSymbol lib) None symDisk ([], []) (syb_files sw) =
      (None, (sorted_list_of_set (block_symbols D), []))"
    unfolding lib_okD(4) [OF ok] addSymbolsToIndexWriter_spec [OF none files] S [symmetric]
    by (simp add: foldl_log_symbol)
  obtain ss where ss: "mset ss = M" by (metis ex_mset)
  obtain sit xs e where sit: "newSeriesIterator (t_compare lib) serDisk (seb_files sb) = Inr sit"
    and all: "series_all (t_compare lib) sit = (xs, e)"
    and spec: "sorted_wrt (\<lambda>a b. t_compare lib a b < 0) ([] # map metric xs)" "mset xs \<subseteq># mset ss"
    "e = EOF \<and> mset xs = mset ss \<or>
      e = ErrDuplicate \<and> (\<exists>x \<in># mset ss - mset xs. metric x \<in> metric ` set xs \<or> \<not> t_compare lib [] (metric x) < 0)"
    by (rule labels_order.read_flushed [OF o f2(2,3) ss])
  have "image_mset fst (image_mset (\<lambda>s. (metric s, map (loaded lib (bd_chunks b)) (chunks_of s))) M) = image_mset fst (mset D)"
    by (simp only: D)
  then have labels: "mset (map metric ss) = mset (map fst D)" by (simp add: ss image_mset.compositionality comp_def)
  then have same: "distinct (map metric ss) \<longleftrightarrow> distinct (map fst D)" "metric ` set ss = fst ` set D"
    using mset_eq_imp_distinct_iff mset_eq_setD by (blast, metis list.set_map)
  have cases: "if distinct (map fst D) \<and> [] \<notin> fst ` set D then e = EOF \<and> mset xs = M else e = ErrDuplicate"
    using labels_order.complete_iff [OF o spec] ss same by simp
  have "\<forall>s \<in> set xs. \<forall>c \<in> set (chunks_of s). loads lib (bd_chunks b) c"
    using spec(2) ss ld by (metis mset_subset_eqD set_mset_mset)
  moreover have "sorted_wrt (\<lambda>s t. t_compare lib (metric s) (metric t) < 0) xs" using spec(1) by (simp add: sorted_wrt_map)
  moreover have "if distinct (map fst D) \<and> [] \<notin> fst ` set D
      then e = EOF \<and> mset (map (\<lambda>s. (metric s, map (loaded lib (bd_chunks b)) (chunks_of s))) xs) = mset D
      else e = ErrDuplicate"
    using cases D by simp
  moreover have "(\<Sum>s \<leftarrow> xs. length (chunks_of s)) \<le> chunk_total D"
  proof -
    have "image_mset (length \<circ> snd) (image_mset (\<lambda>s. (metric s, map (loaded lib (bd_chunks b)) (chunks_of s))) M)
        = image_mset (length \<circ> snd) (mset D)" by (simp only: D)
    then have "image_mset (\<lambda>s. length (chunks_of s)) M = mset (map (length \<circ> snd) D)"
      by (simp add: image_mset.compositionality comp_def)
    then have "sum_mset (image_mset (\<lambda>s. length (chunks_of s)) M) = chunk_total D"
      by (simp only: sum_mset_sum_list) (simp add: chunk_total_def comp_def)
    moreover have "sum_mset (image_mset (\<lambda>s. length (chunks_of s)) (mset xs)) \<le> sum_mset (image_mset (\<lambda>s. length (chunks_of s)) M)"
    proof -
      obtain N where "M = mset xs + N" using spec(2) unfolding ss by (metis mset_subset_eq_exists_conv)
      then show ?thesis by simp
    qed
    ultimately show ?thesis by (simp add: sum_mset_sum_list flip: mset_map)
  qed
  ultimately show ?thesis using that [OF f1(1) f2(1) a sit all] by blast
qed

lemma concat_data:
  assumes "mset css = mset (map snd D)"
  shows "set (concat css) = \<Union> (set ` snd ` set D)" and "length (concat css) = chunk_total D"
    and "(\<Sum>c \<leftarrow> concat css. ck_num lib (the (cm_chunk c))) = chunk_samples lib D"
proof -
  have "set css = snd ` set D" using mset_eq_setD [OF assms] by simp
  then show "set (concat css) = \<Union> (set ` snd ` set D)" by simp
  have "sum_mset (image_mset length (mset css)) = sum_mset (image_mset length (mset (map snd D)))" by (simp only: assms)
  then have "sum_list (map length css) = sum_list (map length (map snd D))" by (simp only: mset_map [symmetric] sum_mset_sum_list)
  then show "length (concat css) = chunk_total D" by (simp add: length_concat comp_def chunk_total_def)
  have total: "(\<Sum>c \<leftarrow> concat xss. f c) = sum_mset (image_mset (\<lambda>xs. sum_list (map f xs)) (mset xss))"
    for f :: "'a chunk_meta \<Rightarrow> nat" and xss by (induction xss) simp_all
  show "(\<Sum>c \<leftarrow> concat css. ck_num lib (the (cm_chunk c))) = chunk_samples lib D"
    unfolding chunk_samples_def total assms ..
qed

text \<open>What \<open>FinishBlock\<close> makes of a builder in its invariant that holds no label set twice.\<close>

definition block_of ::
    "('k, 'v, 'cw, 'iw) tsdb_lib \<Rightarrow> string \<Rightarrow> 'k block_data \<Rightarrow> block_meta \<times> 'k index_log \<times> 'cw \<Rightarrow> bool" where
  "block_of lib blockID D r \<longleftrightarrow>
     (\<exists>m entries cw. r = (m, (sorted_list_of_set (block_symbols D), entries), cw) \<and>
       mset (map (\<lambda>(ref, lbls, chks). (lbls, map unref chks)) entries) = mset D \<and>
       sorted_wrt (\<lambda>a b. t_compare lib a b < 0) (map (fst \<circ> snd) entries) \<and>
       map fst entries = map of_nat [1..<Suc (length D)] \<and> stored lib cw entries \<and>
       bm_ulid m = blockID \<and>
       bm_min m = Min (insert (2 ^ 63 - 1) (cm_min ` \<Union> (set ` snd ` set D))) \<and>
       bm_max m = int64_inc (Max (insert 0 (cm_max ` \<Union> (set ` snd ` set D)))) \<and>
       NumSeries (bm_stats m) = of_nat (length D) \<and>
       NumChunks (bm_stats m) = of_nat (chunk_total D) \<and>
       NumSamples (bm_stats m) = of_nat (chunk_samples (t_chunk lib) D) \<and>
       bm_level m = 1 \<and> bm_sources m = [blockID] \<and> bm_version m = 1)"

lemma finish_block:
  assumes ok: "lib_ok room lib" and inv: "blk_inv lib b' D" and id: "bd_blockID b' = blockID"
    and room: "chunk_total D \<le> room cw2" and "distinct (map fst D)" and "[] \<notin> fst ` set D"
  shows "\<exists>r. FinishBlock lib no_faults (\<lambda>m. m) ([], []) cw2 b' = (None, Some r) \<and> block_of lib blockID D r"
proof -
  obtain sw symDisk sb serDisk sit xs e where f: "flushSymbols (\<lambda>fn. None) True (bd_symbols b') (bd_symDisk b') = (None, sw, symDisk)"
    "flushSeries (t_sort lib) (\<lambda>fn. None) True (bd_series b') (bd_serDisk b') = (None, sb, serDisk)"
    "addSymbolsToIndexWriter (t_addSymbol lib) None symDisk ([], []) (syb_files sw) =
      (None, (sorted_list_of_set (block_symbols D), []))"
    "newSeriesIterator (t_compare lib) serDisk (seb_files sb) = Inr sit" "series_all (t_compare lib) sit = (xs, e)"
    and ld: "\<forall>s \<in> set xs. \<forall>c \<in> set (chunks_of s). loads lib (bd_chunks b') c"
    and srt: "sorted_wrt (\<lambda>s t. t_compare lib (metric s) (metric t) < 0) xs"
    and total: "(\<Sum>s \<leftarrow> xs. length (chunks_of s)) \<le> chunk_total D"
    and res: "if distinct (map fst D) \<and> [] \<notin> fst ` set D
      then e = EOF \<and> mset (map (\<lambda>s. (metric s, map (loaded lib (bd_chunks b')) (chunks_of s))) xs) = mset D
      else e = ErrDuplicate"
    by (rule finish_prepare [OF ok inv])
  let ?d = "\<lambda>s. (metric s, map (loaded lib (bd_chunks b')) (chunks_of s))"
  let ?css = "map (\<lambda>s. map (loaded lib (bd_chunks b')) (chunks_of s)) xs"
  let ?sp = "count_block (t_chunk lib) ?css no_span"
  have e: "e = EOF" and D: "mset (map ?d xs) = mset D" using res assms(5,6) by simp_all
  have all: "series_all (t_compare lib) sit = (xs, EOF)" using f(5) e by simp
  have rm: "(\<Sum>s \<leftarrow> xs. length (chunks_of s)) \<le> room cw2" using total room by simp
  obtain entries cw' where l: "asi_loop lib (bd_chunks b') sit (sorted_list_of_set (block_symbols D), []) cw2 0 no_span =
      (None, ?sp, (sorted_list_of_set (block_symbols D), [] @ entries), cw')"
    "map (\<lambda>(r, l, cs). (l, map unref cs)) entries = map ?d xs"
    "map fst entries = map (\<lambda>i. 0 + of_nat (Suc i)) [0..<length xs]" "stored lib cw' entries"
    using asi_loop_spec [OF ok all ld rm] by blast
  define m where "m = \<lparr>bm_ulid = blockID, bm_min = sp_min ?sp, bm_max = int64_inc (sp_max ?sp), bm_stats = sp_stats ?sp,
      bm_level = 1, bm_sources = [blockID], bm_version = 1\<rparr>"
  have asi: "addSeriesToIndex lib None (bd_chunks b') serDisk (seb_files sb) (sorted_list_of_set (block_symbols D), []) cw2 =
      (None, ?sp, (sorted_list_of_set (block_symbols D), entries), cw')"
    using f(4) l(1) by (simp add: addSeriesToIndex_def)
  have fin: "FinishBlock lib no_faults (\<lambda>m. m) ([], []) cw2 b' =
      (None, Some (m, (sorted_list_of_set (block_symbols D), entries), cw'))"
    using f(1-3) asi id by (simp add: FinishBlock_def finish_meta_def writeMetaFile_def m_def)
  have len: "length xs = length D" using mset_eq_length [OF D] by simp
  have "image_mset snd (mset (map ?d xs)) = image_mset snd (mset D)" by (simp only: D)
  then have css: "mset ?css = mset (map snd D)" by (simp add: image_mset.compositionality comp_def)
  note sets = concat_data(1) [OF css] and lens = concat_data(2) [OF css] and smps = concat_data(3) [OF css]
  have "block_of lib blockID D (m, (sorted_list_of_set (block_symbols D), entries), cw')"
    unfolding block_of_def
  proof (intro exI conjI)
    show "(m, (sorted_list_of_set (block_symbols D), entries), cw') = (m, (sorted_list_of_set (block_symbols D), entries), cw')"
      by (rule refl)
    show "mset (map (\<lambda>(ref, lbls, chks). (lbls, map unref chks)) entries) = mset D" using l(2) D by simp
    have "map (fst \<circ> snd) entries = map fst (map (\<lambda>(r, l, cs). (l, map unref cs)) entries)" by (induction entries) auto
    then have "map (fst \<circ> snd) entries = map metric xs" unfolding l(2) by simp
    then show "sorted_wrt (\<lambda>a b. t_compare lib a b < 0) (map (fst \<circ> snd) entries)" using srt by (simp add: sorted_wrt_map)
    have "[1..<Suc (length xs)] = map Suc [0..<length xs]" by (simp only: map_Suc_upt One_nat_def)
    then show "map fst entries = map of_nat [1..<Suc (length D)]" unfolding l(3) len [symmetric] by (simp only: map_map comp_def add_0)
    show "stored lib cw' entries" by (rule l(4))
    show "bm_ulid m = blockID" by (simp add: m_def)
    show "bm_min m = Min (insert (2 ^ 63 - 1) (cm_min ` \<Union> (set ` snd ` set D)))"
      unfolding sets [symmetric] by (simp only: m_def block_meta.simps count_block_fields(1)) (simp add: no_span_def)
    show "bm_max m = int64_inc (Max (insert 0 (cm_max ` \<Union> (set ` snd ` set D))))"
      unfolding sets [symmetric] by (simp only: m_def block_meta.simps count_block_fields(2)) (simp add: no_span_def)
    show "NumSeries (bm_stats m) = of_nat (length D)"
      by (simp only: m_def block_meta.simps count_block_fields(3)) (simp add: no_span_def len)
    show "NumChunks (bm_stats m) = of_nat (chunk_total D)"
      by (simp only: m_def block_meta.simps count_block_fields(4) lens) (simp add: no_span_def)
    show "NumSamples (bm_stats m) = of_nat (chunk_samples (t_chunk lib) D)"
      by (simp only: m_def block_meta.simps count_block_fields(5) smps) (simp add: no_span_def)
    show "bm_level m = 1" "bm_sources m = [blockID]" "bm_version m = 1" by (simp_all add: m_def)
  qed
  then show ?thesis using fin by blast
qed

section \<open>Properties\<close>

text \<open>
  C15. The block builder from end to end: series are added in any order and with any batch sizes,
  their label names in order, their samples increasing, no two that have chunks with the same
  labels and none without labels. Then every addition succeeds and the finished block has
  \<^item> an index whose symbols are exactly the label names and values and the empty string, sorted;
  \<^item> exactly the series that have samples inside the bounds, in strictly ascending order of their
    labels, numbered from 1, each with its own chunks, and every chunk can be loaded from the chunk
    files of the block;
  \<^item> metadata with the identifier of the block, the first time of the block, its last time plus one (wrapping
    around after the largest time), the numbers of series and chunks, the number of all samples inside the
    bounds that the series had, and the fixed fields.
\<close>

theorem block_complete:
  assumes ok: "lib_ok room lib" and "NewBuilder no_faults blockID dir opts cw = Ok b"
    and "\<forall>s \<in> set ss. addable lib opts s"
    and "chunk_total (kept_series lib opts ss) \<le> min (room cw) (room cw2)"
    and "distinct (map fst (kept_series lib opts ss))" and "[] \<notin> fst ` set (kept_series lib opts ss)"
  shows "\<exists>b' m entries cw'. add_series_list lib no_faults ss b = (None, b') \<and>
    FinishBlock lib no_faults (\<lambda>m. m) ([], []) cw2 b' =
      (None, Some (m, (sorted_list_of_set (block_symbols (kept_series lib opts ss)), entries), cw')) \<and>
    mset (map (\<lambda>(ref, lbls, chks). (lbls, map unref chks)) entries) = mset (kept_series lib opts ss) \<and>
    sorted_wrt (\<lambda>a b. t_compare lib a b < 0) (map (fst \<circ> snd) entries) \<and>
    map fst entries = map of_nat [1..<Suc (length (kept_series lib opts ss))] \<and> stored lib cw' entries \<and>
    bm_ulid m = blockID \<and>
    bm_min m = Min (insert (2 ^ 63 - 1) (cm_min ` \<Union> (set ` snd ` set (kept_series lib opts ss)))) \<and>
    bm_max m = int64_inc (Max (insert 0 (cm_max ` \<Union> (set ` snd ` set (kept_series lib opts ss))))) \<and>
    NumSeries (bm_stats m) = of_nat (length (kept_series lib opts ss)) \<and>
    NumChunks (bm_stats m) = of_nat (chunk_total (kept_series lib opts ss)) \<and>
    NumSamples (bm_stats m) = of_nat (sample_total opts ss) \<and>
    bm_level m = 1 \<and> bm_sources m = [blockID] \<and> bm_version m = 1"
proof -
  let ?D = "kept_series lib opts ss"
  note new = NewBuilder_inv [OF assms(2)]
  obtain b' where add: "add_series_list lib no_faults ss b = (None, b')" and inv: "blk_inv lib b' ?D"
    and id: "bd_blockID b' = blockID"
    using add_series_list_inv [OF ok new(1), of ss] assms(3,4) new(2-4) by auto
  obtain r where "FinishBlock lib no_faults (\<lambda>m. m) ([], []) cw2 b' = (None, Some r)" "block_of lib blockID ?D r"
    using finish_block [OF ok inv id _ assms(5,6)] assms(4) min.boundedE by blast
  then show ?thesis using add kept_samples [OF ok assms(3)] unfolding block_of_def by auto
qed

text \<open>A library that the model can run: chunks in a list, their references their places from 1.\<close>

definition store_write ::
    "'k option list \<Rightarrow> 'k chunk_meta list \<Rightarrow> (go_err option \<times> 'k chunk_meta list) \<times> 'k option list" where
  "store_write cw cs =
     (if cs = [] \<or> length cw + length cs < 2 ^ 64
      then ((None, map (\<lambda>i. (cs ! i)\<lparr>cm_ref := of_nat (Suc (length cw + i))\<rparr>) [0..<length cs]), cw @ map cm_chunk cs)
      else ((Some ErrLoad, cs), cw))"

definition store_load :: "'k option list \<Rightarrow> 'k chunk_meta \<Rightarrow> go_err + 'k option" where
  "store_load cw c =
     (if cm_ref c = 0 \<or> length cw < unat (cm_ref c) then Inl ErrLoad else Inr (cw ! (unat (cm_ref c) - 1)))"

definition store_room :: "'k option list \<Rightarrow> nat" where
  "store_room cw = 2 ^ 64 - 1 - length cw"

definition store_lib :: "((int \<times> 'v) list, 'v, (int \<times> 'v) list option list, (int \<times> 'v) list index_log) tsdb_lib" where
  "store_lib =
     \<lparr>t_chunk = list_lib, t_write = store_write, t_load = store_load, t_addSymbol = log_symbol, t_addSeries = log_series,
      t_compare = lex_compare, t_sort = sort_by lex_compare\<rparr>"

lemma store_ref:
  fixes n :: nat
  assumes "0 < n" and "n < 2 ^ 64"
  shows "(of_nat n :: 64 word) \<noteq> 0" and "unat (of_nat n :: 64 word) = n"
proof -
  show u: "unat (of_nat n :: 64 word) = n" using assms(2) by (simp add: unat_of_nat)
  show "(of_nat n :: 64 word) \<noteq> 0" using assms(1) u by (metis less_irrefl unat_0)
qed

lemma store_write_ok:
  assumes "length cs \<le> store_room cw"
  defines "cs' \<equiv> map (\<lambda>i. (cs ! i)\<lparr>cm_ref := of_nat (Suc (length cw + i))\<rparr>) [0..<length cs]"
  shows "store_write cw cs = ((None, cs'), cw @ map cm_chunk cs)"
    and "store_room cw \<le> length cs + store_room (cw @ map cm_chunk cs)" and "map unref cs' = map unref cs"
    and "\<forall>c \<in> set cs'. cm_ref c \<noteq> 0 \<and> store_load (cw @ map cm_chunk cs) (cleared c) = Inr (cm_chunk c)"
    and "store_load cw c = Inr (Some ch) \<Longrightarrow> store_load (cw @ map cm_chunk cs) c = Inr (Some ch)"
proof -
  have lim: "cs = [] \<or> length cw + length cs < 2 ^ 64" using assms(1) by (cases cs) (simp_all add: store_room_def)
  show "store_room cw \<le> length cs + store_room (cw @ map cm_chunk cs)" by (simp add: store_room_def)
  show "map unref cs' = map unref cs" by (rule nth_equalityI) (simp_all add: cs'_def unref_def)
  show "\<forall>c \<in> set cs'. cm_ref c \<noteq> 0 \<and> store_load (cw @ map cm_chunk cs) (cleared c) = Inr (cm_chunk c)"
  proof
    fix c assume "c \<in> set cs'"
    then obtain i where i: "i < length cs" "c = (cs ! i)\<lparr>cm_ref := of_nat (Suc (length cw + i))\<rparr>" by (auto simp: cs'_def)
    then have "Suc (length cw + i) < 2 ^ 64" using lim by auto
    note r = store_ref [OF zero_less_Suc this]
    have "cm_ref c = of_nat (Suc (length cw + i))" "cm_chunk c = cm_chunk (cs ! i)" using i(2) by simp_all
    then show "cm_ref c \<noteq> 0 \<and> store_load (cw @ map cm_chunk cs) (cleared c) = Inr (cm_chunk c)"
      using r i(1) by (simp add: store_load_def nth_append del: of_nat_Suc)
  qed
  show "store_load (cw @ map cm_chunk cs) c = Inr (Some ch)" if "store_load cw c = Inr (Some ch)"
  proof -
    have r: "cm_ref c \<noteq> 0" "\<not> length cw < unat (cm_ref c)" "cw ! (unat (cm_ref c) - 1) = Some ch"
      using that by (auto simp: store_load_def split: if_splits)
    then have "0 < unat (cm_ref c)" by (simp add: unat_gt_0)
    then have "unat (cm_ref c) - 1 < length cw" using r(2) by linarith
    then show ?thesis using r by (simp add: store_load_def nth_append)
  qed
  show "store_write cw cs = ((None, cs'), cw @ map cm_chunk cs)"
    using lim by (auto simp: store_write_def cs'_def)
qed

lemma store_lib_sel [simp]:
  "t_chunk store_lib = list_lib" "t_write store_lib = store_write" "t_load store_lib = store_load"
  "t_addSymbol store_lib = log_symbol" "t_addSeries store_lib = log_series" "t_compare store_lib = lex_compare"
  "t_sort store_lib = sort_by lex_compare"
  by (simp_all add: store_lib_def)

lemma store_lib_ok: "lib_ok store_room store_lib"
  unfolding lib_ok_def store_lib_sel
proof (intro conjI allI impI)
  show "chunk_lib_ok list_lib" by (rule list_lib_ok)
  show "compare_ok lex_compare" by (rule lex_compare_ok)
  show "label_sort lex_compare (sort_by lex_compare)" by (rule sort_by_ok [OF lex_compare_ok])
  fix cw :: "(int \<times> 'b) list option list" and cs :: "(int \<times> 'b) list chunk_meta list"
  assume r: "length cs \<le> store_room cw"
  note w = store_write_ok [OF r]
  show "\<exists>cs' cw'. store_write cw cs = ((None, cs'), cw') \<and> store_room cw \<le> length cs + store_room cw' \<and>
      map unref cs' = map unref cs \<and> (\<forall>c \<in> set cs'. cm_ref c \<noteq> 0) \<and>
      (\<forall>c \<in> set cs'. store_load cw' (cleared c) = Inr (cm_chunk c)) \<and>
      (\<forall>c ch. store_load cw c = Inr (Some ch) \<longrightarrow> store_load cw' c = Inr (Some ch))"
  proof (intro exI conjI allI impI)
    show "store_write cw cs = ((None, map (\<lambda>i. (cs ! i)\<lparr>cm_ref := of_nat (Suc (length cw + i))\<rparr>) [0..<length cs]), cw @ map cm_chunk cs)"
      by (rule w(1))
  qed (use w(2-5) in blast)+
qed simp_all

abbreviation example_series :: "(labels \<times> nat sample_iter) list" where
  "example_series \<equiv>
     [(example_label 3, \<lparr>it_samples = [Some (5, 4), Some (7, 2)], it_err = None\<rparr>),
      (example_label 2, \<lparr>it_samples = [], it_err = None\<rparr>),
      (example_label 1, \<lparr>it_samples = [Some (6, 3)], it_err = None\<rparr>)]"

lemma example_kept:
  "kept_series store_lib DefaultOptions example_series =
     [(example_label 3, [\<lparr>cm_ref = 0, cm_chunk = Some [(5, 4), (7, 2)], cm_min = 5, cm_max = 7\<rparr>]),
      (example_label 1, [\<lparr>cm_ref = 0, cm_chunk = Some [(6, 3)], cm_min = 6, cm_max = 6\<rparr>])]"
  by (simp add: kept_series_def lo_of_def hi_of_def DefaultOptions_def samplesToChunks_def samplesPerChunk_def finishChunk_def)

lemma example_addable: "\<forall>s \<in> set example_series. addable store_lib DefaultOptions s"
  by (simp add: addable_def lo_of_def hi_of_def DefaultOptions_def samplesToChunks_def samplesPerChunk_def finishChunk_def)

lemma example_builder: "\<exists>b :: ('k, 'cw) builder. NewBuilder no_faults blockID dir DefaultOptions cw = Ok b"
proof -
  obtain sb :: "'k chunk_meta seriesBatcher" where "newSeriesBatcher (SymbolsBatchSize DefaultOptions) (dir @ ''/'' @ blockID @ ''/temp'') = Ok sb"
    by (simp add: newSeriesBatcher_def make_ok_def max_alloc_def DefaultOptions_def)
  moreover obtain sw disk where "addSymbol (\<lambda>fn. None) []
      (newSymbolsBatcher (SymbolsBatchSize DefaultOptions) (dir @ ''/'' @ blockID @ ''/temp'')) Map.empty = (None, sw, disk)"
    using addSymbol_inv [OF new_inv] by metis
  ultimately show ?thesis by (simp add: NewBuilder_def Let_def)
qed

theorem block_complete_witness:
  "\<exists>b b' m entries cw'. NewBuilder no_faults ''B'' ''d'' DefaultOptions [] = Ok b \<and>
    add_series_list store_lib no_faults example_series b = (None, b') \<and>
    FinishBlock store_lib no_faults (\<lambda>m. m) ([], []) [] b' =
      (None, Some (m, ([[], [1], [3], [110]], entries), cw')) \<and>
    mset (map (fst \<circ> snd) entries) = {#example_label 1, example_label 3#} \<and> map fst entries = [1, 2] \<and>
    bm_min m = 5 \<and> bm_max m = 8 \<and> NumSeries (bm_stats m) = 2 \<and> NumChunks (bm_stats m) = 2 \<and> NumSamples (bm_stats m) = 3"
proof -
  obtain b where b: "NewBuilder no_faults ''B'' ''d'' DefaultOptions [] = Ok (b :: ((int \<times> nat) list, (int \<times> nat) list option list) builder)"
    by (rule exE [OF example_builder])
  let ?D = "kept_series store_lib DefaultOptions example_series"
  have room: "chunk_total ?D \<le> min (store_room []) (store_room [])"
    by (simp add: example_kept chunk_total_def store_room_def)
  have d: "distinct (map fst ?D)" "[] \<notin> fst ` set ?D" by (simp_all add: example_kept)
  have sy: "sorted_list_of_set (block_symbols ?D) = [[], [1], [3], [110]]"
    by (simp add: example_kept block_symbols_def label_symbols_def insert_commute)
  obtain b' m entries cw' where r: "add_series_list store_lib no_faults example_series b = (None, b')"
    "FinishBlock store_lib no_faults (\<lambda>m. m) ([], []) [] b' = (None, Some (m, (sorted_list_of_set (block_symbols ?D), entries), cw'))"
    "mset (map (\<lambda>(ref, lbls, chks). (lbls, map unref chks)) entries) = mset ?D"
    "map fst entries = map of_nat [1..<Suc (length ?D)]"
    "bm_min m = Min (insert (2 ^ 63 - 1) (cm_min ` \<Union> (set ` snd ` set ?D)))"
    "bm_max m = int64_inc (Max (insert 0 (cm_max ` \<Union> (set ` snd ` set ?D))))"
    "NumSeries (bm_stats m) = of_nat (length ?D)" "NumChunks (bm_stats m) = of_nat (chunk_total ?D)"
    "NumSamples (bm_stats m) = of_nat (sample_total DefaultOptions example_series)"
    using block_complete [OF store_lib_ok b example_addable room d] by (elim exE conjE) blast
  have "image_mset fst (mset (map (\<lambda>(ref, lbls, chks). (lbls, map unref chks)) entries)) = image_mset fst (mset ?D)"
    by (simp only: r(3))
  then have l: "mset (map (fst \<circ> snd) entries) = {#example_label 1, example_label 3#}"
    by (simp add: example_kept image_mset.compositionality comp_def case_prod_beta)
  have smp: "sample_total DefaultOptions example_series = 3"
    by (simp add: sample_total_def lo_of_def hi_of_def DefaultOptions_def in_block_def)
  show ?thesis
    using b r(1,2,4-9) l smp unfolding sy
    by (intro exI [of _ b] exI [of _ b'] exI [of _ m] exI [of _ entries] exI [of _ cw'])
      (simp add: example_kept chunk_total_def upt_rec int64_inc_def to_int64_def)
qed

text \<open>
  C16. No second series with the same labels, and none without labels, gets into a block: finishing
  it gives the error of the duplicate and no block, however far apart the two were added and in
  whichever batches they are.
\<close>

theorem block_duplicates_fail:
  assumes ok: "lib_ok room lib" and "NewBuilder no_faults blockID dir opts cw = Ok b"
    and "\<forall>s \<in> set ss. addable lib opts s"
    and "chunk_total (kept_series lib opts ss) \<le> min (room cw) (room cw2)"
    and "\<not> distinct (map fst (kept_series lib opts ss)) \<or> [] \<in> fst ` set (kept_series lib opts ss)"
  shows "\<exists>b'. add_series_list lib no_faults ss b = (None, b') \<and>
    FinishBlock lib no_faults extendMeta ([], []) cw2 b' = (Some ErrDuplicate, None)"
proof -
  let ?D = "kept_series lib opts ss"
  note new = NewBuilder_inv [OF assms(2)]
  obtain b' where add: "add_series_list lib no_faults ss b = (None, b')" and inv: "blk_inv lib b' ?D"
    using add_series_list_inv [OF ok new(1), of ss] assms(3,4) new(2-4) by auto
  obtain sw symDisk sb serDisk sit xs e where f: "flushSymbols (\<lambda>fn. None) True (bd_symbols b') (bd_symDisk b') = (None, sw, symDisk)"
    "flushSeries (t_sort lib) (\<lambda>fn. None) True (bd_series b') (bd_serDisk b') = (None, sb, serDisk)"
    "addSymbolsToIndexWriter (t_addSymbol lib) None symDisk ([], []) (syb_files sw) =
      (None, (sorted_list_of_set (block_symbols ?D), []))"
    "newSeriesIterator (t_compare lib) serDisk (seb_files sb) = Inr sit" "series_all (t_compare lib) sit = (xs, e)"
    and ld: "\<forall>s \<in> set xs. \<forall>c \<in> set (chunks_of s). loads lib (bd_chunks b') c"
    and total: "(\<Sum>s \<leftarrow> xs. length (chunks_of s)) \<le> chunk_total ?D"
    and res: "if distinct (map fst ?D) \<and> [] \<notin> fst ` set ?D
      then e = EOF \<and> mset (map (\<lambda>s. (metric s, map (loaded lib (bd_chunks b')) (chunks_of s))) xs) = mset ?D
      else e = ErrDuplicate"
    by (rule finish_prepare [OF ok inv])
  have e: "e = ErrDuplicate" using res assms(5) by (simp split: if_splits)
  have rm: "(\<Sum>s \<leftarrow> xs. length (chunks_of s)) \<le> room cw2" using total assms(4) by simp
  have "fst (asi_loop lib (bd_chunks b') sit (sorted_list_of_set (block_symbols ?D), []) cw2 0 no_span) = Some ErrDuplicate"
    using asi_loop_error [OF ok f(5) _ ld rm] e by (simp add: ErrDuplicate_def)
  then have "fst (addSeriesToIndex lib None (bd_chunks b') serDisk (seb_files sb) (sorted_list_of_set (block_symbols ?D), []) cw2)
      = Some ErrDuplicate"
    using f(4) by (auto simp: addSeriesToIndex_def split: prod.splits option.splits)
  then show ?thesis
    using add f(1-3) by (intro exI [of _ b']) (simp add: FinishBlock_def case_prod_beta)
qed

abbreviation duplicate_series :: "(labels \<times> nat sample_iter) list" where
  "duplicate_series \<equiv>
     [(example_label 3, \<lparr>it_samples = [Some (5, 4)], it_err = None\<rparr>),
      (example_label 1, \<lparr>it_samples = [Some (6, 3)], it_err = None\<rparr>),
      (example_label 3, \<lparr>it_samples = [Some (9, 4)], it_err = None\<rparr>)]"

theorem block_duplicates_fail_witness:
  "\<exists>b b'. NewBuilder no_faults ''B'' ''d'' DefaultOptions [] = Ok b \<and>
    add_series_list store_lib no_faults duplicate_series b = (None, b') \<and>
    FinishBlock store_lib no_faults (\<lambda>m. m) ([], []) [] b' = (Some ErrDuplicate, None)"
proof -
  obtain b where b: "NewBuilder no_faults ''B'' ''d'' DefaultOptions [] = Ok (b :: ((int \<times> nat) list, (int \<times> nat) list option list) builder)"
    by (rule exE [OF example_builder])
  have add: "\<forall>s \<in> set duplicate_series. addable store_lib DefaultOptions s"
    by (simp add: addable_def lo_of_def hi_of_def DefaultOptions_def samplesToChunks_def samplesPerChunk_def finishChunk_def)
  have D: "kept_series store_lib DefaultOptions duplicate_series =
     [(example_label 3, [\<lparr>cm_ref = 0, cm_chunk = Some [(5, 4)], cm_min = 5, cm_max = 5\<rparr>]),
      (example_label 1, [\<lparr>cm_ref = 0, cm_chunk = Some [(6, 3)], cm_min = 6, cm_max = 6\<rparr>]),
      (example_label 3, [\<lparr>cm_ref = 0, cm_chunk = Some [(9, 4)], cm_min = 9, cm_max = 9\<rparr>])]"
    by (simp add: kept_series_def lo_of_def hi_of_def DefaultOptions_def samplesToChunks_def samplesPerChunk_def finishChunk_def)
  have "\<exists>b'. add_series_list store_lib no_faults duplicate_series b = (None, b') \<and>
    FinishBlock store_lib no_faults (\<lambda>m. m) ([], []) [] b' = (Some ErrDuplicate, None)"
    by (rule block_duplicates_fail [OF store_lib_ok b add]) (simp_all add: D chunk_total_def store_room_def)
  then show ?thesis using b by blast
qed

end
