(* ===== verification/Finished.thy ===== *)
theory Finished
  imports Paths Block_Properties Strings
begin

text \<open>
  How a later run finds the blocks of an earlier one: \<^verbatim>\<open>ReadMetaFile\<close> of \<^verbatim>\<open>pkg/tsdb/builder.go\<close> over
  the files of a directory, and what \<open>GetFinishedBlockDates\<close> of \<open>Paths\<close> makes of it. The format of the
  metadata is a parameter.
\<close>

section \<open>\<^verbatim>\<open>filepath.Join\<close>\<close>

text \<open>The elements of a path as \<^verbatim>\<open>filepath.Clean\<close> keeps them, the last one first.\<close>

fun clean_parts :: "bool \<Rightarrow> string list \<Rightarrow> string list \<Rightarrow> string list" where
  "clean_parts rooted acc [] = acc"
| "clean_parts rooted acc (p # ps) =
     clean_parts rooted
       (if p = [] \<or> p = ''.'' then acc
        else if p = ''..'' then
          (case acc of
             [] \<Rightarrow> if rooted then [] else [p]
           | a # as \<Rightarrow> if a = ''..'' then p # acc else as)
        else p # acc) ps"

definition path_Clean :: "string \<Rightarrow> string" where
  "path_Clean path =
     (let rooted = (take 1 path = ''/'');
          parts = rev (clean_parts rooted [] (split_at (CHR ''/'') path));
          s = (if rooted then ''/'' else []) @ join ''/'' parts
      in if s = [] then ''.'' else s)"

definition path_Join :: "string \<Rightarrow> string \<Rightarrow> string" where
  "path_Join dir name = path_Clean (if dir = [] then name else dir @ ''/'' @ name)"

section \<open>The metadata of a block\<close>

text \<open>The files are a map from paths to contents.\<close>

definition ReadMetaFile :: "(string \<Rightarrow> bytes option) \<Rightarrow> (bytes \<Rightarrow> go_err + block_meta) \<Rightarrow> string \<Rightarrow> go_err + block_meta" where
  "ReadMetaFile files unmarshal blockDir =
     (let metaPath = path_Join blockDir ''meta.json''
      in case files metaPath of
           None \<Rightarrow> Inl ENOENT
         | Some data \<Rightarrow> unmarshal data)"

text \<open>What \<open>GetFinishedBlockDates\<close> uses of it: the first time, where there is no error.\<close>

definition meta_MinTime :: "(string \<Rightarrow> bytes option) \<Rightarrow> (bytes \<Rightarrow> go_err + block_meta) \<Rightarrow> string \<Rightarrow> int option" where
  "meta_MinTime files unmarshal p =
     (case ReadMetaFile files unmarshal p of Inl err \<Rightarrow> None | Inr meta \<Rightarrow> Some (bm_min meta))"

section \<open>From the path of the metadata to the metadata\<close>

text \<open>A directory in whose path nothing has to be cleaned, and which does not have the name in it.\<close>

definition block_dir :: "string \<Rightarrow> bool" where
  "block_dir d \<longleftrightarrow> path_Join (d @ ''/'') ''meta.json'' = d @ ''/meta.json'' \<and> \<not> sublist ''meta.json'' (d @ ''/meta.jso'')"

lemma remove_first_end:
  assumes "\<not> sublist old (d @ butlast old)" and "old \<noteq> []"
  shows "remove_first old (d @ old) = d"
  using assms
proof (induction d)
  case Nil
  then show ?case by (cases old) simp_all
next
  case (Cons c d)
  have "take (length old) (c # d @ old) \<noteq> old"
  proof
    assume t: "take (length old) (c # d @ old) = old"
    have "length old \<le> length (c # d @ butlast old)" using Cons.prems(2) by (cases old) simp_all
    then have "take (length old) ((c # d @ butlast old) @ [last old]) = take (length old) (c # d @ butlast old)"
      by (subst take_append) simp
    moreover have "c # d @ old = (c # d @ butlast old) @ [last old]" using Cons.prems(2) by simp
    ultimately have "take (length old) (c # d @ butlast old) = old" using t by simp
    then have "sublist old ((c # d) @ butlast old)" by (metis append_Cons sublist_take)
    with Cons.prems(1) show False by simp
  qed
  moreover have "\<not> sublist old (d @ butlast old)" using Cons.prems(1) by (auto simp: sublist_Cons_right)
  ultimately show ?case using Cons.IH Cons.prems(2) by simp
qed

lemma meta_path:
  assumes "block_dir d"
  shows "path_Join (remove_first ''meta.json'' (d @ ''/meta.json'')) ''meta.json'' = d @ ''/meta.json''"
proof -
  have "remove_first ''meta.json'' ((d @ ''/'') @ ''meta.json'') = d @ ''/''"
    using assms by (intro remove_first_end) (simp_all add: block_dir_def)
  then show ?thesis using assms by (simp add: block_dir_def)
qed

lemma metaFilter_meta: "metaFilter (d @ ''/meta.json'')"
  by (simp add: metaFilter_def Let_def)

text \<open>A block with metadata that can be read is found, whatever the other paths are.\<close>

lemma finished_date:
  assumes "block_dir d" and "d @ ''/meta.json'' \<in> set walked"
    and "files (d @ ''/meta.json'') = Some data" and "unmarshal data = Inr m"
  shows "day_of_ms (bm_min m) \<in> GetFinishedBlockDates walked (meta_MinTime files unmarshal)"
proof -
  let ?p = "remove_first ''meta.json'' (d @ ''/meta.json'')"
  have "meta_MinTime files unmarshal ?p = Some (bm_min m)"
    using meta_path [OF assms(1)] assms(3,4) by (simp add: meta_MinTime_def ReadMetaFile_def)
  moreover have "?p \<in> set (map (remove_first ''meta.json'') (filter metaFilter walked))"
    using assms(2) metaFilter_meta by auto
  ultimately have "bm_min m \<in> set (List.map_filter (meta_MinTime files unmarshal) (map (remove_first ''meta.json'') (filter metaFilter walked)))"
    by (force simp: List.map_filter_def)
  then show ?thesis by (force simp: GetFinishedBlockDates_def)
qed

text \<open>The days that are found are those of the metadata that can be read.\<close>

lemma finished_dates_eq:
  assumes "\<And>p. p \<in> set walked \<Longrightarrow> metaFilter p \<Longrightarrow> \<exists>d. p = d @ ''/meta.json'' \<and> block_dir d"
  shows "GetFinishedBlockDates walked (meta_MinTime files unmarshal) =
    {day_of_ms (bm_min m) | p data m. p \<in> set walked \<and> metaFilter p \<and> files p = Some data \<and> unmarshal data = Inr m}"
proof -
  have path: "path_Join (remove_first ''meta.json'' p) ''meta.json'' = p" if "p \<in> set walked" "metaFilter p" for p
    using assms [OF that] meta_path by blast
  have "meta_MinTime files unmarshal (remove_first ''meta.json'' p) = Some t \<longleftrightarrow>
      (\<exists>data m. files p = Some data \<and> unmarshal data = Inr m \<and> t = bm_min m)"
    if "p \<in> set walked" "metaFilter p" for p t
    using path [OF that] by (auto simp: meta_MinTime_def ReadMetaFile_def split: option.splits sum.splits)
  then have "GetFinishedBlockDates walked (meta_MinTime files unmarshal) =
      day_of_ms ` {t. \<exists>p. p \<in> set walked \<and> metaFilter p \<and> (\<exists>data m. files p = Some data \<and> unmarshal data = Inr m \<and> t = bm_min m)}"
    by (force simp: GetFinishedBlockDates_def List.map_filter_def image_iff)
  then show ?thesis by blast
qed

text \<open>
  A directory above the blocks that has the name of the metadata in its path hides all of them: the
  first occurrence is removed, not the last.
\<close>

lemma hidden_by_directory:
  "GetFinishedBlockDates [''/meta.json/B/meta.json''] (meta_MinTime [''/meta.json/B/meta.json'' \<mapsto> data] unmarshal) = {}"
proof -
  have "remove_first ''meta.json'' ''/meta.json/B/meta.json'' = ''//B/meta.json''" by simp
  moreover have "path_Join ''//B/meta.json'' ''meta.json'' = ''/B/meta.json/meta.json''" by code_simp
  ultimately show ?thesis
    by (simp add: GetFinishedBlockDates_def List.map_filter_simps meta_MinTime_def ReadMetaFile_def)
qed

section \<open>Properties\<close>

text \<open>
  C38. A block that was built is found: series are added and the block is finished as in the property of the
  builder; once its directory holds metadata that reads as what was written, the day of its first sample
  is among the finished days, whatever else was found on the walk, provided that the paths of the blocks
  have no \<^verbatim>\<open>meta.json\<close> before their end.
\<close>

theorem built_block_found:
  assumes ok: "lib_ok room lib" and "NewBuilder no_faults blockID dir opts cw = Ok b"
    and "\<forall>s \<in> set ss. addable lib opts s"
    and "chunk_total (kept_series lib opts ss) \<le> min (room cw) (room cw2)"
    and "distinct (map fst (kept_series lib opts ss))" and "[] \<notin> fst ` set (kept_series lib opts ss)"
    and "block_dir (dir @ ''/'' @ blockID)" and "dir @ ''/'' @ blockID @ ''/meta.json'' \<in> set walked"
  shows "\<exists>b' m r. add_series_list lib no_faults ss b = (None, b') \<and>
    FinishBlock lib no_faults (\<lambda>m. m) ([], []) cw2 b' = (None, Some (m, r)) \<and>
    (\<forall>files unmarshal data. files (dir @ ''/'' @ blockID @ ''/meta.json'') = Some data \<and> unmarshal data = Inr m \<longrightarrow>
      day_of_ms (Min (insert (2 ^ 63 - 1) (cm_min ` \<Union> (set ` snd ` set (kept_series lib opts ss))))) \<in>
        GetFinishedBlockDates walked (meta_MinTime files unmarshal))"
proof -
  let ?D = "kept_series lib opts ss" and ?d = "dir @ ''/'' @ blockID"
  note new = NewBuilder_inv [OF assms(2)]
  obtain b' where add: "add_series_list lib no_faults ss b = (None, b')" and inv: "blk_inv lib b' ?D"
    and id: "bd_blockID b' = blockID"
    using add_series_list_inv [OF ok new(1), of ss] assms(3,4) new(2-4) by auto
  obtain r where r: "FinishBlock lib no_faults (\<lambda>m. m) ([], []) cw2 b' = (None, Some r)" "block_of lib blockID ?D r"
    using finish_block [OF ok inv id _ assms(5,6)] assms(4) min.boundedE by blast
  obtain m x where m: "r = (m, x)" "bm_min m = Min (insert (2 ^ 63 - 1) (cm_min ` \<Union> (set ` snd ` set ?D)))"
    using r(2) unfolding block_of_def by blast
  have "day_of_ms (bm_min m) \<in> GetFinishedBlockDates walked (meta_MinTime files unmarshal)"
    if f: "files (?d @ ''/meta.json'') = Some data" "unmarshal data = Inr m" for files unmarshal data
    by (rule finished_date [where files = files and unmarshal = unmarshal and data = data, OF assms(7) _ f]) (use assms(8) in simp)
  then show ?thesis using add r(1) unfolding m by (intro exI [of _ b'] exI [of _ m] exI [of _ x]) auto
qed

theorem built_block_found_witness:
  "\<exists>b b' m r. NewBuilder no_faults ''B'' ''/d'' DefaultOptions [] = Ok b \<and>
    add_series_list store_lib no_faults example_series b = (None, b') \<and>
    FinishBlock store_lib no_faults (\<lambda>m. m) ([], []) [] b' = (None, Some (m, r)) \<and>
    0 \<in> GetFinishedBlockDates [''/d'', ''/d/B'', ''/d/B/meta.json''] (meta_MinTime [''/d/B/meta.json'' \<mapsto> []] (\<lambda>data. Inr m))"
proof -
  obtain b where b: "NewBuilder no_faults ''B'' ''/d'' DefaultOptions [] = Ok (b :: ((int \<times> nat) list, (int \<times> nat) list option list) builder)"
    by (rule exE [OF example_builder])
  let ?D = "kept_series store_lib DefaultOptions example_series"
  have room: "chunk_total ?D \<le> min (store_room []) (store_room [])"
    by (simp add: example_kept chunk_total_def store_room_def)
  have d: "distinct (map fst ?D)" "[] \<notin> fst ` set ?D" by (simp_all add: example_kept)
  have dir: "block_dir (''/d'' @ ''/'' @ ''B'')" unfolding block_dir_def by code_simp
  have walked: "''/d'' @ ''/'' @ ''B'' @ ''/meta.json'' \<in> set [''/d'', ''/d/B'', ''/d/B/meta.json'']" by simp
  have day: "day_of_ms (Min (insert (2 ^ 63 - 1) (cm_min ` \<Union> (set ` snd ` set ?D)))) = 0"
    by (simp add: example_kept day_of_ms_def ms_per_day_def)
  obtain b' m r where "add_series_list store_lib no_faults example_series b = (None, b')"
    "FinishBlock store_lib no_faults (\<lambda>m. m) ([], []) [] b' = (None, Some (m, r))"
    "\<And>files unmarshal data. files (''/d'' @ ''/'' @ ''B'' @ ''/meta.json'') = Some data \<Longrightarrow> unmarshal data = Inr m \<Longrightarrow>
      0 \<in> GetFinishedBlockDates [''/d'', ''/d/B'', ''/d/B/meta.json''] (meta_MinTime files unmarshal)"
    using built_block_found [OF store_lib_ok b example_addable room d dir walked] unfolding day by blast
  with b show ?thesis by (intro exI [of _ b] exI [of _ b'] exI [of _ m] exI [of _ r]) auto
qed

end
