(* ===== verification/Whisper.thy ===== *)
theory Whisper
  imports Calendar
begin

text \<open>
  \<^verbatim>\<open>pkg/graphite/convert/whisperconverter/whisper.go\<close>: the points of a whisper database, merged
  over its archives, turned into samples and split into days. The whisper library itself is a
  parameter: what it gives is the retention and the points of each archive, and the time of a
  point.
\<close>

section \<open>Data\<close>

record 'v wpoint =
  w_ts :: "32 word"
  w_value :: 'v

record 'v archive =
  a_retentions :: "32 word list"
  a_dump :: "nat \<Rightarrow> 'v wpoint list option"

record 'v sample =
  s_value :: 'v
  s_ts :: int

datatype whisper_err = OpenFailed | NoArchives | DumpFailed nat | NoPoints

section \<open>Merging the archives\<close>

text \<open>
  The newest timestamp: archives are dumped in order until one of them has a point, and the
  retention of the archive before it is kept as the offset.
\<close>

definition max_ts_of :: "32 word \<Rightarrow> 'v wpoint list \<Rightarrow> 32 word" where
  "max_ts_of m points = foldl (\<lambda>m p. if m < w_ts p then w_ts p else m) m points"

fun max_ts_loop :: "'v archive \<Rightarrow> nat list \<Rightarrow> 32 word \<Rightarrow> 32 word \<Rightarrow> whisper_err + 32 word \<times> 32 word" where
  "max_ts_loop w [] maxTs off = Inr (maxTs, off)"
| "max_ts_loop w (i # is) maxTs off =
     (if maxTs = 0 then
        (let off = (if 0 < i then a_retentions w ! (i - 1) else off)
         in case a_dump w i of
              None \<Rightarrow> Inl (DumpFailed i)
            | Some points \<Rightarrow> max_ts_loop w is (max_ts_of maxTs points) off)
      else max_ts_loop w is maxTs off)"

definition lower_bound :: "32 word \<Rightarrow> 32 word \<Rightarrow> 32 word" where
  "lower_bound maxTs retention = (if maxTs < retention then 0 else maxTs - retention)"

text \<open>
  The scan over the sorted points of archive \<open>i\<close>: the start and end index of the window, \<open>-1\<close>
  for no start. \<open>lower\<close> and \<open>upper\<close> are the boundaries, \<open>None\<close> for the first archive.
\<close>

fun window_scan :: "32 word \<Rightarrow> 32 word option \<Rightarrow> 'v wpoint list \<Rightarrow> int \<Rightarrow> int \<Rightarrow> int \<Rightarrow> int \<times> int" where
  "window_scan lower upper [] j startIdx endIdx = (startIdx, endIdx)"
| "window_scan lower upper (p # ps) j startIdx endIdx =
     (if w_ts p = 0 then window_scan lower upper ps (j + 1) startIdx endIdx
      else if w_ts p \<le> lower then window_scan lower upper ps (j + 1) startIdx endIdx
      else if (case upper of None \<Rightarrow> False | Some u \<Rightarrow> u < w_ts p) then (startIdx, endIdx)
      else window_scan lower upper ps (j + 1) (if startIdx = -1 then j else startIdx) j)"

definition kept_of :: "32 word \<Rightarrow> 32 word option \<Rightarrow> 'v wpoint list \<Rightarrow> 'v wpoint list" where
  "kept_of lower upper points =
     (case window_scan lower upper points 0 (-1) (int (length points) - 1) of
        (startIdx, endIdx) \<Rightarrow>
          if startIdx \<noteq> -1 then drop (nat startIdx) (take (nat (endIdx + 1)) points) else [])"

text \<open>The loop over the archives, from the last to the first.\<close>

fun keep_loop ::
    "('v wpoint list \<Rightarrow> 'v wpoint list) \<Rightarrow> 'v archive \<Rightarrow> 32 word list \<Rightarrow> nat list \<Rightarrow> 'v wpoint list
      \<Rightarrow> whisper_err + 'v wpoint list" where
  "keep_loop srt w lowerBoundTs [] keptPoints = Inr keptPoints"
| "keep_loop srt w lowerBoundTs (i # is) keptPoints =
     (case a_dump w i of
        None \<Rightarrow> Inl (DumpFailed i)
      | Some points \<Rightarrow>
          if points = [] then keep_loop srt w lowerBoundTs is keptPoints
          else keep_loop srt w lowerBoundTs is
            (keptPoints @ kept_of (lowerBoundTs ! i)
              (if 0 < i then Some (lowerBoundTs ! (i - 1)) else None) (srt points)))"

definition ReadPoints ::
    "('v wpoint list \<Rightarrow> 'v wpoint list) \<Rightarrow> 'v archive \<Rightarrow> whisper_err + 'v wpoint list" where
  "ReadPoints srt w =
     (let n = length (a_retentions w)
      in if n = 0 then Inl NoArchives
         else case max_ts_loop w [0..<n] 0 0 of
           Inl e \<Rightarrow> Inl e
         | Inr (maxTs, maxTsOffset) \<Rightarrow>
             (let maxTs = maxTs + maxTsOffset;
                  lowerBoundTs = map (lower_bound maxTs) (a_retentions w)
              in if maxTs = 0 then Inr []
                 else keep_loop srt w lowerBoundTs (rev [0..<n]) []))"

section \<open>Samples and days\<close>

text \<open>\<open>time_ms\<close> is the whisper library's \<^verbatim>\<open>Point.Time\<close>, in milliseconds.\<close>

definition ToMimirSamples :: "(32 word \<Rightarrow> int) \<Rightarrow> 'v wpoint list \<Rightarrow> whisper_err + 'v sample list" where
  "ToMimirSamples time_ms points =
     (if points = [] then Inl NoPoints
      else Inr (map (\<lambda>md. \<lparr>s_value = w_value md, s_ts = time_ms (w_ts md)\<rparr>) points))"

text \<open>Opening a file as a whisper archive, which may fail, is \<open>open_archive\<close>.\<close>

definition WhisperToMimirSamples ::
    "('v wpoint list \<Rightarrow> 'v wpoint list) \<Rightarrow> (32 word \<Rightarrow> int) \<Rightarrow> (string \<Rightarrow> 'v archive option) \<Rightarrow> string
      \<Rightarrow> whisper_err + 'v sample list" where
  "WhisperToMimirSamples srt time_ms open_archive whisperFile =
     (case open_archive whisperFile of
        None \<Rightarrow> Inl OpenFailed
      | Some w \<Rightarrow>
          (case ReadPoints srt w of
             Inl e \<Rightarrow> Inl e
           | Inr points \<Rightarrow> ToMimirSamples time_ms points))"

lemma WhisperToMimirSamples_nonempty:
  "WhisperToMimirSamples srt time_ms open_archive f = Inr samples \<Longrightarrow> samples \<noteq> []"
  by (auto simp: WhisperToMimirSamples_def ToMimirSamples_def split: option.splits sum.splits if_splits)

definition date_of :: "'v sample \<Rightarrow> int \<times> int \<times> int" where
  "date_of s = civil_date (day_of_ms (s_ts s))"

text \<open>
  The loop of \<^verbatim>\<open>SplitSamplesByDays\<close>: the samples not yet seen, the index, the start of the
  current block, its date, and the finished blocks.
\<close>

fun split_loop ::
    "'v sample list \<Rightarrow> 'v sample list \<Rightarrow> nat \<Rightarrow> nat \<Rightarrow> int \<times> int \<times> int \<Rightarrow> 'v sample list list \<Rightarrow> 'v sample list list" where
  "split_loop samples [] idx blockStartIdx blockDate blocks = blocks @ [drop blockStartIdx samples]"
| "split_loop samples (s # rest) idx blockStartIdx blockDate blocks =
     (if date_of s \<noteq> blockDate
      then split_loop samples rest (Suc idx) idx (date_of s)
             (blocks @ [drop blockStartIdx (take idx samples)])
      else split_loop samples rest (Suc idx) blockStartIdx blockDate blocks)"

definition SplitSamplesByDays :: "'v sample list \<Rightarrow> 'v sample list list" where
  "SplitSamplesByDays samples =
     (case samples of
        [] \<Rightarrow> []
      | s # _ \<Rightarrow> split_loop samples samples 0 0 (date_of s) [])"

section \<open>What the scan keeps\<close>

definition in_window :: "32 word \<Rightarrow> 32 word option \<Rightarrow> 'v wpoint \<Rightarrow> bool" where
  "in_window lower upper p \<longleftrightarrow>
     lower < w_ts p \<and> (case upper of None \<Rightarrow> True | Some u \<Rightarrow> w_ts p \<le> u)"

lemma window_scan_started:
  assumes "sorted (map w_ts ps)" and "s \<noteq> -1" and "\<forall>p \<in> set ps. lower < w_ts p"
  shows "window_scan lower upper ps j s (j - 1)
    = (s, j - 1 + int (length (filter (in_window lower upper) ps)))"
  using assms
proof (induction ps arbitrary: j)
  case Nil
  then show ?case by simp
next
  case (Cons p ps)
  have p: "lower < w_ts p" "w_ts p \<noteq> 0" "\<not> w_ts p \<le> lower" using Cons.prems(3) by auto
  show ?case
  proof (cases "in_window lower upper p")
    case True
    with p Cons.IH [of "j + 1"] Cons.prems show ?thesis
      by (auto simp: in_window_def split: option.splits)
  next
    case False
    then obtain u where u: "upper = Some u" "u < w_ts p"
      using p by (auto simp: in_window_def split: option.splits)
    have "filter (in_window lower upper) ps = []"
      using Cons.prems(1) u by (auto simp: filter_empty_conv in_window_def)
    with False u p show ?thesis by simp
  qed
qed

lemma filter_window_prefix:
  assumes "sorted (map w_ts ps)" and "\<forall>p \<in> set ps. lower < w_ts p"
  shows "filter (in_window lower upper) ps = take (length (filter (in_window lower upper) ps)) ps"
  using assms
proof (induction ps)
  case (Cons p ps)
  show ?case
  proof (cases "in_window lower upper p")
    case False
    then have "filter (in_window lower upper) ps = []"
      using Cons.prems by (auto simp: filter_empty_conv in_window_def split: option.splits)
    with False show ?thesis by simp
  qed (use Cons in auto)
qed simp

lemma window_scan_kept:
  assumes "sorted (map w_ts ps)" and "length pre = nat j" and "0 \<le> j"
    and "window_scan lower upper ps j (-1) e0 = (s, e)"
  shows "(if s \<noteq> -1 then drop (nat s) (take (nat (e + 1)) (pre @ ps)) else [])
    = filter (in_window lower upper) ps"
  using assms
proof (induction ps arbitrary: j pre)
  case Nil
  then show ?case by simp
next
  case (Cons p ps)
  show ?case
  proof (cases "lower < w_ts p")
    case False
    then have "window_scan lower upper ps (j + 1) (-1) e0 = (s, e)" "\<not> in_window lower upper p"
      using Cons.prems(4) by (auto simp: in_window_def split: if_splits)
    then have "(if s \<noteq> -1 then drop (nat s) (take (nat (e + 1)) ((pre @ [p]) @ ps)) else [])
        = filter (in_window lower upper) ps"
      using Cons.IH [of "pre @ [p]" "j + 1"] Cons.prems(1-3)
      by (simp add: nat_add_distrib del: take_append drop_append append_assoc)
    then show ?thesis using \<open>\<not> in_window lower upper p\<close> by (simp only: append.simps append_assoc filter.simps if_False)
  next
    case above: True
    then have nz: "w_ts p \<noteq> 0" "\<not> w_ts p \<le> lower" by auto
    have all: "\<forall>q \<in> set (p # ps). lower < w_ts q" using above Cons.prems(1) by auto
    show ?thesis
    proof (cases "in_window lower upper p")
      case True
      then have w: "window_scan lower upper ps (j + 1) j j = (s, e)"
        using Cons.prems(4) nz above by (auto simp: in_window_def not_less split: option.splits if_splits)
      let ?n = "length (filter (in_window lower upper) ps)"
      have se: "s = j" "e = j + int ?n"
        using window_scan_started [of ps j lower upper "j + 1"] Cons.prems(1,3) all w by auto
      have "nat (e + 1) = length pre + Suc ?n" using se Cons.prems(2,3) by simp
      then have "drop (nat s) (take (nat (e + 1)) (pre @ p # ps)) = p # take ?n ps"
        using se Cons.prems(2) by simp
      moreover have "take ?n ps = filter (in_window lower upper) ps"
        using filter_window_prefix [of ps lower upper] Cons.prems(1) all by simp
      ultimately show ?thesis using se True Cons.prems(3) by simp
    next
      case False
      then have "filter (in_window lower upper) (p # ps) = []"
        using filter_window_prefix [OF Cons.prems(1) all, of upper] Cons.prems(1) all
        by (auto simp: filter_empty_conv in_window_def split: option.splits)
      moreover have "s = -1"
        using False above nz Cons.prems(4) by (auto simp: in_window_def split: option.splits if_splits)
      ultimately show ?thesis by simp
    qed
  qed
qed

lemma kept_of_eq:
  "sorted (map w_ts ps) \<Longrightarrow> kept_of lower upper ps = filter (in_window lower upper) ps"
  using window_scan_kept [of ps "[]" 0 lower upper "int (length ps) - 1"]
  by (auto simp: kept_of_def split: prod.splits)


text \<open>The window of archive \<open>i\<close>, and the points kept of the archives below \<open>n\<close>, oldest first.\<close>

definition window_of :: "32 word list \<Rightarrow> nat \<Rightarrow> 'v wpoint \<Rightarrow> bool" where
  "window_of lbs i = in_window (lbs ! i) (if 0 < i then Some (lbs ! (i - 1)) else None)"

definition kept :: "('v wpoint list \<Rightarrow> 'v wpoint list) \<Rightarrow> (nat \<Rightarrow> 'v wpoint list) \<Rightarrow> 32 word list \<Rightarrow> nat \<Rightarrow> 'v wpoint list" where
  "kept srt d lbs n = concat (map (\<lambda>i. filter (window_of lbs i) (srt (d i))) (rev [0..<n]))"

lemma kept_simps [simp]:
  "kept srt d lbs 0 = []"
  "kept srt d lbs (Suc n) = filter (window_of lbs n) (srt (d n)) @ kept srt d lbs n"
  by (simp_all add: kept_def)

lemma sorts_by_Nil: "sorts_by key srt \<Longrightarrow> srt [] = []"
  by (metis sorts_by_set set_empty)

lemma keep_loop_eq:
  assumes "sorts_by w_ts srt" and "\<forall>i<n. a_dump w i = Some (d i)"
  shows "keep_loop srt w lbs (rev [0..<n]) acc = Inr (acc @ kept srt d lbs n)"
  using assms(2)
proof (induction n arbitrary: acc)
  case (Suc n)
  then show ?case
    using sorts_by_sorted [OF assms(1), of "d n"] sorts_by_Nil [OF assms(1)]
    by (simp add: kept_of_eq window_of_def)
qed simp

lemma max_ts_of_ge: "m \<le> max_ts_of m ps"
  unfolding max_ts_of_def by (induction ps arbitrary: m) (auto intro: order_trans less_imp_le)

lemma max_ts_of_Max: "max_ts_of m ps = Max (insert m (w_ts ` set ps))"
  unfolding max_ts_of_def by (rule foldl_Max)

lemma max_ts_loop_done: "m \<noteq> 0 \<Longrightarrow> max_ts_loop w is m off = Inr (m, off)"
  by (induction "is") auto

lemma max_ts_loop_dumps:
  assumes "\<forall>i \<in> set is. \<exists>ps. a_dump w i = Some ps"
  shows "\<exists>r. max_ts_loop w is m off = Inr r"
  using assms by (induction "is" arbitrary: m off) (fastforce simp: Let_def)+

lemma max_ts_loop_zeros:
  assumes "\<forall>i<k. a_dump w i = Some (d i) \<and> (\<forall>p \<in> set (d i). w_ts p = 0)"
  shows "max_ts_loop w ([0..<k] @ js) 0 0
    = max_ts_loop w js 0 (if 1 < k then a_retentions w ! (k - 2) else 0)"
  using assms
proof (induction k arbitrary: js)
  case (Suc k)
  have "max_ts_of 0 (d k) = 0"
    using Suc.prems by (auto simp: max_ts_of_Max intro!: Max_eqI)
  then have step: "max_ts_loop w (k # js) 0 off = max_ts_loop w js 0 (if 0 < k then a_retentions w ! (k - 1) else off)" for off
    using Suc.prems by (simp add: Let_def)
  have loop: "max_ts_loop w ([0..<k] @ k # js) 0 0
      = max_ts_loop w (k # js) 0 (if 1 < k then a_retentions w ! (k - 2) else 0)"
    by (rule Suc.IH) (use Suc.prems less_SucI in blast)
  have upt: "[0..<Suc k] @ js = [0..<k] @ k # js" by simp
  have "(if 0 < k then a_retentions w ! (k - 1) else if 1 < k then a_retentions w ! (k - 2) else 0)
      = (if 1 < Suc k then a_retentions w ! (Suc k - 2) else 0)" by simp
  then show ?case by (simp only: upt loop step)
qed simp

lemma max_ts_loop_found:
  assumes "\<forall>i<n. a_dump w i = Some (d i)" and "k < n" and "\<forall>i<k. \<forall>p \<in> set (d i). w_ts p = 0"
    and "\<exists>p \<in> set (d k). w_ts p \<noteq> 0"
  shows "max_ts_loop w [0..<n] 0 0
    = Inr (Max (w_ts ` set (d k)), if 0 < k then a_retentions w ! (k - 1) else 0)"
proof -
  obtain p where p: "p \<in> set (d k)" "w_ts p \<noteq> 0" using assms(4) by blast
  then have ge: "w_ts p \<le> Max (w_ts ` set (d k))" by simp
  then have nz: "Max (w_ts ` set (d k)) \<noteq> 0" using p(2) by (metis word_le_0_iff)
  have "Max (insert 0 (w_ts ` set (d k))) = Max (w_ts ` set (d k))"
    using p(1) by (subst Max_insert) (auto simp: max_def)
  then have m: "max_ts_of 0 (d k) = Max (w_ts ` set (d k))" by (simp add: max_ts_of_Max)
  have "[0..<n] = [0..<k] @ k # [Suc k..<n]"
    using assms(2) upt_split [of 0 k n] by (simp add: upt_conv_Cons)
  then have "max_ts_loop w [0..<n] 0 0
      = max_ts_loop w (k # [Suc k..<n]) 0 (if 1 < k then a_retentions w ! (k - 2) else 0)"
    using max_ts_loop_zeros [of k w d "k # [Suc k..<n]"] assms by simp
  then show ?thesis using assms(1,2) m nz by (simp add: max_ts_loop_done Let_def)
qed

lemma ReadPoints_kept:
  assumes "sorts_by w_ts srt" and "\<forall>i<length (a_retentions w). a_dump w i = Some (d i)"
    and "ReadPoints srt w = Inr pts"
  obtains "pts = []"
  | maxTs where "pts = kept srt d (map (lower_bound maxTs) (a_retentions w)) (length (a_retentions w))"
  using assms(3) keep_loop_eq [OF assms(1,2)]
  by (auto simp: ReadPoints_def Let_def split: if_splits sum.splits)

lemma kept_sorted:
  assumes "sorts_by w_ts srt" and "sorted (rev lbs)" and "n \<le> length lbs"
    and "\<forall>i<n. distinct (filter (\<lambda>t. t \<noteq> 0) (map w_ts (d i)))"
  shows "sorted_wrt (<) (map w_ts (kept srt d lbs n)) \<and>
    (0 < n \<longrightarrow> (\<forall>p \<in> set (kept srt d lbs n). lbs ! (n - 1) < w_ts p))"
  using assms(3,4)
proof (induction n)
  case (Suc n)
  let ?ps = "filter (window_of lbs n) (srt (d n))"
  have "sorted (map w_ts ?ps)"
    using sorts_by_sorted [OF assms(1)] sorted_filter by blast
  moreover have "distinct (map w_ts ?ps)"
  proof -
    have nz: "filter (\<lambda>t. t \<noteq> 0) (map w_ts ps) = map w_ts (filter (\<lambda>p. w_ts p \<noteq> 0) ps)" for ps :: "'a wpoint list"
      by (simp add: filter_map comp_def)
    have "mset (map w_ts (filter (\<lambda>p. w_ts p \<noteq> 0) (srt (d n))))
        = mset (map w_ts (filter (\<lambda>p. w_ts p \<noteq> 0) (d n)))"
      by (simp only: mset_map mset_filter sorts_by_mset [OF assms(1)])
    moreover have "distinct (map w_ts (filter (\<lambda>p. w_ts p \<noteq> 0) (d n)))"
      using Suc.prems(2) unfolding nz by blast
    ultimately have "distinct (map w_ts (filter (\<lambda>p. w_ts p \<noteq> 0) (srt (d n))))"
      by (metis mset_eq_imp_distinct_iff)
    moreover have "?ps = filter (window_of lbs n) (filter (\<lambda>p. w_ts p \<noteq> 0) (srt (d n)))"
      by (auto simp: window_of_def in_window_def intro!: filter_cong)
    ultimately show ?thesis by (simp only: distinct_map_filter)
  qed
  ultimately have srt: "sorted_wrt (<) (map w_ts ?ps)"
    by (simp add: strict_sorted_iff)
  have step: "lbs ! n \<le> lbs ! (n - 1)"
    using assms(2) Suc.prems(1) unfolding sorted_rev_iff_nth_mono by simp
  show ?case
  proof (cases "n = 0")
    case True
    then show ?thesis using srt by (auto simp: window_of_def in_window_def)
  next
    case False
    then have IH: "sorted_wrt (<) (map w_ts (kept srt d lbs n))"
      "\<forall>p \<in> set (kept srt d lbs n). lbs ! (n - 1) < w_ts p"
      using Suc by simp_all
    have "\<forall>p \<in> set ?ps. lbs ! n < w_ts p \<and> w_ts p \<le> lbs ! (n - 1)"
      using False by (auto simp: window_of_def in_window_def)
    moreover from this have "\<forall>p \<in> set (kept srt d lbs (Suc n)). lbs ! n < w_ts p"
      using IH(2) step by fastforce
    moreover have "\<forall>x \<in> set (map w_ts ?ps). \<forall>y \<in> set (map w_ts (kept srt d lbs n)). x < y"
      using IH(2) calculation(1) by fastforce
    ultimately show ?thesis using IH(1) srt by (simp only: kept_simps map_append sorted_wrt_append) simp
  qed
qed simp

lemma lower_bound_antimono: "a \<le> b \<Longrightarrow> lower_bound m b \<le> lower_bound m a"
  by (auto simp: lower_bound_def word_le_nat_alt word_less_nat_alt unat_sub)

lemma lower_bounds_sorted: "sorted rs \<Longrightarrow> sorted (rev (map (lower_bound m) rs))"
  by (subst sorted_rev_iff_nth_mono) (simp add: lower_bound_antimono sorted_nth_mono)


section \<open>What the split gives\<close>

text \<open>The longest runs of samples of one civil date, in order: what the split is to give.\<close>

fun runs :: "'v sample list \<Rightarrow> 'v sample list list" where
  "runs [] = []"
| "runs (s # ss) =
     (case runs ss of
        [] \<Rightarrow> [[s]]
      | b # bs \<Rightarrow> if date_of (hd b) = date_of s then (s # b) # bs else [s] # b # bs)"

lemma runs_Nil_iff [simp]: "runs ss = [] \<longleftrightarrow> ss = []"
  by (cases ss) (auto split: list.splits)

lemma runs_nonempty: "[] \<notin> set (runs ss)"
  by (induction ss) (auto split: list.splits if_splits)

lemma hd_runs: "ss \<noteq> [] \<Longrightarrow> hd (hd (runs ss)) = hd ss"
  using runs_nonempty by (cases ss) (auto split: list.splits)

lemma concat_runs: "concat (runs ss) = ss"
proof (induction ss)
  case (Cons s ss)
  then show ?case by (cases "runs ss") auto
qed simp

lemma runs_same_date: "b \<in> set (runs ss) \<Longrightarrow> s \<in> set b \<Longrightarrow> date_of s = date_of (hd b)"
proof (induction ss arbitrary: b)
  case (Cons x ss)
  show ?case
  proof (cases "runs ss")
    case Nil
    with Cons.prems show ?thesis by simp
  next
    case (Cons c cs)
    with Cons.prems Cons.IH [of c] Cons.IH [of b] show ?thesis
      by (auto split: if_splits)
  qed
qed simp

lemma runs_block:
  assumes "cur \<noteq> []" and "\<forall>s \<in> set cur. date_of s = d" and "rest \<noteq> [] \<Longrightarrow> date_of (hd rest) \<noteq> d"
  shows "runs (cur @ rest) = cur # runs rest"
  using assms
proof (induction cur)
  case (Cons s cur)
  show ?case
  proof (cases "cur = []")
    case True
    have "runs rest \<noteq> [] \<Longrightarrow> date_of (hd (hd (runs rest))) \<noteq> date_of s"
      using Cons.prems by (simp add: hd_runs)
    with True show ?thesis by (cases "runs rest") auto
  next
    case False
    with Cons show ?thesis by auto
  qed
qed simp

lemma split_loop_runs:
  assumes "samples = take idx samples @ rest" and "start \<le> idx" and "idx \<le> length samples"
    and "cur = drop start (take idx samples)" and "\<forall>s \<in> set cur. date_of s = d"
    and "cur = [] \<Longrightarrow> rest \<noteq> [] \<and> date_of (hd rest) = d"
  shows "split_loop samples rest idx start d blocks = blocks @ runs (cur @ rest)"
  using assms
proof (induction rest arbitrary: idx start d blocks cur)
  case Nil
  then have "cur = drop start samples" by simp
  moreover have "cur \<noteq> []" using Nil.prems(6) by auto
  then have "runs cur = [cur]" using Nil.prems(5) runs_block [of cur d "[]"] by simp
  ultimately show ?case by simp
next
  case (Cons s rest)
  from Cons.prems(1) have less: "idx < length samples"
    by (metis Cons.prems(3) append_self_conv le_neq_implies_less list.distinct(1) order_refl take_all)
  have drop: "drop idx samples = s # rest"
    using Cons.prems(1,3) by (metis append_same_eq append_take_drop_id same_append_eq)
  then have nth: "samples ! idx = s" using less by (metis hd_drop_conv_nth list.sel(1))
  have take: "take (Suc idx) samples = take idx samples @ [s]"
    using less nth by (simp add: take_Suc_conv_app_nth)
  have rest: "samples = take (Suc idx) samples @ rest" using Cons.prems(1) take by simp
  show ?case
  proof (cases "date_of s = d")
    case True
    have "drop start (take (Suc idx) samples) = cur @ [s]"
      using take Cons.prems(2,3,4) by simp
    then show ?thesis
      using True Cons.IH [OF rest, of start "cur @ [s]" d blocks] Cons.prems less by simp
  next
    case False
    then have "cur \<noteq> []" using Cons.prems(6) by auto
    then have "runs (cur @ s # rest) = cur # runs (s # rest)"
      using runs_block [of cur d "s # rest"] False Cons.prems(5) by simp
    moreover have "drop idx (take (Suc idx) samples) = [s]" using take less by simp
    ultimately show ?thesis
      using False Cons.IH [OF rest, of idx "[s]" "date_of s" "blocks @ [cur]"] Cons.prems(4) less by simp
  qed
qed

lemma SplitSamplesByDays_runs: "SplitSamplesByDays samples = runs samples"
proof (cases samples)
  case (Cons s ss)
  then show ?thesis
    using split_loop_runs [of samples 0 samples 0 "[]" "date_of s" "[]"]
    by (simp add: SplitSamplesByDays_def del: split_loop.simps runs.simps)
qed (simp add: SplitSamplesByDays_def)


lemma runs_adjacent:
  "Suc i < length (runs ss) \<Longrightarrow> date_of (hd (runs ss ! i)) \<noteq> date_of (hd (runs ss ! Suc i))"
proof (induction ss arbitrary: i)
  case (Cons s ss)
  show ?case
  proof (cases "runs ss")
    case Nil
    with Cons.prems show ?thesis by simp
  next
    case (Cons b bs)
    with Cons.prems Cons.IH show ?thesis by (cases i) (fastforce split: if_splits)+
  qed
qed simp

text \<open>On samples in the order of time, a day has one run: the samples of that day.\<close>

lemma day_mono: "a \<le> b \<Longrightarrow> day_of_ms a \<le> day_of_ms b"
  by (simp add: day_of_ms_def ms_per_day_def zdiv_mono1)

definition day_of :: "'v sample \<Rightarrow> int" where
  "day_of s = day_of_ms (s_ts s)"

lemma date_of_eq_iff: "date_of s = date_of t \<longleftrightarrow> day_of s = day_of t"
  by (simp add: date_of_def day_of_def civil_date_inj)

lemma sorted_list_of_set_least:
  assumes "finite D" and "d \<in> D" and "\<forall>x \<in> D. d \<le> x"
  shows "sorted_list_of_set D = d # sorted_list_of_set (D - {d})"
proof -
  have "Min D = d" using assms by (intro Min_eqI) auto
  with assms show ?thesis by (metis empty_iff sorted_list_of_set_nonempty)
qed

lemma runs_sorted:
  assumes "sorted (map s_ts ss)"
  shows "runs ss = map (\<lambda>d. filter (\<lambda>s. day_of s = d) ss) (sorted_list_of_set (day_of ` set ss))"
  using assms
proof (induction ss)
  case (Cons s ss)
  from Cons.prems have srt: "sorted (map s_ts ss)" and le: "\<forall>t \<in> set ss. day_of s \<le> day_of t"
    by (auto simp: day_of_def day_mono)
  let ?f = "\<lambda>ss d. filter (\<lambda>s. day_of s = d) ss"
  let ?D = "day_of ` set ss"
  note IH = Cons.IH [OF srt]
  show ?case
  proof (cases ss)
    case Nil
    then show ?thesis by simp
  next
    case (Cons t ts)
    let ?R = "sorted_list_of_set (?D - {day_of t})"
    have "\<forall>u \<in> set ss. day_of t \<le> day_of u"
      using srt Cons by (auto simp: day_of_def day_mono)
    then have ds: "sorted_list_of_set ?D = day_of t # ?R"
      using Cons by (intro sorted_list_of_set_least) auto
    have hd: "hd (?f ss (day_of t)) = t" using Cons by simp
    have runs: "runs (s # ss) = (if day_of t = day_of s then (s # ?f ss (day_of t)) # map (?f ss) ?R
        else [s] # ?f ss (day_of t) # map (?f ss) ?R)"
      using IH ds hd by (simp add: date_of_eq_iff)
    show ?thesis
    proof (cases "day_of t = day_of s")
      case True
      then have "insert (day_of s) ?D = ?D" using Cons by auto
      then have set: "sorted_list_of_set (day_of ` set (s # ss)) = day_of t # ?R" using ds by simp
      have "map (?f ss) ?R = map (?f (s # ss)) ?R" using True by (intro map_cong) auto
      then show ?thesis unfolding runs set using True by simp
    next
      case False
      have lt: "\<forall>u \<in> set ss. day_of s \<noteq> day_of u"
        using le False Cons \<open>\<forall>u \<in> set ss. day_of t \<le> day_of u\<close> by fastforce
      then have nin: "day_of s \<notin> ?D" by auto
      have "sorted_list_of_set (insert (day_of s) ?D) = day_of s # sorted_list_of_set (insert (day_of s) ?D - {day_of s})"
        using le by (intro sorted_list_of_set_least) auto
      then have set: "sorted_list_of_set (day_of ` set (s # ss)) = day_of s # day_of t # ?R"
        using nin ds by simp
      have "filter (\<lambda>u. day_of u = day_of s) ss = []" using lt by (auto simp: filter_empty_conv)
      moreover have "map (?f ss) ?R = map (?f (s # ss)) ?R" using nin by (intro map_cong) auto
      ultimately show ?thesis unfolding runs set using False by simp
    qed
  qed
qed simp

lemma ReadPoints_sorted:
  assumes "sorts_by w_ts srt" and "sorted (a_retentions w)"
    and "\<forall>i<length (a_retentions w). \<exists>ps. a_dump w i = Some ps \<and> distinct (filter (\<lambda>t. t \<noteq> 0) (map w_ts ps))"
    and "ReadPoints srt w = Inr pts"
  shows "sorted_wrt (<) (map w_ts pts) \<and> 0 \<notin> w_ts ` set pts"
proof -
  have d: "\<forall>i<length (a_retentions w). a_dump w i = Some (the (a_dump w i))" using assms(3) by force
  show ?thesis
  proof (rule ReadPoints_kept [OF assms(1) d assms(4)])
    fix maxTs
    assume pts: "pts = kept srt (\<lambda>i. the (a_dump w i)) (map (lower_bound maxTs) (a_retentions w)) (length (a_retentions w))"
    moreover have "0 \<notin> w_ts ` set pts"
      unfolding pts by (auto simp: kept_def window_of_def in_window_def)
    ultimately show ?thesis
      using kept_sorted [OF assms(1) lower_bounds_sorted [OF assms(2), of maxTs], where n = "length (a_retentions w)"
          and d = "\<lambda>i. the (a_dump w i)"] assms(3) by fastforce
  qed simp
qed

section \<open>Properties\<close>

text \<open>
  C8. Which points are read: if every archive can be dumped and archive \<open>k\<close> is the first that
  holds a point, \<open>now\<close> is its newest timestamp plus the retention of the archive before it, and
  the points are those of each archive, the coarsest first and each sorted by time, that are
  newer than \<open>now\<close> minus the retention of the archive and not newer than \<open>now\<close> minus the
  retention of the next finer archive. A boundary that would be negative is 0. The comment in
  the loop takes a boundary of 0 of the finer archive to be invalid and says that the point is kept then;
  the code does the opposite: every point is newer than 0, so nothing of the archive is kept. That is right when
  the finer archive covers all of the time, as its retention says.
\<close>

theorem ReadPoints_windows:
  fixes w :: "'v archive" and d :: "nat \<Rightarrow> 'v wpoint list"
  defines "n \<equiv> length (a_retentions w)"
  assumes "sorts_by w_ts srt" and "\<forall>i<n. a_dump w i = Some (d i)" and "k < n"
    and "\<forall>i<k. \<forall>p \<in> set (d i). w_ts p = 0" and "\<exists>p \<in> set (d k). w_ts p \<noteq> 0"
    and "now = Max (w_ts ` set (d k)) + (if 0 < k then a_retentions w ! (k - 1) else 0)" and "now \<noteq> 0"
  shows "ReadPoints srt w = Inr (concat (map
    (\<lambda>i. filter (in_window (lower_bound now (a_retentions w ! i))
        (if 0 < i then Some (lower_bound now (a_retentions w ! (i - 1))) else None)) (srt (d i)))
    (rev [0..<n]))) \<and>
    (\<forall>i. 0 < i \<longrightarrow> i < n \<longrightarrow> lower_bound now (a_retentions w ! (i - 1)) = 0 \<longrightarrow>
      filter (in_window (lower_bound now (a_retentions w ! i)) (Some (lower_bound now (a_retentions w ! (i - 1))))) (srt (d i)) = [])"
proof -
  have none: "\<not> in_window l (Some 0) p" for l and p :: "'v wpoint" by (auto simp: in_window_def word_less_nat_alt)
  have "ReadPoints srt w = Inr (kept srt d (map (lower_bound now) (a_retentions w)) n)"
    using max_ts_loop_found [OF assms(3-6)] keep_loop_eq [OF assms(2,3)] assms(4,7,8)
    by (simp add: ReadPoints_def Let_def n_def [symmetric])
  moreover have "kept srt d (map (lower_bound now) (a_retentions w)) n = concat (map
      (\<lambda>i. filter (in_window (lower_bound now (a_retentions w ! i))
        (if 0 < i then Some (lower_bound now (a_retentions w ! (i - 1))) else None)) (srt (d i)))
      (rev [0..<n]))"
    unfolding kept_def by (intro arg_cong [where f = concat] map_cong) (auto simp: n_def window_of_def)
  ultimately show ?thesis using none by (simp add: filter_empty_conv)
qed

abbreviation example_archive :: "nat archive" where
  "example_archive \<equiv> \<lparr>a_retentions = [60, 600],
     a_dump = (\<lambda>i. if i = 0 then Some [\<lparr>w_ts = 1000, w_value = 1\<rparr>, \<lparr>w_ts = 930, w_value = 2\<rparr>, \<lparr>w_ts = 970, w_value = 3\<rparr>]
       else Some [\<lparr>w_ts = 960, w_value = 4\<rparr>, \<lparr>w_ts = 0, w_value = 5\<rparr>, \<lparr>w_ts = 900, w_value = 6\<rparr>, \<lparr>w_ts = 300, w_value = 7\<rparr>])\<rparr>"

text \<open>The same points in archives that reach back further than the time 0: all boundaries are 0.\<close>

abbreviation young_archive :: "nat archive" where
  "young_archive \<equiv> example_archive\<lparr>a_retentions := [6000, 60000]\<rparr>"

theorem ReadPoints_windows_witness:
  "ReadPoints (sort_key w_ts) example_archive = Inr [\<lparr>w_ts = 900, w_value = 6\<rparr>,
     \<lparr>w_ts = 970, w_value = 3\<rparr>, \<lparr>w_ts = 1000, w_value = 1\<rparr>] \<and>
   ReadPoints (sort_key w_ts) young_archive = Inr [\<lparr>w_ts = 930, w_value = 2\<rparr>,
     \<lparr>w_ts = 970, w_value = 3\<rparr>, \<lparr>w_ts = 1000, w_value = 1\<rparr>]"
proof
  show "ReadPoints (sort_key w_ts) example_archive = Inr [\<lparr>w_ts = 900, w_value = 6\<rparr>,
     \<lparr>w_ts = 970, w_value = 3\<rparr>, \<lparr>w_ts = 1000, w_value = 1\<rparr>]"
    by (subst ReadPoints_windows [where d = "\<lambda>i. the (a_dump example_archive i)" and k = 0 and now = 1000, THEN conjunct1])
      (auto simp: sorts_by_sort_key lower_bound_def in_window_def nth_Cons' All_less_Suc)
  show "ReadPoints (sort_key w_ts) young_archive = Inr [\<lparr>w_ts = 930, w_value = 2\<rparr>,
     \<lparr>w_ts = 970, w_value = 3\<rparr>, \<lparr>w_ts = 1000, w_value = 1\<rparr>]"
    by (subst ReadPoints_windows [where d = "\<lambda>i. the (a_dump example_archive i)" and k = 0 and now = 1000, THEN conjunct1])
      (auto simp: sorts_by_sort_key lower_bound_def in_window_def nth_Cons' All_less_Suc)
qed

text \<open>
  C9. The points that are read come in strictly increasing time, without two for one time,
  whichever archives they come from: if the retentions do not decrease from archive to archive
  and no dump holds a time twice (slots that were never written, with time 0, aside).
\<close>

theorem ReadPoints_strictly_sorted:
  assumes "sorts_by w_ts srt" and "sorted (a_retentions w)"
    and "\<forall>i<length (a_retentions w). \<exists>ps. a_dump w i = Some ps \<and> distinct (filter (\<lambda>t. t \<noteq> 0) (map w_ts ps))"
    and "ReadPoints srt w = Inr pts"
  shows "sorted_wrt (<) (map w_ts pts) \<and> 0 \<notin> w_ts ` set pts"
  by (rule ReadPoints_sorted [OF assms])

theorem ReadPoints_strictly_sorted_witness:
  "\<exists>pts. ReadPoints (sort_key w_ts) example_archive = Inr pts \<and> sorted_wrt (<) (map w_ts pts)
    \<and> length pts = 3"
proof -
  have r: "ReadPoints (sort_key w_ts) example_archive = Inr [\<lparr>w_ts = 900, w_value = 6\<rparr>,
     \<lparr>w_ts = 970, w_value = 3\<rparr>, \<lparr>w_ts = 1000, w_value = 1\<rparr>]"
    by code_simp
  show ?thesis
    using ReadPoints_strictly_sorted [OF sorts_by_sort_key _ _ r]
    by (simp add: r All_less_Suc)
qed

text \<open>
  The split into days loses and reorders nothing: the blocks put together are the samples,
  no block is empty, all samples of a block have the same civil date in UTC, and the dates of
  blocks that follow each other differ.
\<close>

theorem SplitSamplesByDays_blocks:
  "concat (SplitSamplesByDays samples) = samples
    \<and> (\<forall>b \<in> set (SplitSamplesByDays samples). b \<noteq> [] \<and> (\<forall>s \<in> set b. date_of s = date_of (hd b)))
    \<and> (\<forall>i. Suc i < length (SplitSamplesByDays samples) \<longrightarrow>
        date_of (hd (SplitSamplesByDays samples ! i)) \<noteq> date_of (hd (SplitSamplesByDays samples ! Suc i)))"
  using runs_nonempty [of samples] runs_same_date [of _ samples] runs_adjacent [of _ samples]
  by (auto simp: SplitSamplesByDays_runs concat_runs)

theorem SplitSamplesByDays_blocks_witness:
  "SplitSamplesByDays [\<lparr>s_value = 1::nat, s_ts = 86399999\<rparr>, \<lparr>s_value = 2, s_ts = 86400000\<rparr>, \<lparr>s_value = 3, s_ts = 86400001\<rparr>]
    = [[\<lparr>s_value = 1, s_ts = 86399999\<rparr>], [\<lparr>s_value = 2, s_ts = 86400000\<rparr>, \<lparr>s_value = 3, s_ts = 86400001\<rparr>]]
   \<and> concat (SplitSamplesByDays [\<lparr>s_value = 1::nat, s_ts = 86399999\<rparr>, \<lparr>s_value = 2, s_ts = 86400000\<rparr>]) =
     [\<lparr>s_value = 1, s_ts = 86399999\<rparr>, \<lparr>s_value = 2, s_ts = 86400000\<rparr>]"
  by (intro conjI SplitSamplesByDays_blocks [THEN conjunct1]) code_simp

text \<open>
  C10. On samples in the order of time (which \<^verbatim>\<open>ReadPoints\<close> gives) the split has exactly one
  block for every day on which there is a sample, in the order of the days, and it holds all the
  samples of that day.
\<close>

theorem SplitSamplesByDays_one_block_per_day:
  assumes "sorted (map s_ts samples)"
  shows "SplitSamplesByDays samples =
    map (\<lambda>day. filter (\<lambda>s. day_of_ms (s_ts s) = day) samples)
      (sorted_list_of_set ((\<lambda>s. day_of_ms (s_ts s)) ` set samples))"
  using runs_sorted [OF assms] by (simp add: SplitSamplesByDays_runs day_of_def [abs_def])

theorem SplitSamplesByDays_one_block_per_day_witness:
  "SplitSamplesByDays [\<lparr>s_value = 1::nat, s_ts = 86399999\<rparr>, \<lparr>s_value = 2, s_ts = 259200000\<rparr>]
    = [[\<lparr>s_value = 1, s_ts = 86399999\<rparr>], [\<lparr>s_value = 2, s_ts = 259200000\<rparr>]]"
  by (subst SplitSamplesByDays_one_block_per_day) (simp_all add: day_of_ms_def ms_per_day_def)

end
