(* ===== verification/Progress.thy ===== *)
theory Progress
  imports Prelude
begin

text \<open>
  \<^verbatim>\<open>pkg/graphite/convert/progress.go\<close>: the counters of processed and skipped records. The atomic
  operations are single steps on the state; a step gives the message it logs, if any: the two
  counts.
\<close>

record progress =
  processedCount :: "64 word"
  skippedCount :: "64 word"

definition NewProgress :: progress where
  "NewProgress = \<lparr>processedCount = 0, skippedCount = 0\<rparr>"

definition GetProcessedCount :: "progress \<Rightarrow> 64 word" where
  "GetProcessedCount p = processedCount p"

definition GetSkippedCount :: "progress \<Rightarrow> 64 word" where
  "GetSkippedCount p = skippedCount p"

definition IncProcessed :: "progress \<Rightarrow> progress \<times> (64 word \<times> 64 word) option" where
  "IncProcessed p =
     (let processed = processedCount p + 1; p = p\<lparr>processedCount := processed\<rparr>
      in (p, if processed mod 100 = 0 then Some (processed, GetSkippedCount p) else None))"

definition IncSkipped :: "progress \<Rightarrow> progress" where
  "IncSkipped p = p\<lparr>skippedCount := skippedCount p + 1\<rparr>"

lemma progress_simps [simp]:
  "processedCount (fst (IncProcessed p)) = processedCount p + 1"
  "skippedCount (fst (IncProcessed p)) = skippedCount p"
  "processedCount (IncSkipped p) = processedCount p"
  "skippedCount (IncSkipped p) = skippedCount p + 1"
  by (simp_all add: IncProcessed_def IncSkipped_def Let_def)

lemma progress_commute:
  "IncSkipped (fst (IncProcessed p)) = fst (IncProcessed (IncSkipped p))"
  by (simp add: IncProcessed_def IncSkipped_def Let_def)

end
