(* ===== verification/DateRange.thy ===== *)
theory DateRange
  imports Whisper Strings Progress
begin

text \<open>
  \<^verbatim>\<open>pkg/graphite/convert/whisperconverter/daterange.go\<close>: the workers send the smallest and the
  largest timestamp of every file over a channel, the collector prints the smallest and the
  largest of all. The channel is a list of timestamps in the order of arrival.
\<close>

definition MaxInt64 :: int where
  "MaxInt64 = 2 ^ 63 - 1"

definition MinInt64 :: int where
  "MinInt64 = - (2 ^ 63)"

definition min_step :: "int \<Rightarrow> int \<Rightarrow> int" where
  "min_step minTS ts = (if ts < minTS then ts else minTS)"

definition max_step :: "int \<Rightarrow> int \<Rightarrow> int" where
  "max_step maxTS ts = (if maxTS < ts then ts else maxTS)"

text \<open>
  What a worker sends and counts for the files it takes from the channel; \<open>convert\<close> is
  \<^verbatim>\<open>WhisperToMimirSamples\<close>.
\<close>

fun getTimestampBounds ::
    "(string \<Rightarrow> whisper_err + 'v sample list) \<Rightarrow> string list \<Rightarrow> progress \<Rightarrow> int list \<times> progress" where
  "getTimestampBounds convert [] progress = ([], progress)"
| "getTimestampBounds convert (fname # files) progress =
     (case convert fname of
        Inl _ \<Rightarrow> getTimestampBounds convert files (IncSkipped progress)
      | Inr samples \<Rightarrow>
          (let minTS = foldl (\<lambda>m s. min_step m (s_ts s)) MaxInt64 samples;
               maxTS = foldl (\<lambda>m s. max_step m (s_ts s)) MinInt64 samples;
               (sent, progress) = getTimestampBounds convert files (fst (IncProcessed progress))
           in (minTS # maxTS # sent, progress)))"

definition print_range :: "int \<Rightarrow> int \<Rightarrow> string" where
  "print_range minTS maxTS =
     join '' ''
       ((if minTS \<noteq> MaxInt64 then [''--start-date '' @ format_date (civil_date (day_of_ms minTS))] else []) @
        (if maxTS \<noteq> MinInt64 then [''--end-date '' @ format_date (civil_date (day_of_ms maxTS))] else []) @
        [[CHR 0x0A]])"

definition collectTimestamps :: "int list \<Rightarrow> string" where
  "collectTimestamps tsChan = print_range (foldl min_step MaxInt64 tsChan) (foldl max_step MinInt64 tsChan)"

section \<open>The smallest and the largest\<close>

lemma foldl_min: "foldl (\<lambda>m x. min_step m (f x)) a xs = Min (insert a (f ` set xs))"
  unfolding min_step_def by (rule foldl_Min)

lemma foldl_max: "foldl (\<lambda>m x. max_step m (f x)) a xs = Max (insert a (f ` set xs))"
  unfolding max_step_def by (rule foldl_Max)

text \<open>All timestamps of the files that can be converted.\<close>

definition all_ts :: "(string \<Rightarrow> whisper_err + 'v sample list) \<Rightarrow> string set \<Rightarrow> int set" where
  "all_ts convert files = {s_ts s | f samples s. f \<in> files \<and> convert f = Inr samples \<and> s \<in> set samples}"

lemma all_ts_insert:
  "all_ts convert (insert f files) =
    (case convert f of Inl _ \<Rightarrow> {} | Inr samples \<Rightarrow> s_ts ` set samples) \<union> all_ts convert files"
  by (auto simp: all_ts_def split: sum.splits)

lemma all_ts_empty [simp]: "all_ts convert {} = {}"
  by (simp add: all_ts_def)

lemma bounds_Cons:
  fixes lo :: int
  assumes "lo \<in> T" and "hi \<in> T" and "\<forall>t \<in> T. lo \<le> t \<and> t \<le> hi" and "S \<subseteq> A"
    and "\<forall>t \<in> A. (\<exists>l \<in> S. l \<le> t) \<and> (\<exists>u \<in> S. t \<le> u)"
  shows "insert lo (insert hi S) \<subseteq> T \<union> A \<and>
    (\<forall>t \<in> T \<union> A. (\<exists>l \<in> insert lo (insert hi S). l \<le> t) \<and> (\<exists>u \<in> insert lo (insert hi S). t \<le> u))"
  using assms by blast

lemma Min_covered:
  fixes T :: "int set"
  assumes "finite T" "T \<noteq> {}" "A \<subseteq> T" "\<forall>t \<in> T. \<exists>l \<in> A. l \<le> t" "\<forall>t \<in> T. t < b"
  shows "Min (insert b A) = Min T"
proof (rule Min_eqI)
  show "finite (insert b A)" using assms(1,3) finite_subset by blast
  have m: "Min T \<in> T" using assms(1,2) by (rule Min_in)
  then obtain l where l: "l \<in> A" "l \<le> Min T" using assms(4) by blast
  then have "Min T \<le> l" using assms(1,3) by (intro Min_le) auto
  with l show "Min T \<in> insert b A" by simp
  fix y assume "y \<in> insert b A"
  then show "Min T \<le> y" using m assms(1,3,5) by (auto intro: Min_le less_imp_le)
qed

lemma Max_covered:
  fixes T :: "int set"
  assumes "finite T" "T \<noteq> {}" "A \<subseteq> T" "\<forall>t \<in> T. \<exists>u \<in> A. t \<le> u" "\<forall>t \<in> T. b < t"
  shows "Max (insert b A) = Max T"
proof (rule Max_eqI)
  show "finite (insert b A)" using assms(1,3) finite_subset by blast
  have m: "Max T \<in> T" using assms(1,2) by (rule Max_in)
  then obtain u where u: "u \<in> A" "Max T \<le> u" using assms(4) by blast
  then have "u \<le> Max T" using assms(1,3) by (intro Max_ge) auto
  with u show "Max T \<in> insert b A" by simp
  fix y assume "y \<in> insert b A"
  then show "y \<le> Max T" using m assms(1,3,5) by (auto intro: Max_ge less_imp_le)
qed

lemma finite_all_ts: "finite (all_ts convert (set files))"
  by (induction files) (auto simp: all_ts_insert split: sum.splits)

text \<open>What a worker sends lies among the timestamps and bounds them.\<close>

lemma sent_bounds:
  assumes "\<And>f samples. convert f = Inr samples \<Longrightarrow> samples \<noteq> []"
    and "\<forall>t \<in> all_ts convert (set files). MinInt64 \<le> t \<and> t \<le> MaxInt64"
  shows "set (fst (getTimestampBounds convert files progress)) \<subseteq> all_ts convert (set files) \<and>
    (\<forall>t \<in> all_ts convert (set files).
      (\<exists>l \<in> set (fst (getTimestampBounds convert files progress)). l \<le> t) \<and>
      (\<exists>u \<in> set (fst (getTimestampBounds convert files progress)). t \<le> u))"
  using assms(2)
proof (induction files arbitrary: progress)
  case (Cons f files)
  show ?case
  proof (cases "convert f")
    case (Inl e)
    then show ?thesis using Cons by (simp add: all_ts_insert)
  next
    case (Inr samples)
    let ?T = "s_ts ` set samples"
    have ne: "finite ?T" "?T \<noteq> {}" using assms(1) Inr by auto
    have bnd: "\<forall>t \<in> ?T. MinInt64 \<le> t \<and> t \<le> MaxInt64"
      using Cons.prems Inr by (simp add: all_ts_insert)
    have lo: "Min (insert MaxInt64 ?T) = Min ?T"
      using ne bnd by (metis Min_in Min_insert min.absorb2)
    have hi: "Max (insert MinInt64 ?T) = Max ?T"
      using ne bnd by (metis Max_in Max_insert max.absorb2)
    obtain sent p where sent: "getTimestampBounds convert files (fst (IncProcessed progress)) = (sent, p)"
      by fastforce
    have eq: "fst (getTimestampBounds convert (f # files) progress) = Min ?T # Max ?T # sent"
      using Inr sent lo hi by (simp add: foldl_min foldl_max)
    have all: "all_ts convert (set (f # files)) = ?T \<union> all_ts convert (set files)"
      using Inr by (simp add: all_ts_insert)
    have IH: "set sent \<subseteq> all_ts convert (set files)"
      "\<forall>t \<in> all_ts convert (set files). (\<exists>l \<in> set sent. l \<le> t) \<and> (\<exists>u \<in> set sent. t \<le> u)"
      using Cons.IH [of "fst (IncProcessed progress)"] Cons.prems sent all by simp_all
    have "Min ?T \<in> ?T" "Max ?T \<in> ?T" "\<forall>t \<in> ?T. Min ?T \<le> t \<and> t \<le> Max ?T" using ne by simp_all
    then show ?thesis unfolding eq all unfolding list.set using IH by (rule bounds_Cons)
  qed
qed simp

text \<open>
  However the files are dealt out to the workers and in whatever order their messages arrive, the range
  goes from the date of the earliest to the date of the latest sample of all the files that can be
  converted.
\<close>

lemma collect_exact:
  fixes srt :: "'v wpoint list \<Rightarrow> 'v wpoint list" and open_archive :: "string \<Rightarrow> 'v archive option"
    and time_ms :: "32 word \<Rightarrow> int"
  defines "convert \<equiv> WhisperToMimirSamples srt time_ms open_archive"
  assumes "mset (concat parts) = mset files"
    and "mset arrived = mset (concat (map (\<lambda>part. fst (getTimestampBounds convert part NewProgress)) parts))"
    and "\<forall>t \<in> all_ts convert (set files). MinInt64 < t \<and> t < MaxInt64" and "all_ts convert (set files) \<noteq> {}"
  shows "collectTimestamps arrived =
    ''--start-date '' @ format_date (civil_date (day_of_ms (Min (all_ts convert (set files))))) @ '' '' @
    ''--end-date '' @ format_date (civil_date (day_of_ms (Max (all_ts convert (set files))))) @ '' '' @ [CHR 0x0A]"
proof -
  let ?T = "all_ts convert (set files)"
  have files: "set (concat parts) = set files" using assms(2) by (metis mset_eq_setD)
  have arr: "set arrived = (\<Union>part \<in> set parts. set (fst (getTimestampBounds convert part NewProgress)))"
    using mset_eq_setD [OF assms(3)] by simp
  have T: "?T = (\<Union>part \<in> set parts. all_ts convert (set part))"
    unfolding files [symmetric] by (auto simp: all_ts_def)
  have nonempty: "samples \<noteq> []" if "convert f = Inr samples" for f samples
    using that unfolding convert_def by (rule WhisperToMimirSamples_nonempty)
  have b: "set (fst (getTimestampBounds convert part NewProgress)) \<subseteq> all_ts convert (set part) \<and>
    (\<forall>t \<in> all_ts convert (set part).
      (\<exists>l \<in> set (fst (getTimestampBounds convert part NewProgress)). l \<le> t) \<and>
      (\<exists>u \<in> set (fst (getTimestampBounds convert part NewProgress)). t \<le> u))" if "part \<in> set parts" for part
    using nonempty T that assms(4) by (intro sent_bounds) (auto simp: less_imp_le)
  have sub: "set arrived \<subseteq> ?T" using b unfolding arr T by blast
  have low: "\<exists>l \<in> set arrived. l \<le> t" and upp: "\<exists>u \<in> set arrived. t \<le> u" if t: "t \<in> ?T" for t
  proof -
    obtain part where "part \<in> set parts" "t \<in> all_ts convert (set part)" using t unfolding T by blast
    with b [of part] show "\<exists>l \<in> set arrived. l \<le> t" "\<exists>u \<in> set arrived. t \<le> u" unfolding arr by blast+
  qed
  have fin: "finite ?T" by (rule finite_all_ts)
  have "Min (insert MaxInt64 (set arrived)) = Min ?T"
    by (rule Min_covered [OF fin assms(5) sub]) (use low assms(4) in blast)+
  moreover have "Max (insert MinInt64 (set arrived)) = Max ?T"
    by (rule Max_covered [OF fin assms(5) sub]) (use upp assms(4) in blast)+
  moreover have "Min ?T \<noteq> MaxInt64" "Max ?T \<noteq> MinInt64"
    using assms(4) Min_in [OF fin assms(5)] Max_in [OF fin assms(5)] by auto
  moreover have "foldl min_step MaxInt64 arrived = Min (insert MaxInt64 (set arrived))"
    "foldl max_step MinInt64 arrived = Max (insert MinInt64 (set arrived))"
    using foldl_min [of "\<lambda>x. x" MaxInt64 arrived] foldl_max [of "\<lambda>x. x" MinInt64 arrived] by simp_all
  ultimately show ?thesis by (simp add: collectTimestamps_def print_range_def)
qed

end
