(* ===== verification/Files.thy ===== *)
theory Files
  imports DateRange SeriesBatch
begin

text \<open>
  The parts of \<^verbatim>\<open>pkg/graphite/convert/whisperconverter\<close> that decide which whisper files are converted
  and what their metrics are called: \<^verbatim>\<open>converter.go\<close>, \<^verbatim>\<open>filelist.go\<close> and \<^verbatim>\<open>whisperfiles.go\<close>. The walk
  over the directory is its list of entries; the file filter is a predicate.
\<close>

section \<open>The converter\<close>

text \<open>The counters, which the code keeps in the same struct, are passed along separately.\<close>

record WhisperConverter =
  wc_namePrefix :: string
  wc_whisperDirectory :: string
  wc_fileFilter :: "string \<Rightarrow> bool"
  wc_threads :: int
  wc_workerCount :: int
  wc_workerID :: int
  wc_customLabels :: labels
  wc_dates :: "int list"

definition NewWhisperConverter ::
    "string \<Rightarrow> string \<Rightarrow> (string \<Rightarrow> bool) \<Rightarrow> int \<Rightarrow> int \<Rightarrow> int \<Rightarrow> labels \<Rightarrow> int list \<Rightarrow> WhisperConverter \<times> progress" where
  "NewWhisperConverter namePrefix whisperDirectory fileFilter threads workerCount workerID customLabels dates =
     (\<lparr>wc_namePrefix = namePrefix, wc_whisperDirectory = whisperDirectory, wc_fileFilter = fileFilter,
       wc_threads = threads, wc_workerCount = workerCount, wc_workerID = workerID, wc_customLabels = customLabels,
       wc_dates = dates\<rparr>, NewProgress)"

section \<open>Names\<close>

text \<open>The loop that removes leading slashes indexes the string: a panic when nothing is left.\<close>

fun strip_slashes :: "string \<Rightarrow> string res" where
  "strip_slashes [] = Panic"
| "strip_slashes (c # cs) = (if c = CHR ''/'' then strip_slashes cs else Ok (c # cs))"

definition getMetricName :: "WhisperConverter \<Rightarrow> string \<Rightarrow> string res" where
  "getMetricName c file =
     (case strip_slashes (TrimPrefix file (wc_whisperDirectory c)) of
        Ok file \<Rightarrow> Ok (wc_namePrefix c @ replace_char (CHR ''/'') (CHR ''.'') (TrimSuffix file (Ext file)))
      | Err e \<Rightarrow> Err e
      | Panic \<Rightarrow> Panic)"

text \<open>\<^verbatim>\<open>filepath.Base\<close>: the last element of a path.\<close>

definition Base :: "string \<Rightarrow> string" where
  "Base path =
     (if path = [] then ''.''
      else
        let base = rev (takeWhile (\<lambda>c. c \<noteq> CHR ''/'') (dropWhile (\<lambda>c. c = CHR ''/'') (rev path)))
        in if base = [] then ''/'' else base)"

text \<open>
  A walked entry is a path with whether it is a directory, or nothing for the entry of a root
  that cannot be read, which the code asks all the same. The message about a skipped file has the
  metric name of the file.
\<close>

definition isMatchingFile :: "WhisperConverter \<Rightarrow> string \<Rightarrow> bool option \<Rightarrow> progress \<Rightarrow> bool res \<times> progress" where
  "isMatchingFile c path d progress =
     (case d of
        None \<Rightarrow> (Panic, progress)
      | Some True \<Rightarrow> (Ok False, progress)
      | Some False \<Rightarrow>
          if \<not> wc_fileFilter c (Base path) then
            (case getMetricName c path of
               Panic \<Rightarrow> (Panic, progress)
             | _ \<Rightarrow> (Ok False, IncSkipped progress))
          else (Ok True, progress))"

section \<open>The files to convert\<close>

fun walk_loop :: "WhisperConverter \<Rightarrow> (string \<times> bool option) list \<Rightarrow> progress \<Rightarrow> string list res \<times> progress" where
  "walk_loop c [] progress = (Ok [], progress)"
| "walk_loop c ((path, d) # walked) progress =
     (case isMatchingFile c path d progress of
        (Ok matches, progress) \<Rightarrow>
          (case walk_loop c walked progress of
             (Ok sent, progress) \<Rightarrow> (Ok (if matches then path # sent else sent), progress)
           | (r, progress) \<Rightarrow> (r, progress))
      | (Err e, progress) \<Rightarrow> (Err e, progress)
      | (Panic, progress) \<Rightarrow> (Panic, progress))"

text \<open>
  \<^verbatim>\<open>bufio.Scanner\<close> with its default split function: lines without their end, up to the first that
  does not fit into its buffer of 64 KiB.
\<close>

abbreviation newline :: char where
  "newline \<equiv> CHR 0x0A"

definition dropCR :: "string \<Rightarrow> string" where
  "dropCR s = (if s \<noteq> [] \<and> last s = CHR 0x0D then butlast s else s)"

definition scan_lines :: "string \<Rightarrow> string list" where
  "scan_lines contents =
     (let ls = split_at newline contents;
          ls = (if last ls = [] then butlast ls else ls)
      in map dropCR (takeWhile (\<lambda>l. length l < 65536) ls))"

text \<open>
  The names that are sent before the channel is closed. The callback of the walk returns no error,
  so neither does the walk; a list that cannot be opened is read as if it were empty.
\<close>

definition getWhisperListIntoChan ::
    "WhisperConverter \<Rightarrow> (string \<times> bool option) list \<Rightarrow> (string \<Rightarrow> string option) \<Rightarrow> string \<Rightarrow> progress
      \<Rightarrow> string list res \<times> progress" where
  "getWhisperListIntoChan c walked read_file targetWhisperFiles progress =
     (if targetWhisperFiles = [] then walk_loop c walked progress
      else
        case read_file targetWhisperFiles of
          None \<Rightarrow> (Ok [], progress)
        | Some contents \<Rightarrow> (Ok (scan_lines contents), progress))"

section \<open>The list of files\<close>

text \<open>
  Errors of the system: creating the file, the \<open>n\<close>-th write to its buffer, the last flush. The
  result is what the file holds.
\<close>

record list_env =
  le_create :: "go_err option"
  le_write :: "nat \<Rightarrow> go_err option"
  le_flush :: "go_err option"

fun discover_loop ::
    "WhisperConverter \<Rightarrow> (nat \<Rightarrow> go_err option) \<Rightarrow> (string \<times> bool option) list \<Rightarrow> nat \<Rightarrow> string \<Rightarrow> progress
      \<Rightarrow> string res \<times> progress" where
  "discover_loop c write_err [] n w progress = (Ok w, progress)"
| "discover_loop c write_err ((path, d) # walked) n w progress =
     (case isMatchingFile c path d progress of
        (Ok False, progress) \<Rightarrow> discover_loop c write_err walked n w progress
      | (Ok True, progress) \<Rightarrow>
          (case write_err n of
             Some e \<Rightarrow> (Err e, progress)
           | None \<Rightarrow> discover_loop c write_err walked (n + 1) (w @ path @ [newline]) (fst (IncProcessed progress)))
      | (Err e, progress) \<Rightarrow> (Err e, progress)
      | (Panic, progress) \<Rightarrow> (Panic, progress))"

definition discoverTargetWhisperFiles ::
    "WhisperConverter \<Rightarrow> list_env \<Rightarrow> (string \<times> bool option) list \<Rightarrow> progress \<Rightarrow> string res \<times> progress" where
  "discoverTargetWhisperFiles c env walked progress =
     (case le_create env of
        Some e \<Rightarrow> (Err e, progress)
      | None \<Rightarrow>
          (case discover_loop c (le_write env) walked 0 [] progress of
             (Ok w, progress) \<Rightarrow> (case le_flush env of Some e \<Rightarrow> (Err e, progress) | None \<Rightarrow> (Ok w, progress))
           | (r, progress) \<Rightarrow> (r, progress)))"

definition ErrNoTarget :: go_err where
  "ErrNoTarget = ErrText ''must specify output file using --target-whisper-files''"

definition CommandFileList ::
    "WhisperConverter \<Rightarrow> list_env \<Rightarrow> (string \<times> bool option) list \<Rightarrow> string \<Rightarrow> progress \<Rightarrow> string res \<times> progress" where
  "CommandFileList c env walked targetWhisperFiles progress =
     (if targetWhisperFiles = [] then (Err ErrNoTarget, progress)
      else discoverTargetWhisperFiles c env walked progress)"

section \<open>The list is read back\<close>

lemma split_at_line:
  assumes "sep \<notin> set l"
  shows "split_at sep (l @ sep # s) = l # split_at sep s"
  using assms by (induction l) (auto split: list.splits)

lemma split_at_lines:
  assumes "\<forall>l \<in> set ls. sep \<notin> set l"
  shows "split_at sep (concat (map (\<lambda>l. l @ [sep]) ls)) = ls @ [[]]"
  using assms by (induction ls) (simp_all add: split_at_line)

definition line_ok :: "string \<Rightarrow> bool" where
  "line_ok l \<longleftrightarrow> newline \<notin> set l \<and> length l < 65536 \<and> (l \<noteq> [] \<longrightarrow> last l \<noteq> CHR 0x0D)"

lemma scan_lines_written:
  assumes "\<forall>l \<in> set ls. line_ok l"
  shows "scan_lines (concat (map (\<lambda>l. l @ [newline]) ls)) = ls"
proof -
  have "takeWhile (\<lambda>l. length l < 65536) ls = ls" "map dropCR ls = ls"
    using assms by (auto simp: takeWhile_eq_all_conv line_ok_def dropCR_def intro!: map_idI)
  moreover have "split_at newline (concat (map (\<lambda>l. l @ [newline]) ls)) = ls @ [[]]"
    using assms by (intro split_at_lines) (simp add: line_ok_def)
  ultimately show ?thesis by (simp only: scan_lines_def Let_def last_snoc butlast_snoc simp_thms if_True)
qed

lemma isMatchingFile_cases:
  obtains (same) r where "\<And>p. isMatchingFile c path d p = (r, p)"
    | (skip) "\<And>p. isMatchingFile c path d p = (Ok False, IncSkipped p)"
proof (cases "d = Some False \<and> \<not> wc_fileFilter c (Base path) \<and> getMetricName c path \<noteq> Panic")
  case True
  then have "\<And>p. isMatchingFile c path d p = (Ok False, IncSkipped p)"
    by (cases "getMetricName c path") (simp_all add: isMatchingFile_def)
  with skip show ?thesis by blast
next
  case False
  then obtain r where "\<And>p. isMatchingFile c path d p = (r, p)"
    by (cases d rule: option.exhaust; cases "the d"; cases "wc_fileFilter c (Base path)") (simp_all add: isMatchingFile_def)
  with same show ?thesis by blast
qed

text \<open>What the file list holds is what the walk sends, with the same counts.\<close>

lemma discover_walk:
  assumes "discover_loop c (\<lambda>n. None) walked n w p = (Ok w', p')"
  shows "\<exists>names q. walk_loop c walked p0 = (Ok names, q) \<and> w' = w @ concat (map (\<lambda>l. l @ [newline]) names) \<and>
    set names \<subseteq> fst ` set walked \<and> processedCount p' = processedCount p + of_nat (length names) \<and>
    skippedCount q - skippedCount p0 = skippedCount p' - skippedCount p"
  using assms
proof (induction walked arbitrary: n w p p0)
  case (Cons e walked)
  obtain path d where e: "e = (path, d)" by fastforce
  show ?case
  proof (cases rule: isMatchingFile_cases [of c path d])
    case skip
    then have "discover_loop c (\<lambda>n. None) walked n w (IncSkipped p) = (Ok w', p')" using Cons.prems e by simp
    from Cons.IH [OF this, of "IncSkipped p0"] show ?thesis using skip by (auto simp: e algebra_simps)
  next
    case (same r)
    consider "r = Ok True" | "r = Ok False" using Cons.prems by (cases r) (auto simp: e same split: bool.splits)
    then show ?thesis
    proof cases
      case 1
      then have "discover_loop c (\<lambda>n. None) walked (n + 1) (w @ path @ [newline]) (fst (IncProcessed p)) = (Ok w', p')"
        using Cons.prems same by (simp add: e)
      from Cons.IH [OF this, of p0] obtain names q where "walk_loop c walked p0 = (Ok names, q)"
        "w' = (w @ path @ [newline]) @ concat (map (\<lambda>l. l @ [newline]) names)" "set names \<subseteq> fst ` set walked"
        "processedCount p' = processedCount (fst (IncProcessed p)) + of_nat (length names)"
        "skippedCount q - skippedCount p0 = skippedCount p' - skippedCount (fst (IncProcessed p))" by (elim exE conjE)
      then show ?thesis using same 1 by (intro exI [of _ "path # names"] exI [of _ q]) (auto simp: e)
    next
      case 2
      then have "discover_loop c (\<lambda>n. None) walked n w p = (Ok w', p')" using Cons.prems same by (simp add: e)
      from Cons.IH [OF this, of p0] show ?thesis using same 2 by (auto simp: e)
    qed
  qed
qed simp

section \<open>Names of metrics\<close>

lemma replace_char_inj:
  assumes "new \<notin> set s" and "new \<notin> set t" and "replace_char old new s = replace_char old new t"
  shows "s = t"
  using assms
proof (induction s arbitrary: t)
  case (Cons c s)
  then show ?case by (cases t) (auto simp: replace_char_def split: if_splits)
qed (simp add: replace_char_def)

lemma Ext_stem:
  assumes "CHR ''.'' \<notin> set stem" and "CHR ''.'' \<notin> set ext" and "CHR ''/'' \<notin> set ext"
  shows "Ext (stem @ CHR ''.'' # ext) = CHR ''.'' # ext"
proof -
  have b: "takeWhile (\<lambda>c. c \<noteq> CHR ''/'') (rev (stem @ CHR ''.'' # ext)) =
      rev ext @ CHR ''.'' # takeWhile (\<lambda>c. c \<noteq> CHR ''/'') (rev stem)"
    using assms(3) by (subst rev_append, subst rev.simps, subst append_assoc, subst takeWhile_append2) auto
  have "takeWhile (\<lambda>c. c \<noteq> CHR ''.'') (rev ext @ CHR ''.'' # ys) = rev ext" for ys
    using assms(2) by (subst takeWhile_append2) auto
  then show ?thesis unfolding Ext_def b by simp
qed

lemma strip_slashes_rel: "f \<noteq> [] \<Longrightarrow> hd f \<noteq> CHR ''/'' \<Longrightarrow> strip_slashes (replicate n (CHR ''/'') @ f) = Ok f"
  by (induction n) (cases f; simp)+

lemma getMetricName_stem:
  assumes "stem \<noteq> []" and "hd stem \<noteq> CHR ''/''" and "CHR ''.'' \<notin> set stem"
    and "CHR ''.'' \<notin> set ext" and "CHR ''/'' \<notin> set ext"
  shows "getMetricName c (wc_whisperDirectory c @ replicate n (CHR ''/'') @ stem @ CHR ''.'' # ext) =
    Ok (wc_namePrefix c @ replace_char (CHR ''/'') (CHR ''.'') stem)"
proof -
  have "strip_slashes (replicate n (CHR ''/'') @ stem @ CHR ''.'' # ext) = Ok (stem @ CHR ''.'' # ext)"
    using assms(1,2) by (intro strip_slashes_rel) auto
  then show ?thesis using Ext_stem [OF assms(3-5)] by (simp add: getMetricName_def)
qed

section \<open>Properties\<close>

text \<open>
  C25. Writing the list of files first and converting from it later converts the same files in the
  same order as walking the directory: the list is read back line by line to exactly the paths
  that match, all of them counted. Paths must have no line feed in them, no carriage return at
  their end and less than 65536 bytes.
\<close>

theorem filelist_roundtrip:
  assumes "CommandFileList c \<lparr>le_create = None, le_write = (\<lambda>n. None), le_flush = None\<rparr> walked target p = (Ok contents, p')"
    and "\<forall>path \<in> fst ` set walked. line_ok path"
  shows "\<exists>names q. getWhisperListIntoChan c walked read_any [] p0 = (Ok names, q) \<and>
    getWhisperListIntoChan c walked' [target \<mapsto> contents] target p1 = (Ok names, p1) \<and>
    GetProcessedCount p' = GetProcessedCount p + of_nat (length names)"
proof -
  have t: "target \<noteq> []" using assms(1) by (auto simp: CommandFileList_def)
  then have "discover_loop c (\<lambda>n. None) walked 0 [] p = (Ok contents, p')"
    using assms(1) by (auto simp: CommandFileList_def discoverTargetWhisperFiles_def split: prod.splits res.splits)
  from discover_walk [OF this, of p0] obtain names q where n: "walk_loop c walked p0 = (Ok names, q)"
    "contents = concat (map (\<lambda>l. l @ [newline]) names)" "set names \<subseteq> fst ` set walked"
    "processedCount p' = processedCount p + of_nat (length names)" by auto
  have "scan_lines contents = names"
    unfolding n(2) using n(3) assms(2) by (intro scan_lines_written) blast
  then show ?thesis using n(1,4) t by (auto simp: getWhisperListIntoChan_def GetProcessedCount_def)
qed

abbreviation example_converter :: WhisperConverter where
  "example_converter \<equiv>
     \<lparr>wc_namePrefix = ''p.'', wc_whisperDirectory = ''/w'', wc_fileFilter = (\<lambda>f. suffix ''.wsp'' f), wc_threads = 2,
      wc_workerCount = 1, wc_workerID = 0, wc_customLabels = [], wc_dates = [0, 1]\<rparr>"

theorem filelist_roundtrip_witness:
  "\<exists>names q. getWhisperListIntoChan example_converter
      [(''/w'', Some True), (''/w/a.wsp'', Some False), (''/w/b.txt'', Some False), (''/w/c'', Some True), (''/w/c/d.wsp'', Some False)]
      Map.empty [] NewProgress = (Ok names, q) \<and>
    getWhisperListIntoChan example_converter [] [''l'' \<mapsto> ''/w/a.wsp'' @ newline # ''/w/c/d.wsp'' @ [newline]] ''l'' NewProgress
      = (Ok names, NewProgress)"
proof -
  let ?w = "[(''/w'', Some True), (''/w/a.wsp'', Some False), (''/w/b.txt'', Some False), (''/w/c'', Some True), (''/w/c/d.wsp'', Some False)]"
  obtain contents p' where c: "CommandFileList example_converter \<lparr>le_create = None, le_write = (\<lambda>n. None), le_flush = None\<rparr> ?w ''l'' NewProgress
      = (Ok contents, p')" "contents = ''/w/a.wsp'' @ newline # ''/w/c/d.wsp'' @ [newline]"
    by (simp add: CommandFileList_def discoverTargetWhisperFiles_def isMatchingFile_def Base_def getMetricName_def
        TrimPrefix_def suffix_def)
  have "\<forall>path \<in> fst ` set ?w. line_ok path" by (simp add: line_ok_def)
  from filelist_roundtrip [OF c(1) this, of Map.empty NewProgress "[]" NewProgress] show ?thesis
    unfolding c(2) by blast
qed

text \<open>
  Files whose paths below the directory have no dot but that of their extension keep their
  identity: the metric name tells their stem, whatever the number of slashes before it, and it is
  the stem with dots for its slashes.
\<close>

theorem metric_names_injective:
  assumes "f = wc_whisperDirectory c @ replicate n (CHR ''/'') @ stem @ CHR ''.'' # ext"
    and "f' = wc_whisperDirectory c @ replicate n' (CHR ''/'') @ stem' @ CHR ''.'' # ext'"
    and "stem \<noteq> [] \<and> hd stem \<noteq> CHR ''/'' \<and> CHR ''.'' \<notin> set stem"
    and "stem' \<noteq> [] \<and> hd stem' \<noteq> CHR ''/'' \<and> CHR ''.'' \<notin> set stem'"
    and "{CHR ''.'', CHR ''/''} \<inter> (set ext \<union> set ext') = {}"
  shows "getMetricName c f = Ok (wc_namePrefix c @ replace_char (CHR ''/'') (CHR ''.'') stem) \<and>
    (getMetricName c f = getMetricName c f' \<longleftrightarrow> stem = stem')"
  using assms getMetricName_stem [of stem ext c n] getMetricName_stem [of stem' ext' c n'] replace_char_inj [of "CHR ''.''" stem stem']
  by auto

theorem metric_names_injective_witness:
  "getMetricName example_converter ''/w/a/b.wsp'' = Ok ''p.a.b'' \<and>
    getMetricName example_converter ''/w/a/b.wsp'' \<noteq> getMetricName example_converter ''/w/ab.wsp''"
proof -
  have "getMetricName example_converter ''/w/a/b.wsp'' = Ok (wc_namePrefix example_converter @ replace_char (CHR ''/'') (CHR ''.'') ''a/b'') \<and>
    (getMetricName example_converter ''/w/a/b.wsp'' = getMetricName example_converter ''/w/ab.wsp'' \<longleftrightarrow> ''a/b'' = ''ab'')"
    by (rule metric_names_injective [where n = 1 and n' = 1 and ext = "''wsp''" and ext' = "''wsp''"]) simp_all
  moreover have "wc_namePrefix example_converter @ replace_char (CHR ''/'') (CHR ''.'') ''a/b'' = ''p.a.b''" by (simp add: replace_char_def)
  moreover have "''a/b'' \<noteq> ''ab''" by simp
  ultimately show ?thesis by metis
qed

end
