(* ===== verification/DateRun.thy ===== *)
theory DateRun
  imports Files
begin

text \<open>
  The command \<^verbatim>\<open>daterange\<close> as a whole, \<^verbatim>\<open>CommandDateRange\<close> of \<^verbatim>\<open>daterange.go\<close>: threads that take names
  from one channel and send timestamps over another, the collector, and the end that is signalled by
  closing a third. Both channels have no room, so that a timestamp is sent when the collector takes it.
\<close>

section \<open>The goroutines\<close>

text \<open>A thread waits for a name, has timestamps to send, or has seen the closed channel.\<close>

datatype dr_worker = WaitFile | Sending "int list" | AllRead

record dr_state =
  dr_files :: "string list"
  dr_workers :: "dr_worker list"
  dr_minTS :: int
  dr_maxTS :: int
  dr_readsDone :: bool
  dr_printed :: "string option"
  dr_counts :: progress
  dr_down :: bool

text \<open>What a thread sends for a file.\<close>

definition file_bounds :: "'v sample list \<Rightarrow> int list" where
  "file_bounds samples = [foldl (\<lambda>m s. min_step m (s_ts s)) MaxInt64 samples, foldl (\<lambda>m s. max_step m (s_ts s)) MinInt64 samples]"

text \<open>
  The steps: a thread receives a file, whose name may bring the process down; sends to the collector;
  counts the file; sees the closed channel. When all names have been sent and all threads have ended,
  the main routine closes the channel on which the collector waits, and the collector prints.
\<close>

inductive dr_step :: "WhisperConverter \<Rightarrow> (string \<Rightarrow> whisper_err + 'v sample list) \<Rightarrow> dr_state \<Rightarrow> dr_state \<Rightarrow> bool" for c convert where
  take_crash: "\<lbrakk>\<not> dr_down s; i < length (dr_workers s); dr_workers s ! i = WaitFile; dr_files s = f # fs;
      getMetricName c f = Panic\<rbrakk> \<Longrightarrow>
    dr_step c convert s (s\<lparr>dr_files := fs, dr_down := True\<rparr>)"
| take_skip: "\<lbrakk>\<not> dr_down s; i < length (dr_workers s); dr_workers s ! i = WaitFile; dr_files s = f # fs;
      getMetricName c f \<noteq> Panic; convert f = Inl err\<rbrakk> \<Longrightarrow>
    dr_step c convert s (s\<lparr>dr_files := fs, dr_counts := IncSkipped (dr_counts s)\<rparr>)"
| take_send: "\<lbrakk>\<not> dr_down s; i < length (dr_workers s); dr_workers s ! i = WaitFile; dr_files s = f # fs;
      getMetricName c f \<noteq> Panic; convert f = Inr samples\<rbrakk> \<Longrightarrow>
    dr_step c convert s (s\<lparr>dr_files := fs, dr_workers := (dr_workers s)[i := Sending (file_bounds samples)]\<rparr>)"
| send: "\<lbrakk>\<not> dr_down s; i < length (dr_workers s); dr_workers s ! i = Sending (ts # tss); dr_printed s = None\<rbrakk> \<Longrightarrow>
    dr_step c convert s (s\<lparr>dr_workers := (dr_workers s)[i := Sending tss], dr_minTS := min_step (dr_minTS s) ts,
      dr_maxTS := max_step (dr_maxTS s) ts\<rparr>)"
| processed: "\<lbrakk>\<not> dr_down s; i < length (dr_workers s); dr_workers s ! i = Sending []\<rbrakk> \<Longrightarrow>
    dr_step c convert s (s\<lparr>dr_workers := (dr_workers s)[i := WaitFile], dr_counts := fst (IncProcessed (dr_counts s))\<rparr>)"
| closed: "\<lbrakk>\<not> dr_down s; i < length (dr_workers s); dr_workers s ! i = WaitFile; dr_files s = []\<rbrakk> \<Longrightarrow>
    dr_step c convert s (s\<lparr>dr_workers := (dr_workers s)[i := AllRead]\<rparr>)"
| reads_done: "\<lbrakk>\<not> dr_down s; dr_files s = []; set (dr_workers s) \<subseteq> {AllRead}; \<not> dr_readsDone s\<rbrakk> \<Longrightarrow>
    dr_step c convert s (s\<lparr>dr_readsDone := True\<rparr>)"
| prints: "\<lbrakk>\<not> dr_down s; dr_readsDone s; dr_printed s = None\<rbrakk> \<Longrightarrow>
    dr_step c convert s (s\<lparr>dr_printed := Some (print_range (dr_minTS s) (dr_maxTS s))\<rparr>)"

definition CommandDateRange :: "WhisperConverter \<Rightarrow> string list \<Rightarrow> progress \<Rightarrow> dr_state" where
  "CommandDateRange c files counts =
     \<lparr>dr_files = files, dr_workers = replicate (nat (wc_threads c)) WaitFile, dr_minTS = MaxInt64, dr_maxTS = MinInt64,
      dr_readsDone = False, dr_printed = None, dr_counts = counts, dr_down = False\<rparr>"

section \<open>Invariants\<close>

fun to_send :: "dr_worker \<Rightarrow> int list" where
  "to_send (Sending tss) = tss"
| "to_send w = []"

definition pending :: "dr_state \<Rightarrow> int list" where
  "pending s = concat (map to_send (dr_workers s))"

lemma mset_pending_update:
  "i < length ws \<Longrightarrow> mset (concat (map to_send (ws[i := w]))) + mset (to_send (ws ! i)) = mset (concat (map to_send ws)) + mset (to_send w)"
proof (induction ws arbitrary: i)
  case (Cons v ws)
  then show ?case by (cases i) (auto simp: ac_simps)
qed simp

text \<open>What was sent and what is still to be sent are the bounds of the files taken; nothing is sent to a collector that has ended.\<close>

definition sent_for :: "(string \<Rightarrow> whisper_err + 'v sample list) \<Rightarrow> string list \<Rightarrow> int list" where
  "sent_for convert files = concat (map (\<lambda>f. case convert f of Inl _ \<Rightarrow> [] | Inr samples \<Rightarrow> file_bounds samples) files)"

lemma sent_for_getTimestampBounds: "fst (getTimestampBounds convert files progress) = sent_for convert files"
  by (induction convert files progress rule: getTimestampBounds.induct)
    (auto simp: sent_for_def file_bounds_def Let_def split: sum.splits prod.splits)

definition dr_inv :: "(string \<Rightarrow> whisper_err + 'v sample list) \<Rightarrow> string list \<Rightarrow> nat \<Rightarrow> dr_state \<Rightarrow> bool" where
  "dr_inv convert files n s \<longleftrightarrow>
     (\<exists>taken arrived.
        taken @ dr_files s = files \<and> dr_minTS s = foldl min_step MaxInt64 arrived \<and> dr_maxTS s = foldl max_step MinInt64 arrived \<and>
        mset arrived + mset (pending s) = mset (sent_for convert taken)) \<and>
     (AllRead \<in> set (dr_workers s) \<longrightarrow> dr_files s = []) \<and>
     (dr_readsDone s \<longrightarrow> dr_files s = [] \<and> set (dr_workers s) \<subseteq> {AllRead}) \<and>
     (dr_printed s \<noteq> None \<longrightarrow> dr_readsDone s \<and> dr_printed s = Some (print_range (dr_minTS s) (dr_maxTS s))) \<and>
     length (dr_workers s) = n"

lemma dr_inv_start: "dr_inv convert files (nat (wc_threads c)) (CommandDateRange c files counts)"
proof -
  have "pending (CommandDateRange c files counts) = []" by (simp add: pending_def CommandDateRange_def)
  then show ?thesis unfolding dr_inv_def
    by (intro conjI exI [of _ "[]"]) (simp_all add: CommandDateRange_def sent_for_def)
qed

lemma busy_not_done: "i < length ws \<Longrightarrow> ws ! i \<noteq> AllRead \<Longrightarrow> \<not> set ws \<subseteq> {AllRead}"
  using nth_mem by fastforce

lemma dr_inv_step:
  assumes "dr_step c convert s s'" and "dr_inv convert files n s" and "\<not> dr_down s'"
  shows "dr_inv convert files n s'"
proof -
  obtain taken arrived where I: "taken @ dr_files s = files" "dr_minTS s = foldl min_step MaxInt64 arrived"
      "dr_maxTS s = foldl max_step MinInt64 arrived" "mset arrived + mset (pending s) = mset (sent_for convert taken)"
    and closed_in: "AllRead \<in> set (dr_workers s) \<longrightarrow> dr_files s = []"
    and fin: "dr_readsDone s \<longrightarrow> dr_files s = [] \<and> set (dr_workers s) \<subseteq> {AllRead}"
    and printed: "dr_printed s \<noteq> None \<longrightarrow> dr_readsDone s \<and> dr_printed s = Some (print_range (dr_minTS s) (dr_maxTS s))"
    and len: "length (dr_workers s) = n"
    using assms(2) unfolding dr_inv_def by blast
  show ?thesis using assms(1)
  proof (cases rule: dr_step.cases)
    case (take_skip i f fs err)
    have "\<not> dr_readsDone s" using fin busy_not_done [OF take_skip(3)] take_skip(4) by auto
    moreover have "pending s' = pending s" using take_skip(1) by (simp add: pending_def)
    ultimately show ?thesis using take_skip I closed_in printed len unfolding dr_inv_def
      by (intro conjI exI [of _ "taken @ [f]"] exI [of _ arrived]) (auto simp: sent_for_def dest!: subsetD [OF set_update_subset_insert])
  next
    case (take_send i f fs samples)
    have "\<not> dr_readsDone s" using fin busy_not_done [OF take_send(3)] take_send(4) by auto
    moreover have "mset (pending s') = mset (pending s) + mset (file_bounds samples)"
      using mset_pending_update [OF take_send(3), of "Sending (file_bounds samples)"] take_send(1,4) by (simp add: pending_def)
    ultimately show ?thesis using take_send I closed_in printed len unfolding dr_inv_def
      by (intro conjI exI [of _ "taken @ [f]"] exI [of _ arrived]) (auto simp: sent_for_def dest!: subsetD [OF set_update_subset_insert])
  next
    case (send i ts tss)
    have "\<not> dr_readsDone s" using fin busy_not_done [OF send(3)] send(4) by auto
    moreover have "mset (pending s) = mset (pending s') + {#ts#}"
      using mset_pending_update [OF send(3), of "Sending tss"] send(1,4) by (simp add: pending_def)
    ultimately show ?thesis using send I closed_in printed len unfolding dr_inv_def
      by (intro conjI exI [of _ taken] exI [of _ "arrived @ [ts]"]) (auto simp: ac_simps dest!: subsetD [OF set_update_subset_insert])
  next
    case (processed i)
    have "\<not> dr_readsDone s" using fin busy_not_done [OF processed(3)] processed(4) by auto
    moreover have "mset (pending s') = mset (pending s)"
      using mset_pending_update [OF processed(3), of WaitFile] processed(1,4) by (simp add: pending_def)
    ultimately show ?thesis using processed I closed_in printed len unfolding dr_inv_def
      by (intro conjI exI [of _ taken] exI [of _ arrived]) (auto dest!: subsetD [OF set_update_subset_insert])
  next
    case (closed i)
    have "\<not> dr_readsDone s" using fin busy_not_done [OF closed(3)] closed(4) by auto
    moreover have "mset (pending s') = mset (pending s)"
      using mset_pending_update [OF closed(3), of AllRead] closed(1,4) by (simp add: pending_def)
    ultimately show ?thesis using closed I closed_in printed len unfolding dr_inv_def
      by (intro conjI exI [of _ taken] exI [of _ arrived]) (auto dest!: subsetD [OF set_update_subset_insert])
  next
    case reads_done
    then show ?thesis using I closed_in printed len unfolding dr_inv_def
      by (intro conjI exI [of _ taken] exI [of _ arrived]) (auto simp: pending_def)
  next
    case prints
    then show ?thesis using I closed_in fin len unfolding dr_inv_def
      by (intro conjI exI [of _ taken] exI [of _ arrived]) (auto simp: pending_def)
  qed (use assms(3) in simp)
qed

lemma dr_inv_run:
  assumes "(dr_step c convert ^^ k) (CommandDateRange c files counts) s" and "\<not> dr_down s"
  shows "dr_inv convert files (nat (wc_threads c)) s"
  using assms
proof (induction k arbitrary: s)
  case 0
  then have "CommandDateRange c files counts = s" by simp
  then show ?case using dr_inv_start by metis
next
  case (Suc k)
  then obtain t where t: "(dr_step c convert ^^ k) (CommandDateRange c files counts) t" "dr_step c convert t s" by auto
  from t(2) have "\<not> dr_down t" by (auto elim: dr_step.cases)
  from dr_inv_step [OF t(2) Suc.IH [OF t(1) this] Suc.prems(2)] show ?case .
qed

text \<open>Only a name without a metric brings the process down.\<close>

lemma never_down:
  assumes "(dr_step c convert ^^ k) (CommandDateRange c files counts) s" and "\<forall>f \<in> set files. getMetricName c f \<noteq> Panic"
  shows "\<not> dr_down s \<and> set (dr_files s) \<subseteq> set files"
  using assms(1)
proof (induction k arbitrary: s)
  case 0
  then have "s = CommandDateRange c files counts" by simp
  then show ?case by (simp add: CommandDateRange_def)
next
  case (Suc k)
  then obtain t where t: "(dr_step c convert ^^ k) (CommandDateRange c files counts) t" "dr_step c convert t s" by auto
  from t(2) Suc.IH [OF t(1)] assms(2) show ?case by (cases rule: dr_step.cases) auto
qed

section \<open>The command ends\<close>

fun worker_work :: "dr_worker \<Rightarrow> nat" where
  "worker_work WaitFile = 1"
| "worker_work (Sending tss) = 2 + length tss"
| "worker_work AllRead = 0"

definition dr_work :: "dr_state \<Rightarrow> nat" where
  "dr_work s = 4 * length (dr_files s) + sum_list (map worker_work (dr_workers s)) + (if dr_readsDone s then 0 else 1) +
     (if dr_printed s = None then 1 else 0)"

lemma work_update:
  "i < length ws \<Longrightarrow> sum_list (map worker_work (ws[i := w])) + worker_work (ws ! i) = sum_list (map worker_work ws) + worker_work w"
proof (induction ws arbitrary: i)
  case (Cons v ws)
  then show ?case by (cases i) auto
qed simp

lemma dr_step_work:
  assumes "dr_step c convert s s'"
  shows "dr_work s' < dr_work s"
  using assms
proof (cases rule: dr_step.cases)
  case (take_send i f fs samples)
  then show ?thesis using work_update [OF take_send(3), of "Sending (file_bounds samples)"] by (simp add: dr_work_def file_bounds_def)
next
  case (send i ts tss)
  then show ?thesis using work_update [OF send(3), of "Sending tss"] by (simp add: dr_work_def)
next
  case (processed i)
  then show ?thesis using work_update [OF processed(3), of WaitFile] by (simp add: dr_work_def)
next
  case (closed i)
  then show ?thesis using work_update [OF closed(3), of AllRead] by (simp add: dr_work_def)
qed (simp_all add: dr_work_def)

lemma dr_steps_work: "(dr_step c convert ^^ k) s s' \<Longrightarrow> k + dr_work s' \<le> dr_work s"
proof (induction k arbitrary: s')
  case (Suc k)
  then obtain t where "(dr_step c convert ^^ k) s t" "dr_step c convert t s'" by auto
  then show ?case using Suc.IH dr_step_work by fastforce
qed simp

lemma dr_progress:
  assumes "dr_inv convert files n s" and "0 < n" and "\<not> dr_down s" and "dr_printed s = None"
  shows "\<exists>s'. dr_step c convert s s'"
proof (cases "set (dr_workers s) \<subseteq> {AllRead}")
  case True
  have "dr_workers s \<noteq> []" using assms(1,2) by (auto simp: dr_inv_def)
  then have "dr_files s = []" using True assms(1) by (cases "dr_workers s") (auto simp: dr_inv_def)
  then show ?thesis using dr_step.reads_done [of s] dr_step.prints [of s] True assms(3,4) by (cases "dr_readsDone s") blast+
next
  case False
  then obtain i where i: "i < length (dr_workers s)" "dr_workers s ! i \<noteq> AllRead"
    by (auto simp: subset_iff in_set_conv_nth)
  show ?thesis
  proof (cases "dr_workers s ! i")
    case WaitFile
    show ?thesis
    proof (cases "dr_files s")
      case Nil
      then show ?thesis using dr_step.closed [OF assms(3) i(1) WaitFile] by blast
    next
      case (Cons f fs)
      then show ?thesis
        using dr_step.take_crash [OF assms(3) i(1) WaitFile Cons] dr_step.take_skip [OF assms(3) i(1) WaitFile Cons]
          dr_step.take_send [OF assms(3) i(1) WaitFile Cons] by (cases "convert f") blast+
    qed
  next
    case (Sending tss)
    then show ?thesis using dr_step.send [OF assms(3) i(1)] dr_step.processed [OF assms(3) i(1)] assms(4) by (cases tss) blast+
  qed (use i in simp)
qed

section \<open>Properties\<close>

text \<open>
  C12. The command \<^verbatim>\<open>daterange\<close>, whatever its threads do: it takes a bounded number of steps, can always go
  on until it has printed, and what it prints goes from the date of the earliest to the date of the latest
  sample of all the files that can be converted.
\<close>

theorem daterange_command:
  fixes srt :: "'v wpoint list \<Rightarrow> 'v wpoint list" and open_archive :: "string \<Rightarrow> 'v archive option"
    and time_ms :: "32 word \<Rightarrow> int"
  defines "convert \<equiv> WhisperToMimirSamples srt time_ms open_archive"
  assumes "(dr_step c convert ^^ k) (CommandDateRange c files counts) s" and "0 < wc_threads c"
    and "\<forall>f \<in> set files. getMetricName c f \<noteq> Panic"
    and "\<forall>t \<in> all_ts convert (set files). MinInt64 < t \<and> t < MaxInt64" and "all_ts convert (set files) \<noteq> {}"
  shows "k \<le> 4 * length files + nat (wc_threads c) + 2 \<and> (dr_printed s = None \<longrightarrow> (\<exists>s'. dr_step c convert s s')) \<and>
    (\<forall>out. dr_printed s = Some out \<longrightarrow> out =
      ''--start-date '' @ format_date (civil_date (day_of_ms (Min (all_ts convert (set files))))) @ '' '' @
      ''--end-date '' @ format_date (civil_date (day_of_ms (Max (all_ts convert (set files))))) @ '' '' @ [CHR 0x0A])"
proof (intro conjI allI impI)
  have up: "\<not> dr_down s" using never_down [OF assms(2,4)] by blast
  have inv: "dr_inv convert files (nat (wc_threads c)) s" by (rule dr_inv_run [OF assms(2) up])
  have "dr_work (CommandDateRange c files counts) = 4 * length files + nat (wc_threads c) + 2"
    by (simp add: dr_work_def CommandDateRange_def sum_list_replicate)
  then show "k \<le> 4 * length files + nat (wc_threads c) + 2" using dr_steps_work [OF assms(2)] by simp
  show "\<exists>s'. dr_step c convert s s'" if "dr_printed s = None"
    using dr_progress [OF inv _ up that] assms(3) by simp
  show "out = ''--start-date '' @ format_date (civil_date (day_of_ms (Min (all_ts convert (set files))))) @ '' '' @
      ''--end-date '' @ format_date (civil_date (day_of_ms (Max (all_ts convert (set files))))) @ '' '' @ [CHR 0x0A]"
    if out: "dr_printed s = Some out" for out
  proof -
    have fin: "dr_files s = []" "pending s = []" "out = print_range (dr_minTS s) (dr_maxTS s)"
      using inv out by (auto simp: dr_inv_def pending_def)
    then obtain arrived where a: "out = collectTimestamps arrived" "mset arrived = mset (sent_for convert files)"
      using inv by (auto simp: dr_inv_def collectTimestamps_def)
    show ?thesis unfolding a(1) convert_def
      by (rule collect_exact [where parts = "[files]"])
        (use a(2) assms(5,6) in \<open>simp_all add: sent_for_getTimestampBounds convert_def\<close>)
  qed
qed

text \<open>A run to the end.\<close>

lemma runs_to_the_end:
  assumes "(dr_step c convert ^^ k) (CommandDateRange c files counts) s" and "0 < wc_threads c"
    and "\<forall>f \<in> set files. getMetricName c f \<noteq> Panic"
  shows "\<exists>k s out. (dr_step c convert ^^ k) (CommandDateRange c files counts) s \<and> dr_printed s = Some out"
  using assms(1)
proof (induction "dr_work s" arbitrary: k s rule: less_induct)
  case less
  show ?case
  proof (cases "dr_printed s")
    case None
    have up: "\<not> dr_down s" using never_down [OF less.prems assms(3)] by blast
    obtain t where t: "dr_step c convert s t"
      using dr_progress [OF dr_inv_run [OF less.prems up] _ up None] assms(2) by auto
    have "(dr_step c convert ^^ Suc k) (CommandDateRange c files counts) t" using less.prems t by auto
    from less.hyps [OF dr_step_work [OF t] this] show ?thesis .
  qed (use less.prems in blast)
qed

theorem daterange_command_witness:
  "\<exists>k s. (dr_step example_converter (WhisperToMimirSamples (sort_key w_ts) (\<lambda>t. uint t * 1000) (\<lambda>f. Some example_archive)) ^^ k)
      (CommandDateRange example_converter [''/w/a.wsp'', ''/w/b.wsp''] NewProgress) s \<and>
    dr_printed s = Some (''--start-date 1970-01-01 --end-date 1970-01-01 '' @ [CHR 0x0A])"
proof -
  let ?c = "WhisperToMimirSamples (sort_key w_ts) (\<lambda>t. uint t * 1000) (\<lambda>f. Some example_archive)"
  have c: "?c f = Inr [\<lparr>s_value = 6, s_ts = 900000\<rparr>, \<lparr>s_value = 3, s_ts = 970000\<rparr>, \<lparr>s_value = 1, s_ts = 1000000\<rparr>]" for f
    unfolding WhisperToMimirSamples_def by code_simp
  have all: "all_ts ?c (set [''/w/a.wsp'', ''/w/b.wsp'']) = {900000, 970000, 1000000}"
    by (simp add: all_ts_insert c insert_commute)
  have threads: "0 < wc_threads example_converter" by simp
  have names: "\<forall>f \<in> set [''/w/a.wsp'', ''/w/b.wsp'']. getMetricName example_converter f \<noteq> Panic"
    by (simp add: getMetricName_def TrimPrefix_def)
  obtain k s out where run: "(dr_step example_converter ?c ^^ k) (CommandDateRange example_converter [''/w/a.wsp'', ''/w/b.wsp''] NewProgress) s"
    "dr_printed s = Some out"
    using runs_to_the_end [of 0 example_converter ?c "[''/w/a.wsp'', ''/w/b.wsp'']" NewProgress, OF _ threads names] by auto
  have "out = ''--start-date '' @ format_date (civil_date (day_of_ms (Min {900000, 970000, 1000000}))) @ '' '' @
      ''--end-date '' @ format_date (civil_date (day_of_ms (Max {900000, 970000, 1000000}))) @ '' '' @ [CHR 0x0A]"
    using daterange_command [OF run(1) threads names] run(2) unfolding all by (simp add: MinInt64_def MaxInt64_def)
  also have "\<dots> = ''--start-date '' @ format_date (civil_date (day_of_ms 900000)) @ '' '' @
    ''--end-date '' @ format_date (civil_date (day_of_ms 1000000)) @ '' '' @ [CHR 0x0A]" by simp
  also have "\<dots> = ''--start-date 1970-01-01 --end-date 1970-01-01 '' @ [CHR 0x0A]" by code_simp
  finally show ?thesis using run by blast
qed

end
