(* ===== verification/Errorx.thy ===== *)
theory Errorx
  imports Strings
begin

text \<open>
  \<^verbatim>\<open>pkg/errorx\<close>: the errors of the services with their HTTP and gRPC codes, their translation to
  a gRPC status and back (\<^verbatim>\<open>errors.go\<close>), and to an HTTP response (\<^verbatim>\<open>http_translator.go\<close>). The
  \<^verbatim>\<open>Status\<close> of the gRPC library is the record \<open>grpc_lib\<close>.
\<close>

section \<open>Codes\<close>

text \<open>The codes of the gRPC library.\<close>

datatype grpc_code =
    OK | CodeCanceled | Unknown | InvalidArgument | DeadlineExceeded | NotFound | AlreadyExists | PermissionDenied
  | ResourceExhausted | FailedPrecondition | Aborted | OutOfRange | CodeUnimplemented | CodeInternal | Unavailable
  | DataLoss | Unauthenticated

text \<open>The generated enumeration \<^verbatim>\<open>ErrorxType\<close>, an open one: a peer may send a number it does not have.\<close>

datatype ErrorxType =
    UNKNOWN | INTERNAL | BAD_REQUEST | REQUIRES_PROXY_REQUEST | RATE_LIMITED | DISABLED | UNIMPLEMENTED
  | UNPROCESSABLE_ENTITY | CONFLICT | TOO_MANY_REQUESTS | UNSUPPORTED_MEDIA_TYPE | REQUEST_TIMEOUT
  | InvalidType int

text \<open>A detail of a status: an \<^verbatim>\<open>ErrorDetails\<close> message or something else.\<close>

datatype detail = ErrorDetails ErrorxType string | OtherDetail

section \<open>The methods of the errors\<close>

text \<open>
  The interface \<^verbatim>\<open>Error\<close>: what the methods of an error give, \<open>m_code\<close> being the code that its
  \<^verbatim>\<open>GRPCStatus\<close> starts from, and \<open>m_Unwrap\<close> being \<open>None\<close> for an error without that method. Each type
  of error has its own methods; \<open>cause\<close> is the text of the error that it wraps.
\<close>

record 'e errx_methods =
  m_Error :: string
  m_Message :: string
  m_Unwrap :: "'e option option"
  m_HTTPStatusCode :: int
  m_code :: grpc_code
  m_details :: "detail list"

definition with_cause :: "string \<Rightarrow> string option \<Rightarrow> string" where
  "with_cause msg cause = (case cause of Some text \<Rightarrow> msg @ '': '' @ text | None \<Rightarrow> msg)"

definition Internal_methods :: "string option \<Rightarrow> string \<Rightarrow> 'e option \<Rightarrow> 'e errx_methods" where
  "Internal_methods cause msg err =
     \<lparr>m_Error = with_cause msg cause, m_Message = msg, m_Unwrap = Some err, m_HTTPStatusCode = 500, m_code = CodeInternal,
      m_details = [ErrorDetails INTERNAL []]\<rparr>"

definition BadRequest_methods :: "string option \<Rightarrow> string \<Rightarrow> 'e option \<Rightarrow> 'e errx_methods" where
  "BadRequest_methods cause msg err =
     \<lparr>m_Error = with_cause msg cause, m_Message = msg, m_Unwrap = Some err, m_HTTPStatusCode = 400, m_code = InvalidArgument,
      m_details = [ErrorDetails BAD_REQUEST []]\<rparr>"

definition RequiresProxyRequest_methods :: "string option \<Rightarrow> string \<Rightarrow> 'e option \<Rightarrow> string \<Rightarrow> 'e errx_methods" where
  "RequiresProxyRequest_methods cause msg err reason =
     \<lparr>m_Error = with_cause msg cause, m_Message = msg, m_Unwrap = Some err, m_HTTPStatusCode = 400, m_code = NotFound,
      m_details = [ErrorDetails REQUIRES_PROXY_REQUEST reason]\<rparr>"

definition Disabled_methods :: "'e errx_methods" where
  "Disabled_methods =
     \<lparr>m_Error = ''disabled'', m_Message = ''feature disabled'', m_Unwrap = None, m_HTTPStatusCode = 501, m_code = Unavailable,
      m_details = [ErrorDetails DISABLED []]\<rparr>"

definition Unimplemented_methods :: "string \<Rightarrow> 'e errx_methods" where
  "Unimplemented_methods msg =
     \<lparr>m_Error = msg, m_Message = msg, m_Unwrap = None, m_HTTPStatusCode = 501, m_code = CodeUnimplemented,
      m_details = [ErrorDetails UNIMPLEMENTED []]\<rparr>"

definition UnprocessableEntity_methods :: "string \<Rightarrow> 'e errx_methods" where
  "UnprocessableEntity_methods msg =
     \<lparr>m_Error = msg, m_Message = msg, m_Unwrap = None, m_HTTPStatusCode = 422, m_code = InvalidArgument,
      m_details = [ErrorDetails UNPROCESSABLE_ENTITY []]\<rparr>"

definition Conflict_methods :: "string option \<Rightarrow> string \<Rightarrow> 'e option \<Rightarrow> 'e errx_methods" where
  "Conflict_methods cause msg err =
     \<lparr>m_Error = with_cause msg cause, m_Message = msg, m_Unwrap = Some err, m_HTTPStatusCode = 409, m_code = Aborted,
      m_details = [ErrorDetails CONFLICT []]\<rparr>"

definition UnsupportedMediaType_methods :: "string option \<Rightarrow> string \<Rightarrow> 'e option \<Rightarrow> 'e errx_methods" where
  "UnsupportedMediaType_methods cause msg err =
     \<lparr>m_Error = with_cause msg cause, m_Message = msg, m_Unwrap = Some err, m_HTTPStatusCode = 415, m_code = CodeUnimplemented,
      m_details = [ErrorDetails UNSUPPORTED_MEDIA_TYPE []]\<rparr>"

definition TooManyRequests_methods :: "string option \<Rightarrow> string \<Rightarrow> 'e option \<Rightarrow> 'e errx_methods" where
  "TooManyRequests_methods cause msg err =
     \<lparr>m_Error = with_cause msg cause, m_Message = msg, m_Unwrap = Some err, m_HTTPStatusCode = 429, m_code = ResourceExhausted,
      m_details = [ErrorDetails TOO_MANY_REQUESTS []]\<rparr>"

definition RequestTimeout_methods :: "string option \<Rightarrow> string \<Rightarrow> 'e option \<Rightarrow> 'e errx_methods" where
  "RequestTimeout_methods cause msg err =
     \<lparr>m_Error = with_cause msg cause, m_Message = msg, m_Unwrap = Some err, m_HTTPStatusCode = 408, m_code = DeadlineExceeded,
      m_details = [ErrorDetails REQUEST_TIMEOUT []]\<rparr>"

section \<open>Errors\<close>

text \<open>
  A Go error is one of this package, \<^verbatim>\<open>context.Canceled\<close>, an error made with \<^verbatim>\<open>fmt.Errorf\<close> and
  \<^verbatim>\<open>%w\<close> (its text and what it wraps), or any other, known by its text. A nil error is \<open>None\<close>.
\<close>

datatype gerr = Errx errx | Canceled | Wrapped string gerr | Plain string
  and errx =
    Internal string "gerr option"
  | BadRequest string "gerr option"
  | RequiresProxyRequest string "gerr option" string
  | Disabled
  | Unimplemented string
  | UnprocessableEntity string
  | Conflict string "gerr option"
  | UnsupportedMediaType string "gerr option"
  | TooManyRequests string "gerr option"
  | RequestTimeout string "gerr option"

text \<open>The text of an error, and the methods of an error of this package.\<close>

fun Error :: "gerr \<Rightarrow> string" and Error_errx :: "errx \<Rightarrow> string" where
  "Error (Errx x) = Error_errx x"
| "Error Canceled = ''context canceled''"
| "Error (Wrapped text err) = text"
| "Error (Plain text) = text"
| "Error_errx (Internal msg err) = m_Error (Internal_methods (map_option Error err) msg err)"
| "Error_errx (BadRequest msg err) = m_Error (BadRequest_methods (map_option Error err) msg err)"
| "Error_errx (RequiresProxyRequest msg err reason) = m_Error (RequiresProxyRequest_methods (map_option Error err) msg err reason)"
| "Error_errx Disabled = m_Error (Disabled_methods :: gerr errx_methods)"
| "Error_errx (Unimplemented msg) = m_Error (Unimplemented_methods msg :: gerr errx_methods)"
| "Error_errx (UnprocessableEntity msg) = m_Error (UnprocessableEntity_methods msg :: gerr errx_methods)"
| "Error_errx (Conflict msg err) = m_Error (Conflict_methods (map_option Error err) msg err)"
| "Error_errx (UnsupportedMediaType msg err) = m_Error (UnsupportedMediaType_methods (map_option Error err) msg err)"
| "Error_errx (TooManyRequests msg err) = m_Error (TooManyRequests_methods (map_option Error err) msg err)"
| "Error_errx (RequestTimeout msg err) = m_Error (RequestTimeout_methods (map_option Error err) msg err)"

fun methods :: "errx \<Rightarrow> gerr errx_methods" where
  "methods (Internal msg err) = Internal_methods (map_option Error err) msg err"
| "methods (BadRequest msg err) = BadRequest_methods (map_option Error err) msg err"
| "methods (RequiresProxyRequest msg err reason) = RequiresProxyRequest_methods (map_option Error err) msg err reason"
| "methods Disabled = Disabled_methods"
| "methods (Unimplemented msg) = Unimplemented_methods msg"
| "methods (UnprocessableEntity msg) = UnprocessableEntity_methods msg"
| "methods (Conflict msg err) = Conflict_methods (map_option Error err) msg err"
| "methods (UnsupportedMediaType msg err) = UnsupportedMediaType_methods (map_option Error err) msg err"
| "methods (TooManyRequests msg err) = TooManyRequests_methods (map_option Error err) msg err"
| "methods (RequestTimeout msg err) = RequestTimeout_methods (map_option Error err) msg err"

definition Message :: "errx \<Rightarrow> string" where
  "Message x = m_Message (methods x)"

definition HTTPStatusCode :: "errx \<Rightarrow> int" where
  "HTTPStatusCode x = m_HTTPStatusCode (methods x)"

definition status_code :: "errx \<Rightarrow> grpc_code" where
  "status_code x = m_code (methods x)"

definition GRPCStatusDetails :: "errx \<Rightarrow> detail list" where
  "GRPCStatusDetails x = m_details (methods x)"

definition Unwrap_errx :: "errx \<Rightarrow> gerr option" where
  "Unwrap_errx x = (case m_Unwrap (methods x) of None \<Rightarrow> None | Some err \<Rightarrow> err)"

lemmas methods_defs =
  Internal_methods_def
  BadRequest_methods_def
  RequiresProxyRequest_methods_def
  Disabled_methods_def
  Unimplemented_methods_def
  UnprocessableEntity_methods_def
  Conflict_methods_def
  UnsupportedMediaType_methods_def
  TooManyRequests_methods_def
  RequestTimeout_methods_def

lemma Message_simps [simp]:
  "Message (Internal msg err) = msg"
  "Message (BadRequest msg err) = msg"
  "Message (RequiresProxyRequest msg err reason) = msg"
  "Message Disabled = ''feature disabled''"
  "Message (Unimplemented msg) = msg"
  "Message (UnprocessableEntity msg) = msg"
  "Message (Conflict msg err) = msg"
  "Message (UnsupportedMediaType msg err) = msg"
  "Message (TooManyRequests msg err) = msg"
  "Message (RequestTimeout msg err) = msg"
  by (simp_all add: Message_def methods_defs)

lemma HTTPStatusCode_simps [simp]:
  "HTTPStatusCode (Internal msg err) = 500"
  "HTTPStatusCode (BadRequest msg err) = 400"
  "HTTPStatusCode (RequiresProxyRequest msg err reason) = 400"
  "HTTPStatusCode Disabled = 501"
  "HTTPStatusCode (Unimplemented msg) = 501"
  "HTTPStatusCode (UnprocessableEntity msg) = 422"
  "HTTPStatusCode (Conflict msg err) = 409"
  "HTTPStatusCode (UnsupportedMediaType msg err) = 415"
  "HTTPStatusCode (TooManyRequests msg err) = 429"
  "HTTPStatusCode (RequestTimeout msg err) = 408"
  by (simp_all add: HTTPStatusCode_def methods_defs)

lemma status_code_simps [simp]:
  "status_code (Internal msg err) = CodeInternal"
  "status_code (BadRequest msg err) = InvalidArgument"
  "status_code (RequiresProxyRequest msg err reason) = NotFound"
  "status_code Disabled = Unavailable"
  "status_code (Unimplemented msg) = CodeUnimplemented"
  "status_code (UnprocessableEntity msg) = InvalidArgument"
  "status_code (Conflict msg err) = Aborted"
  "status_code (UnsupportedMediaType msg err) = CodeUnimplemented"
  "status_code (TooManyRequests msg err) = ResourceExhausted"
  "status_code (RequestTimeout msg err) = DeadlineExceeded"
  by (simp_all add: status_code_def methods_defs)

lemma GRPCStatusDetails_simps [simp]:
  "GRPCStatusDetails (Internal msg err) = [ErrorDetails INTERNAL []]"
  "GRPCStatusDetails (BadRequest msg err) = [ErrorDetails BAD_REQUEST []]"
  "GRPCStatusDetails (RequiresProxyRequest msg err reason) = [ErrorDetails REQUIRES_PROXY_REQUEST reason]"
  "GRPCStatusDetails Disabled = [ErrorDetails DISABLED []]"
  "GRPCStatusDetails (Unimplemented msg) = [ErrorDetails UNIMPLEMENTED []]"
  "GRPCStatusDetails (UnprocessableEntity msg) = [ErrorDetails UNPROCESSABLE_ENTITY []]"
  "GRPCStatusDetails (Conflict msg err) = [ErrorDetails CONFLICT []]"
  "GRPCStatusDetails (UnsupportedMediaType msg err) = [ErrorDetails UNSUPPORTED_MEDIA_TYPE []]"
  "GRPCStatusDetails (TooManyRequests msg err) = [ErrorDetails TOO_MANY_REQUESTS []]"
  "GRPCStatusDetails (RequestTimeout msg err) = [ErrorDetails REQUEST_TIMEOUT []]"
  by (simp_all add: GRPCStatusDetails_def methods_defs)

lemma Unwrap_errx_simps [simp]:
  "Unwrap_errx (Internal msg err) = err"
  "Unwrap_errx (BadRequest msg err) = err"
  "Unwrap_errx (RequiresProxyRequest msg err reason) = err"
  "Unwrap_errx Disabled = None"
  "Unwrap_errx (Unimplemented msg) = None"
  "Unwrap_errx (UnprocessableEntity msg) = None"
  "Unwrap_errx (Conflict msg err) = err"
  "Unwrap_errx (UnsupportedMediaType msg err) = err"
  "Unwrap_errx (TooManyRequests msg err) = err"
  "Unwrap_errx (RequestTimeout msg err) = err"
  by (simp_all add: Unwrap_errx_def methods_defs)

lemma Error_errx_methods: "Error_errx x = m_Error (methods x)"
  by (cases x) simp_all

section \<open>Chains of errors\<close>

text \<open>\<^verbatim>\<open>errors.As\<close> and \<^verbatim>\<open>errors.Is\<close> look at an error and at what it wraps, from the outside in.\<close>

fun unwrap_chain :: "gerr \<Rightarrow> gerr list" and unwrap_errx_chain :: "errx \<Rightarrow> gerr list" where
  "unwrap_chain (Errx x) = Errx x # unwrap_errx_chain x"
| "unwrap_chain Canceled = [Canceled]"
| "unwrap_chain (Wrapped text err) = Wrapped text err # unwrap_chain err"
| "unwrap_chain (Plain text) = [Plain text]"
| "unwrap_errx_chain (Internal msg err) = (case err of None \<Rightarrow> [] | Some e \<Rightarrow> unwrap_chain e)"
| "unwrap_errx_chain (BadRequest msg err) = (case err of None \<Rightarrow> [] | Some e \<Rightarrow> unwrap_chain e)"
| "unwrap_errx_chain (RequiresProxyRequest msg err reason) = (case err of None \<Rightarrow> [] | Some e \<Rightarrow> unwrap_chain e)"
| "unwrap_errx_chain Disabled = []"
| "unwrap_errx_chain (Unimplemented msg) = []"
| "unwrap_errx_chain (UnprocessableEntity msg) = []"
| "unwrap_errx_chain (Conflict msg err) = (case err of None \<Rightarrow> [] | Some e \<Rightarrow> unwrap_chain e)"
| "unwrap_errx_chain (UnsupportedMediaType msg err) = (case err of None \<Rightarrow> [] | Some e \<Rightarrow> unwrap_chain e)"
| "unwrap_errx_chain (TooManyRequests msg err) = (case err of None \<Rightarrow> [] | Some e \<Rightarrow> unwrap_chain e)"
| "unwrap_errx_chain (RequestTimeout msg err) = (case err of None \<Rightarrow> [] | Some e \<Rightarrow> unwrap_chain e)"

definition errors_As :: "(gerr \<Rightarrow> 'a option) \<Rightarrow> gerr \<Rightarrow> 'a option" where
  "errors_As target e = (case List.map_filter target (unwrap_chain e) of [] \<Rightarrow> None | x # _ \<Rightarrow> Some x)"

definition errors_Is_Canceled :: "gerr \<Rightarrow> bool" where
  "errors_Is_Canceled e \<longleftrightarrow> Canceled \<in> set (unwrap_chain e)"

fun as_errx :: "gerr \<Rightarrow> errx option" where
  "as_errx (Errx x) = Some x"
| "as_errx _ = None"

fun as_TooManyRequests :: "gerr \<Rightarrow> errx option" where
  "as_TooManyRequests (Errx (TooManyRequests msg err)) = Some (TooManyRequests msg err)"
| "as_TooManyRequests _ = None"

fun as_UnsupportedMediaType :: "gerr \<Rightarrow> errx option" where
  "as_UnsupportedMediaType (Errx (UnsupportedMediaType msg err)) = Some (UnsupportedMediaType msg err)"
| "as_UnsupportedMediaType _ = None"

text \<open>
  \<^verbatim>\<open>TryUnwrap\<close>: what an error that can be unwrapped wraps, which may be nil; other errors are
  given back.
\<close>

fun TryUnwrap :: "gerr \<Rightarrow> gerr option" where
  "TryUnwrap (Errx x) = (case m_Unwrap (methods x) of Some err \<Rightarrow> err | None \<Rightarrow> Some (Errx x))"
| "TryUnwrap (Wrapped text err) = Some err"
| "TryUnwrap e = Some e"

section \<open>Statuses\<close>

record 'st grpc_lib =
  st_New :: "grpc_code \<Rightarrow> string \<Rightarrow> 'st"
  st_WithDetails :: "'st \<Rightarrow> detail list \<Rightarrow> gerr + 'st"
  st_Code :: "'st \<Rightarrow> grpc_code"
  st_Message :: "'st \<Rightarrow> string"
  st_Details :: "'st \<Rightarrow> detail list"
  code_String :: "grpc_code \<Rightarrow> string"

definition WithErrorxTypeDetail :: "'st grpc_lib \<Rightarrow> 'st \<Rightarrow> detail list \<Rightarrow> 'st" where
  "WithErrorxTypeDetail lib s details =
     (case st_WithDetails lib s details of
        Inl err \<Rightarrow> st_New lib CodeInternal (Error err)
      | Inr s \<Rightarrow> s)"

definition GRPCStatus :: "'st grpc_lib \<Rightarrow> errx \<Rightarrow> 'st" where
  "GRPCStatus lib x =
     WithErrorxTypeDetail lib (st_New lib (status_code x) (Error_errx x)) (GRPCStatusDetails x)"

definition ErrorAsGRPCStatus :: "'st grpc_lib \<Rightarrow> gerr \<Rightarrow> 'st" where
  "ErrorAsGRPCStatus lib err =
     (case errors_As as_errx err of
        Some errx \<Rightarrow>
          (let s = st_New lib (st_Code lib (GRPCStatus lib errx)) (Error err)
           in case st_WithDetails lib s (GRPCStatusDetails errx) of
                Inl detailsErr \<Rightarrow>
                  st_New lib CodeInternal
                    (''problem encoding Details of underlying errorx.Error: '' @ Error detailsErr)
              | Inr s \<Rightarrow> s)
      | None \<Rightarrow> st_New lib Unknown (Error err))"

text \<open>The branches of the switch on the type of the details.\<close>

fun from_type :: "ErrorxType \<Rightarrow> string \<Rightarrow> string \<Rightarrow> errx" where
  "from_type UNKNOWN reason msg = Internal (''unknown errorx type specifier. '' @ msg) None"
| "from_type INTERNAL reason msg = Internal msg None"
| "from_type BAD_REQUEST reason msg = BadRequest msg None"
| "from_type REQUIRES_PROXY_REQUEST reason msg = RequiresProxyRequest msg None reason"
| "from_type RATE_LIMITED reason msg = TooManyRequests msg None"
| "from_type DISABLED reason msg = Disabled"
| "from_type UNIMPLEMENTED reason msg = Unimplemented msg"
| "from_type UNPROCESSABLE_ENTITY reason msg = UnprocessableEntity msg"
| "from_type CONFLICT reason msg = Conflict msg None"
| "from_type TOO_MANY_REQUESTS reason msg = TooManyRequests msg None"
| "from_type UNSUPPORTED_MEDIA_TYPE reason msg = UnsupportedMediaType msg None"
| "from_type REQUEST_TIMEOUT reason msg = RequestTimeout msg None"
| "from_type (InvalidType n) reason msg = Internal (''invalid errorx type specifier. '' @ msg) None"

fun first_details :: "detail list \<Rightarrow> string \<Rightarrow> errx" where
  "first_details [] msg = Internal (''missing errorx type specifier. '' @ msg) None"
| "first_details (ErrorDetails t reason # ds) msg = from_type t reason msg"
| "first_details (OtherDetail # ds) msg = first_details ds msg"

definition FromGRPCStatus :: "'st grpc_lib \<Rightarrow> 'st \<Rightarrow> gerr option" where
  "FromGRPCStatus lib s =
     (let msg = ''grpc '' @ code_String lib (st_Code lib s) @ '': '' @ st_Message lib s
      in if st_Code lib s = OK then None
         else if st_Code lib s = CodeCanceled then Some Canceled
         else Some (Errx (first_details (st_Details lib s) msg)))"

section \<open>HTTP responses\<close>

datatype log_level = LDebug | LInfo | LWarn | LError

record http_response =
  rs_code :: int
  rs_body :: string

text \<open>\<^verbatim>\<open>http.Error\<close> ends the message with a new line.\<close>

definition http_Error :: "string \<Rightarrow> int \<Rightarrow> http_response" where
  "http_Error message code = \<lparr>rs_code = code, rs_body = message @ [CHR 0x0A]\<rparr>"

definition httpStatusCanceled :: int where
  "httpStatusCanceled = 499"

text \<open>What is logged (level, message, code, error) and the response.\<close>

definition LogAndSetHTTPError ::
    "gerr \<Rightarrow> (log_level \<times> string \<times> int \<times> gerr option) \<times> http_response" where
  "LogAndSetHTTPError err =
     (if errors_Is_Canceled err
      then ((LError, ''canceled'', httpStatusCanceled, Some err), http_Error ''request canceled'' httpStatusCanceled)
      else
        (case errors_As as_errx err of
           Some errx \<Rightarrow>
             (let code = HTTPStatusCode errx
              in ((if code = 400 then LWarn else LError, Message errx, code, TryUnwrap (Errx errx)),
                  http_Error (Message errx) code))
         | None \<Rightarrow> ((LError, ''unknown error'', 500, Some err), http_Error ''unknown error'' 500)))"

section \<open>What holds of them\<close>

text \<open>
  What is relied on of the library, as it is documented: a new status has its code and message and no
  details; details are added to a status whose code is not \<^verbatim>\<open>OK\<close> if all of them can be encoded, and it is an
  error to add one that cannot be. A detail without a reason can be encoded, one with a reason that is not
  UTF-8 need not be.
\<close>

definition grpc_lib_ok :: "'st grpc_lib \<Rightarrow> (detail \<Rightarrow> bool) \<Rightarrow> bool" where
  "grpc_lib_ok lib encodable \<longleftrightarrow>
     (\<forall>c m. st_Code lib (st_New lib c m) = c \<and> st_Message lib (st_New lib c m) = m \<and>
       st_Details lib (st_New lib c m) = []) \<and>
     (\<forall>t. encodable (ErrorDetails t [])) \<and>
     (\<forall>s ds. st_Code lib s \<noteq> OK \<longrightarrow>
       (if list_all encodable ds
        then \<exists>s'. st_WithDetails lib s ds = Inr s' \<and> st_Code lib s' = st_Code lib s \<and>
          st_Message lib s' = st_Message lib s \<and> st_Details lib s' = st_Details lib s @ ds
        else \<exists>err. st_WithDetails lib s ds = Inl err))"

lemma grpc_New:
  assumes "grpc_lib_ok lib encodable"
  shows "st_Code lib (st_New lib c m) = c" "st_Message lib (st_New lib c m) = m" "st_Details lib (st_New lib c m) = []"
  using assms unfolding grpc_lib_ok_def by blast+

lemma grpc_WithDetails:
  assumes "grpc_lib_ok lib encodable" and "c \<noteq> OK"
  shows "if list_all encodable ds
    then \<exists>s. st_WithDetails lib (st_New lib c m) ds = Inr s \<and> st_Code lib s = c \<and> st_Message lib s = m \<and> st_Details lib s = ds
    else \<exists>err. st_WithDetails lib (st_New lib c m) ds = Inl err"
proof -
  have "st_Code lib (st_New lib c m) \<noteq> OK" using assms grpc_New by metis
  then have "if list_all encodable ds
    then \<exists>s. st_WithDetails lib (st_New lib c m) ds = Inr s \<and> st_Code lib s = st_Code lib (st_New lib c m) \<and>
      st_Message lib s = st_Message lib (st_New lib c m) \<and> st_Details lib s = st_Details lib (st_New lib c m) @ ds
    else \<exists>err. st_WithDetails lib (st_New lib c m) ds = Inl err"
    using assms(1) unfolding grpc_lib_ok_def by blast
  then show ?thesis unfolding grpc_New [OF assms(1)] append_Nil .
qed

lemma status_code_error: "status_code x \<noteq> OK" "status_code x \<noteq> CodeCanceled"
  by (cases x; simp)+

text \<open>Only a request for the proxy may have a detail that cannot be encoded: the others have no reason.\<close>

lemma details_encodable:
  assumes "grpc_lib_ok lib encodable"
  shows "list_all encodable (GRPCStatusDetails x) \<longleftrightarrow>
    (case x of RequiresProxyRequest msg err reason \<Rightarrow> encodable (ErrorDetails REQUIRES_PROXY_REQUEST reason) | _ \<Rightarrow> True)"
  using assms unfolding grpc_lib_ok_def by (cases x) simp_all

lemma GRPCStatus_code:
  assumes "grpc_lib_ok lib encodable"
  shows "st_Code lib (GRPCStatus lib x) = (if list_all encodable (GRPCStatusDetails x) then status_code x else CodeInternal)"
  using grpc_WithDetails [OF assms status_code_error(1) [of x], of "GRPCStatusDetails x" "Error_errx x"]
  by (auto simp: GRPCStatus_def WithErrorxTypeDetail_def grpc_New [OF assms] split: if_splits)

lemma ErrorAsGRPCStatus_spec:
  assumes "grpc_lib_ok lib encodable" and "errors_As as_errx err = Some x"
  shows "if list_all encodable (GRPCStatusDetails x)
    then st_Code lib (ErrorAsGRPCStatus lib err) = status_code x \<and> st_Message lib (ErrorAsGRPCStatus lib err) = Error err \<and>
      st_Details lib (ErrorAsGRPCStatus lib err) = GRPCStatusDetails x
    else \<exists>detailsErr. ErrorAsGRPCStatus lib err =
      st_New lib CodeInternal (''problem encoding Details of underlying errorx.Error: '' @ Error detailsErr)"
proof (cases "list_all encodable (GRPCStatusDetails x)")
  case True
  then have "st_Code lib (GRPCStatus lib x) = status_code x" by (simp add: GRPCStatus_code [OF assms(1)])
  moreover obtain s where "st_WithDetails lib (st_New lib (status_code x) (Error err)) (GRPCStatusDetails x) = Inr s"
    "st_Code lib s = status_code x" "st_Message lib s = Error err" "st_Details lib s = GRPCStatusDetails x"
    using grpc_WithDetails [OF assms(1) status_code_error(1) [of x], of "GRPCStatusDetails x" "Error err"] True by auto
  ultimately show ?thesis using True by (simp add: ErrorAsGRPCStatus_def assms(2))
next
  case False
  then have "st_Code lib (GRPCStatus lib x) = CodeInternal" by (simp add: GRPCStatus_code [OF assms(1)])
  moreover obtain e where "st_WithDetails lib (st_New lib CodeInternal (Error err)) (GRPCStatusDetails x) = Inl e"
    using grpc_WithDetails [OF assms(1), of CodeInternal "GRPCStatusDetails x" "Error err"] False by auto
  ultimately have "ErrorAsGRPCStatus lib err =
      st_New lib CodeInternal (''problem encoding Details of underlying errorx.Error: '' @ Error e)"
    by (simp add: ErrorAsGRPCStatus_def assms(2))
  then show ?thesis unfolding if_not_P [OF False] by (rule exI)
qed

text \<open>The error without what it wraps and with another message.\<close>

fun with_message :: "errx \<Rightarrow> string \<Rightarrow> errx" where
  "with_message (Internal _ _) msg = Internal msg None"
| "with_message (BadRequest _ _) msg = BadRequest msg None"
| "with_message (RequiresProxyRequest _ _ reason) msg = RequiresProxyRequest msg None reason"
| "with_message Disabled msg = Disabled"
| "with_message (Unimplemented _) msg = Unimplemented msg"
| "with_message (UnprocessableEntity _) msg = UnprocessableEntity msg"
| "with_message (Conflict _ _) msg = Conflict msg None"
| "with_message (UnsupportedMediaType _ _) msg = UnsupportedMediaType msg None"
| "with_message (TooManyRequests _ _) msg = TooManyRequests msg None"
| "with_message (RequestTimeout _ _) msg = RequestTimeout msg None"

lemma first_details_of: "first_details (GRPCStatusDetails x) msg = with_message x msg"
  by (cases x) simp_all

lemma with_message_simps [simp]:
  "HTTPStatusCode (with_message x msg) = HTTPStatusCode x"
  "GRPCStatusDetails (with_message x msg) = GRPCStatusDetails x"
  "status_code (with_message x msg) = status_code x"
  by (cases x; simp)+

lemma errors_As_wrapped [simp]:
  "errors_As as_errx (Errx x) = Some x"
  "errors_As as_errx (Wrapped text e) = errors_As as_errx e"
  by (simp_all add: errors_As_def List.map_filter_simps)

section \<open>Properties\<close>

text \<open>
  C20. What becomes of an error that is made a gRPC status and read back, whatever was wrapped around it on
  the way. If its details can be encoded, the same kind of error arrives: same type and reason, same HTTP
  status and gRPC code. What it wrapped is gone, and its message is a new one, \<^verbatim>\<open>grpc\<close>, the code and the whole
  text of the sent error; a disabled feature keeps its fixed message. If they cannot be encoded, which only
  happens for the reason of a request that requires the proxy, the kind is lost: the status has the code
  \<^verbatim>\<open>Internal\<close>, and an internal error with status 500 arrives that tells of the encoding only.
\<close>

theorem grpc_roundtrip:
  assumes "grpc_lib_ok lib encodable" and "errors_As as_errx err = Some x"
  shows "if case x of RequiresProxyRequest msg cause reason \<Rightarrow> encodable (ErrorDetails REQUIRES_PROXY_REQUEST reason) | _ \<Rightarrow> True
    then \<exists>y. FromGRPCStatus lib (ErrorAsGRPCStatus lib err) = Some (Errx y) \<and>
      HTTPStatusCode y = HTTPStatusCode x \<and> GRPCStatusDetails y = GRPCStatusDetails x \<and>
      st_Code lib (GRPCStatus lib y) = st_Code lib (GRPCStatus lib x) \<and>
      st_Code lib (ErrorAsGRPCStatus lib err) = st_Code lib (GRPCStatus lib x) \<and> Unwrap_errx y = None \<and>
      Message y = (if x = Disabled then ''feature disabled''
        else ''grpc '' @ code_String lib (st_Code lib (GRPCStatus lib x)) @ '': '' @ Error err)
    else st_Code lib (GRPCStatus lib x) = CodeInternal \<and>
      (\<exists>detailsErr. FromGRPCStatus lib (ErrorAsGRPCStatus lib err) = Some (Errx (Internal
        (''missing errorx type specifier. grpc '' @ code_String lib CodeInternal @
         '': problem encoding Details of underlying errorx.Error: '' @ Error detailsErr) None)))"
proof (cases "list_all encodable (GRPCStatusDetails x)")
  case True
  let ?y = "with_message x (''grpc '' @ code_String lib (status_code x) @ '': '' @ Error err)"
  have spec: "st_Code lib (ErrorAsGRPCStatus lib err) = status_code x" "st_Message lib (ErrorAsGRPCStatus lib err) = Error err"
    "st_Details lib (ErrorAsGRPCStatus lib err) = GRPCStatusDetails x"
    using ErrorAsGRPCStatus_spec [OF assms] True by simp_all
  have "FromGRPCStatus lib (ErrorAsGRPCStatus lib err) = Some (Errx ?y)"
    using status_code_error [of x] by (simp add: FromGRPCStatus_def spec first_details_of)
  moreover have "Unwrap_errx ?y = None" by (cases x) simp_all
  moreover have "Message ?y = (if x = Disabled then ''feature disabled''
      else ''grpc '' @ code_String lib (status_code x) @ '': '' @ Error err)" by (cases x) simp_all
  ultimately show ?thesis unfolding details_encodable [OF assms(1), symmetric] if_P [OF True]
    by (intro exI [of _ ?y]) (simp add: GRPCStatus_code [OF assms(1)] True spec(1))
next
  case False
  obtain detailsErr where e: "ErrorAsGRPCStatus lib err =
      st_New lib CodeInternal (''problem encoding Details of underlying errorx.Error: '' @ Error detailsErr)"
    using ErrorAsGRPCStatus_spec [OF assms] False by auto
  show ?thesis unfolding details_encodable [OF assms(1), symmetric] if_not_P [OF False]
    by (intro conjI exI [of _ detailsErr]) (simp_all add: GRPCStatus_code [OF assms(1)] False FromGRPCStatus_def e grpc_New [OF assms(1)])
qed

text \<open>A status as the triple of its parts; only reasons in UTF-8 can be encoded.\<close>

fun utf8_detail :: "detail \<Rightarrow> bool" where
  "utf8_detail (ErrorDetails t reason) = ValidString reason"
| "utf8_detail OtherDetail = True"

definition triple_lib :: "(grpc_code \<times> string \<times> detail list) grpc_lib" where
  "triple_lib =
     \<lparr>st_New = (\<lambda>c m. (c, m, [])),
      st_WithDetails = (\<lambda>(c, m, ds) es.
        if c = OK then Inl (Plain ''no error details for status with code OK'')
        else if list_all utf8_detail es then Inr (c, m, ds @ es)
        else Inl (Plain ''string field contains invalid UTF-8'')),
      st_Code = fst, st_Message = fst \<circ> snd, st_Details = snd \<circ> snd,
      code_String = (\<lambda>c. if c = NotFound then ''NotFound'' else ''Internal'')\<rparr>"

lemma triple_lib_ok: "grpc_lib_ok triple_lib utf8_detail"
  by (auto simp: grpc_lib_ok_def triple_lib_def)

theorem grpc_roundtrip_witness:
  "(\<exists>y. FromGRPCStatus triple_lib (ErrorAsGRPCStatus triple_lib
      (Wrapped ''query: no such function'' (Errx (RequiresProxyRequest ''no such function'' None ''f'')))) = Some (Errx y) \<and>
    HTTPStatusCode y = 400 \<and> Message y = ''grpc NotFound: query: no such function'') \<and>
   (\<exists>msg. FromGRPCStatus triple_lib (ErrorAsGRPCStatus triple_lib
      (Errx (RequiresProxyRequest ''no such function'' None [CHR 0xFF]))) = Some (Errx (Internal msg None)))"
proof -
  have "errors_As as_errx (Wrapped ''query: no such function'' (Errx (RequiresProxyRequest ''no such function'' None ''f'')))
      = Some (RequiresProxyRequest ''no such function'' None ''f'')" by simp
  note a = grpc_roundtrip [OF triple_lib_ok this]
  have "errors_As as_errx (Errx (RequiresProxyRequest ''no such function'' None [CHR 0xFF]))
      = Some (RequiresProxyRequest ''no such function'' None [CHR 0xFF])" by simp
  note b = grpc_roundtrip [OF triple_lib_ok this]
  have v: "ValidString ''f''" "\<not> ValidString [CHR 0xFF]" by code_simp+
  have c: "st_Code triple_lib (GRPCStatus triple_lib (RequiresProxyRequest ''no such function'' None ''f'')) = NotFound"
    using GRPCStatus_code [OF triple_lib_ok] v(1) by simp
  have n: "code_String triple_lib NotFound = ''NotFound''" by (simp add: triple_lib_def)
  have "\<exists>msg. FromGRPCStatus triple_lib (ErrorAsGRPCStatus triple_lib
      (Errx (RequiresProxyRequest ''no such function'' None [CHR 0xFF]))) = Some (Errx (Internal msg None))"
    using b v(2) by auto
  moreover have "\<exists>y. FromGRPCStatus triple_lib (ErrorAsGRPCStatus triple_lib
      (Wrapped ''query: no such function'' (Errx (RequiresProxyRequest ''no such function'' None ''f'')))) = Some (Errx y) \<and>
    HTTPStatusCode y = 400 \<and> Message y = ''grpc NotFound: query: no such function''"
    using a v(1) c n by auto
  ultimately show ?thesis by blast
qed

text \<open>
  An error of another kind loses its identity over gRPC: it arrives as an internal error with
  status 500, even \<^verbatim>\<open>context.Canceled\<close>, which is received as such only for the code that says so.
\<close>

theorem grpc_foreign_errors:
  assumes "grpc_lib_ok lib encodable" and "errors_As as_errx err = None"
  shows "FromGRPCStatus lib (ErrorAsGRPCStatus lib err) =
      Some (Errx (Internal (''missing errorx type specifier. grpc '' @ code_String lib Unknown @ '': '' @ Error err) None))"
  using assms(2) grpc_New [OF assms(1), of Unknown "Error err"]
  by (simp add: FromGRPCStatus_def ErrorAsGRPCStatus_def)

theorem grpc_foreign_errors_witness:
  "\<exists>msg. FromGRPCStatus triple_lib (ErrorAsGRPCStatus triple_lib Canceled) = Some (Errx (Internal msg None))"
  using grpc_foreign_errors [OF triple_lib_ok, of Canceled] by (auto simp: errors_As_def List.map_filter_simps)

text \<open>
  The response to an error tells nothing of what the error wraps or is wrapped in: two errors
  whose outermost \<^verbatim>\<open>errorx\<close> errors agree in kind and message, and of which both or none come from
  a cancelled context, get the same response. Its status is one of nine.
\<close>

theorem http_error_hides_causes:
  assumes "errors_As as_errx e = Some x" and "errors_As as_errx e' = Some x'"
    and "with_message x [] = with_message x' []" and "Message x = Message x'"
    and "errors_Is_Canceled e = errors_Is_Canceled e'"
  shows "snd (LogAndSetHTTPError e) = snd (LogAndSetHTTPError e') \<and>
    rs_code (snd (LogAndSetHTTPError e)) \<in> {400, 408, 409, 415, 422, 429, 499, 500, 501}"
proof -
  have "HTTPStatusCode x = HTTPStatusCode x'" using assms(3) with_message_simps(1) by metis
  moreover have "HTTPStatusCode x \<in> {400, 408, 409, 415, 422, 429, 499, 500, 501}" by (cases x) simp_all
  ultimately show ?thesis using assms by (simp add: LogAndSetHTTPError_def http_Error_def httpStatusCanceled_def Let_def)
qed

theorem http_error_hides_causes_witness:
  "snd (LogAndSetHTTPError (Errx (Internal ''read failed'' (Some (Plain ''bucket secret: denied''))))) =
   snd (LogAndSetHTTPError (Wrapped ''query: read failed'' (Errx (Internal ''read failed'' None))))"
  using http_error_hides_causes [of "Errx (Internal ''read failed'' (Some (Plain ''bucket secret: denied'')))"
      "Internal ''read failed'' (Some (Plain ''bucket secret: denied''))"
      "Wrapped ''query: read failed'' (Errx (Internal ''read failed'' None))" "Internal ''read failed'' None"]
  by (simp add: errors_Is_Canceled_def)

text \<open>
  A cancelled request is answered with status 499 whatever wraps the cancellation, also when
  an error of this package does; other unknown errors get status 500 and a fixed text.
\<close>

theorem http_error_canceled:
  "snd (LogAndSetHTTPError e) =
    (if Canceled \<in> set (unwrap_chain e) then http_Error ''request canceled'' 499
     else if \<forall>x. Errx x \<notin> set (unwrap_chain e) then http_Error ''unknown error'' 500
     else http_Error (Message (the (errors_As as_errx e))) (HTTPStatusCode (the (errors_As as_errx e))))"
proof -
  have "List.map_filter as_errx es = [] \<longleftrightarrow> (\<forall>x. Errx x \<notin> set es)" for es
  proof (induction es)
    case (Cons a es)
    then show ?case by (cases a) (auto simp: List.map_filter_simps)
  qed (simp add: List.map_filter_simps)
  note none = this [of "unwrap_chain e"]
  have "errors_As as_errx e = None \<longleftrightarrow> (\<forall>x. Errx x \<notin> set (unwrap_chain e))"
    unfolding none [symmetric] errors_As_def by (cases "List.map_filter as_errx (unwrap_chain e)") simp_all
  then show ?thesis
    unfolding LogAndSetHTTPError_def errors_Is_Canceled_def httpStatusCanceled_def
    by (cases "errors_As as_errx e") (auto simp: Let_def)
qed

end
