(* ===== verification/Tags.thy ===== *)
theory Tags
  imports Strings SeriesBatch Errorx
begin

text \<open>
  The label sets of Graphite metrics: \<^verbatim>\<open>pkg/graphite/convert/tags.go\<close> (untagged names, the same
  code as in the write proxy) and the label part of
  \<^verbatim>\<open>pkg/graphite/writeproxy/metric_data_payload.go\<close> (tagged names). The \<^verbatim>\<open>labels.Builder\<close> of the
  Prometheus library is the record \<open>label_lib\<close>.
\<close>

record 'b label_lib =
  lb_Reset :: "'b \<Rightarrow> labels \<Rightarrow> 'b"
  lb_Set :: "'b \<Rightarrow> bytes \<Rightarrow> bytes \<Rightarrow> 'b"
  lb_Labels :: "'b \<Rightarrow> labels"

definition TaggedMetricName :: bytes where
  "TaggedMetricName = to_bytes ''graphite_tagged''"

definition UntaggedMetricName :: bytes where
  "UntaggedMetricName = to_bytes ''graphite_untagged''"

definition metric_name :: bytes where
  "metric_name = to_bytes ''__name__''"

definition graphite_name :: bytes where
  "graphite_name = to_bytes ''name''"

section \<open>Untagged names\<close>

text \<open>\<^verbatim>\<open>fmt.Sprintf("__n%03d__", i)\<close>\<close>

definition node_name :: "nat \<Rightarrow> bytes" where
  "node_name i = to_bytes (''__n'' @ replicate (3 - length (dec i)) (CHR ''0'') @ dec i @ ''__'')"

fun set_nodes :: "'b label_lib \<Rightarrow> nat \<Rightarrow> bytes list \<Rightarrow> 'b \<Rightarrow> 'b" where
  "set_nodes lib i [] b = b"
| "set_nodes lib i (node # nodes) b = set_nodes lib (Suc i) nodes (lb_Set lib b (node_name i) node)"

definition LabelsFromUntaggedName :: "'b label_lib \<Rightarrow> bytes \<Rightarrow> 'b \<Rightarrow> labels" where
  "LabelsFromUntaggedName lib name b =
     (let b = lb_Reset lib b [];
          b = set_nodes lib 0 (split_at 0x2E name) b;
          b = lb_Set lib b metric_name UntaggedMetricName
      in lb_Labels lib b)"

section \<open>Tagged names\<close>

text \<open>\<^verbatim>\<open>strings.Index\<close> of a single byte.\<close>

fun index_byte :: "byte \<Rightarrow> bytes \<Rightarrow> int" where
  "index_byte sep [] = -1"
| "index_byte sep (c # cs) = (if c = sep then 0 else let i = index_byte sep cs in if i < 0 then -1 else i + 1)"

fun set_tags :: "'b label_lib \<Rightarrow> bytes list \<Rightarrow> 'b \<Rightarrow> gerr + 'b" where
  "set_tags lib [] b = Inr b"
| "set_tags lib (tag # tags) b =
     (let equalIdx = index_byte 0x3D tag
      in if equalIdx \<le> 0 \<or> equalIdx = int (length tag) - 1
         then Inl (Plain (''encountered invalid tag '' @ from_bytes tag))
         else set_tags lib tags (lb_Set lib b (take (nat equalIdx) tag) (drop (nat equalIdx + 1) tag)))"

definition LabelsFromTaggedName :: "'b label_lib \<Rightarrow> bytes \<Rightarrow> bytes list \<Rightarrow> 'b \<Rightarrow> gerr + labels" where
  "LabelsFromTaggedName lib name tags b =
     (case set_tags lib tags (lb_Reset lib b []) of
        Inl err \<Rightarrow> Inl err
      | Inr b \<Rightarrow>
          (let b = lb_Set lib b graphite_name name;
               b = lb_Set lib b metric_name TaggedMetricName
           in Inr (lb_Labels lib b)))"

section \<open>The label builder\<close>

text \<open>
  What is relied on of the builder: it stands for a map, setting a label to the empty value deletes
  it, and its labels are the entries of the map sorted by name.
\<close>

definition lookup_label :: "labels \<Rightarrow> bytes \<Rightarrow> bytes option" where
  "lookup_label ls = map_of (map (\<lambda>l. (lname l, lvalue l)) ls)"

definition name_sorted :: "labels \<Rightarrow> bool" where
  "name_sorted ls \<longleftrightarrow> sorted_wrt (<) (map lname ls)"

definition builder_ok :: "'b label_lib \<Rightarrow> ('b \<Rightarrow> bytes \<Rightarrow> bytes option) \<Rightarrow> bool" where
  "builder_ok lib view \<longleftrightarrow>
     (\<forall>b. view (lb_Reset lib b []) = Map.empty) \<and>
     (\<forall>b n v. view (lb_Set lib b n v) = (if v = [] then (view b)(n := None) else (view b)(n \<mapsto> v))) \<and>
     (\<forall>b. name_sorted (lb_Labels lib b) \<and> lookup_label (lb_Labels lib b) = view b)"

lemma builder_okD:
  assumes "builder_ok lib view"
  shows "view (lb_Reset lib b []) = Map.empty"
    and "view (lb_Set lib b n v) = (if v = [] then (view b)(n := None) else (view b)(n \<mapsto> v))"
    and "name_sorted (lb_Labels lib b)" and "lookup_label (lb_Labels lib b) = view b"
  using assms unfolding builder_ok_def by blast+

text \<open>Sorted labels are known by what they map.\<close>

lemma lookup_label_eqI:
  assumes "name_sorted ls" and "name_sorted ls'" and "lookup_label ls = lookup_label ls'"
  shows "ls = ls'"
proof -
  let ?p = "\<lambda>l. (lname l, lvalue l)"
  have d: "sorted (map fst (map ?p ls))" "distinct (map fst (map ?p ls))" if "name_sorted ls" for ls :: labels
    using that by (simp_all add: name_sorted_def comp_def strict_sorted_iff)
  have same: "set (map ?p ls) = set (map ?p ls')"
    using assms(3) d(2) [OF assms(1)] d(2) [OF assms(2)] unfolding lookup_label_def
    by (simp only: map_of_inject_set)
  have "inj_on fst (set (map ?p ls) \<union> set (map ?p ls'))"
    using d(2) [OF assms(1)] unfolding same [symmetric] by (simp only: Un_absorb distinct_map)
  then have "map ?p ls = map ?p ls'"
    using d [OF assms(1)] d [OF assms(2)] same by (intro map_sorted_distinct_set_unique [of fst]) auto
  moreover have "inj ?p" by (rule injI) (simp add: label.expand)
  ultimately show ?thesis by (simp add: inj_map_eq_map)
qed

section \<open>Untagged names as maps\<close>

lemma node_name_inj [simp]: "node_name i = node_name j \<longleftrightarrow> i = j"
proof
  assume "node_name i = node_name j"
  then have "replicate (3 - length (dec i)) (CHR ''0'') @ dec i = replicate (3 - length (dec j)) (CHR ''0'') @ dec j"
    by (simp add: node_name_def)
  then show "i = j" by (metis undec_dec undec_zeros)
qed simp

lemma hd_dec: "hd (dec n) \<in> char_of ` {48..57 :: nat} \<and> dec n \<noteq> []"
proof (induction n rule: dec.induct)
  case (1 n)
  then show ?case by (cases "n < 10") (auto simp: dec.simps [of n])
qed

lemma node_name_neq [simp]: "node_name i \<noteq> metric_name" "metric_name \<noteq> node_name i"
proof -
  have "char_of k \<noteq> CHR ''a''" if "k \<in> {48..57 :: nat}" for k
  proof
    assume "char_of k = CHR ''a''"
    then have "of_char (char_of k :: char) = (of_char (CHR ''a'') :: nat)" by simp
    then show False using that by (simp only: of_char_of) simp
  qed
  moreover obtain k where "k \<in> {48..57 :: nat}" "hd (dec i) = char_of k" using hd_dec [of i] by (elim conjE imageE)
  ultimately have hd: "hd (dec i) \<noteq> CHR ''a''" by metis
  have "replicate n (CHR ''0'') @ dec i @ ''__'' \<noteq> ''ame__''" for n
  proof
    assume eq: "replicate n (CHR ''0'') @ dec i @ ''__'' = ''ame__''"
    have "hd (replicate n (CHR ''0'') @ dec i @ ''__'') = CHR ''a''" by (subst eq) (rule list.sel(1))
    moreover have "hd (dec i @ ''__'') = hd (dec i)" by (rule hd_append2) (rule conjunct2 [OF hd_dec])
    ultimately show False using hd by (cases n) simp_all
  qed
  then show "node_name i \<noteq> metric_name" by (simp add: node_name_def metric_name_def)
  then show "metric_name \<noteq> node_name i" by (rule not_sym)
qed

lemma set_nodes_other:
  assumes "builder_ok lib view" and "\<forall>i < length nodes. m \<noteq> node_name (k + i)"
  shows "view (set_nodes lib k nodes b) m = view b m"
  using assms(2)
proof (induction nodes arbitrary: k b)
  case (Cons node nodes)
  have "m \<noteq> node_name k" using Cons.prems [rule_format, of 0] by simp
  moreover have "\<forall>i < length nodes. m \<noteq> node_name (Suc k + i)" using Cons.prems by auto
  ultimately show ?case using Cons.IH by (simp add: builder_okD(2) [OF assms(1)])
qed simp

lemma set_nodes_node:
  assumes "builder_ok lib view" and "i < length nodes"
  shows "view (set_nodes lib k nodes b) (node_name (k + i)) = (if nodes ! i = [] then None else Some (nodes ! i))"
  using assms(2)
proof (induction nodes arbitrary: k b i)
  case (Cons node nodes)
  show ?case
  proof (cases i)
    case 0
    then show ?thesis
      using set_nodes_other [OF assms(1), of nodes "node_name k" "Suc k" "lb_Set lib b (node_name k) node"]
      by (simp add: builder_okD(2) [OF assms(1)])
  next
    case (Suc j)
    then show ?thesis using Cons.IH [of j "Suc k" "lb_Set lib b (node_name k) node"] Cons.prems by simp
  qed
qed simp

definition node_at :: "bytes \<Rightarrow> nat \<Rightarrow> bytes option" where
  "node_at name i =
     (let nodes = split_at 0x2E name in if i < length nodes \<and> nodes ! i \<noteq> [] then Some (nodes ! i) else None)"

lemma untagged_lookup:
  assumes "builder_ok lib view"
  shows "lookup_label (LabelsFromUntaggedName lib name b) metric_name = Some UntaggedMetricName"
    and "lookup_label (LabelsFromUntaggedName lib name b) (node_name i) = node_at name i"
    and "m \<noteq> metric_name \<Longrightarrow> m \<notin> range node_name \<Longrightarrow> lookup_label (LabelsFromUntaggedName lib name b) m = None"
    and "name_sorted (LabelsFromUntaggedName lib name b)"
proof -
  note ok = builder_okD [OF assms]
  let ?v = "view (set_nodes lib 0 (split_at 0x2E name) (lb_Reset lib b []))"
  have l: "lookup_label (LabelsFromUntaggedName lib name b) = ?v(metric_name \<mapsto> UntaggedMetricName)"
    by (simp add: LabelsFromUntaggedName_def ok UntaggedMetricName_def to_bytes_def)
  show "lookup_label (LabelsFromUntaggedName lib name b) metric_name = Some UntaggedMetricName" by (simp add: l)
  show "lookup_label (LabelsFromUntaggedName lib name b) (node_name i) = node_at name i"
  proof (cases "i < length (split_at 0x2E name)")
    case True
    then show ?thesis using set_nodes_node [OF assms True, of 0 "lb_Reset lib b []"] by (simp add: l node_at_def)
  next
    case False
    then show ?thesis using set_nodes_other [OF assms, of "split_at 0x2E name" "node_name i" 0 "lb_Reset lib b []"]
      by (simp add: l node_at_def ok(1))
  qed
  show "lookup_label (LabelsFromUntaggedName lib name b) m = None" if "m \<noteq> metric_name" "m \<notin> range node_name"
    using that set_nodes_other [OF assms, of "split_at 0x2E name" m 0 "lb_Reset lib b []"]
    by (auto simp: l ok(1))
  show "name_sorted (LabelsFromUntaggedName lib name b)" by (simp add: LabelsFromUntaggedName_def ok(3))
qed

lemma untagged_labels_eq:
  assumes "builder_ok lib view"
  shows "LabelsFromUntaggedName lib name b = LabelsFromUntaggedName lib name' b' \<longleftrightarrow> node_at name = node_at name'"
proof
  assume "LabelsFromUntaggedName lib name b = LabelsFromUntaggedName lib name' b'"
  then show "node_at name = node_at name'" using untagged_lookup(2) [OF assms] by (metis ext)
next
  assume eq: "node_at name = node_at name'"
  have "lookup_label (LabelsFromUntaggedName lib name b) m = lookup_label (LabelsFromUntaggedName lib name' b') m" for m
  proof (cases "m = metric_name \<or> m \<notin> range node_name")
    case True
    then show ?thesis using untagged_lookup(1,3) [OF assms] by (metis rangeE)
  next
    case False
    then show ?thesis using untagged_lookup(2) [OF assms] eq by (metis rangeE)
  qed
  then show "LabelsFromUntaggedName lib name b = LabelsFromUntaggedName lib name' b'"
    by (intro lookup_label_eqI) (auto simp: untagged_lookup(4) [OF assms])
qed

lemma untagged_inj:
  assumes "builder_ok lib view" and "[] \<notin> set (split_at 0x2E name)" and "[] \<notin> set (split_at 0x2E name')"
    and "LabelsFromUntaggedName lib name b = LabelsFromUntaggedName lib name' b'"
  shows "name = name'"
proof -
  let ?s = "split_at 0x2E name" and ?s' = "split_at 0x2E name'"
  have at: "node_at n i = (if i < length (split_at 0x2E n) then Some (split_at 0x2E n ! i) else None)"
    if "[] \<notin> set (split_at 0x2E n)" for n i
  proof -
    have "i < length (split_at 0x2E n) \<Longrightarrow> split_at 0x2E n ! i \<noteq> []" using that nth_mem by metis
    then show ?thesis by (simp add: node_at_def Let_def)
  qed
  have eq: "node_at name = node_at name'" using assms(4) untagged_labels_eq [OF assms(1)] by blast
  then have same: "(i < length ?s \<longleftrightarrow> i < length ?s') \<and> (i < length ?s \<longrightarrow> ?s ! i = ?s' ! i)" for i
    using fun_cong [OF eq, of i] at [OF assms(2), of i] at [OF assms(3), of i] by (auto split: if_splits)
  then have "length ?s = length ?s'" by (metis linorder_neqE_nat less_irrefl)
  then have "?s = ?s'" using same by (intro nth_equalityI) auto
  then show ?thesis by (metis unsplit_split_at)
qed

section \<open>Tagged names as maps\<close>

lemma index_byte_append:
  assumes "sep \<notin> set k"
  shows "index_byte sep (k @ sep # v) = int (length k)"
  using assms by (induction k) (auto simp: Let_def)

lemma index_byte_none: "sep \<notin> set s \<Longrightarrow> index_byte sep s = -1"
  by (induction s) (auto simp: Let_def)

text \<open>A tag as the code wants it: name, equals sign and value, name and value not empty.\<close>

definition tag_parts :: "bytes \<Rightarrow> (bytes \<times> bytes) option" where
  "tag_parts tag =
     (let k = takeWhile (\<lambda>c. c \<noteq> 0x3D) tag; v = drop (length k + 1) tag
      in if k = [] \<or> v = [] then None else Some (k, v))"

lemma set_tags_Cons:
  "set_tags lib (tag # tags) b =
    (case tag_parts tag of
       None \<Rightarrow> Inl (Plain (''encountered invalid tag '' @ from_bytes tag))
     | Some (k, v) \<Rightarrow> set_tags lib tags (lb_Set lib b k v))"
proof -
  define k where "k = takeWhile (\<lambda>c. c \<noteq> 0x3D) tag"
  have notin: "0x3D \<notin> set k" unfolding k_def by (auto dest: set_takeWhileD)
  show ?thesis
  proof (cases "dropWhile (\<lambda>c. c \<noteq> 0x3D) tag")
    case Nil
    then have t: "tag = k" unfolding k_def by (metis append_Nil2 takeWhile_dropWhile_id)
    then have "index_byte 0x3D tag = -1" using notin index_byte_none by metis
    moreover have "tag_parts tag = None"
      unfolding tag_parts_def k_def [symmetric] by (simp add: t [symmetric])
    ultimately show ?thesis by simp
  next
    case (Cons c v)
    then have "c = 0x3D" by (metis (mono_tags, lifting) hd_dropWhile list.distinct(1) list.sel(1))
    then have t: "tag = k @ 0x3D # v" using Cons unfolding k_def by (metis takeWhile_dropWhile_id)
    then have i: "index_byte 0x3D tag = int (length k)" using index_byte_append [OF notin] by metis
    have "tag_parts tag = (if k = [] \<or> v = [] then None else Some (k, v))"
      unfolding tag_parts_def k_def [symmetric] by (simp add: t)
    then show ?thesis by (simp add: i Let_def) (simp add: t)
  qed
qed

lemma set_tags_spec:
  assumes "builder_ok lib view"
  shows "case set_tags lib tags b of
      Inl err \<Rightarrow> \<exists>pre tag post. tags = pre @ tag # post \<and> (\<forall>t \<in> set pre. tag_parts t \<noteq> None) \<and> tag_parts tag = None \<and>
        err = Plain (''encountered invalid tag '' @ from_bytes tag)
    | Inr b' \<Rightarrow> (\<forall>t \<in> set tags. tag_parts t \<noteq> None) \<and>
        view b' = view b ++ map_of (rev (map (the \<circ> tag_parts) tags))"
proof (induction tags arbitrary: b)
  case (Cons tag tags)
  show ?case
  proof (cases "tag_parts tag")
    case None
    then have "\<exists>pre t post. tag # tags = pre @ t # post \<and> (\<forall>t \<in> set pre. tag_parts t \<noteq> None) \<and> tag_parts t = None \<and>
        Plain (''encountered invalid tag '' @ from_bytes tag) = Plain (''encountered invalid tag '' @ from_bytes t)"
      by (intro exI [of _ "[]"] exI [of _ tag] exI [of _ tags]) simp
    then show ?thesis unfolding set_tags_Cons None by simp
  next
    case (Some kv)
    obtain k v where p: "tag_parts tag = Some (k, v)" using Some by (cases kv) simp
    have "v \<noteq> []" using p by (auto simp: tag_parts_def Let_def split: if_splits)
    then have w: "view (lb_Set lib b k v) = (view b)(k \<mapsto> v)" by (simp add: builder_okD(2) [OF assms])
    have eq: "set_tags lib (tag # tags) b = set_tags lib tags (lb_Set lib b k v)"
      unfolding set_tags_Cons by (simp add: p)
    show ?thesis
    proof (cases "set_tags lib tags (lb_Set lib b k v)")
      case (Inl err)
      then obtain pre t post where "tags = pre @ t # post" "\<forall>t \<in> set pre. tag_parts t \<noteq> None" "tag_parts t = None"
        "err = Plain (''encountered invalid tag '' @ from_bytes t)"
        using Cons.IH [of "lb_Set lib b k v"] by auto
      then have "\<exists>pre t post. tag # tags = pre @ t # post \<and> (\<forall>t \<in> set pre. tag_parts t \<noteq> None) \<and> tag_parts t = None \<and>
          err = Plain (''encountered invalid tag '' @ from_bytes t)"
        using p by (intro exI [of _ "tag # pre"] exI [of _ t] exI [of _ post]) simp
      then show ?thesis unfolding eq Inl by simp
    next
      case (Inr b')
      then have IH: "\<forall>t \<in> set tags. tag_parts t \<noteq> None"
        "view b' = (view b)(k \<mapsto> v) ++ map_of (rev (map (the \<circ> tag_parts) tags))"
        using Cons.IH [of "lb_Set lib b k v"] by (simp_all add: w)
      have shift: "(view b)(k \<mapsto> v) ++ m = view b ++ ([k \<mapsto> v] ++ m)" for m
        by (rule ext) (simp add: map_add_def split: option.split)
      have "map_of (rev (map (the \<circ> tag_parts) (tag # tags))) = [k \<mapsto> v] ++ map_of (rev (map (the \<circ> tag_parts) tags))"
        by (simp add: p)
      then have "view b' = view b ++ map_of (rev (map (the \<circ> tag_parts) (tag # tags)))"
        by (simp only: IH(2) shift)
      moreover have "\<forall>t \<in> set (tag # tags). tag_parts t \<noteq> None" using IH(1) p by simp
      ultimately show ?thesis unfolding eq Inr sum.case by blast
    qed
  qed
qed simp

lemma tagged_labels_cases:
  assumes "builder_ok lib view"
  shows "case LabelsFromTaggedName lib name tags b of
      Inr ls \<Rightarrow> (\<forall>tag \<in> set tags. tag_parts tag \<noteq> None) \<and> name_sorted ls \<and>
        lookup_label ls = ((map_of (rev (map (the \<circ> tag_parts) tags)))
          (graphite_name := (if name = [] then None else Some name)))(metric_name \<mapsto> TaggedMetricName)
    | Inl err \<Rightarrow> \<exists>pre tag post. tags = pre @ tag # post \<and> (\<forall>t \<in> set pre. tag_parts t \<noteq> None) \<and> tag_parts tag = None \<and>
        err = Plain (''encountered invalid tag '' @ from_bytes tag)"
proof (cases "set_tags lib tags (lb_Reset lib b [])")
  case (Inl err)
  then show ?thesis using set_tags_spec [OF assms, of tags "lb_Reset lib b []"] by (simp add: LabelsFromTaggedName_def)
next
  case (Inr b')
  then have "(\<forall>t \<in> set tags. tag_parts t \<noteq> None) \<and> view b' = map_of (rev (map (the \<circ> tag_parts) tags))"
    using set_tags_spec [OF assms, of tags "lb_Reset lib b []"] by (simp add: builder_okD(1) [OF assms])
  moreover have "TaggedMetricName \<noteq> []" by (simp add: TaggedMetricName_def to_bytes_def)
  ultimately show ?thesis by (auto simp: LabelsFromTaggedName_def Inr builder_okD [OF assms])
qed

section \<open>Properties\<close>

text \<open>
  The label set of an untagged name holds, sorted by label name, the metric name and for every
  node of the name between its dots one label with the node, numbered from zero; a node that is
  empty has no label, and there are no other labels.
\<close>

theorem untagged_labels:
  assumes "builder_ok lib view"
  shows "name_sorted (LabelsFromUntaggedName lib name b) \<and>
    lookup_label (LabelsFromUntaggedName lib name b) metric_name = Some UntaggedMetricName \<and>
    (\<forall>i. lookup_label (LabelsFromUntaggedName lib name b) (node_name i) =
      (if i < length (split_at 0x2E name) \<and> split_at 0x2E name ! i \<noteq> [] then Some (split_at 0x2E name ! i) else None)) \<and>
    (\<forall>m. m \<noteq> metric_name \<longrightarrow> m \<notin> range node_name \<longrightarrow> lookup_label (LabelsFromUntaggedName lib name b) m = None)"
  using untagged_lookup [OF assms] by (simp add: node_at_def Let_def)

text \<open>A builder that the model can run: pairs, the newest first.\<close>

definition pair_lib :: "(bytes \<times> bytes) list label_lib" where
  "pair_lib =
     \<lparr>lb_Reset = (\<lambda>b base. map (\<lambda>l. (lname l, lvalue l)) base),
      lb_Set = (\<lambda>b n v. if v = [] then filter (\<lambda>p. fst p \<noteq> n) b else (n, v) # b),
      lb_Labels = (\<lambda>b. map (\<lambda>n. Label n (the (map_of b n))) (sorted_list_of_set (fst ` set b)))\<rparr>"

lemma pair_lib_ok: "builder_ok pair_lib map_of"
  unfolding builder_ok_def
proof (intro conjI allI)
  fix b :: "(bytes \<times> bytes) list" and n v :: bytes
  have "map_of (filter (\<lambda>p. fst p \<noteq> n) b) = (map_of b)(n := None)" by (induction b) auto
  then show "map_of (lb_Set pair_lib b n v) = (if v = [] then (map_of b)(n := None) else (map_of b)(n \<mapsto> v))"
    by (simp add: pair_lib_def)
  show "name_sorted (lb_Labels pair_lib b)" by (simp add: pair_lib_def name_sorted_def comp_def)
  have keys: "map_of (map (\<lambda>n. (n, f n)) xs) n = (if n \<in> set xs then Some (f n) else None)" for f :: "bytes \<Rightarrow> bytes" and xs n
    by (induction xs) auto
  show "lookup_label (lb_Labels pair_lib b) = map_of b"
  proof
    fix n
    have "lookup_label (lb_Labels pair_lib b) n = (if n \<in> fst ` set b then Some (the (map_of b n)) else None)"
      by (simp add: pair_lib_def lookup_label_def comp_def keys)
    also have "\<dots> = map_of b n" by (metis map_of_eq_None_iff option.collapse)
    finally show "lookup_label (lb_Labels pair_lib b) n = map_of b n" .
  qed
qed (simp add: pair_lib_def)

theorem untagged_labels_witness:
  "lookup_label (LabelsFromUntaggedName pair_lib (to_bytes ''a.b'') []) (to_bytes ''__n001__'') = Some (to_bytes ''b'')"
proof -
  have "node_name 1 = to_bytes ''__n001__''" "split_at 0x2E (to_bytes ''a.b'') = [to_bytes ''a'', to_bytes ''b'']"
    by code_simp+
  moreover have "lookup_label (LabelsFromUntaggedName pair_lib (to_bytes ''a.b'') []) (node_name 1) =
      (if 1 < length (split_at 0x2E (to_bytes ''a.b'')) \<and> split_at 0x2E (to_bytes ''a.b'') ! 1 \<noteq> []
       then Some (split_at 0x2E (to_bytes ''a.b'') ! 1) else None)"
    using untagged_labels [OF pair_lib_ok, of "to_bytes ''a.b''" "[]"] by blast
  moreover have "to_bytes ''b'' \<noteq> []" by (simp add: to_bytes_def)
  ultimately show ?thesis by (simp only:) simp
qed

text \<open>
  C21. Names without empty nodes keep their identity: two of them with the same label set are the
  same name, so their series are never taken for duplicates.
\<close>

theorem untagged_labels_inj:
  assumes "builder_ok lib view" and "[] \<notin> set (split_at 0x2E name)" and "[] \<notin> set (split_at 0x2E name')"
    and "LabelsFromUntaggedName lib name b = LabelsFromUntaggedName lib name' b'"
  shows "name = name'"
  by (rule untagged_inj [OF assms])

theorem untagged_labels_inj_witness:
  "LabelsFromUntaggedName pair_lib (to_bytes ''a.b'') [] \<noteq> LabelsFromUntaggedName pair_lib (to_bytes ''a.c'') []"
proof -
  have "[] \<notin> set (split_at 0x2E (to_bytes ''a.b''))" "[] \<notin> set (split_at 0x2E (to_bytes ''a.c''))" by code_simp+
  then show ?thesis using untagged_labels_inj [OF pair_lib_ok, of "to_bytes ''a.b''" "to_bytes ''a.c''" "[]" "[]"] by auto
qed

text \<open>
  Names that end in a dot lose it: the name and the name with a dot at its end have the same
  label set, and so the two are duplicates of each other in a block.
\<close>

theorem untagged_labels_collide:
  assumes "builder_ok lib view"
  shows "LabelsFromUntaggedName lib (name @ [0x2E]) b = LabelsFromUntaggedName lib name b'"
proof -
  have s: "split_at 0x2E (name @ [0x2E]) = split_at 0x2E name @ [[]]"
  proof (induction name)
    case (Cons c name)
    then show ?case by (cases "split_at 0x2E name") auto
  qed simp
  have "node_at (name @ [0x2E]) = node_at name"
    by (rule ext) (auto simp: node_at_def s Let_def nth_append less_Suc_eq)
  then show ?thesis using untagged_labels_eq [OF assms] by blast
qed

theorem untagged_labels_collide_witness:
  "LabelsFromUntaggedName pair_lib (to_bytes ''a.'') [] = LabelsFromUntaggedName pair_lib (to_bytes ''a'') []"
proof -
  have "to_bytes ''a.'' = to_bytes ''a'' @ [0x2E]" by code_simp
  then show ?thesis using untagged_labels_collide [OF pair_lib_ok] by metis
qed

text \<open>
  Tags of the form name, equals sign, value become labels, the last value winning; the name of
  the metric and the metric name override tags that are called like them. The first tag that is
  not of this form makes the whole label set an error.
\<close>

theorem tagged_labels:
  assumes "builder_ok lib view"
  shows "case LabelsFromTaggedName lib name tags b of
      Inr ls \<Rightarrow> (\<forall>tag \<in> set tags. tag_parts tag \<noteq> None) \<and> name_sorted ls \<and>
        lookup_label ls = ((map_of (rev (map (the \<circ> tag_parts) tags)))
          (graphite_name := (if name = [] then None else Some name)))(metric_name \<mapsto> TaggedMetricName)
    | Inl err \<Rightarrow> \<exists>pre tag post. tags = pre @ tag # post \<and> (\<forall>t \<in> set pre. tag_parts t \<noteq> None) \<and> tag_parts tag = None \<and>
        err = Plain (''encountered invalid tag '' @ from_bytes tag)"
  by (rule tagged_labels_cases [OF assms])

theorem tagged_labels_witness:
  "(case LabelsFromTaggedName pair_lib (to_bytes ''m'') [to_bytes ''t=v'', to_bytes ''bad''] [] of
     Inl err \<Rightarrow> err = Plain ''encountered invalid tag bad'' | Inr ls \<Rightarrow> False)"
proof -
  have p: "tag_parts (to_bytes ''t=v'') \<noteq> None" "tag_parts (to_bytes ''bad'') = None"
    "from_bytes (to_bytes ''bad'') = ''bad''" by code_simp+
  note spec = tagged_labels [OF pair_lib_ok, where name = "to_bytes ''m''" and tags = "[to_bytes ''t=v'', to_bytes ''bad'']" and b = "[]"]
  show ?thesis
  proof (cases "LabelsFromTaggedName pair_lib (to_bytes ''m'') [to_bytes ''t=v'', to_bytes ''bad''] []")
    case (Inl err)
    with spec obtain pre tag post where s: "[to_bytes ''t=v'', to_bytes ''bad''] = pre @ tag # post" "tag_parts tag = None"
      "err = Plain (''encountered invalid tag '' @ from_bytes tag)" by auto
    then have "tag = to_bytes ''bad''" using p(1) by (cases pre; cases "tl pre") auto
    then show ?thesis using s(3) p(3) Inl by simp
  qed (use spec p(2) in simp)
qed

end
