(* ===== verification/Telemetry.thy ===== *)
theory Telemetry
  imports GoFile Strings
begin

text \<open>
  The recorders of \<^verbatim>\<open>pkg/graphite/writeproxy/recorder.go\<close> and \<^verbatim>\<open>pkg/remotewrite/recorder.go\<close>: the
  metrics that they register, and each method as the call that it makes on a counter or histogram of
  the Prometheus library, with the values of its labels. Durations are left out.
\<close>

text \<open>A metric is named by its namespace and its name.\<close>

type_synonym metric_id = "string \<times> string"

datatype metric_op =
    CounterAdd metric_id "string list" nat
  | Observe metric_id "string list"

section \<open>The registry\<close>

text \<open>
  What a metric is made with: namespace, name and the names of its labels. The registry is the library's:
  \<open>rg_Register\<close> gives the changed registry, or nothing where it refuses the metric. \<^verbatim>\<open>MustRegister\<close> registers
  one metric after the other and panics where one is refused.
\<close>

record metric_desc =
  d_metric :: metric_id
  d_labels :: "string list"

definition metric_of :: "string \<Rightarrow> string \<times> string list \<Rightarrow> metric_desc" where
  "metric_of namespace m = \<lparr>d_metric = (namespace, fst m), d_labels = snd m\<rparr>"

record 'g reg_lib =
  rg_Register :: "metric_desc \<Rightarrow> 'g \<Rightarrow> 'g option"

fun MustRegister :: "'g reg_lib \<Rightarrow> metric_desc list \<Rightarrow> 'g \<Rightarrow> 'g res" where
  "MustRegister lib [] reg = Ok reg"
| "MustRegister lib (d # ds) reg =
     (case rg_Register lib d reg of None \<Rightarrow> Panic | Some reg \<Rightarrow> MustRegister lib ds reg)"

text \<open>
  What is relied on, as it is documented: a metric is refused if its full name, the namespace if there is
  one, an underscore and the name, is not valid or is registered already. \<open>descs\<close> are the metrics in a
  registry.
\<close>

fun full_name :: "metric_id \<Rightarrow> string" where
  "full_name (namespace, name) = (if namespace \<noteq> [] then namespace @ ''_'' @ name else name)"

definition registry_ok :: "'g reg_lib \<Rightarrow> (string \<Rightarrow> bool) \<Rightarrow> ('g \<Rightarrow> metric_desc list) \<Rightarrow> bool" where
  "registry_ok lib valid descs \<longleftrightarrow>
     (\<forall>d reg. if valid (full_name (d_metric d)) \<and> full_name (d_metric d) \<notin> (full_name \<circ> d_metric) ` set (descs reg)
       then \<exists>reg'. rg_Register lib d reg = Some reg' \<and> descs reg' = descs reg @ [d]
       else rg_Register lib d reg = None)"

text \<open>The metric that a call on a recorder is made on, and the values of its labels.\<close>

fun op_metric :: "metric_op \<Rightarrow> metric_id \<times> string list" where
  "op_metric (CounterAdd n lvs k) = (n, lvs)"
| "op_metric (Observe n lvs) = (n, lvs)"

text \<open>\<^verbatim>\<open>WithLabelValues\<close> panics unless there is one value for each label and all of them are UTF-8.\<close>

definition has_metric :: "metric_desc list \<Rightarrow> metric_id \<times> string list \<Rightarrow> bool" where
  "has_metric ds m \<longleftrightarrow> (\<exists>d \<in> set ds. d_metric d = fst m \<and> length (d_labels d) = length (snd m))"

definition labels_fit :: "metric_desc list \<Rightarrow> metric_id \<times> string list \<Rightarrow> bool" where
  "labels_fit ds m \<longleftrightarrow> has_metric ds m \<and> list_all ValidString (snd m)"

text \<open>Names that do not end in each other stay apart, whatever the namespaces are.\<close>

lemma full_name_inject [simp]: "full_name (namespace, name) = full_name (namespace, name') \<longleftrightarrow> name = name'"
  by simp

lemma full_name_apart:
  assumes "\<not> suffix s t" and "\<not> suffix t s"
  shows "full_name (p, s) \<noteq> full_name (q, t)"
proof
  assume e: "full_name (p, s) = full_name (q, t)"
  have "suffix s (full_name (p, s))" "suffix t (full_name (q, t))" by (simp_all add: suffix_def)
  with e assms show False by (metis suffix_same_cases)
qed

declare full_name.simps [simp del]

lemma Register_cases:
  assumes "registry_ok lib valid descs"
  obtains "rg_Register lib d reg = None"
      "\<not> (valid (full_name (d_metric d)) \<and> full_name (d_metric d) \<notin> (full_name \<circ> d_metric) ` set (descs reg))"
  | reg' where "rg_Register lib d reg = Some reg'" "descs reg' = descs reg @ [d]"
      "valid (full_name (d_metric d))" "full_name (d_metric d) \<notin> (full_name \<circ> d_metric) ` set (descs reg)"
  using assms unfolding registry_ok_def by metis

lemma MustRegister_Ok:
  assumes "registry_ok lib valid descs"
  shows "MustRegister lib ds reg = Ok reg' \<Longrightarrow> descs reg' = descs reg @ ds"
proof (induction ds arbitrary: reg)
  case (Cons d ds)
  then show ?case by (cases rule: Register_cases [OF assms, of d reg]) auto
qed simp

lemma MustRegister_Ok_iff:
  assumes "registry_ok lib valid descs"
  shows "(\<exists>reg'. MustRegister lib ds reg = Ok reg') \<longleftrightarrow>
    (\<forall>d \<in> set ds. valid (full_name (d_metric d)) \<and> full_name (d_metric d) \<notin> (full_name \<circ> d_metric) ` set (descs reg)) \<and>
    distinct (map (full_name \<circ> d_metric) ds)"
proof (induction ds arbitrary: reg)
  case (Cons d ds)
  show ?case
  proof (cases rule: Register_cases [OF assms, of d reg])
    case 1
    then show ?thesis by auto
  next
    case (2 reg')
    then show ?thesis using Cons.IH [of reg'] by (auto simp: image_iff)
  qed
qed simp

section \<open>The recorder of the write proxy\<close>

definition recorder_prefix :: string where
  "recorder_prefix = ''graphite_proxy_ingester''"

definition proxy_NewRecorder :: "'g reg_lib \<Rightarrow> 'g \<Rightarrow> 'g res" where
  "proxy_NewRecorder lib =
     MustRegister lib (map (metric_of recorder_prefix)
       [(''received_requests_total'', [''user'']),
        (''requests_in_total'', [''user'']),
        (''received_samples_total'', [''user'']),
        (''samples_in_total'', [''user'']),
        (''rejected_samples_total'', [''user'', ''reason'']),
        (''data_conversion_seconds'', [''user''])])"

definition measureReceivedRequest :: "string \<Rightarrow> metric_op" where
  "measureReceivedRequest user = CounterAdd (recorder_prefix, ''received_requests_total'') [user] 1"

definition measureIncomingRequest :: "string \<Rightarrow> metric_op" where
  "measureIncomingRequest user = CounterAdd (recorder_prefix, ''requests_in_total'') [user] 1"

definition measureReceivedSamples :: "string \<Rightarrow> nat \<Rightarrow> metric_op" where
  "measureReceivedSamples user cnt = CounterAdd (recorder_prefix, ''received_samples_total'') [user] cnt"

definition measureIncomingSamples :: "string \<Rightarrow> nat \<Rightarrow> metric_op" where
  "measureIncomingSamples user cnt = CounterAdd (recorder_prefix, ''samples_in_total'') [user] cnt"

definition measureRejectedSamples :: "string \<Rightarrow> string \<Rightarrow> metric_op" where
  "measureRejectedSamples user reason = CounterAdd (recorder_prefix, ''rejected_samples_total'') [user, reason] 1"

definition measureConversionDuration :: "string \<Rightarrow> metric_op" where
  "measureConversionDuration user = Observe (recorder_prefix, ''data_conversion_seconds'') [user]"

text \<open>What a sequence of calls adds to a counter.\<close>

fun added :: "string \<Rightarrow> metric_op list \<Rightarrow> nat" where
  "added name [] = 0"
| "added name (CounterAdd n lvs k # ops) = (if n = (recorder_prefix, name) then k else 0) + added name ops"
| "added name (Observe n lvs # ops) = added name ops"

lemma added_append [simp]: "added name (xs @ ys) = added name xs + added name ys"
  by (induction name xs rule: added.induct) auto

lemmas proxy_recorder_defs =
  measureReceivedRequest_def measureIncomingRequest_def measureReceivedSamples_def measureIncomingSamples_def
  measureRejectedSamples_def measureConversionDuration_def

section \<open>The recorder of the remote write client\<close>

definition rw_NewRecorder :: "'g reg_lib \<Rightarrow> string \<Rightarrow> 'g \<Rightarrow> 'g res" where
  "rw_NewRecorder lib pfx reg =
     (case MustRegister lib [metric_of pfx (''out_of_order_writes_total'', [])] reg of
        Ok reg \<Rightarrow>
          MustRegister lib [metric_of (pfx @ ''_remote_write_client'') (''request_duration_seconds'', [''operation'', ''result''])] reg
      | Err e \<Rightarrow> Err e
      | Panic \<Rightarrow> Panic)"

definition measureOutOfOrderSamples :: "string \<Rightarrow> nat \<Rightarrow> metric_op" where
  "measureOutOfOrderSamples pfx cnt = CounterAdd (pfx, ''out_of_order_writes_total'') [] cnt"

definition measure_op :: "string \<Rightarrow> string \<Rightarrow> bool \<Rightarrow> metric_op" where
  "measure_op pfx op failed =
     Observe (pfx @ ''_remote_write_client'', ''request_duration_seconds'') [op, if failed then ''error'' else ''success'']"

section \<open>What is measured is registered\<close>

lemma proxy_ops_registered:
  assumes "registry_ok lib valid descs" and "proxy_NewRecorder lib reg0 = Ok reg"
  shows "has_metric (descs reg) (op_metric (measureReceivedRequest user))"
    "has_metric (descs reg) (op_metric (measureIncomingRequest user))"
    "has_metric (descs reg) (op_metric (measureReceivedSamples user n))"
    "has_metric (descs reg) (op_metric (measureIncomingSamples user n))"
    "has_metric (descs reg) (op_metric (measureRejectedSamples user reason))"
    "has_metric (descs reg) (op_metric (measureConversionDuration user))"
  using MustRegister_Ok [OF assms(1) assms(2) [unfolded proxy_NewRecorder_def]]
  by (simp_all add: proxy_recorder_defs metric_of_def has_metric_def)

lemma rw_NewRecorder_eq:
  "rw_NewRecorder lib pfx reg = MustRegister lib [metric_of pfx (''out_of_order_writes_total'', []),
     metric_of (pfx @ ''_remote_write_client'') (''request_duration_seconds'', [''operation'', ''result''])] reg"
  by (simp add: rw_NewRecorder_def split: option.splits)

lemma rw_ops_registered:
  assumes "registry_ok lib valid descs" and "rw_NewRecorder lib pfx reg0 = Ok reg"
  shows "has_metric (descs reg) (op_metric (measureOutOfOrderSamples pfx n))"
    "has_metric (descs reg) (op_metric (measure_op pfx op failed))"
  using MustRegister_Ok [OF assms(1) assms(2) [unfolded rw_NewRecorder_eq]]
  by (simp_all add: measureOutOfOrderSamples_def measure_op_def metric_of_def has_metric_def)

end
