(* ===== verification/RemoteWrite.thy ===== *)
theory RemoteWrite
  imports Telemetry Errorx Strings
begin

text \<open>
  The remote write client of \<^verbatim>\<open>pkg/remotewrite\<close>: \<^verbatim>\<open>client.go\<close> sends a request over HTTP and turns
  the answer into an error of \<open>Errorx\<close>, \<^verbatim>\<open>measured_client.go\<close> measures another client. The requests
  go through the transports of \<^verbatim>\<open>pkg/appcommon/transports.go\<close>. Protobuf, snappy, \<^verbatim>\<open>net/http\<close>, the
  injection of the organisation into a request and the tracing library are the record \<open>rw_lib\<close>; the
  operations give the calls on the recorder that they make.
\<close>

section \<open>Requests and answers\<close>

type_synonym headers = "(string \<times> string) list"

definition header_Add :: "string \<Rightarrow> string \<Rightarrow> headers \<Rightarrow> headers" where
  "header_Add name v hs = hs @ [(name, v)]"

definition header_Set :: "string \<Rightarrow> string \<Rightarrow> headers \<Rightarrow> headers" where
  "header_Set name v hs = filter (\<lambda>h. fst h \<noteq> name) hs @ [(name, v)]"

text \<open>Of the context of a request, the deadline and the organisation are kept.\<close>

record http_request =
  q_method :: string
  q_url :: string
  q_header :: headers
  q_body :: bytes
  q_timeout :: int
  q_org :: "string option"

record http_answer =
  a_code :: int
  a_status :: string
  a_body :: bytes

type_synonym round_tripper = "http_request \<Rightarrow> gerr + http_answer"

record rw_config =
  rw_Endpoint :: string
  rw_Timeout :: int
  rw_KeepAlive :: int
  rw_MaxIdleConns :: int
  rw_MaxConns :: int
  rw_SkipLabelValidation :: bool
  rw_UserAgent :: string

text \<open>The settings of an HTTP transport that the code changes.\<close>

record http_transport =
  ht_MaxIdleConnsPerHost :: int
  ht_MaxIdleConns :: int
  ht_MaxConnsPerHost :: int
  ht_DialName :: string
  ht_DialTimeout :: int
  ht_DialKeepAlive :: int

text \<open>
  \<open>rw_ParseURL\<close> is \<^verbatim>\<open>url.Parse\<close> followed by \<^verbatim>\<open>String\<close>, \<open>rw_NewRequest\<close> the error of
  \<^verbatim>\<open>http.NewRequest\<close> for the endpoint, \<open>rw_SkipHeader\<close> the constant
  \<^verbatim>\<open>SkipLabelNameValidationHeader\<close> of Mimir. \<open>rw_Transport\<close> is a transport with the given settings,
  \<open>rw_HTTPClient\<close> the method \<^verbatim>\<open>Do\<close> of a client over a transport. \<open>rw_Span\<close> says whether the context of
  a request has a span, \<open>rw_TraceRequest\<close> and \<open>rw_nethttp\<close> are \<^verbatim>\<open>TraceRequest\<close> and \<^verbatim>\<open>Transport\<close> of the
  package \<^verbatim>\<open>nethttp\<close>.
\<close>

record 'r rw_lib =
  rw_Marshal :: "'r \<Rightarrow> gerr + bytes"
  rw_snappy :: "bytes \<Rightarrow> bytes"
  rw_ParseURL :: "string \<Rightarrow> gerr + string"
  rw_NewRequest :: "string \<Rightarrow> gerr option"
  rw_InjectOrgID :: "string option \<Rightarrow> headers \<Rightarrow> gerr + headers"
  rw_Transport :: "http_transport \<Rightarrow> round_tripper"
  rw_HTTPClient :: "round_tripper \<Rightarrow> round_tripper"
  rw_Span :: "http_request \<Rightarrow> bool"
  rw_TraceRequest :: "string \<Rightarrow> http_request \<Rightarrow> http_request"
  rw_nethttp :: "round_tripper \<Rightarrow> round_tripper"
  rw_SkipHeader :: string

section \<open>\<^verbatim>\<open>pkg/appcommon/transports.go\<close>\<close>

definition TracerTransport_RoundTrip :: "'r rw_lib \<Rightarrow> round_tripper \<Rightarrow> string \<Rightarrow> round_tripper" where
  "TracerTransport_RoundTrip lib rt name req =
     (let req = (if rw_Span lib req then rw_TraceRequest lib name req else req) in rt req)"

definition AuthTransport_RoundTrip :: "'r rw_lib \<Rightarrow> round_tripper \<Rightarrow> round_tripper" where
  "AuthTransport_RoundTrip lib rt req =
     (case rw_InjectOrgID lib (q_org req) (q_header req) of
        Inl err \<Rightarrow> Inl err
      | Inr hs \<Rightarrow> rt (req\<lparr>q_header := hs\<rparr>))"

definition NewTracedAuthRoundTripper :: "'r rw_lib \<Rightarrow> round_tripper \<Rightarrow> string \<Rightarrow> round_tripper" where
  "NewTracedAuthRoundTripper lib rt name =
     TracerTransport_RoundTrip lib (AuthTransport_RoundTrip lib (rw_nethttp lib rt)) name"

section \<open>The client\<close>

text \<open>A recorder is represented by the prefix of its metrics.\<close>

record client =
  cl_cfg :: rw_config
  cl_httpClient :: round_tripper
  cl_endpoint :: string
  cl_recorder :: string

definition client_transport :: "rw_config \<Rightarrow> http_transport" where
  "client_transport cfg =
     \<lparr>ht_MaxIdleConnsPerHost = rw_MaxIdleConns cfg, ht_MaxIdleConns = rw_MaxIdleConns cfg,
      ht_MaxConnsPerHost = rw_MaxConns cfg, ht_DialName = ''remotewrite'',
      ht_DialTimeout = rw_Timeout cfg, ht_DialKeepAlive = rw_KeepAlive cfg\<rparr>"

definition NewClient ::
    "'r rw_lib \<Rightarrow> rw_config \<Rightarrow> string \<Rightarrow> (round_tripper \<Rightarrow> round_tripper) option \<Rightarrow> gerr + client" where
  "NewClient lib cfg metricsRecorder tripperware =
     (case rw_ParseURL lib (rw_Endpoint cfg) of
        Inl err \<Rightarrow> Inl err
      | Inr endpoint \<Rightarrow>
          let httpTransport = rw_Transport lib (client_transport cfg);
              transport = NewTracedAuthRoundTripper lib httpTransport ''Remote Write'';
              transport = (case tripperware of Some f \<Rightarrow> f transport | None \<Rightarrow> transport);
              httpClient = rw_HTTPClient lib transport
          in Inr \<lparr>cl_cfg = cfg, cl_httpClient = httpClient, cl_endpoint = endpoint, cl_recorder = metricsRecorder\<rparr>)"

definition maxErrMsgLen :: nat where
  "maxErrMsgLen = 512"

text \<open>
  The first line of the body, of which at most \<open>maxErrMsgLen\<close> bytes are read, as \<^verbatim>\<open>bufio.ScanLines\<close>
  gives it: without the end of the line, which is a line feed with or without a carriage return
  before it.
\<close>

definition first_line :: "bytes \<Rightarrow> string" where
  "first_line body =
     (let line = takeWhile (\<lambda>b. b \<noteq> 0x0A) (take maxErrMsgLen body)
      in from_bytes (if line \<noteq> [] \<and> last line = 0x0D then butlast line else line))"

definition errFromResp :: "client \<Rightarrow> http_answer \<Rightarrow> metric_op list \<times> gerr" where
  "errFromResp c resp =
     (let line = first_line (a_body resp);
          err = Plain (''remote write API returned HTTP status '' @ a_status resp @ '': '' @ line)
      in if a_code resp = 400
         then (if sublist ''out of order sample'' line then [measureOutOfOrderSamples (cl_recorder c) 1] else [],
               Errx (BadRequest ''bad metrics write request'' (Some err)))
         else if a_code resp = 429 then ([], Errx (TooManyRequests ''too many write requests'' (Some err)))
         else ([], Errx (Internal ''failed writing metrics'' (Some err))))"

definition client_do :: "client \<Rightarrow> http_request \<Rightarrow> metric_op list \<times> gerr option" where
  "client_do c httpReq =
     (case cl_httpClient c httpReq of
        Inl err \<Rightarrow> ([], Some (Errx (Internal ''can't perform metrics write request'' (Some err))))
      | Inr resp \<Rightarrow>
          if a_code resp < 200 \<or> 300 \<le> a_code resp then map_prod id Some (errFromResp c resp)
          else ([], None))"

definition request_headers :: "'r rw_lib \<Rightarrow> rw_config \<Rightarrow> headers" where
  "request_headers lib cfg =
     (let hs = header_Add ''Content-Encoding'' ''snappy'' [];
          hs = header_Set ''Content-Type'' ''application/x-protobuf'' hs;
          hs = header_Set ''User-Agent'' (rw_UserAgent cfg) hs;
          hs = header_Set ''X-Prometheus-Remote-Write-Version'' ''0.1.0'' hs
      in if rw_SkipLabelValidation cfg then header_Set (rw_SkipHeader lib) ''true'' hs else hs)"

definition client_Write :: "'r rw_lib \<Rightarrow> client \<Rightarrow> string option \<Rightarrow> 'r \<Rightarrow> metric_op list \<times> gerr option" where
  "client_Write lib c org req =
     (case rw_Marshal lib req of
        Inl err \<Rightarrow> ([], Some (Errx (Internal ''can't marshal write request'' (Some err))))
      | Inr data \<Rightarrow>
          let compressed = rw_snappy lib data
          in case rw_NewRequest lib (cl_endpoint c) of
               Some err \<Rightarrow> ([], Some (Errx (Internal ''can't create write request'' (Some err))))
             | None \<Rightarrow>
                 (case rw_InjectOrgID lib org (request_headers lib (cl_cfg c)) of
                      Inl err \<Rightarrow> ([], Some (Errx (BadRequest ''can't set org ID on write request'' (Some err))))
                    | Inr hs \<Rightarrow>
                        let httpReq = \<lparr>q_method = ''POST'', q_url = cl_endpoint c, q_header = hs, q_body = compressed,
                              q_timeout = rw_Timeout (cl_cfg c), q_org = org\<rparr>;
                            httpReq = (if rw_Span lib httpReq then rw_TraceRequest lib ''Remote Store'' httpReq else httpReq)
                        in client_do c httpReq))"

text \<open>The measured client: the measurement is deferred, so it is the last call.\<close>

definition measured_Write ::
    "(string option \<Rightarrow> 'r \<Rightarrow> metric_op list \<times> gerr option) \<Rightarrow> string \<Rightarrow> string option \<Rightarrow> 'r
      \<Rightarrow> metric_op list \<times> gerr option" where
  "measured_Write client pfx org req =
     (case client org req of (ops, err) \<Rightarrow> (ops @ [measure_op pfx ''Write'' (err \<noteq> None)], err))"

section \<open>Properties\<close>

lemma length_first_line: "length (first_line body) \<le> 512"
proof -
  let ?l = "takeWhile (\<lambda>b. b \<noteq> 0x0A) (take maxErrMsgLen body)"
  have "length ?l \<le> 512"
    using length_takeWhile_le [of "\<lambda>b. b \<noteq> 0x0A" "take maxErrMsgLen body"] by (simp add: maxErrMsgLen_def)
  then show ?thesis by (auto simp: first_line_def Let_def from_bytes_def)
qed

lemma client_answer:
  assumes "rw_Marshal lib req = Inr data" and "rw_NewRequest lib (cl_endpoint c) = None"
    and "rw_InjectOrgID lib org (request_headers lib (cl_cfg c)) = Inr hs" and "\<And>q. cl_httpClient c q = Inr resp"
  shows "client_Write lib c org req =
      (if a_code resp < 200 \<or> 300 \<le> a_code resp then map_prod id Some (errFromResp c resp) else ([], None))"
  using assms by (simp add: client_Write_def client_do_def Let_def)

text \<open>
  What an answer of the server means: a status from 200 to 299 is success, 400 a bad request,
  429 too many requests, anything else an internal error. The text of the server that goes into the
  error has at most 512 characters and no line feed. The counter for out of order samples goes up
  for a bad request whose first line says so, and only then. The measured client passes the result
  on and measures it once.
\<close>

theorem write_answer:
  assumes "rw_Marshal lib req = Inr data" and "rw_NewRequest lib (cl_endpoint c) = None"
    and "rw_InjectOrgID lib org (request_headers lib (cl_cfg c)) = Inr hs" and "\<And>q. cl_httpClient c q = Inr resp"
  shows "\<exists>text. length text \<le> 512 \<and>
    measured_Write (client_Write lib c) pfx org req =
      (let err = Plain (''remote write API returned HTTP status '' @ a_status resp @ '': '' @ text)
       in if 200 \<le> a_code resp \<and> a_code resp < 300 then ([measure_op pfx ''Write'' False], None)
          else ((if a_code resp = 400 \<and> sublist ''out of order sample'' text then [measureOutOfOrderSamples (cl_recorder c) 1] else [])
                @ [measure_op pfx ''Write'' True],
                Some (Errx (if a_code resp = 400 then BadRequest ''bad metrics write request'' (Some err)
                            else if a_code resp = 429 then TooManyRequests ''too many write requests'' (Some err)
                            else Internal ''failed writing metrics'' (Some err)))))"
proof (intro exI [of _ "first_line (a_body resp)"] conjI)
  note w = client_answer [OF assms]
  show "measured_Write (client_Write lib c) pfx org req =
      (let err = Plain (''remote write API returned HTTP status '' @ a_status resp @ '': '' @ first_line (a_body resp))
       in if 200 \<le> a_code resp \<and> a_code resp < 300 then ([measure_op pfx ''Write'' False], None)
          else ((if a_code resp = 400 \<and> sublist ''out of order sample'' (first_line (a_body resp))
                 then [measureOutOfOrderSamples (cl_recorder c) 1] else [])
                @ [measure_op pfx ''Write'' True],
                Some (Errx (if a_code resp = 400 then BadRequest ''bad metrics write request'' (Some err)
                            else if a_code resp = 429 then TooManyRequests ''too many write requests'' (Some err)
                            else Internal ''failed writing metrics'' (Some err)))))"
    by (cases "a_code resp < 200 \<or> 300 \<le> a_code resp")
      (auto simp: measured_Write_def w errFromResp_def Let_def)
qed (rule length_first_line)

section \<open>On the wire\<close>

text \<open>
  What the client relies on. The organisation is injected by setting its header, unless the header has
  another organisation already; tracing changes nothing of a request that is modelled but may add headers
  on the way; the HTTP client gives the answer of its transport back unless that is a redirection, and fails if the
  transport does.
\<close>

definition org_header :: string where
  "org_header = ''X-Scope-Orgid''"

definition redirection :: "int \<Rightarrow> bool" where
  "redirection code \<longleftrightarrow> code \<in> {301, 302, 303, 307, 308}"

definition inject_ok :: "'r rw_lib \<Rightarrow> bool" where
  "inject_ok lib \<longleftrightarrow>
     (\<forall>org hs. (\<forall>h \<in> set hs. fst h = org_header \<longrightarrow> snd h = org) \<longrightarrow>
        rw_InjectOrgID lib (Some org) hs = Inr (header_Set org_header org hs))"

definition trace_ok :: "'r rw_lib \<Rightarrow> bool" where
  "trace_ok lib \<longleftrightarrow>
     (\<forall>name q. rw_TraceRequest lib name q = q) \<and>
     (\<forall>rt q. \<exists>extra. rw_nethttp lib rt q = rt (q\<lparr>q_header := q_header q @ extra\<rparr>))"

definition do_ok :: "'r rw_lib \<Rightarrow> bool" where
  "do_ok lib \<longleftrightarrow>
     (\<forall>rt q. case rt q of
        Inl err \<Rightarrow> \<exists>err'. rw_HTTPClient lib rt q = Inl err'
      | Inr resp \<Rightarrow> \<not> redirection (a_code resp) \<longrightarrow> rw_HTTPClient lib rt q = Inr resp)"

definition wire_ok :: "'r rw_lib \<Rightarrow> bool" where
  "wire_ok lib \<longleftrightarrow> inject_ok lib \<and> trace_ok lib \<and> do_ok lib \<and>
     rw_SkipHeader lib \<notin> {org_header, ''Content-Encoding'', ''Content-Type'', ''User-Agent'', ''X-Prometheus-Remote-Write-Version''}"

lemma wire_ok_Inject:
  "wire_ok lib \<Longrightarrow> \<forall>h \<in> set hs. fst h = org_header \<longrightarrow> snd h = org \<Longrightarrow>
    rw_InjectOrgID lib (Some org) hs = Inr (header_Set org_header org hs)"
  by (simp add: wire_ok_def inject_ok_def)

lemma wire_ok_TraceRequest: "wire_ok lib \<Longrightarrow> rw_TraceRequest lib name q = q"
  by (simp add: wire_ok_def trace_ok_def)

lemma wire_ok_nethttp:
  assumes "wire_ok lib"
  obtains extra where "rw_nethttp lib rt q = rt (q\<lparr>q_header := q_header q @ extra\<rparr>)"
  using assms unfolding wire_ok_def trace_ok_def by metis

lemma wire_ok_Do:
  assumes "wire_ok lib"
  shows "case rt q of
        Inl err \<Rightarrow> \<exists>err'. rw_HTTPClient lib rt q = Inl err'
      | Inr resp \<Rightarrow> \<not> redirection (a_code resp) \<longrightarrow> rw_HTTPClient lib rt q = Inr resp"
  using assms unfolding wire_ok_def do_ok_def by (elim conjE allE)

lemma wire_ok_Skip:
  assumes "wire_ok lib"
  shows "rw_SkipHeader lib \<notin> {org_header, ''Content-Encoding'', ''Content-Type'', ''User-Agent'', ''X-Prometheus-Remote-Write-Version''}"
  using assms unfolding wire_ok_def by (elim conjE)

lemma header_Set_idem [simp]: "header_Set name v (header_Set name v hs) = header_Set name v hs"
  by (simp add: header_Set_def)

lemma header_Set_set: "h \<in> set (header_Set name v hs) \<Longrightarrow> fst h = name \<Longrightarrow> snd h = v"
  by (auto simp: header_Set_def)

text \<open>Both transports pass a request on as it is, once the organisation is in its header.\<close>

lemma transports_pass:
  assumes "wire_ok lib" and "q_org q = Some org" and "q_header q = header_Set org_header org hs"
  obtains extra where "NewTracedAuthRoundTripper lib rt name q = rt (q\<lparr>q_header := q_header q @ extra\<rparr>)"
proof -
  have "rw_InjectOrgID lib (Some org) (header_Set org_header org hs) = Inr (header_Set org_header org hs)"
    using wire_ok_Inject [OF assms(1)] header_Set_set [of _ org_header org hs] by simp
  then have "AuthTransport_RoundTrip lib (rw_nethttp lib rt) q = rw_nethttp lib rt (q\<lparr>q_header := q_header q\<rparr>)"
    using assms(2,3) by (simp add: AuthTransport_RoundTrip_def)
  also have "q\<lparr>q_header := q_header q\<rparr> = q" by (cases q) simp
  finally have "AuthTransport_RoundTrip lib (rw_nethttp lib rt) q = rw_nethttp lib rt q" .
  moreover note wire_ok_TraceRequest [OF assms(1)]
  ultimately have "NewTracedAuthRoundTripper lib rt name q = rw_nethttp lib rt q"
    by (simp add: NewTracedAuthRoundTripper_def TracerTransport_RoundTrip_def)
  then show thesis using wire_ok_nethttp [OF assms(1), of rt q] that by metis
qed

text \<open>The headers of a write, in the order in which they are set.\<close>

definition write_headers :: "'r rw_lib \<Rightarrow> rw_config \<Rightarrow> string \<Rightarrow> headers" where
  "write_headers lib cfg org =
     [(''Content-Encoding'', ''snappy''), (''Content-Type'', ''application/x-protobuf''),
      (''User-Agent'', rw_UserAgent cfg), (''X-Prometheus-Remote-Write-Version'', ''0.1.0'')] @
     (if rw_SkipLabelValidation cfg then [(rw_SkipHeader lib, ''true'')] else []) @ [(org_header, org)]"

lemma client_Write_wire:
  assumes "wire_ok lib" and "rw_Marshal lib req = Inr data" and "rw_NewRequest lib (cl_endpoint c) = None"
  shows "client_Write lib c (Some org) req = client_do c
    \<lparr>q_method = ''POST'', q_url = cl_endpoint c, q_header = write_headers lib (cl_cfg c) org, q_body = rw_snappy lib data,
     q_timeout = rw_Timeout (cl_cfg c), q_org = Some org\<rparr>"
proof -
  have skip: "rw_SkipHeader lib \<notin> {org_header, ''Content-Encoding'', ''Content-Type'', ''User-Agent'', ''X-Prometheus-Remote-Write-Version''}"
    by (rule wire_ok_Skip [OF assms(1)])
  then have skip': "\<forall>n \<in> {org_header, ''Content-Encoding'', ''Content-Type'', ''User-Agent'', ''X-Prometheus-Remote-Write-Version''}. n \<noteq> rw_SkipHeader lib"
    by blast
  let ?hs = "request_headers lib (cl_cfg c)"
  have hs: "?hs @ [(org_header, org)] = write_headers lib (cl_cfg c) org"
    using skip skip' by (simp add: request_headers_def write_headers_def header_Add_def header_Set_def)
  have free: "\<forall>h \<in> set ?hs. fst h \<noteq> org_header"
    using skip skip' by (simp add: request_headers_def header_Add_def header_Set_def org_header_def Let_def)
  then have "header_Set org_header org ?hs = write_headers lib (cl_cfg c) org"
    unfolding hs [symmetric] by (simp add: header_Set_def filter_True)
  moreover have "rw_InjectOrgID lib (Some org) ?hs = Inr (header_Set org_header org ?hs)"
    using free by (intro wire_ok_Inject [OF assms(1)]) blast
  ultimately have "rw_InjectOrgID lib (Some org) ?hs = Inr (write_headers lib (cl_cfg c) org)" by simp
  moreover note wire_ok_TraceRequest [OF assms(1)]
  ultimately show ?thesis using assms(2,3) by (simp add: client_Write_def Let_def)
qed

text \<open>A client made by \<open>NewClient\<close>: what its transport gets, and what becomes of the answer.\<close>

lemma new_client_wire:
  assumes "wire_ok lib" and "NewClient lib cfg pfx None = Inr c"
    and "rw_Marshal lib req = Inr data" and "rw_NewRequest lib (cl_endpoint c) = None"
  obtains extra answer where
    "answer = rw_Transport lib (client_transport cfg)
      \<lparr>q_method = ''POST'', q_url = cl_endpoint c, q_header = write_headers lib cfg org @ extra, q_body = rw_snappy lib data,
       q_timeout = rw_Timeout cfg, q_org = Some org\<rparr>"
    and "\<And>err. answer = Inl err \<Longrightarrow>
      \<exists>err. client_Write lib c (Some org) req = ([], Some (Errx (Internal ''can't perform metrics write request'' (Some err))))"
    and "\<And>resp. answer = Inr resp \<Longrightarrow> \<not> redirection (a_code resp) \<Longrightarrow> client_Write lib c (Some org) req =
      (if a_code resp < 200 \<or> 300 \<le> a_code resp then map_prod id Some (errFromResp c resp) else ([], None))"
proof -
  let ?base = "rw_Transport lib (client_transport cfg)"
  let ?rt = "NewTracedAuthRoundTripper lib ?base ''Remote Write''"
  let ?q = "\<lparr>q_method = ''POST'', q_url = cl_endpoint c, q_header = write_headers lib cfg org, q_body = rw_snappy lib data,
       q_timeout = rw_Timeout cfg, q_org = Some org\<rparr>"
  have c: "cl_cfg c = cfg" "cl_httpClient c = rw_HTTPClient lib ?rt"
    using assms(2) by (auto simp: NewClient_def Let_def split: sum.splits)
  have w: "client_Write lib c (Some org) req = client_do c ?q"
    using client_Write_wire [OF assms(1,3,4)] by (simp add: c)
  have "\<forall>h \<in> set (butlast (write_headers lib cfg org)). fst h \<noteq> org_header"
    using wire_ok_Skip [OF assms(1)] by (simp add: write_headers_def butlast_append org_header_def)
  then have hs: "write_headers lib cfg org = header_Set org_header org (write_headers lib cfg org)"
    by (simp add: header_Set_def write_headers_def org_header_def)
  obtain extra where e: "?rt ?q = ?base (?q\<lparr>q_header := q_header ?q @ extra\<rparr>)"
    by (rule transports_pass [OF assms(1), of ?q org "write_headers lib cfg org" ?base "''Remote Write''"]) (use hs in simp_all)
  show thesis
  proof (rule that [of "?rt ?q" extra])
    fix err assume "?rt ?q = Inl err"
    then obtain err' where "rw_HTTPClient lib ?rt ?q = Inl err'" using wire_ok_Do [OF assms(1), of ?rt ?q] by auto
    then show "\<exists>err. client_Write lib c (Some org) req = ([], Some (Errx (Internal ''can't perform metrics write request'' (Some err))))"
      unfolding w by (simp add: client_do_def c)
  next
    fix resp assume "?rt ?q = Inr resp" "\<not> redirection (a_code resp)"
    then have "rw_HTTPClient lib ?rt ?q = Inr resp" using wire_ok_Do [OF assms(1), of ?rt ?q] by simp
    then show "client_Write lib c (Some org) req =
      (if a_code resp < 200 \<or> 300 \<le> a_code resp then map_prod id Some (errFromResp c resp) else ([], None))"
      unfolding w by (simp add: client_do_def c)
  qed (use e in simp)
qed

end
