(* ===== verification/WriteProxy.thy ===== *)
theory WriteProxy
  imports Tags RemoteWrite
begin

text \<open>
  The write proxy of \<^verbatim>\<open>pkg/graphite/writeproxy\<close>: metrics of a request become time series
  (\<^verbatim>\<open>metric_data_payload.go\<close>) and are written to a remote client (\<^verbatim>\<open>remote_write_proxy.go\<close>), for the
  organisation that \<^verbatim>\<open>pkg/graphite/authentication/org.go\<close> extracts. The metric schema with its
  decoders and its validation is the record \<open>px_lib\<close>. Logs and durations are left out, and the calls on
  the recorder are taken to return: \<open>Registration\<close> says exactly when they do.
\<close>

section \<open>Metrics and series\<close>

text \<open>\<open>md_rest\<close> are the fields that the code does not touch.\<close>

record ('v, 'x) metric_data =
  md_OrgId :: int
  md_Name :: bytes
  md_Tags :: "bytes list"
  md_Mtype :: string
  md_Value :: 'v
  md_Time :: "64 word"
  md_rest :: 'x

record 'v mimir_sample =
  ms_Value :: 'v
  ms_TimestampMs :: "64 word"

definition promMetricsFromMetricDataTagged ::
    "'b label_lib \<Rightarrow> ('v, 'x) metric_data \<Rightarrow> 'b \<Rightarrow> gerr + labels \<times> 'v mimir_sample" where
  "promMetricsFromMetricDataTagged lib md b =
     map_sum id (\<lambda>ls. (ls, \<lparr>ms_Value = md_Value md, ms_TimestampMs = md_Time md * 1000\<rparr>))
       (LabelsFromTaggedName lib (md_Name md) (md_Tags md) b)"

definition promMetricsFromMetricDataUntagged ::
    "'b label_lib \<Rightarrow> ('v, 'x) metric_data \<Rightarrow> 'b \<Rightarrow> gerr + labels \<times> 'v mimir_sample" where
  "promMetricsFromMetricDataUntagged lib md b =
     Inr (LabelsFromUntaggedName lib (md_Name md) b, \<lparr>ms_Value = md_Value md, ms_TimestampMs = md_Time md * 1000\<rparr>)"

text \<open>Both reset the builder \<open>b\<close> that they are given, so that it does not matter what is in it.\<close>

definition promMetricsFromMetricData ::
    "'b label_lib \<Rightarrow> ('v, 'x) metric_data \<Rightarrow> 'b \<Rightarrow> gerr + labels \<times> 'v mimir_sample" where
  "promMetricsFromMetricData lib md b =
     (if 0 < length (md_Tags md) then promMetricsFromMetricDataTagged lib md b
      else promMetricsFromMetricDataUntagged lib md b)"

fun GeneratePromMetrics ::
    "'b label_lib \<Rightarrow> 'b \<Rightarrow> ('v, 'x) metric_data list \<Rightarrow> gerr + labels list \<times> 'v mimir_sample list" where
  "GeneratePromMetrics lib b [] = Inr ([], [])"
| "GeneratePromMetrics lib b (md # m) =
     (case promMetricsFromMetricData lib md b of
        Inl err \<Rightarrow> Inl err
      | Inr (ls, sample) \<Rightarrow>
          (case GeneratePromMetrics lib b m of
             Inl err \<Rightarrow> Inl err
           | Inr (resLabels, resSamples) \<Rightarrow> Inr (ls # resLabels, sample # resSamples)))"

definition labelsToLabelsProto :: "labels \<Rightarrow> (bytes \<times> bytes) list" where
  "labelsToLabelsProto ls = map (\<lambda>l. (lname l, lvalue l)) ls"

fun GeneratePromTimeSeries ::
    "'b label_lib \<Rightarrow> 'b \<Rightarrow> ('v, 'x) metric_data list \<Rightarrow> gerr + ((bytes \<times> bytes) list \<times> 'v mimir_sample list) list" where
  "GeneratePromTimeSeries lib b [] = Inr []"
| "GeneratePromTimeSeries lib b (md # m) =
     (case promMetricsFromMetricData lib md b of
        Inl err \<Rightarrow> Inl err
      | Inr (ls, sample) \<Rightarrow>
          map_sum id (\<lambda>ss. (labelsToLabelsProto ls, [sample]) # ss) (GeneratePromTimeSeries lib b m))"

fun GeneratePreallocTimeseries ::
    "'b label_lib \<Rightarrow> 'b \<Rightarrow> ('v, 'x) metric_data list \<Rightarrow> gerr + (labels \<times> 'v mimir_sample list) list" where
  "GeneratePreallocTimeseries lib b [] = Inr []"
| "GeneratePreallocTimeseries lib b (md # m) =
     (case promMetricsFromMetricData lib md b of
        Inl err \<Rightarrow> Inl err
      | Inr (ls, sample) \<Rightarrow> map_sum id (\<lambda>ss. (ls, [sample]) # ss) (GeneratePreallocTimeseries lib b m))"

section \<open>Requests\<close>

text \<open>
  A request: its content type, and its body, which is nil or what reading it to the end gives. The
  decoders give pointers to metrics, which may be nil.
\<close>

record px_request =
  px_ContentType :: string
  px_Body :: "(gerr + bytes) option"

record ('v, 'x, 'm) px_lib =
  px_snappy :: "gerr + bytes \<Rightarrow> gerr + bytes"
  px_InitFromMsg :: "bytes \<Rightarrow> gerr + 'm"
  px_DecodeMetricData :: "'m \<Rightarrow> gerr + ('v, 'x) metric_data option list"
  px_UnmarshalJSON :: "bytes \<Rightarrow> gerr + ('v, 'x) metric_data option list"
  px_Validate :: "('v, 'x) metric_data \<Rightarrow> gerr option"
  px_quote :: "string \<Rightarrow> string"
  px_ToLower :: "string \<Rightarrow> string"

definition metricsJSON :: "('v, 'x, 'm) px_lib \<Rightarrow> px_request \<Rightarrow> gerr + ('v, 'x) metric_data option list" where
  "metricsJSON lib r =
     (case px_Body r of
        None \<Rightarrow> Inl (Plain ''no data included in request'')
      | Some (Inl err) \<Rightarrow> Inl err
      | Some (Inr body) \<Rightarrow>
          (case px_UnmarshalJSON lib body of
             Inl err \<Rightarrow> Inl (Wrapped (''invalid metric data received: '' @ Error err) err)
           | Inr metrics \<Rightarrow> Inr metrics))"

definition metricsBinary ::
    "('v, 'x, 'm) px_lib \<Rightarrow> px_request \<Rightarrow> bool \<Rightarrow> gerr + ('v, 'x) metric_data option list" where
  "metricsBinary lib r compressed =
     (case px_Body r of
        None \<Rightarrow> Inl (Plain ''no data included in request'')
      | Some content \<Rightarrow>
          (case if compressed then px_snappy lib content else content of
             Inl err \<Rightarrow> Inl err
           | Inr body \<Rightarrow>
               (case px_InitFromMsg lib body of
                  Inl err \<Rightarrow> Inl (Wrapped (''invalid metric data received: '' @ Error err) err)
                | Inr metricData \<Rightarrow>
                    (case px_DecodeMetricData lib metricData of
                       Inl err \<Rightarrow> Inl (Wrapped (''invalid metric data received:'' @ Error err) err)
                     | Inr metrics \<Rightarrow> Inr metrics))))"

text \<open>\<open>px_ToLower\<close> is \<^verbatim>\<open>strings.ToLower\<close> on strings that are not ASCII.\<close>

definition extractMetricsFromRequest ::
    "('v, 'x, 'm) px_lib \<Rightarrow> px_request \<Rightarrow> gerr + ('v, 'x) metric_data option list" where
  "extractMetricsFromRequest lib r =
     (let contentType = (if list_all (\<lambda>c. (of_char c :: nat) < 128) (px_ContentType r) then ToLower (px_ContentType r)
                         else px_ToLower lib (px_ContentType r))
      in if contentType = ''rt-metric-binary'' then metricsBinary lib r False
         else if contentType = ''rt-metric-binary-snappy'' then metricsBinary lib r True
         else if contentType = ''application/json'' then metricsJSON lib r
         else Inl (Errx (UnsupportedMediaType (''unknown content-type '' @ px_quote lib contentType) None)))"

definition metricDataDefaults :: "('v, 'x) metric_data \<Rightarrow> ('v, 'x) metric_data" where
  "metricDataDefaults m =
     (let m = m\<lparr>md_OrgId := 1\<rparr> in if md_Mtype m = [] then m\<lparr>md_Mtype := ''gauge''\<rparr> else m)"

text \<open>The context is represented by the organisation in it.\<close>

definition ExtractOrgID :: "string option \<Rightarrow> string option \<times> string" where
  "ExtractOrgID org =
     (case org of
        None \<Rightarrow> (Some ''fake'', ''fake'')
      | Some userID \<Rightarrow> (Some userID, userID))"

section \<open>The handler\<close>

record 'v write_request =
  wr_Timeseries :: "(labels \<times> 'v mimir_sample list) list"
  wr_SkipLabelValidation :: bool

text \<open>What the handler does: calls on the recorder and on the client.\<close>

datatype 'v px_event = Measure metric_op | WriteCall "string option" "'v write_request"

text \<open>
  The loop that sets defaults and validates: the calls, the first error and the metrics; a nil
  pointer makes it panic, which is \<open>None\<close>.
\<close>

fun validate_loop ::
    "('v, 'x, 'm) px_lib \<Rightarrow> string \<Rightarrow> ('v, 'x) metric_data option list \<Rightarrow> gerr option
      \<Rightarrow> 'v px_event list \<times> (gerr option \<times> ('v, 'x) metric_data list) option" where
  "validate_loop lib userID [] firstValidationError = ([], Some (firstValidationError, []))"
| "validate_loop lib userID (None # metrics) firstValidationError = ([], None)"
| "validate_loop lib userID (Some md # metrics) firstValidationError =
     (let md = metricDataDefaults md
      in case px_Validate lib md of
           None \<Rightarrow>
             (case validate_loop lib userID metrics firstValidationError of
                (evs, r) \<Rightarrow> (evs, map_option (map_prod id ((#) md)) r))
         | Some validateErr \<Rightarrow>
             (case validate_loop lib userID metrics
                (if firstValidationError = None then Some validateErr else firstValidationError) of
                (evs, r) \<Rightarrow>
                  (Measure (measureRejectedSamples userID (replace_char (CHR '' '') (CHR ''_'') (Error validateErr))) # evs,
                   map_option (map_prod id ((#) md)) r)))"

definition publish ::
    "(string option \<Rightarrow> 'v write_request \<Rightarrow> metric_op list \<times> gerr option) \<Rightarrow> string option \<Rightarrow> string
      \<Rightarrow> (labels \<times> 'v mimir_sample list) list \<Rightarrow> 'v px_event list \<times> http_response" where
  "publish push ctx userID series =
     (let req = \<lparr>wr_Timeseries = series, wr_SkipLabelValidation = True\<rparr>;
          (ops, err) = push ctx req;
          evs = WriteCall ctx req # map Measure ops
      in case err of
           Some err \<Rightarrow>
             if errors_As as_TooManyRequests err \<noteq> None then (evs, http_Error (''too many requests: '' @ Error err) 429)
             else (evs, http_Error ''failed to push metric data'' 500)
         | None \<Rightarrow>
             (evs @ [Measure (measureReceivedRequest userID), Measure (measureReceivedSamples userID (length series))],
              \<lparr>rs_code = 200, rs_body = ''{'' @ [CHR 0x22] @ ''published'' @ [CHR 0x22] @ '':'' @ dec (length series) @ ''}''\<rparr>))"

definition ServeHTTP ::
    "'b label_lib \<Rightarrow> 'b \<Rightarrow> ('v, 'x, 'm) px_lib
      \<Rightarrow> (string option \<Rightarrow> 'v write_request \<Rightarrow> metric_op list \<times> gerr option)
      \<Rightarrow> string option \<Rightarrow> px_request \<Rightarrow> 'v px_event list \<times> http_response option" where
  "ServeHTTP ll b lib push org r =
     (case ExtractOrgID org of (ctx, userID) \<Rightarrow>
      case extractMetricsFromRequest lib r of
        Inl err \<Rightarrow>
          (case errors_As as_UnsupportedMediaType err of
             Some x \<Rightarrow> ([], Some (http_Error (Error_errx x) (HTTPStatusCode x)))
           | None \<Rightarrow>
               ([Measure (measureRejectedSamples userID ''cant_parse_body'')],
                Some (http_Error (''failed to parse metrics from body: '' @ Error err) 400)))
      | Inr metrics \<Rightarrow>
          let evs = [Measure (measureIncomingRequest userID), Measure (measureIncomingSamples userID (length metrics))]
          in case validate_loop lib userID metrics None of
               (evs', None) \<Rightarrow> (evs @ evs', None)
             | (evs', Some (Some firstValidationError, metrics)) \<Rightarrow>
                 (evs @ evs', Some (http_Error (''invalid metric data received: '' @ Error firstValidationError) 400))
             | (evs', Some (None, metrics)) \<Rightarrow>
                 (case GeneratePreallocTimeseries ll b metrics of
                    Inl err \<Rightarrow>
                      (evs @ evs',
                       Some (http_Error (''failed to generate prometheus series from metric payload: '' @ Error err) 400))
                  | Inr series \<Rightarrow>
                      (case publish push ctx userID series of
                         (evs'', resp) \<Rightarrow> (evs @ evs' @ [Measure (measureConversionDuration userID)] @ evs'', Some resp))))"

end
