(* ===== verification/WriteProxy_Correct.thy ===== *)
theory WriteProxy_Correct
  imports WriteProxy
begin

text \<open>
  The write proxy is correct: which requests reach the remote client, what is counted and what is
  answered, for the handler of \<open>WriteProxy\<close>, alone and together with the client of \<open>RemoteWrite\<close>.
\<close>

section \<open>The loops\<close>

definition valid_metric :: "('v, 'x, 'm) px_lib \<Rightarrow> ('v, 'x) metric_data \<Rightarrow> bool" where
  "valid_metric lib m \<longleftrightarrow> px_Validate lib (metricDataDefaults m) = None"

text \<open>Without nil pointers the loop goes through all metrics, counting every invalid one.\<close>

lemma validate_loop_Some:
  "\<exists>evs err. validate_loop lib userID (map Some ms) first = (evs, Some (err, map metricDataDefaults ms)) \<and>
    (err = None \<longleftrightarrow> first = None \<and> (\<forall>m \<in> set ms. valid_metric lib m)) \<and>
    (\<forall>e \<in> set evs. \<exists>reason. e = Measure (measureRejectedSamples userID reason)) \<and>
    length evs = length (filter (\<lambda>m. \<not> valid_metric lib m) ms)"
proof (induction ms arbitrary: first)
  case (Cons m ms)
  define f where "f = (case px_Validate lib (metricDataDefaults m) of None \<Rightarrow> first
      | Some e \<Rightarrow> if first = None then Some e else first)"
  obtain evs err where IH: "validate_loop lib userID (map Some ms) f = (evs, Some (err, map metricDataDefaults ms))"
    "err = None \<longleftrightarrow> f = None \<and> (\<forall>m \<in> set ms. valid_metric lib m)"
    "\<forall>e \<in> set evs. \<exists>reason. e = Measure (measureRejectedSamples userID reason)"
    "length evs = length (filter (\<lambda>m. \<not> valid_metric lib m) ms)"
    using Cons.IH [of f] by blast
  show ?case
  proof (cases "px_Validate lib (metricDataDefaults m)")
    case None
    then show ?thesis using IH by (auto simp: f_def valid_metric_def)
  next
    case (Some e)
    then have "f \<noteq> None" by (auto simp: f_def)
    then show ?thesis using IH Some by (auto simp: f_def valid_metric_def)
  qed
qed simp

lemma validate_loop_None:
  "None \<in> set metrics \<Longrightarrow>
    \<exists>evs. validate_loop lib userID metrics first = (evs, None) \<and>
      (\<forall>e \<in> set evs. \<exists>reason. e = Measure (measureRejectedSamples userID reason))"
proof (induction lib userID metrics first rule: validate_loop.induct)
  case (3 lib userID md metrics first)
  then show ?case by (cases "px_Validate lib (metricDataDefaults md)") fastforce+
qed simp_all

text \<open>The series that a metric becomes.\<close>

definition series_of :: "'b label_lib \<Rightarrow> 'b \<Rightarrow> ('v, 'x) metric_data \<Rightarrow> labels \<times> 'v mimir_sample list" where
  "series_of ll b m =
     (if md_Tags m = [] then LabelsFromUntaggedName ll (md_Name m) b else projr (LabelsFromTaggedName ll (md_Name m) (md_Tags m) b),
      [\<lparr>ms_Value = md_Value m, ms_TimestampMs = md_Time m * 1000\<rparr>])"

definition good_tags :: "('v, 'x) metric_data \<Rightarrow> bool" where
  "good_tags m \<longleftrightarrow> (\<forall>tag \<in> set (md_Tags m). tag_parts tag \<noteq> None)"

lemma tagged_ok:
  assumes "builder_ok ll view"
  shows "(\<exists>ls. LabelsFromTaggedName ll name tags b = Inr ls) \<longleftrightarrow> (\<forall>tag \<in> set tags. tag_parts tag \<noteq> None)"
  using tagged_labels_cases [OF assms, where name = name and tags = tags and b = b] by (auto split: sum.splits)

lemma promMetrics_eq:
  assumes "builder_ok ll view"
  shows "good_tags m \<Longrightarrow> promMetricsFromMetricData ll m b = Inr (fst (series_of ll b m), hd (snd (series_of ll b m)))"
    and "\<not> good_tags m \<Longrightarrow> \<exists>e. promMetricsFromMetricData ll m b = Inl e"
proof -
  show "promMetricsFromMetricData ll m b = Inr (fst (series_of ll b m), hd (snd (series_of ll b m)))" if g: "good_tags m"
  proof (cases "md_Tags m = []")
    case False
    then obtain ls where "LabelsFromTaggedName ll (md_Name m) (md_Tags m) b = Inr ls"
      using g tagged_ok [OF assms] unfolding good_tags_def by metis
    then show ?thesis
      using False by (simp add: promMetricsFromMetricData_def promMetricsFromMetricDataTagged_def series_of_def)
  qed (simp add: promMetricsFromMetricData_def promMetricsFromMetricDataUntagged_def series_of_def)
  show "\<exists>e. promMetricsFromMetricData ll m b = Inl e" if g: "\<not> good_tags m"
  proof -
    obtain e where "LabelsFromTaggedName ll (md_Name m) (md_Tags m) b = Inl e"
      using g tagged_ok [OF assms] unfolding good_tags_def
      by (cases "LabelsFromTaggedName ll (md_Name m) (md_Tags m) b") metis+
    moreover have "md_Tags m \<noteq> []" using g by (auto simp: good_tags_def)
    ultimately show ?thesis by (simp add: promMetricsFromMetricData_def promMetricsFromMetricDataTagged_def)
  qed
qed

lemma prealloc_eq:
  assumes "builder_ok ll view"
  shows "if \<forall>m \<in> set ms. good_tags m then GeneratePreallocTimeseries ll b ms = Inr (map (series_of ll b) ms)
    else \<exists>e. GeneratePreallocTimeseries ll b ms = Inl e"
proof (induction ms)
  case (Cons m ms)
  have two: "(fst (series_of ll b m), [hd (snd (series_of ll b m))]) = series_of ll b m"
    by (simp add: series_of_def)
  show ?case
  proof (cases "good_tags m")
    case True
    then show ?thesis using Cons promMetrics_eq(1) [OF assms True, of b] two by (auto split: if_splits)
  next
    case False
    then show ?thesis using promMetrics_eq(2) [OF assms False, of b] by auto
  qed
qed simp

lemma defaults_simps [simp]:
  "md_Name (metricDataDefaults m) = md_Name m" "md_Tags (metricDataDefaults m) = md_Tags m"
  "md_Value (metricDataDefaults m) = md_Value m" "md_Time (metricDataDefaults m) = md_Time m"
  by (simp_all add: metricDataDefaults_def Let_def)

lemma series_of_defaults [simp]:
  "series_of ll b (metricDataDefaults m) = series_of ll b m" "good_tags (metricDataDefaults m) = good_tags m"
  by (simp_all add: series_of_def good_tags_def)

section \<open>The handler by cases\<close>

definition user_of :: "string option \<Rightarrow> string" where
  "user_of org = (case org of None \<Rightarrow> ''fake'' | Some u \<Rightarrow> u)"

lemma ExtractOrgID_eq: "ExtractOrgID org = (Some (user_of org), user_of org)"
  by (cases org) (simp_all add: ExtractOrgID_def user_of_def)

text \<open>All metrics are there, valid and with proper tags.\<close>

definition acceptable :: "('v, 'x, 'm) px_lib \<Rightarrow> ('v, 'x) metric_data option list \<Rightarrow> bool" where
  "acceptable lib metrics \<longleftrightarrow> (\<forall>x \<in> set metrics. \<exists>m. x = Some m \<and> valid_metric lib m \<and> good_tags m)"

definition incoming :: "string \<Rightarrow> nat \<Rightarrow> 'v px_event list" where
  "incoming userID n = [Measure (measureIncomingRequest userID), Measure (measureIncomingSamples userID n)]"

definition only_rejections :: "string \<Rightarrow> 'v px_event list \<Rightarrow> bool" where
  "only_rejections userID evs \<longleftrightarrow> (\<forall>e \<in> set evs. \<exists>reason. e = Measure (measureRejectedSamples userID reason))"

lemma serve_bad_body:
  assumes "extractMetricsFromRequest lib r = Inl err"
  shows "\<exists>evs resp. ServeHTTP ll b lib push org r = (evs, Some resp) \<and> only_rejections (user_of org) evs \<and>
    rs_code resp = (if errors_As as_UnsupportedMediaType err = None then 400 else 415)"
proof (cases "errors_As as_UnsupportedMediaType err")
  case None
  then show ?thesis using assms by (auto simp: ServeHTTP_def ExtractOrgID_eq only_rejections_def http_Error_def)
next
  case (Some x)
  have "\<exists>msg c. y = UnsupportedMediaType msg c" if "as_UnsupportedMediaType e = Some y" for e y
    using that by (cases e rule: as_UnsupportedMediaType.cases) auto
  moreover obtain e where "as_UnsupportedMediaType e = Some x"
  proof -
    have "x \<in> set (List.map_filter as_UnsupportedMediaType (unwrap_chain err))"
      using Some by (auto simp: errors_As_def split: list.splits)
    then show ?thesis using that by (auto simp: List.map_filter_def)
  qed
  ultimately have "HTTPStatusCode x = 415" by fastforce
  then show ?thesis using assms Some by (simp add: ServeHTTP_def ExtractOrgID_eq only_rejections_def http_Error_def)
qed

text \<open>
  The rejections that are counted: one for every metric that does not validate, up to the first nil
  pointer if there is one, with the text of the error as the reason.
\<close>

definition rejections :: "('v, 'x, 'm) px_lib \<Rightarrow> string \<Rightarrow> ('v, 'x) metric_data option list \<Rightarrow> metric_op list" where
  "rejections lib u metrics =
     map (\<lambda>e. measureRejectedSamples u (replace_char (CHR '' '') (CHR ''_'') (Error e)))
       (List.map_filter (\<lambda>m. px_Validate lib (metricDataDefaults m)) (map the (takeWhile (\<lambda>x. x \<noteq> None) metrics)))"

lemma validate_loop_events: "fst (validate_loop lib u metrics first) = map Measure (rejections lib u metrics)"
proof (induction lib u metrics first rule: validate_loop.induct)
  case (3 lib u md metrics first)
  then show ?case
    by (cases "px_Validate lib (metricDataDefaults md)")
      (simp_all add: rejections_def List.map_filter_simps Let_def split_beta)
qed (simp_all add: rejections_def List.map_filter_simps)

lemma serve_metrics:
  assumes "builder_ok ll view" and "extractMetricsFromRequest lib r = Inr metrics"
  shows "\<exists>evs. evs = map Measure (rejections lib (user_of org) metrics) \<and> only_rejections (user_of org) evs \<and>
    (if None \<in> set metrics
     then ServeHTTP ll b lib push org r = (incoming (user_of org) (length metrics) @ evs, None)
     else if \<not> acceptable lib metrics
     then \<exists>resp. ServeHTTP ll b lib push org r = (incoming (user_of org) (length metrics) @ evs, Some resp) \<and> rs_code resp = 400
     else evs = [] \<and> ServeHTTP ll b lib push org r =
       (case publish push (Some (user_of org)) (user_of org) (map (series_of ll b \<circ> the) metrics) of
          (evs', resp) \<Rightarrow>
            (incoming (user_of org) (length metrics) @ [Measure (measureConversionDuration (user_of org))] @ evs', Some resp)))"
proof (cases "None \<in> set metrics")
  case True
  then obtain evs where "validate_loop lib (user_of org) metrics None = (evs, None)" "only_rejections (user_of org) evs"
    using validate_loop_None [OF True, of lib "user_of org" None] unfolding only_rejections_def by blast
  moreover have "evs = map Measure (rejections lib (user_of org) metrics)"
    using validate_loop_events [of lib "user_of org" metrics None] calculation by simp
  ultimately show ?thesis
    using True assms(2) by (intro exI [of _ evs]) (simp add: ServeHTTP_def ExtractOrgID_eq incoming_def)
next
  case False
  define ms where "ms = map the metrics"
  have "x = Some (the x)" if "x \<in> set metrics" for x using that False by (metis option.collapse)
  then have "map (Some \<circ> the) metrics = map id metrics" by (intro map_cong) auto
  then have metrics: "metrics = map Some ms" by (simp add: ms_def)
  obtain evs err where v: "validate_loop lib (user_of org) (map Some ms) None = (evs, Some (err, map metricDataDefaults ms))"
    "err = None \<longleftrightarrow> (\<forall>m \<in> set ms. valid_metric lib m)" "only_rejections (user_of org) evs"
    "length evs = length (filter (\<lambda>m. \<not> valid_metric lib m) ms)"
    using validate_loop_Some [of lib "user_of org" ms None] unfolding only_rejections_def by blast
  have rej: "evs = map Measure (rejections lib (user_of org) metrics)"
    using validate_loop_events [of lib "user_of org" "map Some ms" None] v(1) by (simp add: metrics)
  have acc: "acceptable lib metrics \<longleftrightarrow> (\<forall>m \<in> set ms. valid_metric lib m) \<and> (\<forall>m \<in> set ms. good_tags m)"
    by (auto simp: acceptable_def metrics)
  have gen: "if \<forall>m \<in> set ms. good_tags m
      then GeneratePreallocTimeseries ll b (map metricDataDefaults ms) = Inr (map (series_of ll b) ms)
      else \<exists>e. GeneratePreallocTimeseries ll b (map metricDataDefaults ms) = Inl e"
    using prealloc_eq [OF assms(1), of "map metricDataDefaults ms" b] by (simp add: comp_def)
  show ?thesis
  proof (cases err)
    case (Some e)
    then show ?thesis using False v assms(2) acc rej
      by (intro exI [of _ evs]) (simp add: ServeHTTP_def ExtractOrgID_eq incoming_def metrics http_Error_def)
  next
    case None
    then have evs: "evs = []" using v(2,4) by (simp add: filter_empty_conv)
    show ?thesis
    proof (cases "\<forall>m \<in> set ms. good_tags m")
      case True
      then have "acceptable lib metrics" using acc None v(2) by blast
      then show ?thesis using False v evs None True gen assms(2) rej
        by (intro exI [of _ "[]"])
          (simp add: ServeHTTP_def ExtractOrgID_eq incoming_def metrics only_rejections_def comp_def split: prod.split)
    next
      case bad: False
      then obtain e where "GeneratePreallocTimeseries ll b (map metricDataDefaults ms) = Inl e" using gen bad by (auto simp only: if_False)
      then show ?thesis using False v evs None bad assms(2) acc rej
        by (intro exI [of _ "[]"])
          (simp add: ServeHTTP_def ExtractOrgID_eq incoming_def metrics only_rejections_def http_Error_def)
    qed
  qed
qed

section \<open>The client of the proxy\<close>

text \<open>
  What the proxy asks of its client: it keeps off the counters of the proxy. The client of
  \<open>RemoteWrite\<close> does.
\<close>

definition proxy_counters :: "string list" where
  "proxy_counters = [''received_requests_total'', ''requests_in_total'', ''received_samples_total'',
     ''samples_in_total'', ''rejected_samples_total'']"

text \<open>The calls on recorders among the events.\<close>

definition ops_of :: "'v px_event list \<Rightarrow> metric_op list" where
  "ops_of evs = concat (map (\<lambda>e. case e of Measure op \<Rightarrow> [op] | WriteCall ctx req \<Rightarrow> []) evs)"

lemma ops_of_simps [simp]:
  "ops_of [] = []" "ops_of (Measure op # evs) = op # ops_of evs" "ops_of (WriteCall ctx req # evs) = ops_of evs"
  "ops_of (xs @ ys) = ops_of xs @ ops_of ys"
  by (simp_all add: ops_of_def)

lemma ops_of_Measure [simp]: "ops_of (map Measure ops) = ops"
  by (induction ops) simp_all

text \<open>The calls on the metrics of the proxy's own recorder.\<close>

fun proxy_op :: "metric_op \<Rightarrow> bool" where
  "proxy_op (CounterAdd n lvs k) = (fst n = recorder_prefix \<and> snd n \<in> set proxy_counters)"
| "proxy_op (Observe n lvs) = (n = (recorder_prefix, ''data_conversion_seconds''))"

lemma proxy_op_measures [simp]:
  "proxy_op (measureReceivedRequest u)" "proxy_op (measureIncomingRequest u)" "proxy_op (measureReceivedSamples u n)"
  "proxy_op (measureIncomingSamples u n)" "proxy_op (measureRejectedSamples u reason)" "proxy_op (measureConversionDuration u)"
  by (simp_all add: proxy_recorder_defs proxy_counters_def)

text \<open>
  The books: the calls on the recorder for a request of the organisation \<open>u\<close>, whose body is decoded as
  \<open>decoded\<close> and which is answered by \<open>status\<close>, if at all.
\<close>

definition proxy_calls ::
    "('v, 'x, 'm) px_lib \<Rightarrow> string \<Rightarrow> gerr + ('v, 'x) metric_data option list \<Rightarrow> int option \<Rightarrow> metric_op list" where
  "proxy_calls lib u decoded status =
     (case decoded of
        Inl err \<Rightarrow> if errors_As as_UnsupportedMediaType err = None then [measureRejectedSamples u ''cant_parse_body''] else []
      | Inr metrics \<Rightarrow>
          [measureIncomingRequest u, measureIncomingSamples u (length metrics)] @
          rejections lib u metrics @
          (if acceptable lib metrics then [measureConversionDuration u] else []) @
          (if status = Some 200 then [measureReceivedRequest u, measureReceivedSamples u (length metrics)] else []))"

locale quiet_client =
  fixes push :: "string option \<Rightarrow> 'v write_request \<Rightarrow> metric_op list \<times> gerr option"
  assumes quiet: "op \<in> set (fst (push ctx req)) \<Longrightarrow> \<not> proxy_op op"
begin

lemma others [simp]: "filter proxy_op (fst (push ctx req)) = []"
  using quiet [of _ ctx req] by (auto simp: filter_empty_conv)

lemma publish_ops:
  assumes "publish push ctx u series = (evs, resp)"
  shows "filter proxy_op (ops_of evs) =
    (if rs_code resp = 200 then [measureReceivedRequest u, measureReceivedSamples u (length series)] else [])"
proof -
  obtain ops err where w: "push ctx \<lparr>wr_Timeseries = series, wr_SkipLabelValidation = True\<rparr> = (ops, err)" by fastforce
  then have none: "filter proxy_op ops = []" using others [of ctx "\<lparr>wr_Timeseries = series, wr_SkipLabelValidation = True\<rparr>"] by simp
  show ?thesis
    using assms none w by (cases err) (auto simp: publish_def http_Error_def Let_def split: if_splits)
qed

lemma accounting:
  assumes "builder_ok ll view" and "ServeHTTP ll b lib push org r = (evs, resp)"
  shows "filter proxy_op (ops_of evs) = proxy_calls lib (user_of org) (extractMetricsFromRequest lib r) (map_option rs_code resp)"
proof (cases "extractMetricsFromRequest lib r")
  case (Inl err)
  then show ?thesis
    using assms(2) by (auto simp: ServeHTTP_def ExtractOrgID_eq proxy_calls_def http_Error_def split: option.splits)
next
  case (Inr metrics)
  let ?u = "user_of org"
  let ?in = "incoming ?u (length metrics) :: 'v px_event list" and ?rej = "map Measure (rejections lib ?u metrics) :: 'v px_event list"
  have inc: "filter proxy_op (ops_of ?in) = [measureIncomingRequest ?u, measureIncomingSamples ?u (length metrics)]"
    by (simp add: incoming_def)
  have rej: "filter proxy_op (rejections lib ?u metrics) = rejections lib ?u metrics"
    by (auto simp: rejections_def intro!: filter_True)
  have cases: "if None \<in> set metrics
     then ServeHTTP ll b lib push org r = (?in @ ?rej, None)
     else if \<not> acceptable lib metrics
     then \<exists>resp. ServeHTTP ll b lib push org r = (?in @ ?rej, Some resp) \<and> rs_code resp = 400
     else ?rej = [] \<and> ServeHTTP ll b lib push org r =
       (case publish push (Some ?u) ?u (map (series_of ll b \<circ> the) metrics) of
          (evs'', resp) \<Rightarrow> (?in @ [Measure (measureConversionDuration ?u)] @ evs'', Some resp))"
    using serve_metrics [OF assms(1) Inr, where org = org and b = b and push = push] by blast
  have nil: "acceptable lib metrics \<Longrightarrow> None \<notin> set metrics" by (auto simp: acceptable_def)
  show ?thesis
  proof (cases "acceptable lib metrics")
    case False
    then have "evs = ?in @ ?rej \<and> map_option rs_code resp \<noteq> Some 200" using cases assms(2) by (auto split: if_splits)
    then show ?thesis using False inc rej by (auto simp: proxy_calls_def Inr)
  next
    case True
    obtain evs'' resp' where p: "publish push (Some ?u) ?u (map (series_of ll b \<circ> the) metrics) = (evs'', resp')" by fastforce
    then have "evs = ?in @ [Measure (measureConversionDuration ?u)] @ evs''" "resp = Some resp'" "rejections lib ?u metrics = []"
      using cases True nil assms(2) by auto
    then show ?thesis using True inc publish_ops [OF p] by (simp add: proxy_calls_def Inr)
  qed
qed

end

lemma client_ops:
  "\<forall>op \<in> set (fst (measured_Write (client_Write lib c) pfx org req)).
     op = measureOutOfOrderSamples (cl_recorder c) 1 \<or> (\<exists>failed. op = measure_op pfx ''Write'' failed)"
  by (auto simp: measured_Write_def client_Write_def client_do_def errFromResp_def Let_def
      split: sum.splits option.splits prod.splits if_splits)

interpretation rwc: quiet_client "measured_Write (client_Write lib c) pfx" for lib c pfx
proof
  fix op ctx req
  assume "op \<in> set (fst (measured_Write (client_Write lib c) pfx ctx req))"
  then show "\<not> proxy_op op"
    using client_ops [of lib c pfx ctx req] by (auto simp: measureOutOfOrderSamples_def measure_op_def proxy_counters_def)
qed

lemma added_proxy_op:
  assumes "name \<in> set proxy_counters"
  shows "added name (filter proxy_op ops) = added name ops"
  using assms by (induction name ops rule: added.induct) (auto simp: proxy_counters_def)

lemma added_rejections: "added ''rejected_samples_total'' (rejections lib u metrics) = length (rejections lib u metrics)"
  "added ''samples_in_total'' (rejections lib u metrics) = 0" "added ''received_samples_total'' (rejections lib u metrics) = 0"
proof -
  have "added ''rejected_samples_total'' (map (\<lambda>e. measureRejectedSamples u (f e)) es) = length es"
    "added ''samples_in_total'' (map (\<lambda>e. measureRejectedSamples u (f e)) es) = 0"
    "added ''received_samples_total'' (map (\<lambda>e. measureRejectedSamples u (f e)) es) = 0" for f and es :: "gerr list"
    by (induction es) (simp_all add: measureRejectedSamples_def)
  then show "added ''rejected_samples_total'' (rejections lib u metrics) = length (rejections lib u metrics)"
    "added ''samples_in_total'' (rejections lib u metrics) = 0" "added ''received_samples_total'' (rejections lib u metrics) = 0"
    by (simp_all add: rejections_def)
qed

section \<open>Properties\<close>

text \<open>
  C17. A request is written as a whole or not at all: once its body is decoded, the client is called
  exactly if every metric is there, validates after the defaults are set and has proper tags, then
  once, with one series per metric in the order of the request and one sample each at 1000 times
  the time of the metric. The handler panics exactly if there is a nil metric.
\<close>

theorem proxy_writes_whole_request:
  assumes "builder_ok ll view" and "extractMetricsFromRequest lib r = Inr metrics"
    and "ServeHTTP ll b lib push org r = (evs, resp)"
  shows "filter (\<lambda>e. case e of WriteCall ctx req \<Rightarrow> True | Measure op \<Rightarrow> False) evs =
      (if acceptable lib metrics
       then [WriteCall (Some (user_of org)) \<lparr>wr_Timeseries = map (series_of ll b \<circ> the) metrics, wr_SkipLabelValidation = True\<rparr>]
       else []) \<and>
    (resp = None \<longleftrightarrow> None \<in> set metrics)"
proof -
  let ?w = "\<lambda>e. case e of WriteCall ctx req \<Rightarrow> True | Measure op \<Rightarrow> False"
  have none: "filter ?w es = []" if "only_rejections u es" for es u
    using that by (auto simp: only_rejections_def filter_empty_conv split: px_event.splits)
  have meas: "filter ?w (map Measure ops) = []" for ops by (auto simp: filter_empty_conv)
  have inc: "filter ?w (incoming u n) = []" for u n by (simp add: incoming_def)
  have nil: "None \<in> set metrics \<Longrightarrow> \<not> acceptable lib metrics" by (force simp: acceptable_def)
  obtain evs' where rej: "only_rejections (user_of org) evs'" and cases:
    "if None \<in> set metrics
     then ServeHTTP ll b lib push org r = (incoming (user_of org) (length metrics) @ evs', None)
     else if \<not> acceptable lib metrics
     then \<exists>resp. ServeHTTP ll b lib push org r = (incoming (user_of org) (length metrics) @ evs', Some resp) \<and> rs_code resp = 400
     else evs' = [] \<and> ServeHTTP ll b lib push org r =
       (case publish push (Some (user_of org)) (user_of org) (map (series_of ll b \<circ> the) metrics) of
          (evs'', resp) \<Rightarrow>
            (incoming (user_of org) (length metrics) @ [Measure (measureConversionDuration (user_of org))] @ evs'', Some resp))"
    using serve_metrics [OF assms(1,2), where org = org and b = b and push = push] by auto
  show ?thesis
  proof (cases "None \<in> set metrics \<or> \<not> acceptable lib metrics")
    case True
    then show ?thesis using cases assms(3) none [OF rej] inc nil by (auto split: if_splits)
  next
    case False
    then show ?thesis using cases assms(3) inc
      by (auto simp: publish_def Let_def meas split: prod.splits option.splits if_splits)
  qed
qed

text \<open>A request with one untagged metric.\<close>

definition one_metric :: "(nat, unit) metric_data" where
  "one_metric = \<lparr>md_OrgId = 0, md_Name = to_bytes ''a'', md_Tags = [], md_Mtype = [], md_Value = 7, md_Time = 2, md_rest = ()\<rparr>"

definition one_lib :: "(nat, unit, unit) px_lib" where
  "one_lib =
     \<lparr>px_snappy = (\<lambda>c. c), px_InitFromMsg = (\<lambda>b. Inr ()), px_DecodeMetricData = (\<lambda>m. Inr [Some one_metric]),
      px_UnmarshalJSON = (\<lambda>b. Inr [None]), px_Validate = (\<lambda>m. if md_Mtype m = [] then Some (Plain ''invalid mtype'') else None),
      px_quote = (\<lambda>s. s), px_ToLower = (\<lambda>s. s)\<rparr>"

lemma one_request:
  "extractMetricsFromRequest one_lib \<lparr>px_ContentType = ''RT-metric-binary'', px_Body = Some (Inr [])\<rparr> = Inr [Some one_metric]"
  "acceptable one_lib [Some one_metric]"
proof -
  have "ToLower ''RT-metric-binary'' = ''rt-metric-binary''" by code_simp
  then show "extractMetricsFromRequest one_lib \<lparr>px_ContentType = ''RT-metric-binary'', px_Body = Some (Inr [])\<rparr> = Inr [Some one_metric]"
    by (simp add: extractMetricsFromRequest_def metricsBinary_def one_lib_def)
  show "acceptable one_lib [Some one_metric]"
    by (simp add: acceptable_def valid_metric_def good_tags_def one_lib_def one_metric_def metricDataDefaults_def)
qed

theorem proxy_writes_whole_request_witness:
  "\<exists>req. WriteCall (Some ''fake'') req \<in> set (fst (ServeHTTP pair_lib [] one_lib (\<lambda>ctx req. ([], None)) None
      \<lparr>px_ContentType = ''RT-metric-binary'', px_Body = Some (Inr [])\<rparr>)) \<and>
    map (map ms_TimestampMs \<circ> snd) (wr_Timeseries req) = [[2000]]"
proof -
  define push :: "string option \<Rightarrow> nat write_request \<Rightarrow> metric_op list \<times> gerr option" where "push = (\<lambda>ctx req. ([], None))"
  let ?r = "\<lparr>px_ContentType = ''RT-metric-binary'', px_Body = Some (Inr [])\<rparr>"
  let ?req = "\<lparr>wr_Timeseries = map (series_of pair_lib [] \<circ> the) [Some one_metric], wr_SkipLabelValidation = True\<rparr>"
  obtain evs resp where s: "ServeHTTP pair_lib [] one_lib push None ?r = (evs, resp)" by fastforce
  have "filter (\<lambda>e. case e of WriteCall ctx req \<Rightarrow> True | Measure op \<Rightarrow> False) evs = [WriteCall (Some (user_of None)) ?req]"
    using proxy_writes_whole_request [OF pair_lib_ok one_request(1) s] one_request(2) by simp
  then have "WriteCall (Some (user_of None)) ?req \<in> set evs"
    by (metis (no_types, lifting) filter_is_subset list.set_intros(1) subsetD)
  moreover have "map (map ms_TimestampMs \<circ> snd) (wr_Timeseries ?req) = [[2000]]"
    by (simp add: series_of_def one_metric_def)
  moreover have "user_of None = ''fake''" by (simp add: user_of_def)
  ultimately show ?thesis using s unfolding push_def by (metis fst_conv)
qed


definition plain_config :: rw_config where
  "plain_config = \<lparr>rw_Endpoint = ''http://x'', rw_Timeout = 1, rw_KeepAlive = 1, rw_MaxIdleConns = 10, rw_MaxConns = 100,
     rw_SkipLabelValidation = False, rw_UserAgent = []\<rparr>"

text \<open>Libraries that do what is asked of them, where the server answers every request by \<open>code\<close>.\<close>

definition plain_lib :: "int \<Rightarrow> nat write_request rw_lib" where
  "plain_lib code =
     \<lparr>rw_Marshal = (\<lambda>r. Inr []), rw_snappy = (\<lambda>b. b), rw_ParseURL = (\<lambda>u. Inr u), rw_NewRequest = (\<lambda>e. None),
      rw_InjectOrgID = (\<lambda>org hs. case org of None \<Rightarrow> Inl (Plain ''no org id'') | Some org \<Rightarrow> Inr (header_Set org_header org hs)),
      rw_Transport = (\<lambda>t q. Inr \<lparr>a_code = code, a_status = [], a_body = []\<rparr>), rw_HTTPClient = (\<lambda>rt. rt),
      rw_Span = (\<lambda>q. True), rw_TraceRequest = (\<lambda>name q. q), rw_nethttp = (\<lambda>rt. rt), rw_SkipHeader = ''S''\<rparr>"

lemma plain_wire: "wire_ok (plain_lib code)"
proof -
  have "\<exists>extra. rw_nethttp (plain_lib code) rt q = rt (q\<lparr>q_header := q_header q @ extra\<rparr>)" for rt q
    by (rule exI [of _ "[]"]) (simp add: plain_lib_def)
  then have "trace_ok (plain_lib code)" by (simp add: trace_ok_def) (simp add: plain_lib_def)
  moreover have "inject_ok (plain_lib code)" by (simp add: inject_ok_def plain_lib_def)
  moreover have "do_ok (plain_lib code)" by (simp add: do_ok_def plain_lib_def split: sum.splits)
  moreover have "rw_SkipHeader (plain_lib code) = ''S''" by (simp add: plain_lib_def)
  ultimately show ?thesis by (simp add: wire_ok_def org_header_def)
qed

definition plain_client :: "int \<Rightarrow> client" where
  "plain_client code =
     \<lparr>cl_cfg = plain_config,
      cl_httpClient = NewTracedAuthRoundTripper (plain_lib code) (rw_Transport (plain_lib code) (client_transport plain_config)) ''Remote Write'',
      cl_endpoint = ''http://x'', cl_recorder = ''p''\<rparr>"

lemma plain_NewClient: "NewClient (plain_lib code) plain_config ''p'' None = Inr (plain_client code)"
  by (simp add: NewClient_def plain_client_def Let_def) (simp add: plain_lib_def plain_config_def)


text \<open>
  C19. How the answer of the remote server reaches the sender of an acceptable request: a success
  becomes 200, 429 stays 429, and every other status, also 400, becomes 500.
\<close>

theorem proxy_status_of_upstream:
  assumes "builder_ok ll view" and "extractMetricsFromRequest lib r = Inr metrics" and "acceptable lib metrics"
    and "wire_ok rlib" and "NewClient rlib cfg pfx None = Inr c"
    and "\<And>req. \<exists>data. rw_Marshal rlib req = Inr data" and "rw_NewRequest rlib (cl_endpoint c) = None"
    and "\<And>q. rw_Transport rlib (client_transport cfg) q = Inr answer" and "\<not> redirection (a_code answer)"
  shows "map_option rs_code (snd (ServeHTTP ll b lib (measured_Write (client_Write rlib c) pfx) org r)) =
    Some (if 200 \<le> a_code answer \<and> a_code answer < 300 then 200 else if a_code answer = 429 then 429 else 500)"
proof -
  have w: "client_Write rlib c (Some u) req =
      (if a_code answer < 200 \<or> 300 \<le> a_code answer then map_prod id Some (errFromResp c answer) else ([], None))" for u req
    using new_client_wire [OF assms(4,5) _ assms(7)] assms(6,8,9) by metis
  have nil: "None \<notin> set metrics" using assms(3) by (force simp: acceptable_def)
  have tmr: "errors_As as_TooManyRequests (snd (errFromResp c answer)) \<noteq> None \<longleftrightarrow> a_code answer = 429"
    by (simp add: errFromResp_def Let_def errors_As_def List.map_filter_simps)
  have code: "rs_code (snd (publish (measured_Write (client_Write rlib c) pfx) (Some u) u ss)) =
      (if 200 \<le> a_code answer \<and> a_code answer < 300 then 200 else if a_code answer = 429 then 429 else 500)" for u ss
  proof (cases "a_code answer < 200 \<or> 300 \<le> a_code answer")
    case True
    obtain ops e where e: "errFromResp c answer = (ops, e)" by fastforce
    then show ?thesis using True tmr
      by (auto simp: publish_def measured_Write_def w Let_def http_Error_def)
  next
    case False
    then show ?thesis by (simp add: publish_def measured_Write_def w Let_def)
  qed
  show ?thesis
    using serve_metrics [OF assms(1,2), where org = org and b = b and push = "measured_Write (client_Write rlib c) pfx"]
      nil assms(3) code [of "user_of org" "map (series_of ll b \<circ> the) metrics"] by (auto split: prod.splits)
qed

theorem proxy_status_of_upstream_witness:
  "map_option rs_code (snd (ServeHTTP pair_lib [] one_lib
      (measured_Write (client_Write (plain_lib 400) (plain_client 400)) ''p'') None
      \<lparr>px_ContentType = ''RT-metric-binary'', px_Body = Some (Inr [])\<rparr>)) = Some 500"
proof -
  have l: "\<exists>data. rw_Marshal (plain_lib 400) req = Inr data" "rw_NewRequest (plain_lib 400) (cl_endpoint (plain_client 400)) = None"
    "rw_Transport (plain_lib 400) (client_transport plain_config) q = Inr \<lparr>a_code = 400, a_status = [], a_body = []\<rparr>" for req q
    by (simp_all add: plain_lib_def)
  show ?thesis
    using proxy_status_of_upstream [OF pair_lib_ok one_request plain_wire plain_NewClient l, where org = None and b = "[]"]
    by (simp add: redirection_def)
qed

text \<open>
  C36. What goes over the wire when a client made by \<open>NewClient\<close> writes a request: a POST to the endpoint
  with the compressed message, the headers of the protocol and the organisation of the caller, whatever
  the tracing adds behind them. The two transports and the client inject the organisation twice, to the same
  effect. The answer decides the result as \<open>errFromResp\<close> says; when there is none, it is an internal error.
\<close>

theorem new_client_sends:
  assumes "wire_ok lib" and "NewClient lib cfg pfx None = Inr c"
    and "rw_Marshal lib req = Inr data" and "rw_NewRequest lib (cl_endpoint c) = None"
  shows "\<exists>extra. case rw_Transport lib (client_transport cfg)
      \<lparr>q_method = ''POST'', q_url = cl_endpoint c, q_header = write_headers lib cfg org @ extra, q_body = rw_snappy lib data,
       q_timeout = rw_Timeout cfg, q_org = Some org\<rparr> of
      Inl err \<Rightarrow> \<exists>err. client_Write lib c (Some org) req = ([], Some (Errx (Internal ''can't perform metrics write request'' (Some err))))
    | Inr resp \<Rightarrow> \<not> redirection (a_code resp) \<longrightarrow> client_Write lib c (Some org) req =
        (if a_code resp < 200 \<or> 300 \<le> a_code resp then map_prod id Some (errFromResp c resp) else ([], None))"
proof (rule new_client_wire [OF assms, of org])
  fix extra answer
  assume "answer = rw_Transport lib (client_transport cfg)
      \<lparr>q_method = ''POST'', q_url = cl_endpoint c, q_header = write_headers lib cfg org @ extra, q_body = rw_snappy lib data,
       q_timeout = rw_Timeout cfg, q_org = Some org\<rparr>"
    and "\<And>err. answer = Inl err \<Longrightarrow>
      \<exists>err. client_Write lib c (Some org) req = ([], Some (Errx (Internal ''can't perform metrics write request'' (Some err))))"
    and "\<And>resp. answer = Inr resp \<Longrightarrow> \<not> redirection (a_code resp) \<Longrightarrow> client_Write lib c (Some org) req =
      (if a_code resp < 200 \<or> 300 \<le> a_code resp then map_prod id Some (errFromResp c resp) else ([], None))"
  then show ?thesis by (intro exI [of _ extra]) (auto split: sum.splits)
qed

text \<open>A server that only accepts the writes of organisation 7.\<close>

definition picky_lib :: "nat write_request rw_lib" where
  "picky_lib = (plain_lib 200)\<lparr>rw_Transport := (\<lambda>t q. Inr \<lparr>a_code = (if (org_header, ''7'') \<in> set (q_header q) then 204 else 401),
     a_status = [], a_body = []\<rparr>)\<rparr>"

theorem new_client_sends_witness:
  "\<exists>c. NewClient picky_lib plain_config ''p'' None = Inr c \<and> (\<forall>req. client_Write picky_lib c (Some ''7'') req = ([], None))"
proof -
  have w: "wire_ok picky_lib"
    using plain_wire [of 200] by (simp add: picky_lib_def wire_ok_def inject_ok_def trace_ok_def do_ok_def cong: sum.case_cong)
  obtain c where c: "NewClient picky_lib plain_config ''p'' None = Inr c"
    by (simp add: NewClient_def picky_lib_def plain_lib_def Let_def)
  have m: "rw_Marshal picky_lib req = Inr []" "rw_NewRequest picky_lib (cl_endpoint c) = None" for req
    by (simp_all add: picky_lib_def plain_lib_def)
  have t: "rw_Transport picky_lib t q = Inr \<lparr>a_code = (if (org_header, ''7'') \<in> set (q_header q) then 204 else 401),
     a_status = [], a_body = []\<rparr>" for t q by (simp add: picky_lib_def)
  have "client_Write picky_lib c (Some ''7'') req = ([], None)" for req
    using new_client_sends [OF w c m, of "''7''" req]
    by (simp add: t write_headers_def redirection_def)
  with c show ?thesis by blast
qed

end
