(* ===== verification/Url.thy ===== *)
theory Url
  imports Strings "HOL-Library.List_Lexorder" "HOL-Library.Char_ord"
begin

text \<open>
  What the code uses of Go's \<^verbatim>\<open>net/url\<close>: the query of a URL, parsed into its values and encoded
  again, as the package does it.
\<close>

section \<open>Escapes\<close>

definition alnum :: "char \<Rightarrow> bool" where
  "alnum c = (let n = (of_char c :: nat) in 48 \<le> n \<and> n \<le> 57 \<or> 65 \<le> n \<and> n \<le> 90 \<or> 97 \<le> n \<and> n \<le> 122)"

definition unreserved :: "char \<Rightarrow> bool" where
  "unreserved c \<longleftrightarrow> alnum c \<or> c \<in> set ''-_.~''"

definition hexdigit :: "nat \<Rightarrow> char" where
  "hexdigit n = ''0123456789ABCDEF'' ! n"

definition unhex :: "char \<Rightarrow> nat option" where
  "unhex c =
     (let n = (of_char c :: nat)
      in if 48 \<le> n \<and> n \<le> 57 then Some (n - 48)
         else if 97 \<le> n \<and> n \<le> 102 then Some (n - 87)
         else if 65 \<le> n \<and> n \<le> 70 then Some (n - 55)
         else None)"

definition escape_char :: "char \<Rightarrow> string" where
  "escape_char c =
     (if unreserved c then [c]
      else if c = CHR '' '' then ''+''
      else [CHR ''%'', hexdigit (of_char c div 16), hexdigit (of_char c mod 16)])"

definition QueryEscape :: "string \<Rightarrow> string" where
  "QueryEscape s = concat (map escape_char s)"

fun QueryUnescape :: "string \<Rightarrow> string option" where
  "QueryUnescape [] = Some []"
| "QueryUnescape (c # cs) =
     (if c = CHR ''%'' then
        (case cs of
           a # b # rest \<Rightarrow>
             (case (unhex a, unhex b) of
                (Some x, Some y) \<Rightarrow> map_option ((#) (char_of (16 * x + y))) (QueryUnescape rest)
              | _ \<Rightarrow> None)
         | _ \<Rightarrow> None)
      else map_option ((#) (if c = CHR ''+'' then CHR '' '' else c)) (QueryUnescape cs))"

section \<open>Queries\<close>

text \<open>
  \<^verbatim>\<open>url.Values\<close>: the values of each key, in the order of their first occurrence. Pairs that cannot
  be read are dropped, as \<^verbatim>\<open>Query\<close> ignores the error.
\<close>

type_synonym url_values = "(string \<times> string list) list"

definition Cut :: "char \<Rightarrow> string \<Rightarrow> string \<times> string" where
  "Cut sep s = (takeWhile (\<lambda>c. c \<noteq> sep) s, tl (dropWhile (\<lambda>c. c \<noteq> sep) s))"

fun add_value :: "string \<Rightarrow> string \<Rightarrow> url_values \<Rightarrow> url_values" where
  "add_value k v [] = [(k, [v])]"
| "add_value k v ((k', vs) # m) = (if k' = k then (k, vs @ [v]) # m else (k', vs) # add_value k v m)"

definition parse_pair :: "string \<Rightarrow> url_values \<Rightarrow> url_values" where
  "parse_pair p m =
     (if CHR '';'' \<in> set p \<or> p = [] then m
      else
        (case Cut (CHR ''='') p of
           (key, value) \<Rightarrow>
             (case (QueryUnescape key, QueryUnescape value) of
                (Some k, Some v) \<Rightarrow> add_value k v m
              | _ \<Rightarrow> m)))"

definition ParseQuery :: "string \<Rightarrow> url_values" where
  "ParseQuery query = fold parse_pair (split_at (CHR ''&'') query) []"

definition Get :: "url_values \<Rightarrow> string \<Rightarrow> string" where
  "Get m key = (case map_of m key of Some (v # vs) \<Rightarrow> v | _ \<Rightarrow> [])"

fun Set_value :: "string \<Rightarrow> string \<Rightarrow> url_values \<Rightarrow> url_values" where
  "Set_value k v [] = [(k, [v])]"
| "Set_value k v ((k', vs) # m) = (if k' = k then (k, [v]) # m else (k', vs) # Set_value k v m)"

definition encode_pairs :: "url_values \<Rightarrow> (string \<times> string) list" where
  "encode_pairs m = concat (map (\<lambda>k. map (\<lambda>v. (k, v)) (the (map_of m k))) (sort (map fst m)))"

definition Encode :: "url_values \<Rightarrow> string" where
  "Encode m = join ''&'' (map (\<lambda>(k, v). QueryEscape k @ ''='' @ QueryEscape v) (encode_pairs m))"

record url =
  url_Scheme :: string
  url_Opaque :: string
  url_EscapedPath :: string
  url_RawQuery :: string
  url_ForceQuery :: bool

definition Query :: "url \<Rightarrow> url_values" where
  "Query u = ParseQuery (url_RawQuery u)"

definition RequestURI :: "url \<Rightarrow> string" where
  "RequestURI u =
     (let result =
        (if url_Opaque u = [] then (if url_EscapedPath u = [] then ''/'' else url_EscapedPath u)
         else if prefix ''//'' (url_Opaque u) then url_Scheme u @ '':'' @ url_Opaque u
         else url_Opaque u)
      in if url_ForceQuery u \<or> url_RawQuery u \<noteq> [] then result @ ''?'' @ url_RawQuery u else result)"

section \<open>Escapes are read back\<close>

lemma of_char_bound: "(of_char c :: nat) < 256"
  by (metis of_char_mod_256 mod_less_divisor zero_less_numeral)

lemma of_char_div: "of_char c div 16 < (16 :: nat)"
  by (rule less_mult_imp_div_less) (simp add: of_char_bound)

lemma unhex_hexdigit: "n < 16 \<Longrightarrow> unhex (hexdigit n) = Some n"
proof -
  have "list_all (\<lambda>n. unhex (hexdigit n) = Some n) [0..<16]" by code_simp
  then show "n < 16 \<Longrightarrow> unhex (hexdigit n) = Some n" by (simp add: list_all_iff)
qed

lemma hexdigit_clean: "n < 16 \<Longrightarrow> hexdigit n \<notin> set ''&=;%+''"
proof -
  have "list_all (\<lambda>n. hexdigit n \<notin> set ''&=;%+'') [0..<16]" by code_simp
  then show "n < 16 \<Longrightarrow> hexdigit n \<notin> set ''&=;%+''" by (simp only: list_all_iff set_upt) simp
qed

lemma unreserved_clean: "unreserved c \<Longrightarrow> c \<notin> set ''&=;%+''"
  by (auto simp: unreserved_def alnum_def Let_def)

lemma unescape_escape_char:
  "QueryUnescape (escape_char c @ rest) = map_option ((#) c) (QueryUnescape rest)"
proof -
  have d: "of_char c div 16 < (16 :: nat)" by (rule of_char_div)
  have "char_of (16 * (of_char c div 16) + of_char c mod 16 :: nat) = c" by simp
  then show ?thesis using unreserved_clean [of c] d by (auto simp: escape_char_def unhex_hexdigit)
qed

lemma QueryUnescape_QueryEscape [simp]: "QueryUnescape (QueryEscape s) = Some s"
  by (induction s) (simp_all add: QueryEscape_def unescape_escape_char)

lemma escape_char_clean: "set (escape_char c) \<inter> {CHR ''&'', CHR ''='', CHR '';''} = {}"
  using unreserved_clean [of c] hexdigit_clean [of "of_char c div 16"] hexdigit_clean [of "of_char c mod 16"] of_char_div [of c]
  by (auto simp: escape_char_def)

lemma QueryEscape_clean: "CHR ''&'' \<notin> set (QueryEscape s)" "CHR ''='' \<notin> set (QueryEscape s)" "CHR '';'' \<notin> set (QueryEscape s)"
  using escape_char_clean by (auto simp: QueryEscape_def)

section \<open>Queries are read back\<close>

lemma map_of_add_value:
  "map_of (add_value k v m) = (map_of m)(k \<mapsto> (case map_of m k of None \<Rightarrow> [] | Some vs \<Rightarrow> vs) @ [v])"
  by (induction m) (auto simp: fun_eq_iff)

lemma map_of_Set_value: "map_of (Set_value k v m) = (map_of m)(k \<mapsto> [v])"
  by (induction m) (auto simp: fun_eq_iff)

lemma keys_add_value: "set (map fst (add_value k v m)) = insert k (set (map fst m))"
  by (induction k v m rule: add_value.induct) (simp_all add: insert_commute)

lemma keys_Set_value: "set (map fst (Set_value k v m)) = insert k (set (map fst m))"
  by (induction k v m rule: Set_value.induct) (simp_all add: insert_commute)

lemma distinct_add_value: "distinct (map fst m) \<Longrightarrow> distinct (map fst (add_value k v m))"
  by (induction m) (use keys_add_value in auto)

lemma distinct_Set_value: "distinct (map fst m) \<Longrightarrow> distinct (map fst (Set_value k v m))"
  by (induction m) (use keys_Set_value in auto)

text \<open>Values as they are made: a list of its own for every key, never empty.\<close>

definition values_ok :: "url_values \<Rightarrow> bool" where
  "values_ok m \<longleftrightarrow> distinct (map fst m) \<and> [] \<notin> snd ` set m"

lemma values_ok_add: "values_ok m \<Longrightarrow> values_ok (add_value k v m)"
proof -
  have "[] \<notin> snd ` set m \<Longrightarrow> [] \<notin> snd ` set (add_value k v m)"
    by (induction k v m rule: add_value.induct) simp_all
  then show "values_ok m \<Longrightarrow> values_ok (add_value k v m)" by (simp add: values_ok_def distinct_add_value)
qed

lemma values_ok_Set: "values_ok m \<Longrightarrow> values_ok (Set_value k v m)"
proof -
  have "[] \<notin> snd ` set m \<Longrightarrow> [] \<notin> snd ` set (Set_value k v m)"
    by (induction k v m rule: Set_value.induct) simp_all
  then show "values_ok m \<Longrightarrow> values_ok (Set_value k v m)" by (simp add: values_ok_def distinct_Set_value)
qed

lemma values_ok_ParseQuery: "values_ok (ParseQuery q)"
proof -
  have "values_ok m \<Longrightarrow> values_ok (fold parse_pair ps m)" for ps m
    by (induction ps arbitrary: m) (simp_all add: parse_pair_def values_ok_add split: prod.splits option.splits)
  moreover have "values_ok []" by (simp add: values_ok_def)
  ultimately show ?thesis by (simp add: ParseQuery_def)
qed

lemma map_of_fold_add:
  "map_of (fold (\<lambda>(k, v). add_value k v) ps m) k =
    (let vs = map snd (filter (\<lambda>p. fst p = k) ps)
     in if vs = [] then map_of m k else Some ((case map_of m k of None \<Rightarrow> [] | Some ws \<Rightarrow> ws) @ vs))"
  by (induction ps arbitrary: m) (auto simp: map_of_add_value Let_def split: option.splits)

lemma filter_encode_pairs:
  assumes "distinct ks"
  shows "filter (\<lambda>p. fst p = k) (concat (map (\<lambda>k. map (Pair k) (g k)) ks)) = (if k \<in> set ks then map (Pair k) (g k) else [])"
proof -
  have "filter (\<lambda>p. fst p = k) (map (Pair k') vs) = (if k' = k then map (Pair k') vs else [])" for k' and vs :: "'b list"
    by (induction vs) auto
  then show ?thesis using assms by (induction ks) auto
qed

lemma split_at_join:
  assumes "ps \<noteq> []" and "\<forall>p \<in> set ps. sep \<notin> set p"
  shows "split_at sep (join [sep] ps) = ps"
proof -
  have app: "sep \<notin> set p \<Longrightarrow> split_at sep (p @ sep # s) = p # split_at sep s" for p s
    by (induction p) auto
  have one: "sep \<notin> set p \<Longrightarrow> split_at sep p = [p]" for p by (induction p) auto
  show ?thesis using assms
  proof (induction ps)
    case (Cons p ps)
    then show ?case by (cases ps) (simp_all add: app one)
  qed simp
qed

lemma parse_pair_escaped: "parse_pair (QueryEscape k @ ''='' @ QueryEscape v) m = add_value k v m"
proof -
  have "\<forall>c \<in> set (QueryEscape k). c \<noteq> CHR ''=''" using QueryEscape_clean(2) by metis
  then have "Cut (CHR ''='') (QueryEscape k @ ''='' @ QueryEscape v) = (QueryEscape k, QueryEscape v)"
    by (simp add: Cut_def takeWhile_append dropWhile_append)
  then show ?thesis by (simp add: parse_pair_def QueryEscape_clean)
qed

lemma ParseQuery_Encode:
  assumes "values_ok m"
  shows "map_of (ParseQuery (Encode m)) = map_of m"
proof
  fix k
  let ?f = "\<lambda>(k, v). QueryEscape k @ ''='' @ QueryEscape v"
  have "ParseQuery (Encode m) = fold parse_pair (map ?f (encode_pairs m)) []"
  proof (cases "encode_pairs m = []")
    case True
    then show ?thesis by (simp add: ParseQuery_def Encode_def parse_pair_def)
  next
    case False
    then have "split_at (CHR ''&'') (Encode m) = map ?f (encode_pairs m)"
      unfolding Encode_def by (intro split_at_join) (auto simp: QueryEscape_clean)
    then show ?thesis by (simp add: ParseQuery_def)
  qed
  also have "\<dots> = fold (\<lambda>(k, v). add_value k v) (encode_pairs m) []"
    unfolding fold_map by (rule fold_cong) (auto simp: parse_pair_escaped simp flip: append_Cons)
  finally have p: "ParseQuery (Encode m) = fold (\<lambda>(k, v). add_value k v) (encode_pairs m) []" .
  have d: "distinct (sort (map fst m))" using assms by (simp add: values_ok_def)
  have f: "filter (\<lambda>p. fst p = k) (encode_pairs m) = (if k \<in> fst ` set m then map (Pair k) (the (map_of m k)) else [])"
    unfolding encode_pairs_def using filter_encode_pairs [OF d, of k "\<lambda>k. the (map_of m k)"] by simp
  show "map_of (ParseQuery (Encode m)) k = map_of m k"
  proof (cases "map_of m k")
    case None
    then have "k \<notin> fst ` set m" by (simp add: map_of_eq_None_iff)
    then show ?thesis unfolding p using None f by (simp add: map_of_fold_add Let_def)
  next
    case (Some vs)
    then have k: "k \<in> fst ` set m" by (metis domI dom_map_of_conv_image_fst)
    have "[] \<noteq> vs" using assms Some by (metis imageI map_of_SomeD snd_conv values_ok_def)
    then show ?thesis unfolding p using Some f k by (simp add: map_of_fold_add Let_def comp_def)
  qed
qed

end
