(* ===== verification/Middleware.thy ===== *)
theory Middleware
  imports Url
begin

text \<open>
  \<^verbatim>\<open>pkg/server/middleware\<close> and \<^verbatim>\<open>pkg/util/bytereplacer\<close>: what is wrapped around a handler. A handler
  is a function from a request to its run: the calls on the response writer with what they
  returned, the reads of the body, the lines logged and the metrics. A wrapped writer or body passes
  the calls on, so what it has recorded at the end is computed from the run.
\<close>

section \<open>Requests and runs\<close>

datatype val = VStr string | VInt int | VBool bool

text \<open>
  The tracing part of a context: the opentracing span, which may be of the jaeger library, and the
  trace of opentelemetry, if it is valid. Trace ids come with whether they are sampled.
\<close>

datatype span = JaegerSpan string bool | OtherSpan

record trace =
  tr_span :: "span option"
  tr_otel :: "(string \<times> bool) option"

record 'u ctx =
  cx_user :: 'u
  cx_trace :: trace
  cx_begin :: "int option"
  cx_baggage :: "val list option"

text \<open>
  The error that ends a body: its text, and what it says to \<^verbatim>\<open>errors.As\<close> with a network error that is
  a timeout, and to \<^verbatim>\<open>errors.Is\<close>. It comes with the last bytes or after them.
\<close>

record read_err =
  re_text :: string
  re_Timeout :: bool
  re_Canceled :: bool
  re_UnexpectedEOF :: bool

record body =
  b_data :: string
  b_err :: "read_err option"
  b_with :: bool

record 'u http_req =
  hr_Method :: string
  hr_URL :: url
  hr_RequestURI :: string
  hr_Header :: "string \<Rightarrow> string"
  hr_Body :: body
  hr_ctx :: "'u ctx"

text \<open>A call on a response writer; \<^verbatim>\<open>Write\<close> with the count and the text of the error that it returned.\<close>

datatype writer_call = WriteHeader int | Write string int "string option"

datatype severity = LevelInfo | LevelWarn | LevelError | LevelDebug

record log_line =
  ll_level :: severity
  ll_keyvals :: "(string \<times> val) list"

datatype observation =
    InflightInc string string
  | InflightDec string string
  | RequestBodySize string string int
  | ResponseBodySize string string int
  | RequestDuration string string int "string option"

record run =
  run_calls :: "writer_call list"
  run_reads :: "int list"
  run_logs :: "log_line list"
  run_metrics :: "observation list"
  run_panic :: bool

type_synonym 'u handler = "'u http_req \<Rightarrow> run"

text \<open>
  The libraries: writing to the connection, the clock, the user library, the span logger, the
  metrics of \<^verbatim>\<open>httpsnoop\<close> (status and bytes written).
\<close>

record 'u mw_env =
  me_write :: "string \<Rightarrow> int \<times> string option"
  me_Now :: int
  me_Since :: "int \<Rightarrow> int"
  me_ExtractOrgIDFromHTTPRequest :: "'u http_req \<Rightarrow> string + 'u"
  me_InjectOrgID :: "'u \<Rightarrow> string \<Rightarrow> 'u"
  me_ExtractOrgID :: "'u \<Rightarrow> string option"
  me_ExtractUserID :: "'u \<Rightarrow> string option"
  me_NewSpan :: "trace \<Rightarrow> trace"
  me_spanlog :: "log_line \<Rightarrow> log_line"
  me_CaptureMetrics :: "writer_call list \<Rightarrow> int \<times> int"
  me_JaegerDebugHeader :: string

definition http_Error_calls :: "'u mw_env \<Rightarrow> string \<Rightarrow> int \<Rightarrow> writer_call list" where
  "http_Error_calls env msg code =
     (let data = msg @ [CHR 0x0A]; (n, err) = me_write env data in [WriteHeader code, Write data n err])"

text \<open>\<^verbatim>\<open>strconv.Itoa\<close> and \<^verbatim>\<open>%d\<close>.\<close>

definition Itoa :: "int \<Rightarrow> string" where
  "Itoa i = (if i < 0 then ''-'' @ dec (nat (- i)) else dec (nat i))"

section \<open>\<^verbatim>\<open>middleware.go\<close>\<close>

text \<open>The loop from the last middleware to the first.\<close>

definition Merge :: "('u handler \<Rightarrow> 'u handler) list \<Rightarrow> 'u handler \<Rightarrow> 'u handler" where
  "Merge middlewares next_h = foldl (\<lambda>next_h wrap. wrap next_h) next_h (rev middlewares)"

section \<open>\<^verbatim>\<open>tracer.go\<close>\<close>

definition ExtractSampledTraceID :: "'u ctx \<Rightarrow> string \<times> bool" where
  "ExtractSampledTraceID ctx =
     (case tr_span (cx_trace ctx) of
        Some (JaegerSpan traceID sampled) \<Rightarrow> (traceID, sampled)
      | _ \<Rightarrow> (case tr_otel (cx_trace ctx) of Some (traceID, sampled) \<Rightarrow> (traceID, sampled) | None \<Rightarrow> ([], False)))"

definition ExtractTraceID :: "'u ctx \<Rightarrow> string \<times> bool" where
  "ExtractTraceID ctx = (let traceID = fst (ExtractSampledTraceID ctx) in (traceID, traceID \<noteq> []))"

section \<open>\<^verbatim>\<open>byte_replacer.go\<close>\<close>

text \<open>\<^verbatim>\<open>string(byte(i))\<close>: the UTF-8 form of the character with that number.\<close>

definition string_of_byte :: "nat \<Rightarrow> string" where
  "string_of_byte i = (if i < 128 then [char_of i] else [char_of (192 + i div 64), char_of (128 + i mod 64)])"

definition replacer_New :: "(string \<Rightarrow> bool) \<Rightarrow> nat \<Rightarrow> (string \<times> string) list" where
  "replacer_New matches replacement =
     concat (map (\<lambda>i. let s = string_of_byte i in if matches s then [(s, string_of_byte replacement)] else []) [0..<256])"

text \<open>
  \<^verbatim>\<open>strings.Replacer\<close> for old strings that are not empty: from left to right, the first pair that
  fits.
\<close>

function Replace :: "(string \<times> string) list \<Rightarrow> string \<Rightarrow> string" where
  "Replace oldnew [] = []"
| "Replace oldnew (c # cs) =
     (case find (\<lambda>p. fst p \<noteq> [] \<and> prefix (fst p) (c # cs)) oldnew of
        None \<Rightarrow> c # Replace oldnew cs
      | Some p \<Rightarrow> snd p @ Replace oldnew (drop (length (fst p) - 1) cs))"
  by pat_completeness auto
termination by (relation "measure (\<lambda>(p, s). length s)") auto

section \<open>\<^verbatim>\<open>route_matcher.go\<close>\<close>

text \<open>The pattern \<^verbatim>\<open>[^a-zA-Z0-9]\<close>, which is not anchored.\<close>

definition invalid_chars :: "string \<Rightarrow> bool" where
  "invalid_chars s \<longleftrightarrow> \<not> list_all alnum s"

definition invalidCharsReplacer :: "(string \<times> string) list" where
  "invalidCharsReplacer = replacer_New invalid_chars 95"

definition Trim_underscores :: "string \<Rightarrow> string" where
  "Trim_underscores s =
     rev (dropWhile (\<lambda>c. c = CHR ''_'') (rev (dropWhile (\<lambda>c. c = CHR ''_'') s)))"

text \<open>\<open>lower\<close> is \<^verbatim>\<open>strings.ToLower\<close> on strings that are not ASCII.\<close>

definition MakeLabelValue :: "(string \<Rightarrow> string) \<Rightarrow> string \<Rightarrow> string" where
  "MakeLabelValue lower path =
     (let result = Replace invalidCharsReplacer path;
          result = Trim_underscores result;
          result = (if list_all (\<lambda>c. (of_char c :: nat) < 128) result then ToLower result else lower result)
      in if result = [] then ''root'' else result)"

text \<open>A match of the router: whether it is the error that nothing was found, and the route, if any.\<close>

record route =
  rt_Name :: string
  rt_PathTemplate :: "string option"

record route_match =
  rm_NotFound :: bool
  rm_Route :: "route option"

type_synonym 'u route_matcher = "('u http_req \<Rightarrow> route_match option) option"

definition getRouteName :: "(string \<Rightarrow> string) \<Rightarrow> 'u route_matcher \<Rightarrow> 'u http_req \<Rightarrow> string" where
  "getRouteName lower routeMatcher r =
     (case routeMatcher of
        None \<Rightarrow> []
      | Some match \<Rightarrow>
          (case match r of
             None \<Rightarrow> []
           | Some routeMatch \<Rightarrow>
               if rm_NotFound routeMatch then ''notfound''
               else
                 (case rm_Route routeMatch of
                    None \<Rightarrow> []
                  | Some rt \<Rightarrow>
                      if rt_Name rt \<noteq> [] then rt_Name rt
                      else (case rt_PathTemplate rt of Some tmpl \<Rightarrow> MakeLabelValue lower tmpl | None \<Rightarrow> []))))"

text \<open>The name of the operation that the tracer middleware gives to the span of a request.\<close>

definition operationName :: "(string \<Rightarrow> string) \<Rightarrow> 'u route_matcher \<Rightarrow> 'u http_req \<Rightarrow> string" where
  "operationName lower routeMatcher r =
     (let op = getRouteName lower routeMatcher r
      in if op = [] then ''HTTP '' @ hr_Method r else ''HTTP '' @ hr_Method r @ '' - '' @ op)"

section \<open>\<^verbatim>\<open>logging.go\<close>\<close>

definition api_key :: string where "api_key = ''api_key''"

definition redactAPIKey :: "url \<Rightarrow> url" where
  "redactAPIKey u =
     (let reqQuery = Query u
      in if Get reqQuery api_key \<noteq> [] \<and> Get reqQuery api_key \<noteq> ''grafana-labs''
         then u\<lparr>url_RawQuery := Encode (Set_value api_key ''redacted'' reqQuery)\<rparr>
         else u)"

definition happy_status :: "int \<Rightarrow> bool" where
  "happy_status statusCode \<longleftrightarrow> 100 \<le> statusCode \<and> statusCode < 500 \<or> statusCode = 502 \<or> statusCode = 503"

text \<open>\<open>pre\<close> is what the given logger adds to each line.\<close>

definition logRequest :: "'u mw_env \<Rightarrow> (string \<times> val) list \<Rightarrow> 'u http_req \<Rightarrow> int \<Rightarrow> log_line" where
  "logRequest env pre r statusCode =
     (let ctx = hr_ctx r;
          elapsed = (case cx_begin ctx of Some begin_time \<Rightarrow> [(''elapsed'', VInt (me_Since env begin_time))] | None \<Rightarrow> []);
          (traceID, ok) = ExtractSampledTraceID ctx;
          dh = hr_Header r (me_JaegerDebugHeader env);
          trace = (if traceID \<noteq> []
                   then [(''traceID'', VStr traceID), (''sampled'', VBool ok)] @ (if dh \<noteq> [] then [(''jaegerDebugID'', VStr dh)] else [])
                   else []);
          org = (case me_ExtractOrgID env (cx_user ctx) of Some orgID \<Rightarrow> [(''orgID'', VStr orgID)] | None \<Rightarrow> []);
          user = (case me_ExtractUserID env (cx_user ctx) of Some userID \<Rightarrow> [(''userID'', VStr userID)] | None \<Rightarrow> [])
      in \<lparr>ll_level = (if happy_status statusCode then LevelInfo else LevelWarn),
          ll_keyvals = pre @ elapsed @ trace @ org @ user @
            [(''method'', VStr (hr_Method r)), (''uri'', VStr (RequestURI (redactAPIKey (hr_URL r)))), (''status'', VInt statusCode)]\<rparr>)"

section \<open>\<^verbatim>\<open>response.go\<close>\<close>

record responseWriterSniffer =
  sn_statusCode :: int
  sn_writeError :: "string option"

definition newResponseWriterSniffer :: responseWriterSniffer where
  "newResponseWriterSniffer = \<lparr>sn_statusCode = 200, sn_writeError = None\<rparr>"

text \<open>A call on the sniffer: the calls it makes on the writer below.\<close>

fun sniffer_call :: "writer_call \<Rightarrow> responseWriterSniffer \<Rightarrow> writer_call list \<times> responseWriterSniffer" where
  "sniffer_call (WriteHeader statusCode) b = ([WriteHeader statusCode], b\<lparr>sn_statusCode := statusCode\<rparr>)"
| "sniffer_call (Write data n err) b =
     (let (calls, b) = (if sn_statusCode b = 0 then ([WriteHeader 200], b\<lparr>sn_statusCode := 200\<rparr>) else ([], b));
          b = (if err \<noteq> None then b\<lparr>sn_writeError := err\<rparr> else b)
      in (calls @ [Write data n err], b))"

fun sniffer_calls :: "writer_call list \<Rightarrow> responseWriterSniffer \<Rightarrow> writer_call list \<times> responseWriterSniffer" where
  "sniffer_calls [] b = ([], b)"
| "sniffer_calls (c # cs) b =
     (let (calls, b) = sniffer_call c b; (calls', b) = sniffer_calls cs b in (calls @ calls', b))"

text \<open>A handler that panics leaves nothing to log.\<close>

definition Log_Wrap :: "'u mw_env \<Rightarrow> 'u handler \<Rightarrow> 'u handler" where
  "Log_Wrap env next_h r =
     (let inner = next_h r;
          (calls, wrapped) = sniffer_calls (run_calls inner) newResponseWriterSniffer;
          pre = (case sn_writeError wrapped of
                   Some writeErr \<Rightarrow> [(''err'', VStr writeErr), (''msg'', VStr ''couldn't write response body'')]
                 | None \<Rightarrow> [])
      in inner\<lparr>run_calls := calls,
               run_logs := run_logs inner @ (if run_panic inner then [] else [logRequest env pre r (sn_statusCode wrapped)])\<rparr>)"

section \<open>\<^verbatim>\<open>http_auth.go\<close>, \<^verbatim>\<open>http_fake_auth.go\<close>\<close>

definition HTTPAuth_Wrap :: "'u mw_env \<Rightarrow> 'u handler \<Rightarrow> 'u handler" where
  "HTTPAuth_Wrap env next_h r =
     (case me_ExtractOrgIDFromHTTPRequest env r of
        Inl err \<Rightarrow>
          \<lparr>run_calls = http_Error_calls env err 401, run_reads = [], run_logs = [logRequest env [] r 401],
           run_metrics = [], run_panic = False\<rparr>
      | Inr user \<Rightarrow> next_h (r\<lparr>hr_ctx := (hr_ctx r)\<lparr>cx_user := user\<rparr>\<rparr>))"

definition HTTPFakeAuth_Wrap :: "'u mw_env \<Rightarrow> 'u handler \<Rightarrow> 'u handler" where
  "HTTPFakeAuth_Wrap env next_h r =
     next_h (r\<lparr>hr_ctx := (hr_ctx r)\<lparr>cx_user := me_InjectOrgID env (cx_user (hr_ctx r)) ''fake''\<rparr>\<rparr>)"

section \<open>\<^verbatim>\<open>request_limits.go\<close>\<close>

definition StatusClientClosedRequest :: int where
  "StatusClientClosedRequest = 499"

text \<open>
  \<^verbatim>\<open>io.ReadAll\<close> of \<^verbatim>\<open>io.LimitReader(body, n)\<close>: nothing is read of a reader whose limit is used up, so
  an error behind the last byte allowed is not seen.
\<close>

definition ReadAll_LimitReader :: "body \<Rightarrow> int \<Rightarrow> string \<times> read_err option" where
  "ReadAll_LimitReader b n =
     (let len = int (length (b_data b))
      in if n \<le> 0 then ([], None)
         else if len < n \<or> len = n \<and> b_with b then (b_data b, b_err b)
         else (take (nat n) (b_data b), None))"

definition isNetworkError :: "read_err option \<Rightarrow> bool" where
  "isNetworkError err = (case err of None \<Rightarrow> False | Some netErr \<Rightarrow> re_Timeout netErr)"

definition RequestLimits_Wrap :: "'u mw_env \<Rightarrow> 64 word \<Rightarrow> 'u handler \<Rightarrow> 'u handler" where
  "RequestLimits_Wrap env maxRequestBodySize next_h r =
     (let ctx = (hr_ctx r)\<lparr>cx_trace := me_NewSpan env (cx_trace (hr_ctx r))\<rparr>;
          (body, err) = ReadAll_LimitReader (hr_Body r) (sint (maxRequestBodySize + 1));
          reads = [int (length body)];
          warn = (\<lambda>keyvals. me_spanlog env \<lparr>ll_level = LevelWarn, ll_keyvals = keyvals\<rparr>)
      in case err of
           Some e \<Rightarrow>
             let msg = ''failed to read request body: '' @ re_text e;
                 code = (if isNetworkError err then 408
                         else if re_Canceled e \<or> re_UnexpectedEOF e then StatusClientClosedRequest
                         else 500)
             in \<lparr>run_calls = http_Error_calls env msg code, run_reads = reads,
                 run_logs = [warn [(''msg'', VStr ''failed to read request body''), (''err'', VStr (re_text e))]],
                 run_metrics = [], run_panic = False\<rparr>
         | None \<Rightarrow>
             if sint maxRequestBodySize < int (length body) then
               let msg = ''trying to send message larger than max ('' @ Itoa (int (length body)) @ '' vs '' @
                     Itoa (sint maxRequestBodySize) @ '')''
               in \<lparr>run_calls = http_Error_calls env msg 413, run_reads = reads, run_logs = [warn [(''msg'', VStr msg)]],
                   run_metrics = [], run_panic = False\<rparr>
             else
               (next_h (r\<lparr>hr_Body := \<lparr>b_data = body, b_err = None, b_with = False\<rparr>, hr_ctx := ctx\<rparr>))\<lparr>run_reads := reads\<rparr>)"

section \<open>\<^verbatim>\<open>instrument.go\<close>\<close>

definition Instrument_getRouteName :: "(string \<Rightarrow> string) \<Rightarrow> 'u route_matcher \<Rightarrow> 'u http_req \<Rightarrow> string" where
  "Instrument_getRouteName lower routeMatcher r =
     (let route = getRouteName lower routeMatcher r in if route = [] then ''other'' else route)"

text \<open>The wrapped body counts what its reads return.\<close>

definition reqBody_Read :: "int \<Rightarrow> int \<Rightarrow> int" where
  "reqBody_Read sofar n = (if 0 < n then sofar + n else sofar)"

text \<open>The gauge goes down again even when the handler panics; nothing is observed then.\<close>

definition Instrument_Wrap :: "'u mw_env \<Rightarrow> (string \<Rightarrow> string) \<Rightarrow> 'u route_matcher \<Rightarrow> 'u handler \<Rightarrow> 'u handler" where
  "Instrument_Wrap env lower routeMatcher next_h r =
     (let r = r\<lparr>hr_ctx := (hr_ctx r)\<lparr>cx_begin := Some (me_Now env)\<rparr>\<rparr>;
          route = Instrument_getRouteName lower routeMatcher r;
          method = hr_Method r;
          inner = next_h r;
          read = foldl reqBody_Read 0 (run_reads inner);
          (code, written) = me_CaptureMetrics env (run_calls inner);
          (traceID, ok) = ExtractSampledTraceID (hr_ctx r);
          observed = (if run_panic inner then []
            else [RequestBodySize method route read, ResponseBodySize method route written,
                  RequestDuration method route code (if ok then Some traceID else None)])
      in inner\<lparr>run_metrics := [InflightInc method route] @ run_metrics inner @ observed @ [InflightDec method route]\<rparr>)"

end
