(* ===== verification/Middleware_Correct.thy ===== *)
theory Middleware_Correct
  imports Middleware
begin

text \<open>
  What the middlewares do: redaction of keys, label values, the limit on bodies, the status that is
  logged and the metrics of a request.
\<close>

section \<open>Label values\<close>

lemma find_fits:
  assumes "\<forall>p \<in> set ps. P p \<longrightarrow> p = q"
  shows "find P ps = (if \<exists>p \<in> set ps. P p then Some q else None)"
  using assms by (induction ps) auto

lemma string_of_byte_hd: "of_char (hd (string_of_byte i)) < (128 :: nat) \<longleftrightarrow> i < 128" if "i < 256"
proof (cases "i < 128")
  case True
  then show ?thesis by (simp add: string_of_byte_def of_char_of)
next
  case False
  then have "i div 64 < 4" "192 + i div 64 < 256" using that by (simp_all add: less_mult_imp_div_less)
  then show ?thesis using False by (simp add: string_of_byte_def of_char_of)
qed

lemma replacer_fits:
  assumes "(of_char c :: nat) < 128" and "p \<in> set invalidCharsReplacer" and "prefix (fst p) (c # cs)"
  shows "p = ([c], ''_'') \<and> \<not> alnum c"
proof -
  obtain i where i: "i < 256" "invalid_chars (string_of_byte i)" "p = (string_of_byte i, string_of_byte 95)"
    using assms(2) by (auto simp: invalidCharsReplacer_def replacer_New_def Let_def split: if_splits)
  have u: "string_of_byte 95 = ''_''" by code_simp
  have ne: "string_of_byte i \<noteq> []" by (simp add: string_of_byte_def)
  then have hd: "hd (string_of_byte i) = c" using assms(3) i(3) by (cases "string_of_byte i") auto
  then have "i < 128" using string_of_byte_hd [OF i(1)] assms(1) by simp
  then have s: "string_of_byte i = [c]" using hd by (simp add: string_of_byte_def)
  then show ?thesis using i(2,3) u by (simp add: invalid_chars_def)
qed

lemma replacer_has:
  assumes "(of_char c :: nat) < 128" and "\<not> alnum c"
  shows "([c], ''_'') \<in> set invalidCharsReplacer"
proof -
  have "string_of_byte (of_char c) = [c]" "string_of_byte 95 = ''_''" using assms(1) by (simp_all add: string_of_byte_def, code_simp)
  then show ?thesis using assms
    by (auto simp: invalidCharsReplacer_def replacer_New_def Let_def invalid_chars_def intro!: bexI [of _ "of_char c"])
qed

definition ascii :: "string \<Rightarrow> bool" where
  "ascii s \<longleftrightarrow> list_all (\<lambda>c. (of_char c :: nat) < 128) s"

lemma Replace_ascii:
  assumes "ascii s"
  shows "Replace invalidCharsReplacer s = map (\<lambda>c. if alnum c then c else CHR ''_'') s"
  using assms
proof (induction s)
  case (Cons c s)
  then have c: "(of_char c :: nat) < 128" and IH: "Replace invalidCharsReplacer s = map (\<lambda>c. if alnum c then c else CHR ''_'') s"
    by (simp_all add: ascii_def)
  let ?P = "\<lambda>p. fst p \<noteq> [] \<and> prefix (fst p) (c # s)"
  have "find ?P invalidCharsReplacer = (if \<exists>p \<in> set invalidCharsReplacer. ?P p then Some ([c], ''_'') else None)"
    using replacer_fits [OF c] by (intro find_fits) blast
  moreover have "(\<exists>p \<in> set invalidCharsReplacer. ?P p) \<longleftrightarrow> \<not> alnum c"
  proof
    assume "\<exists>p \<in> set invalidCharsReplacer. ?P p"
    then show "\<not> alnum c" using replacer_fits [OF c] by blast
  next
    assume "\<not> alnum c"
    from replacer_has [OF c this] show "\<exists>p \<in> set invalidCharsReplacer. ?P p" by (rule bexI [rotated]) simp
  qed
  ultimately show ?case using IH by simp
qed simp

definition label_char :: "char \<Rightarrow> bool" where
  "label_char c = (let n = (of_char c :: nat) in 48 \<le> n \<and> n \<le> 57 \<or> 97 \<le> n \<and> n \<le> 122 \<or> n = 95)"

text \<open>A label value: lower case letters, digits and inner underscores.\<close>

definition label_value :: "string \<Rightarrow> bool" where
  "label_value s \<longleftrightarrow> s \<noteq> [] \<and> list_all label_char s \<and> hd s \<noteq> CHR ''_'' \<and> last s \<noteq> CHR ''_''"

lemma label_char_cases:
  fixes c :: char
  shows "alnum c \<or> c = CHR ''_'' \<Longrightarrow> label_char (let n = (of_char c :: nat) in if 65 \<le> n \<and> n \<le> 90 then char_of (n + 32) else c)"
  by (auto simp: label_char_def alnum_def Let_def of_char_of)

lemma label_char_alnum: "label_char c \<Longrightarrow> c \<noteq> CHR ''_'' \<Longrightarrow> alnum c"
proof -
  have "c = CHR ''_''" if "(of_char c :: nat) = 95"
  proof -
    have "(of_char c :: nat) = of_char (CHR ''_'')" using that by simp
    then show ?thesis by (simp only: of_char_eq_iff)
  qed
  then show "label_char c \<Longrightarrow> c \<noteq> CHR ''_'' \<Longrightarrow> alnum c" by (auto simp: label_char_def alnum_def Let_def)
qed

lemma label_char_ascii: "label_char c \<Longrightarrow> (of_char c :: nat) < 128"
  by (auto simp: label_char_def Let_def)

lemma set_Trim: "set (Trim_underscores s) \<subseteq> set s"
  by (auto simp: Trim_underscores_def dest!: set_dropWhileD)

lemma Trim_ends:
  assumes "Trim_underscores s \<noteq> []"
  shows "hd (Trim_underscores s) \<noteq> CHR ''_''" and "last (Trim_underscores s) \<noteq> CHR ''_''"
proof -
  let ?t = "dropWhile (\<lambda>c. c = CHR ''_'') s"
  have last: "Trim_underscores s = rev (dropWhile (\<lambda>c. c = CHR ''_'') (rev ?t))" by (simp add: Trim_underscores_def)
  have ne: "dropWhile (\<lambda>c. c = CHR ''_'') (rev ?t) \<noteq> []" using assms last by simp
  then show "last (Trim_underscores s) \<noteq> CHR ''_''" using hd_dropWhile [OF ne] last by (simp add: last_rev)
  have "rev ?t = takeWhile (\<lambda>c. c = CHR ''_'') (rev ?t) @ dropWhile (\<lambda>c. c = CHR ''_'') (rev ?t)" by simp
  then obtain e where e: "?t = Trim_underscores s @ e" unfolding last by (metis rev_append rev_rev_ident)
  then have "hd ?t = hd (Trim_underscores s)" "?t \<noteq> []" using assms by simp_all
  then show "hd (Trim_underscores s) \<noteq> CHR ''_''" using hd_dropWhile [of "\<lambda>c. c = CHR ''_''" s] by simp
qed

lemma Trim_none:
  assumes "s \<noteq> []" and "hd s \<noteq> CHR ''_''" and "last s \<noteq> CHR ''_''"
  shows "Trim_underscores s = s"
proof -
  have "dropWhile (\<lambda>c. c = CHR ''_'') s = s" using assms(1,2) by (cases s) auto
  moreover have "dropWhile (\<lambda>c. c = CHR ''_'') (rev s) = rev s" using assms(1,3) by (cases s rule: rev_cases) auto
  ultimately show ?thesis by (simp add: Trim_underscores_def)
qed

lemma ToLower_underscore: "ToLower s \<noteq> [] \<Longrightarrow> hd (ToLower s) = CHR ''_'' \<longleftrightarrow> hd s = CHR ''_''"
  "ToLower s \<noteq> [] \<Longrightarrow> last (ToLower s) = CHR ''_'' \<longleftrightarrow> last s = CHR ''_''"
proof -
  have c: "(let n = (of_char c :: nat) in if 65 \<le> n \<and> n \<le> 90 then char_of (n + 32) else c) = CHR ''_'' \<longleftrightarrow> c = CHR ''_''" for c :: char
  proof -
    have "(char_of (n + 32) :: char) \<noteq> CHR ''_''" if "65 \<le> n" "n \<le> 90" for n :: nat
    proof
      assume "(char_of (n + 32) :: char) = CHR ''_''"
      then have "(of_char (char_of (n + 32) :: char) :: nat) = 95" by simp
      then show False using that by (simp add: of_char_of)
    qed
    then show ?thesis by (auto simp: Let_def)
  qed
  show "ToLower s \<noteq> [] \<Longrightarrow> hd (ToLower s) = CHR ''_'' \<longleftrightarrow> hd s = CHR ''_''"
    using c [of "hd s"] by (simp add: ToLower_def hd_map)
  show "ToLower s \<noteq> [] \<Longrightarrow> last (ToLower s) = CHR ''_'' \<longleftrightarrow> last s = CHR ''_''"
    using c [of "last s"] by (simp add: ToLower_def last_map)
qed

lemma MakeLabelValue_ascii:
  assumes "ascii path"
  shows "label_value (MakeLabelValue lower path)"
proof -
  define t where "t = Trim_underscores (Replace invalidCharsReplacer path)"
  have "set (Replace invalidCharsReplacer path) \<subseteq> {c. alnum c \<or> c = CHR ''_''}" using Replace_ascii [OF assms] by auto
  then have t: "\<forall>c \<in> set t. alnum c \<or> c = CHR ''_''" using set_Trim [of "Replace invalidCharsReplacer path"] unfolding t_def by blast
  have "(of_char c :: nat) < 128" if "c \<in> set t" for c
    using bspec [OF t that] by (auto simp: alnum_def Let_def)
  then have m: "MakeLabelValue lower path = (if ToLower t = [] then ''root'' else ToLower t)"
    by (simp add: MakeLabelValue_def t_def list_all_iff)
  show ?thesis
  proof (cases "ToLower t = []")
    case True
    have "label_value ''root''" by code_simp
    then show ?thesis using m True by simp
  next
    case False
    then have "t \<noteq> []" by (simp add: ToLower_def)
    then have "hd t \<noteq> CHR ''_''" "last t \<noteq> CHR ''_''" using Trim_ends unfolding t_def by blast+
    moreover have "list_all label_char (ToLower t)" using t label_char_cases by (simp add: ToLower_def list_all_iff)
    ultimately show ?thesis using m False ToLower_underscore [OF False] by (simp add: label_value_def)
  qed
qed

lemma MakeLabelValue_id:
  assumes "label_value s"
  shows "MakeLabelValue lower s = s"
proof -
  have l: "\<forall>c \<in> set s. label_char c" "s \<noteq> []" "hd s \<noteq> CHR ''_''" "last s \<noteq> CHR ''_''"
    using assms by (simp_all add: label_value_def list_all_iff)
  then have a: "ascii s" using label_char_ascii by (simp add: ascii_def list_all_iff)
  have "\<forall>c \<in> set s. c \<noteq> CHR ''_'' \<longrightarrow> alnum c" using l(1) label_char_alnum by blast
  then have "(if alnum c then c else CHR ''_'') = c" if "c \<in> set s" for c using that by (metis (full_types))
  then have "Replace invalidCharsReplacer s = s" unfolding Replace_ascii [OF a] by (intro map_idI)
  moreover have "ToLower s = s"
    unfolding ToLower_def by (rule map_idI) (use l(1) in \<open>auto simp: label_char_def Let_def\<close>)
  moreover have "list_all (\<lambda>c. (of_char c :: nat) < 128) s" using a by (simp only: ascii_def)
  ultimately show ?thesis
    unfolding MakeLabelValue_def Let_def by (simp only: Trim_none [OF l(2-4)] if_True l(2) if_False)
qed

section \<open>The status\<close>

text \<open>The status codes that a handler sets, in order.\<close>

definition header_codes :: "writer_call list \<Rightarrow> int list" where
  "header_codes calls = concat (map (\<lambda>c. case c of WriteHeader code \<Rightarrow> [code] | _ \<Rightarrow> []) calls)"

definition write_errors :: "writer_call list \<Rightarrow> string list" where
  "write_errors calls = concat (map (\<lambda>c. case c of Write data n (Some err) \<Rightarrow> [err] | _ \<Rightarrow> []) calls)"

lemma sniffer_calls_spec:
  assumes "0 \<notin> set (header_codes calls)" and "sn_statusCode b \<noteq> 0"
  shows "sniffer_calls calls b =
    (calls, \<lparr>sn_statusCode = last (sn_statusCode b # header_codes calls),
             sn_writeError = (if write_errors calls = [] then sn_writeError b else Some (last (write_errors calls)))\<rparr>)"
  using assms
proof (induction calls arbitrary: b)
  case Nil
  then show ?case by (simp add: header_codes_def write_errors_def)
next
  case (Cons c calls)
  show ?case
  proof (cases c)
    case (WriteHeader code)
    then show ?thesis using Cons by (simp add: header_codes_def write_errors_def)
  next
    case (Write data n err)
    then have "sniffer_calls calls (if err \<noteq> None then b\<lparr>sn_writeError := err\<rparr> else b) =
      (calls, \<lparr>sn_statusCode = last (sn_statusCode b # header_codes calls),
        sn_writeError = (if write_errors calls = [] then (if err \<noteq> None then err else sn_writeError b)
          else Some (last (write_errors calls)))\<rparr>)"
      using Cons.IH [of "if err \<noteq> None then b\<lparr>sn_writeError := err\<rparr> else b"] Cons.prems by (simp add: header_codes_def)
    then show ?thesis using Write Cons.prems by (cases err) (simp_all add: header_codes_def write_errors_def)
  qed
qed

text \<open>
  The line of a request that has been run: with the last status that was set, and with the last error of
  writing to the connection if there was one.
\<close>

definition request_line :: "'u mw_env \<Rightarrow> 'u http_req \<Rightarrow> run \<Rightarrow> log_line" where
  "request_line env r run =
     logRequest env
       (if write_errors (run_calls run) = [] then []
        else [(''err'', VStr (last (write_errors (run_calls run)))), (''msg'', VStr ''couldn't write response body'')])
       r (last (200 # header_codes (run_calls run)))"

lemma Log_Wrap_eq:
  assumes "0 \<notin> set (header_codes (run_calls (next_h r)))" and "\<not> run_panic (next_h r)"
  shows "Log_Wrap env next_h r = (next_h r)\<lparr>run_logs := run_logs (next_h r) @ [request_line env r (next_h r)]\<rparr>"
  using assms sniffer_calls_spec [OF assms(1), of newResponseWriterSniffer]
  by (simp add: Log_Wrap_def newResponseWriterSniffer_def request_line_def Let_def)

section \<open>The contract of a middleware\<close>

text \<open>A handler that does not panic and sets no status 0, which the server refuses.\<close>

definition well_behaved :: "'u handler \<Rightarrow> bool" where
  "well_behaved h \<longleftrightarrow> (\<forall>r. \<not> run_panic (h r) \<and> 0 \<notin> set (header_codes (run_calls (h r))))"

lemma http_Error_codes [simp]: "header_codes (http_Error_calls env msg code) = [code]"
  by (simp add: header_codes_def http_Error_calls_def Let_def split: prod.splits)

lemma Log_Wrap_well_behaved:
  assumes "well_behaved h"
  shows "Log_Wrap env h r = (h r)\<lparr>run_logs := run_logs (h r) @ [request_line env r (h r)]\<rparr>"
  using assms by (intro Log_Wrap_eq) (simp_all add: well_behaved_def)

lemma request_line_cong: "run_calls run = run_calls run' \<Longrightarrow> request_line env r run = request_line env r run'"
  by (simp add: request_line_def)

text \<open>
  The interface of a middleware, and its contract: a handler that behaves well does so when it is
  wrapped. Then a status is set that the server takes.
\<close>

locale middleware =
  fixes wrap :: "'u handler \<Rightarrow> 'u handler"
  assumes wrap_ok: "well_behaved h \<Longrightarrow> well_behaved (wrap h)"
begin

lemma status_set: "well_behaved h \<Longrightarrow> last (200 # header_codes (run_calls (wrap h r))) \<noteq> 0"
  using wrap_ok [of h] last_in_set [of "200 # header_codes (run_calls (wrap h r))"] by (auto simp: well_behaved_def)

end

lemma Merge_Cons: "Merge (m # ms) h = m (Merge ms h)"
  by (simp add: Merge_def)

lemma Merge_Nil: "Merge [] h = h"
  by (simp add: Merge_def)

lemma Merge_well_behaved:
  assumes "\<forall>m \<in> set ms. middleware m" and "well_behaved h"
  shows "well_behaved (Merge ms h)"
  using assms(1)
proof (induction ms)
  case (Cons m ms)
  then show ?case using middleware.wrap_ok [of m "Merge ms h"] by (simp add: Merge_Cons)
qed (simp add: Merge_Nil assms(2))

interpretation auth: middleware "HTTPAuth_Wrap env" for env
  by unfold_locales (auto simp: well_behaved_def HTTPAuth_Wrap_def split: sum.splits)

interpretation fake_auth: middleware "HTTPFakeAuth_Wrap env" for env
  by unfold_locales (auto simp: well_behaved_def HTTPFakeAuth_Wrap_def)

interpretation logging: middleware "Log_Wrap env" for env
proof
  fix h :: "'a handler" assume h: "well_behaved h"
  show "well_behaved (Log_Wrap env h)" unfolding well_behaved_def
    using Log_Wrap_well_behaved [OF h, of env] h by (simp add: well_behaved_def)
qed

interpretation limits: middleware "RequestLimits_Wrap env limit" for env limit
  by unfold_locales
    (auto simp: well_behaved_def RequestLimits_Wrap_def StatusClientClosedRequest_def Let_def split: prod.splits option.splits)

interpretation instrument: middleware "Instrument_Wrap env lower matcher" for env lower matcher
  by unfold_locales (auto simp: well_behaved_def Instrument_Wrap_def Let_def split: prod.splits)

section \<open>The limit\<close>

lemma sint_inc: "sint (w :: 64 word) < 2 ^ 63 - 1 \<Longrightarrow> 0 \<le> sint w \<Longrightarrow> sint (w + 1) = sint w + 1"
  by (simp add: sint_word_ariths(1) signed_take_bit_int_eq_self)

lemma request_limits_passes:
  assumes "0 \<le> sint limit" and "sint limit < 2 ^ 63 - 1" and "int (length (b_data (hr_Body r))) \<le> sint limit"
    and "b_err (hr_Body r) = None"
  shows "\<exists>ctx. cx_user ctx = cx_user (hr_ctx r) \<and> cx_begin ctx = cx_begin (hr_ctx r) \<and>
    RequestLimits_Wrap env limit next_h r =
      (next_h (r\<lparr>hr_Body := \<lparr>b_data = b_data (hr_Body r), b_err = None, b_with = False\<rparr>, hr_ctx := ctx\<rparr>))
        \<lparr>run_reads := [int (length (b_data (hr_Body r)))]\<rparr>"
  using assms
  by (intro exI [of _ "(hr_ctx r)\<lparr>cx_trace := me_NewSpan env (cx_trace (hr_ctx r))\<rparr>"])
    (simp add: RequestLimits_Wrap_def ReadAll_LimitReader_def sint_inc Let_def)

section \<open>An example\<close>

text \<open>
  A user library that takes the organisation from a header, a connection that never fails, a handler
  that echoes the body.
\<close>

definition example_mw :: "string option mw_env" where
  "example_mw =
     \<lparr>me_write = (\<lambda>data. (int (length data), None)), me_Now = 0, me_Since = (\<lambda>t. - t),
      me_ExtractOrgIDFromHTTPRequest =
        (\<lambda>r. if hr_Header r ''X-Scope-OrgID'' = [] then Inl ''no org id'' else Inr (Some (hr_Header r ''X-Scope-OrgID''))),
      me_InjectOrgID = (\<lambda>u orgID. Some orgID), me_ExtractOrgID = (\<lambda>u. u), me_ExtractUserID = (\<lambda>u. None), me_NewSpan = (\<lambda>t. t),
      me_spanlog = (\<lambda>l. l), me_CaptureMetrics = (\<lambda>calls. (hd (header_codes calls @ [200]), 0)),
      me_JaegerDebugHeader = ''jaeger-debug-id''\<rparr>"

definition echo :: "'u handler" where
  "echo r = \<lparr>run_calls = [Write (b_data (hr_Body r)) (int (length (b_data (hr_Body r)))) None], run_reads = [], run_logs = [],
     run_metrics = [], run_panic = False\<rparr>"

definition example_request :: "string \<Rightarrow> string option http_req" where
  "example_request orgID =
     \<lparr>hr_Method = ''POST'', hr_URL = \<lparr>url_Scheme = [], url_Opaque = [], url_EscapedPath = ''/echo'', url_RawQuery = [], url_ForceQuery = False\<rparr>,
      hr_RequestURI = ''/echo'', hr_Header = (\<lambda>name. if name = ''X-Scope-OrgID'' then orgID else []),
      hr_Body = \<lparr>b_data = ''abc'', b_err = None, b_with = False\<rparr>,
      hr_ctx = \<lparr>cx_user = None, cx_trace = \<lparr>tr_span = None, tr_otel = None\<rparr>, cx_begin = None, cx_baggage = None\<rparr>\<rparr>"

section \<open>Properties\<close>

text \<open>
  C33. A key in the query is not logged: if the first value of \<^verbatim>\<open>api_key\<close> is one to hide, then the query
  of the URI that is logged has the value \<^verbatim>\<open>redacted\<close> for it and no other, and all other parameters have
  the values they had, in their order.
\<close>

theorem redactAPIKey_hides:
  assumes "Get (Query u) api_key \<noteq> []" and "Get (Query u) api_key \<noteq> ''grafana-labs''"
  shows "map_of (Query (redactAPIKey u)) = (map_of (Query u))(api_key \<mapsto> [''redacted''])"
proof -
  have "values_ok (Set_value api_key ''redacted'' (Query u))"
    unfolding Query_def by (rule values_ok_Set [OF values_ok_ParseQuery])
  then have "map_of (ParseQuery (Encode (Set_value api_key ''redacted'' (Query u)))) = map_of (Set_value api_key ''redacted'' (Query u))"
    by (rule ParseQuery_Encode)
  then show ?thesis using assms by (simp add: redactAPIKey_def Let_def map_of_Set_value Query_def)
qed

theorem redactAPIKey_hides_witness:
  "map_of (Query (redactAPIKey \<lparr>url_Scheme = [], url_Opaque = [], url_EscapedPath = ''/q'', url_RawQuery = ''from=1&api_key=s%20t&api_key=u'', url_ForceQuery = False\<rparr>)) =
    [''from'' \<mapsto> [''1''], ''api_key'' \<mapsto> [''redacted'']]"
proof -
  let ?u = "\<lparr>url_Scheme = [], url_Opaque = [], url_EscapedPath = ''/q'', url_RawQuery = ''from=1&api_key=s%20t&api_key=u'', url_ForceQuery = False\<rparr>"
  have q: "Query ?u = [(''from'', [''1'']), (''api_key'', [''s t'', ''u''])]" by code_simp
  have "map_of (Query (redactAPIKey ?u)) = (map_of (Query ?u))(api_key \<mapsto> [''redacted''])"
    by (rule redactAPIKey_hides) (simp_all add: q Get_def api_key_def)
  then show ?thesis by (simp add: q api_key_def fun_eq_iff)
qed

text \<open>
  Only the first value is looked at: a key that comes after an empty value, or after the one value
  that need not be hidden, is logged as it is.
\<close>

theorem redactAPIKey_leaks:
  assumes "url_RawQuery u = ''api_key='' @ QueryEscape first @ ''&api_key='' @ QueryEscape secret"
    and "first = [] \<or> first = ''grafana-labs''"
  shows "redactAPIKey u = u \<and> suffix (QueryEscape secret) (RequestURI (redactAPIKey u)) \<and>
    map_of (Query (redactAPIKey u)) api_key = Some [first, secret]"
proof -
  have k: "''api_key='' @ QueryEscape v = QueryEscape api_key @ ''='' @ QueryEscape v" for v
  proof -
    have "QueryEscape api_key = ''api_key''" by code_simp
    then show ?thesis by simp
  qed
  have "url_RawQuery u = join ''&'' [''api_key='' @ QueryEscape first, ''api_key='' @ QueryEscape secret]"
    using assms(1) by simp
  then have "split_at (CHR ''&'') (url_RawQuery u) = [''api_key='' @ QueryEscape first, ''api_key='' @ QueryEscape secret]"
    by (simp only:, intro split_at_join) (auto simp: QueryEscape_clean)
  then have q: "Query u = [(api_key, [first, secret])]"
    unfolding Query_def ParseQuery_def k by (simp add: parse_pair_escaped del: append.simps)
  have same: "redactAPIKey u = u" using assms(2) by (auto simp: redactAPIKey_def Let_def q Get_def)
  moreover have "suffix (QueryEscape secret) (RequestURI u)"
  proof -
    have "\<exists>result. RequestURI u = (result @ ''?api_key='' @ QueryEscape first @ ''&api_key='') @ QueryEscape secret"
      using assms(1) by (simp add: RequestURI_def Let_def)
    then show ?thesis by (metis suffixI)
  qed
  ultimately show ?thesis by (simp add: q)
qed

theorem redactAPIKey_leaks_witness:
  "RequestURI (redactAPIKey \<lparr>url_Scheme = [], url_Opaque = [], url_EscapedPath = ''/q'', url_RawQuery = ''api_key=&api_key=s3cret'', url_ForceQuery = False\<rparr>) =
    ''/q?api_key=&api_key=s3cret''"
proof -
  have e: "QueryEscape [] = []" "QueryEscape ''s3cret'' = ''s3cret''" by code_simp+
  have "redactAPIKey \<lparr>url_Scheme = [], url_Opaque = [], url_EscapedPath = ''/q'', url_RawQuery = ''api_key=&api_key=s3cret'', url_ForceQuery = False\<rparr> =
      \<lparr>url_Scheme = [], url_Opaque = [], url_EscapedPath = ''/q'', url_RawQuery = ''api_key=&api_key=s3cret'', url_ForceQuery = False\<rparr>"
    using redactAPIKey_leaks [of "\<lparr>url_Scheme = [], url_Opaque = [], url_EscapedPath = ''/q'', url_RawQuery = ''api_key=&api_key=s3cret'', url_ForceQuery = False\<rparr>" "[]" "''s3cret''"] e
    by simp
  then show ?thesis by (simp add: RequestURI_def)
qed

text \<open>
  C34. The label made of an ASCII path template is one or more lower case letters, digits and
  underscores, none of these at the ends, and making a label of it again changes nothing.
\<close>

theorem MakeLabelValue_label:
  assumes "ascii path"
  shows "label_value (MakeLabelValue lower path) \<and>
    MakeLabelValue lower (MakeLabelValue lower path) = MakeLabelValue lower path"
  using MakeLabelValue_ascii [OF assms] MakeLabelValue_id by blast

theorem MakeLabelValue_label_witness:
  "label_value (MakeLabelValue (\<lambda>s. s) ''/api/{Org}/foo'') \<and> MakeLabelValue (\<lambda>s. s) ''/api/{Org}/foo'' = ''api__org__foo''"
proof -
  have a: "ascii ''/api/{Org}/foo''" by code_simp
  have "Replace invalidCharsReplacer ''/api/{Org}/foo'' = ''_api__Org__foo''"
    unfolding Replace_ascii [OF a] by code_simp
  moreover have "Trim_underscores ''_api__Org__foo'' = ''api__Org__foo''" "ToLower ''api__Org__foo'' = ''api__org__foo''"
    "list_all (\<lambda>c. (of_char c :: nat) < 128) ''api__Org__foo''" by code_simp+
  ultimately have "MakeLabelValue (\<lambda>s. s) ''/api/{Org}/foo'' = ''api__org__foo''" by (simp add: MakeLabelValue_def)
  with MakeLabelValue_label [OF a, of "\<lambda>s. s"] show ?thesis by simp
qed

text \<open>
  C32. The limit on request bodies is exact. A body of at most the maximum that is read to its end is
  passed on unchanged; one that fails before its end, with no more than the maximum read, is answered by
  408, 499 or 500; a longer one is answered by 413. In the last two cases the handler is not called,
  and never more than one byte beyond the maximum is read.
\<close>

theorem request_limits_exact:
  fixes max_size :: "64 word" and env :: "'u mw_env" and next_h :: "'u handler" and r :: "'u http_req"
  assumes "0 \<le> sint max_size" and "sint max_size < 2 ^ 63 - 1"
  defines "run \<equiv> RequestLimits_Wrap env max_size next_h r" and "len \<equiv> int (length (b_data (hr_Body r)))"
  shows "run_reads run = [min len (sint max_size + 1)] \<and>
    (if sint max_size < len \<and> (sint max_size + 1 < len \<or> \<not> b_with (hr_Body r) \<or> b_err (hr_Body r) = None)
     then \<exists>msg. run_calls run = http_Error_calls env msg 413 \<and> run_metrics run = [] \<and> \<not> run_panic run
     else case b_err (hr_Body r) of
       Some e \<Rightarrow>
         run_calls run = http_Error_calls env (''failed to read request body: '' @ re_text e)
           (if re_Timeout e then 408 else if re_Canceled e \<or> re_UnexpectedEOF e then 499 else 500) \<and>
         run_metrics run = [] \<and> \<not> run_panic run
     | None \<Rightarrow>
         \<exists>ctx. cx_user ctx = cx_user (hr_ctx r) \<and> cx_begin ctx = cx_begin (hr_ctx r) \<and>
           run = (next_h (r\<lparr>hr_Body := \<lparr>b_data = b_data (hr_Body r), b_err = None, b_with = False\<rparr>, hr_ctx := ctx\<rparr>))
             \<lparr>run_reads := [len]\<rparr>)"
proof -
  have inc: "sint (max_size + 1) = sint max_size + 1"
    using assms(1,2) by (rule sint_inc [rotated])
  let ?n = "sint max_size + 1" and ?b = "hr_Body r" and ?ctx = "(hr_ctx r)\<lparr>cx_trace := me_NewSpan env (cx_trace (hr_ctx r))\<rparr>"
  have n: "0 < ?n" using assms(1) by simp
  consider (long) "?n < len \<or> len = ?n \<and> \<not> b_with ?b" | (all) "len < ?n \<or> len = ?n \<and> b_with ?b" by linarith
  then show ?thesis
  proof cases
    case long
    then have "ReadAll_LimitReader ?b ?n = (take (nat ?n) (b_data ?b), None)"
      using n by (auto simp: ReadAll_LimitReader_def len_def Let_def)
    moreover have "int (length (take (nat ?n) (b_data ?b))) = ?n" using long n by (auto simp: len_def min_def)
    ultimately show ?thesis using long by (auto simp: run_def RequestLimits_Wrap_def inc Let_def)
  next
    case all
    then have "ReadAll_LimitReader ?b ?n = (b_data ?b, b_err ?b)"
      using n by (auto simp: ReadAll_LimitReader_def len_def Let_def)
    then show ?thesis using all
      by (cases "b_err ?b") (auto simp: run_def RequestLimits_Wrap_def inc Let_def len_def isNetworkError_def StatusClientClosedRequest_def
        intro!: exI [of _ ?ctx])
  qed
qed

theorem request_limits_exact_witness:
  "run_reads (RequestLimits_Wrap example_mw 2 echo (example_request [])) = [3] \<and>
    (\<exists>msg. run_calls (RequestLimits_Wrap example_mw 2 echo (example_request [])) = http_Error_calls example_mw msg 413)"
  using request_limits_exact [of 2 example_mw echo "example_request []"] by (simp add: example_request_def)

text \<open>
  With the largest limit that the flag takes, the limit plus one is negative: the body is not read
  at all and the handler gets an empty one, whatever was sent.
\<close>

theorem request_limits_overflow:
  shows "\<exists>ctx. RequestLimits_Wrap env (2 ^ 63 - 1) next_h r =
    (next_h (r\<lparr>hr_Body := \<lparr>b_data = [], b_err = None, b_with = False\<rparr>, hr_ctx := ctx\<rparr>))\<lparr>run_reads := [0]\<rparr>"
proof -
  have m: "sint (2 ^ 63 - 1 :: 64 word) = 2 ^ 63 - 1" "sint ((2 ^ 63 - 1 :: 64 word) + 1) = - (2 ^ 63)" by code_simp+
  then have "ReadAll_LimitReader (hr_Body r) (sint ((2 ^ 63 - 1 :: 64 word) + 1)) = ([], None)"
    by (simp add: ReadAll_LimitReader_def)
  then show ?thesis using m(1) by (auto simp: RequestLimits_Wrap_def Let_def simp del: diff_add_cancel)
qed

end
