(* ===== verification/Flags.thy ===== *)
theory Flags
  imports Strings GoFile
begin

text \<open>
  The configurations and the flags that they register: \<^verbatim>\<open>pkg/server/server.go\<close>,
  \<^verbatim>\<open>pkg/internalserver/internalserver_handler.go\<close>, \<^verbatim>\<open>pkg/appcommon/harness.go\<close>,
  \<^verbatim>\<open>pkg/remotewrite/client.go\<close> and \<^verbatim>\<open>pkg/graphite/writeproxy/config.go\<close>. Of the \<^verbatim>\<open>flag\<close> package it
  matters that a flag set panics when a name is defined twice. Durations are in nanoseconds; the usage
  texts are left out.
\<close>

datatype flag_value = FString string | FInt int | FInt64 int | FDuration int | FBool bool

type_synonym flag_set = "(string \<times> flag_value) list"

text \<open>\<^verbatim>\<open>flags.StringVar\<close> and the like.\<close>

definition define_flag :: "string \<times> flag_value \<Rightarrow> flag_set \<Rightarrow> flag_set res" where
  "define_flag f flags = (if fst f \<in> fst ` set flags then Panic else Ok (flags @ [f]))"

fun define_flags :: "(string \<times> flag_value) list \<Rightarrow> flag_set \<Rightarrow> flag_set res" where
  "define_flags [] flags = Ok flags"
| "define_flags (f # fs) flags =
     (case define_flag f flags of Ok flags \<Rightarrow> define_flags fs flags | Err e \<Rightarrow> Err e | Panic \<Rightarrow> Panic)"

text \<open>A prefix that is not blank gets a dot at its end.\<close>

definition flag_prefix :: "string \<Rightarrow> string" where
  "flag_prefix pre = (if pre \<noteq> [] \<and> \<not> suffix ''.'' pre then pre @ ''.'' else pre)"

abbreviation seconds :: "int \<Rightarrow> int" where
  "seconds n \<equiv> n * 1000000000"

definition server_RegisterFlagsWithPrefix :: "string \<Rightarrow> flag_set \<Rightarrow> flag_set res" where
  "server_RegisterFlagsWithPrefix pre =
     (let pre = flag_prefix pre
      in define_flags
       [(pre @ ''server.http-listen-address'', FString ''0.0.0.0''),
        (pre @ ''server.http-listen-port'', FInt 8000),
        (pre @ ''server.http-listen-conn-limit'', FInt 0),
        (pre @ ''server.graceful-shutdown-timeout'', FDuration (seconds 5)),
        (pre @ ''server.http-server-read-timeout'', FDuration (seconds 30)),
        (pre @ ''server.http-server-write-timeout'', FDuration (seconds 35)),
        (pre @ ''server.http-server-idle-timeout'', FDuration (seconds 30)),
        (pre @ ''server.http-max-req-size-limit'', FInt64 (10 * 1024 * 1024)),
        (pre @ ''server.path-prefix'', FString []),
        (pre @ ''server.grpc-listen-port'', FInt 9095)])"

definition internalserver_RegisterFlagsWithPrefix :: "string \<Rightarrow> flag_set \<Rightarrow> flag_set res" where
  "internalserver_RegisterFlagsWithPrefix pre =
     (let pre = flag_prefix pre
      in define_flags
       [(pre @ ''internalserver.http-listen-address'', FString []),
        (pre @ ''internalserver.http-listen-port'', FInt 8081),
        (pre @ ''internalserver.graceful-shutdown-timeout'', FDuration (seconds 5))])"

definition app_RegisterFlagsWithPrefix :: "string \<Rightarrow> flag_set \<Rightarrow> flag_set res" where
  "app_RegisterFlagsWithPrefix pre flags =
     (let pre = flag_prefix pre
      in case define_flags
            [(pre @ ''instrument-buckets'', FString ''.005,.010,.015,.020,.025,.050,.100,.250,.500,1,2.5,5,10''),
             (pre @ ''auth.enable'', FBool True),
             (pre @ ''service-name'', FString [])] flags of
           Ok flags \<Rightarrow>
             (case server_RegisterFlagsWithPrefix pre flags of
                Ok flags \<Rightarrow> internalserver_RegisterFlagsWithPrefix pre flags
              | r \<Rightarrow> r)
         | r \<Rightarrow> r)"

definition remotewrite_RegisterFlagsWithPrefix :: "string \<Rightarrow> flag_set \<Rightarrow> flag_set res" where
  "remotewrite_RegisterFlagsWithPrefix pre =
     (let pre = flag_prefix pre
      in define_flags
       [(pre @ ''write-endpoint'', FString []),
        (pre @ ''write-timeout'', FDuration (seconds 1)),
        (pre @ ''write-keep-alive'', FDuration (seconds 30)),
        (pre @ ''write-max-idle-conns'', FInt 10),
        (pre @ ''write-max-conns'', FInt 100),
        (pre @ ''skip-label-validation'', FBool False),
        (pre @ ''user-agent'', FString [])])"

definition writeproxy_RegisterFlagsWithPrefix :: "string \<Rightarrow> flag_set \<Rightarrow> flag_set res" where
  "writeproxy_RegisterFlagsWithPrefix pre = remotewrite_RegisterFlagsWithPrefix pre"

definition server_RegisterFlags :: "flag_set \<Rightarrow> flag_set res" where
  "server_RegisterFlags = server_RegisterFlagsWithPrefix []"

definition internalserver_RegisterFlags :: "flag_set \<Rightarrow> flag_set res" where
  "internalserver_RegisterFlags = internalserver_RegisterFlagsWithPrefix []"

definition app_RegisterFlags :: "flag_set \<Rightarrow> flag_set res" where
  "app_RegisterFlags = app_RegisterFlagsWithPrefix []"

definition remotewrite_RegisterFlags :: "flag_set \<Rightarrow> flag_set res" where
  "remotewrite_RegisterFlags = remotewrite_RegisterFlagsWithPrefix []"

definition writeproxy_RegisterFlags :: "flag_set \<Rightarrow> flag_set res" where
  "writeproxy_RegisterFlags = writeproxy_RegisterFlagsWithPrefix []"

section \<open>No name is defined twice\<close>

lemma define_flags_Ok:
  assumes "distinct (map fst fs)" and "fst ` set fs \<inter> fst ` set flags = {}"
  shows "define_flags fs flags = Ok (flags @ fs)"
  using assms
proof (induction fs arbitrary: flags)
  case (Cons f fs)
  have "define_flags fs (flags @ [f]) = Ok ((flags @ [f]) @ fs)"
    by (rule Cons.IH) (use Cons.prems in auto)
  then show ?case using Cons.prems by (simp add: define_flag_def)
qed simp

lemma flag_prefix_idem [simp]: "flag_prefix (flag_prefix pre) = flag_prefix pre"
  by (simp add: flag_prefix_def)

text \<open>The part of a name after its last dot.\<close>

definition last_part :: "string \<Rightarrow> string" where
  "last_part name = rev (takeWhile (\<lambda>c. c \<noteq> CHR ''.'') (rev name))"

lemma last_part_dot:
  assumes "CHR ''.'' \<in> set s"
  shows "last_part (pre @ s) = last_part s"
  using assms by (simp add: last_part_def takeWhile_append1)

lemma last_part_prefix:
  assumes "CHR ''.'' \<notin> set s"
  shows "last_part (flag_prefix pre @ s) = s"
proof -
  have s: "takeWhile (\<lambda>c. c \<noteq> CHR ''.'') (rev s @ CHR ''.'' # t) = rev s" for t
    using assms by (induction s rule: rev_induct) auto
  have all: "takeWhile (\<lambda>c. c \<noteq> CHR ''.'') (rev s) = rev s" using assms by (auto simp: takeWhile_eq_all_conv)
  show "last_part (flag_prefix pre @ s) = s"
  proof (cases "flag_prefix pre = []")
    case True
    then show ?thesis using all by (simp only: last_part_def append_Nil rev_rev_ident)
  next
    case False
    then have "suffix ''.'' (flag_prefix pre)" by (auto simp: flag_prefix_def suffix_def split: if_splits)
    then obtain t where "flag_prefix pre = t @ ''.''" by (auto simp: suffix_def)
    then show ?thesis using s by (simp add: last_part_def)
  qed
qed

text \<open>The names that a configuration defines, in order, all below its prefix.\<close>

definition app_names :: "string list" where
  "app_names = [''instrument-buckets'', ''auth.enable'', ''service-name'', ''server.http-listen-address'', ''server.http-listen-port'',
     ''server.http-listen-conn-limit'', ''server.graceful-shutdown-timeout'', ''server.http-server-read-timeout'',
     ''server.http-server-write-timeout'', ''server.http-server-idle-timeout'', ''server.http-max-req-size-limit'',
     ''server.path-prefix'', ''server.grpc-listen-port'', ''internalserver.http-listen-address'',
     ''internalserver.http-listen-port'', ''internalserver.graceful-shutdown-timeout'']"

definition remotewrite_names :: "string list" where
  "remotewrite_names = [''write-endpoint'', ''write-timeout'', ''write-keep-alive'', ''write-max-idle-conns'', ''write-max-conns'',
     ''skip-label-validation'', ''user-agent'']"

lemma distinct_names: "distinct app_names" "distinct remotewrite_names"
  by code_simp+

lemma define_flags_append:
  "define_flags (fs @ gs) flags = (case define_flags fs flags of Ok flags \<Rightarrow> define_flags gs flags | r \<Rightarrow> r)"
  by (induction fs arbitrary: flags) (auto split: res.splits)

lemma app_defines:
  obtains vs where "length vs = 16"
    and "\<And>flags. app_RegisterFlagsWithPrefix pre flags = define_flags (zip (map ((@) (flag_prefix pre)) app_names) vs) flags"
proof
  let ?vs = "[FString ''.005,.010,.015,.020,.025,.050,.100,.250,.500,1,2.5,5,10'', FBool True, FString [],
    FString ''0.0.0.0'', FInt 8000, FInt 0, FDuration (seconds 5), FDuration (seconds 30), FDuration (seconds 35),
    FDuration (seconds 30), FInt64 (10 * 1024 * 1024), FString [], FInt 9095, FString [], FInt 8081, FDuration (seconds 5)]"
  show "length ?vs = 16" by simp
  fix flags
  let ?z = "zip (map ((@) (flag_prefix pre)) app_names) ?vs"
  have "?z = take 3 ?z @ take 10 (drop 3 ?z) @ drop 13 ?z" by (simp add: app_names_def)
  then have "define_flags ?z flags = define_flags (take 3 ?z @ take 10 (drop 3 ?z) @ drop 13 ?z) flags" by (rule arg_cong)
  also have "\<dots> = app_RegisterFlagsWithPrefix pre flags"
    unfolding define_flags_append app_RegisterFlagsWithPrefix_def server_RegisterFlagsWithPrefix_def
      internalserver_RegisterFlagsWithPrefix_def Let_def flag_prefix_idem app_names_def
    by (simp del: define_flags.simps split: res.splits)
  finally show "app_RegisterFlagsWithPrefix pre flags = define_flags ?z flags" ..
qed

lemma remotewrite_defines:
  obtains vs where "length vs = 7"
    and "\<And>flags. remotewrite_RegisterFlagsWithPrefix pre flags = define_flags (zip (map ((@) (flag_prefix pre)) remotewrite_names) vs) flags"
proof
  let ?vs = "[FString [], FDuration (seconds 1), FDuration (seconds 30), FInt 10, FInt 100, FBool False, FString []]"
  show "length ?vs = 7" by simp
  fix flags
  show "remotewrite_RegisterFlagsWithPrefix pre flags = define_flags (zip (map ((@) (flag_prefix pre)) remotewrite_names) ?vs) flags"
    by (simp add: remotewrite_RegisterFlagsWithPrefix_def remotewrite_names_def Let_def del: define_flags.simps)
qed

lemma last_parts:
  "last_part ` (@) (flag_prefix pre) ` set app_names \<inter> last_part ` (@) (flag_prefix pre') ` set remotewrite_names = {}"
proof -
  have "last_part (flag_prefix p @ s) = last_part s" for p s
    using last_part_dot [of s] last_part_prefix [of s p] last_part_prefix [of s "[]"] by (cases "CHR ''.'' \<in> set s") (simp_all add: flag_prefix_def)
  then have e: "last_part ` (@) (flag_prefix p) ` S = last_part ` S" for p S by (simp add: image_image)
  have "set (map last_part app_names) \<inter> set (map last_part remotewrite_names) = {}" by code_simp
  then show ?thesis unfolding e by simp
qed

text \<open>
  The flags of the application and of the write proxy can be registered in one flag set, with any
  prefixes, the same or different ones: no name is defined twice, which would be a panic, and all of
  them begin with their prefix, a dot put behind it where it has none.
\<close>

theorem flags_defined_once:
  "\<exists>flags. (case app_RegisterFlagsWithPrefix pre [] of Ok flags \<Rightarrow> writeproxy_RegisterFlagsWithPrefix pre' flags | r \<Rightarrow> r) = Ok flags \<and>
    map fst flags = map ((@) (flag_prefix pre)) app_names @ map ((@) (flag_prefix pre')) remotewrite_names \<and> distinct (map fst flags)"
proof -
  obtain vs where vs: "length vs = 16" "\<And>flags. app_RegisterFlagsWithPrefix pre flags = define_flags (zip (map ((@) (flag_prefix pre)) app_names) vs) flags"
    by (rule app_defines [where pre = pre]) blast
  obtain ws where ws: "length ws = 7" "\<And>flags. remotewrite_RegisterFlagsWithPrefix pre' flags = define_flags (zip (map ((@) (flag_prefix pre')) remotewrite_names) ws) flags"
    by (rule remotewrite_defines [where pre = pre']) blast
  let ?a = "zip (map ((@) (flag_prefix pre)) app_names) vs" and ?b = "zip (map ((@) (flag_prefix pre')) remotewrite_names) ws"
  have a: "map fst ?a = map ((@) (flag_prefix pre)) app_names" using vs(1) by (simp add: app_names_def)
  have b: "map fst ?b = map ((@) (flag_prefix pre')) remotewrite_names" using ws(1) by (simp add: remotewrite_names_def)
  have d: "distinct (map fst (?a @ ?b))"
    unfolding map_append a b using last_parts [of pre pre'] distinct_names by (auto simp: distinct_map inj_on_def)
  then have "define_flags (?a @ ?b) [] = Ok (?a @ ?b)" by (intro define_flags_Ok [of _ "[]", simplified]) simp
  then have "(case app_RegisterFlagsWithPrefix pre [] of Ok flags \<Rightarrow> writeproxy_RegisterFlagsWithPrefix pre' flags | r \<Rightarrow> r) = Ok (?a @ ?b)"
    unfolding define_flags_append vs(2) writeproxy_RegisterFlagsWithPrefix_def ws(2) .
  then show ?thesis using d a b by (intro exI [of _ "?a @ ?b"]) simp
qed

end
