(* ===== verification/Server.thy ===== *)
theory Server
  imports Middleware_Correct Flags
begin

text \<open>
  The life of the process: \<^verbatim>\<open>pkg/server/server.go\<close>, \<^verbatim>\<open>pkg/internalserver\<close> and \<^verbatim>\<open>pkg/stopsignal\<close>. Opening
  a port, the router and serving are parameters; what runs concurrently is a relation of single
  steps.
\<close>

section \<open>\<^verbatim>\<open>server.go\<close>\<close>

record server_Config =
  sc_HTTPListenAddress :: string
  sc_HTTPListenPort :: int
  sc_HTTPConnLimit :: int
  sc_ServerGracefulShutdownTimeout :: int
  sc_HTTPServerReadTimeout :: int
  sc_HTTPServerWriteTimeout :: int
  sc_HTTPServerIdleTimeout :: int
  sc_HTTPMaxRequestSizeLimit :: "64 word"
  sc_GRPCListenPort :: int
  sc_PathPrefix :: string

datatype listener = Listener string | LimitListener listener int

record ('rt, 'u) server =
  sv_cfg :: server_Config
  sv_httpListener :: listener
  sv_grpcListener :: listener
  sv_Router :: 'rt
  sv_ReadTimeout :: int
  sv_WriteTimeout :: int
  sv_IdleTimeout :: int
  sv_Handler :: "'u handler"

text \<open>\<open>nl_Listen\<close> is \<^verbatim>\<open>net.Listen\<close> on a TCP address; a router is a handler and has routers below it.\<close>

record ('rt, 'u) net_lib =
  nl_Listen :: "string \<Rightarrow> string + listener"
  nl_Subrouter :: "'rt \<Rightarrow> string \<Rightarrow> 'rt"
  nl_serve :: "'rt \<Rightarrow> 'u handler"

definition limit_listener :: "server_Config \<Rightarrow> listener \<Rightarrow> listener" where
  "limit_listener cfg l = (if 0 < sc_HTTPConnLimit cfg then LimitListener l (sc_HTTPConnLimit cfg) else l)"

definition http_addr :: "server_Config \<Rightarrow> string" where
  "http_addr cfg = sc_HTTPListenAddress cfg @ '':'' @ Itoa (sc_HTTPListenPort cfg)"

definition grpc_addr :: "server_Config \<Rightarrow> string" where
  "grpc_addr cfg = ''0.0.0.0:'' @ Itoa (sc_GRPCListenPort cfg)"

text \<open>
  The server and the error, both of which may be nil, and the listeners that are left open. When the
  second port cannot be opened the error that is returned is that of the first, which is nil.
\<close>

definition NewServer ::
    "('rt, 'u) net_lib \<Rightarrow> server_Config \<Rightarrow> 'rt option \<Rightarrow> ('u handler \<Rightarrow> 'u handler) list
      \<Rightarrow> ('rt, 'u) server option \<times> string option \<times> listener list" where
  "NewServer lib cfg router middlewares =
     (case router of
        None \<Rightarrow> (None, Some ''router must be initialized'', [])
      | Some router \<Rightarrow>
          (case nl_Listen lib (http_addr cfg) of
             Inl err \<Rightarrow> (None, Some err, [])
           | Inr httpListener \<Rightarrow>
               let err = None;
                   httpListener = limit_listener cfg httpListener;
                   router = (if sc_PathPrefix cfg \<noteq> [] then nl_Subrouter lib router (sc_PathPrefix cfg) else router);
                   httpHandler = Merge middlewares (nl_serve lib router)
               in case nl_Listen lib (grpc_addr cfg) of
                    Inl grpcListenerErr \<Rightarrow> (None, err, [httpListener])
                  | Inr grpcListener \<Rightarrow>
                      (Some \<lparr>sv_cfg = cfg, sv_httpListener = httpListener, sv_grpcListener = grpcListener, sv_Router = router,
                             sv_ReadTimeout = sc_HTTPServerReadTimeout cfg, sv_WriteTimeout = sc_HTTPServerWriteTimeout cfg,
                             sv_IdleTimeout = sc_HTTPServerIdleTimeout cfg, sv_Handler = httpHandler\<rparr>,
                       None, [httpListener, grpcListener])))"

text \<open>
  \<^verbatim>\<open>Run\<close>: two goroutines serve, each sends what serving returned on a channel with room for one
  value; the first value is returned. The ends of a stopped server are no errors.
\<close>

datatype serve_err = ErrServerClosed | ErrServerStopped | ServeError string

definition http_end :: "serve_err option \<Rightarrow> serve_err option" where
  "http_end err = (if err = Some ErrServerClosed then None else err)"

definition grpc_end :: "serve_err option \<Rightarrow> serve_err option" where
  "grpc_end err = (if err = Some ErrServerStopped then None else err)"

datatype goroutine = Serving | Ended "serve_err option" | Sent "serve_err option"

record run_state =
  rn_http :: goroutine
  rn_grpc :: goroutine
  rn_errChan :: "serve_err option list"
  rn_returned :: "serve_err option option"

definition run_start :: run_state where
  "run_start = \<lparr>rn_http = Serving, rn_grpc = Serving, rn_errChan = [], rn_returned = None\<rparr>"

inductive run_step :: "run_state \<Rightarrow> run_state \<Rightarrow> bool" where
  http_ends: "rn_http s = Serving \<Longrightarrow> run_step s (s\<lparr>rn_http := Ended (http_end err)\<rparr>)"
| grpc_ends: "rn_grpc s = Serving \<Longrightarrow> run_step s (s\<lparr>rn_grpc := Ended (grpc_end err)\<rparr>)"
| http_sends: "rn_http s = Ended e \<Longrightarrow> length (rn_errChan s) < 1 \<Longrightarrow>
    run_step s (s\<lparr>rn_http := Sent e, rn_errChan := rn_errChan s @ [e]\<rparr>)"
| grpc_sends: "rn_grpc s = Ended e \<Longrightarrow> length (rn_errChan s) < 1 \<Longrightarrow>
    run_step s (s\<lparr>rn_grpc := Sent e, rn_errChan := rn_errChan s @ [e]\<rparr>)"
| receives: "rn_returned s = None \<Longrightarrow> rn_errChan s = e # es \<Longrightarrow>
    run_step s (s\<lparr>rn_errChan := es, rn_returned := Some e\<rparr>)"

inductive_cases run_stepE: "run_step s s'"

text \<open>\<^verbatim>\<open>Shutdown\<close>: the HTTP server first, then the other one; an error is only logged.\<close>

datatype shutdown_call = HTTPShutdown int | ShutdownLog log_line | GRPCGracefulStop

definition msg_line :: "severity \<Rightarrow> string \<Rightarrow> log_line" where
  "msg_line lv msg = \<lparr>ll_level = lv, ll_keyvals = [(''msg'', VStr msg)]\<rparr>"

definition server_Shutdown :: "(int \<Rightarrow> string option) \<Rightarrow> server_Config \<Rightarrow> shutdown_call list" where
  "server_Shutdown shutdown cfg =
     [ShutdownLog (msg_line LevelInfo ''Shutting down http server''), HTTPShutdown (sc_ServerGracefulShutdownTimeout cfg)] @
     (case shutdown (sc_ServerGracefulShutdownTimeout cfg) of
        Some err \<Rightarrow> [ShutdownLog \<lparr>ll_level = LevelError, ll_keyvals = [(''msg'', VStr ''Server shutdown error''), (''err'', VStr err)]\<rparr>]
      | None \<Rightarrow> []) @
     [ShutdownLog (msg_line LevelInfo ''Server shut down correctly''), ShutdownLog (msg_line LevelInfo ''Shutting down grpc server''),
      GRPCGracefulStop]"

section \<open>\<^verbatim>\<open>ready_handler.go\<close>\<close>

definition NewReadinessHandler :: "(string \<Rightarrow> int \<times> string option) \<Rightarrow> bool \<Rightarrow> writer_call list \<times> log_line list" where
  "NewReadinessHandler wr ready =
     (let (code, data) = (if ready then (200, ''OK'') else (500, ''Not ready''));
          (n, err) = wr data
      in ([WriteHeader code, Write data n err],
          case err of
            Some e \<Rightarrow> [\<lparr>ll_level = LevelError, ll_keyvals = [(''msg'', VStr ''ready endpoint error''), (''err'', VStr e)]\<rparr>]
          | None \<Rightarrow> []))"

definition AlwaysReady_Ready :: bool where
  "AlwaysReady_Ready = True"

section \<open>\<^verbatim>\<open>signal_handler.go\<close>\<close>

text \<open>
  The state: whether it is ready, whether \<open>quit\<close> is closed, whether a signal waits in the channel, which
  has room for one, and where \<open>run\<close> is. The steps are calls from outside and the choices of the
  \<^verbatim>\<open>select\<close>. Closing \<open>quit\<close> again is a panic, after which nothing happens.
\<close>

datatype run_phase = NotCalled | NotRunning | Selecting | Sleeping | Returned

record signal_handler =
  sh_ready :: bool
  sh_quit :: bool
  sh_sigs :: bool
  sh_phase :: run_phase
  sh_panic :: bool

definition NewSignalHandler :: signal_handler where
  "NewSignalHandler = \<lparr>sh_ready = False, sh_quit = False, sh_sigs = False, sh_phase = NotCalled, sh_panic = False\<rparr>"

datatype sig_event = CallHandler | CallRun | Signal | TakeQuit | TakeSignal | Wake | CallStop

definition sig_step :: "int \<Rightarrow> sig_event \<Rightarrow> signal_handler \<Rightarrow> signal_handler option" where
  "sig_step shutdownDelay ev sh =
     (if sh_panic sh then None
      else case ev of
        CallHandler \<Rightarrow> if sh_phase sh = NotCalled then Some (sh\<lparr>sh_ready := True, sh_phase := NotRunning\<rparr>) else None
      | CallRun \<Rightarrow> if sh_phase sh = NotRunning then Some (sh\<lparr>sh_phase := Selecting\<rparr>) else None
      | Signal \<Rightarrow> if sh_phase sh \<noteq> NotCalled then Some (sh\<lparr>sh_sigs := True\<rparr>) else None
      | TakeQuit \<Rightarrow> if sh_phase sh = Selecting \<and> sh_quit sh then Some (sh\<lparr>sh_phase := Returned\<rparr>) else None
      | TakeSignal \<Rightarrow>
          if sh_phase sh = Selecting \<and> sh_sigs sh
          then Some (sh\<lparr>sh_sigs := False, sh_ready := False, sh_phase := (if 0 < shutdownDelay then Sleeping else Returned)\<rparr>)
          else None
      | Wake \<Rightarrow> if sh_phase sh = Sleeping then Some (sh\<lparr>sh_phase := Returned\<rparr>) else None
      | CallStop \<Rightarrow> Some (if sh_quit sh then sh\<lparr>sh_panic := True\<rparr> else sh\<lparr>sh_quit := True\<rparr>))"

definition signal_Ready :: "signal_handler \<Rightarrow> bool" where
  "signal_Ready sh = sh_ready sh"

text \<open>The states that are reached, with the steps that led there, the last one first.\<close>

inductive sig_reach :: "int \<Rightarrow> sig_event list \<Rightarrow> signal_handler \<Rightarrow> bool" for shutdownDelay where
  Start: "sig_reach shutdownDelay [] NewSignalHandler"
| Step: "sig_reach shutdownDelay evs sh \<Longrightarrow> sig_step shutdownDelay ev sh = Some sh' \<Longrightarrow> sig_reach shutdownDelay (ev # evs) sh'"

section \<open>Invariants\<close>

definition sent_values :: "goroutine \<Rightarrow> serve_err option list" where
  "sent_values g = (case g of Sent e \<Rightarrow> [e] | _ \<Rightarrow> [])"

text \<open>What was sent is in the channel or was returned.\<close>

definition run_inv :: "run_state \<Rightarrow> bool" where
  "run_inv s \<longleftrightarrow>
     mset (rn_errChan s @ (case rn_returned s of Some e \<Rightarrow> [e] | None \<Rightarrow> [])) =
       mset (sent_values (rn_http s) @ sent_values (rn_grpc s)) \<and>
     length (rn_errChan s) \<le> 1"

lemma run_inv_step: "run_step s s' \<Longrightarrow> run_inv s \<Longrightarrow> run_inv s'"
  by (elim run_stepE) (auto simp: run_inv_def sent_values_def split: option.splits)

lemma run_inv_reach: "run_step\<^sup>*\<^sup>* run_start s \<Longrightarrow> run_inv s"
proof (induction rule: rtranclp_induct)
  case base
  then show ?case by (simp add: run_inv_def run_start_def sent_values_def)
next
  case (step s s')
  then show ?case using run_inv_step by blast
qed

lemma sig_phase_inv:
  "sig_reach d evs sh \<Longrightarrow>
    (sh_ready sh \<longleftrightarrow> CallHandler \<in> set evs \<and> TakeSignal \<notin> set evs) \<and>
    (sh_phase sh = NotCalled \<longleftrightarrow> CallHandler \<notin> set evs) \<and>
    (sh_phase sh = NotCalled \<longrightarrow> TakeSignal \<notin> set evs) \<and>
    (sh_phase sh = Sleeping \<longrightarrow> TakeSignal \<in> set evs) \<and>
    (sh_quit sh \<longleftrightarrow> CallStop \<in> set evs) \<and>
    (sh_panic sh \<longleftrightarrow> 2 \<le> count_list evs CallStop)"
proof (induction rule: sig_reach.induct)
  case Start
  then show ?case by (simp add: NewSignalHandler_def)
next
  case (Step evs sh ev sh')
  have "CallStop \<in> set evs \<longleftrightarrow> 1 \<le> count_list evs CallStop" by (simp add: Suc_le_eq count_list_0_iff flip: neq0_conv)
  then show ?case using Step by (cases ev) (auto simp: sig_step_def split: if_splits)
qed

text \<open>The steps that are left: two of each goroutine, one of the caller.\<close>

definition steps_left :: "run_state \<Rightarrow> nat" where
  "steps_left s =
     (case rn_http s of Serving \<Rightarrow> 2 | Ended e \<Rightarrow> 1 | Sent e \<Rightarrow> 0) +
     (case rn_grpc s of Serving \<Rightarrow> 2 | Ended e \<Rightarrow> 1 | Sent e \<Rightarrow> 0) + (if rn_returned s = None then 1 else 0)"

lemma run_step_steps: "run_step s s' \<Longrightarrow> steps_left s = Suc (steps_left s')"
  by (elim run_stepE) (simp_all add: steps_left_def)

lemma run_steps: "(run_step ^^ n) s s' \<Longrightarrow> steps_left s = n + steps_left s'"
proof (induction n arbitrary: s')
  case (Suc n)
  then obtain t where "(run_step ^^ n) s t" "run_step t s'" by auto
  then show ?case using Suc.IH run_step_steps by fastforce
qed simp

lemma run_final:
  assumes "run_inv s" and "\<forall>s'. \<not> run_step s s'"
  shows "\<exists>e e'. rn_http s = Sent e \<and> rn_grpc s = Sent e' \<and> (rn_returned s = Some e \<or> rn_returned s = Some e')"
proof -
  have count: "length (rn_errChan s) + (if rn_returned s = None then 0 else 1) = length (sent_values (rn_http s)) + length (sent_values (rn_grpc s))"
    using arg_cong [OF conjunct1 [OF assms(1) [unfolded run_inv_def]], of size] by (auto split: option.splits)
  have bound: "length (sent_values g) \<le> 1" "length (sent_values g) = 1 \<Longrightarrow> \<exists>e. g = Sent e" for g
    by (cases g; simp add: sent_values_def)+
  have serving: "rn_http s \<noteq> Serving" "rn_grpc s \<noteq> Serving" using assms(2) run_step.intros(1,2) by blast+
  have received: "rn_returned s \<noteq> None" if "rn_errChan s \<noteq> []"
    using assms(2) run_step.intros(5) that by (metis neq_Nil_conv)
  have "length (rn_errChan s) \<ge> 1" if "rn_http s = Ended e \<or> rn_grpc s = Ended e" for e
    using assms(2) run_step.intros(3,4) that by (metis not_less)
  then have full: "length (rn_errChan s) = 1 \<and> rn_returned s \<noteq> None" if "rn_http s = Ended e \<or> rn_grpc s = Ended e" for e
    using that received assms(1) unfolding run_inv_def by fastforce
  have "\<exists>e. rn_http s = Sent e"
  proof (cases "rn_http s")
    case (Ended e)
    then have "length (sent_values (rn_http s)) + length (sent_values (rn_grpc s)) = 2" using full [of e] count by auto
    then show ?thesis using Ended bound(1) [of "rn_grpc s"] by (simp add: sent_values_def)
  qed (use serving in simp_all)
  moreover have "\<exists>e. rn_grpc s = Sent e"
  proof (cases "rn_grpc s")
    case (Ended e)
    then have "length (sent_values (rn_http s)) + length (sent_values (rn_grpc s)) = 2" using full [of e] count by auto
    then show ?thesis using Ended bound(1) [of "rn_http s"] by (simp add: sent_values_def)
  qed (use serving in simp_all)
  ultimately obtain e e' where e: "rn_http s = Sent e" "rn_grpc s = Sent e'" by blast
  then have "rn_returned s \<noteq> None" using count received
    by (cases "rn_errChan s = []") (auto simp: sent_values_def split: if_splits)
  then obtain x where x: "rn_returned s = Some x" by blast
  then have "x \<in># mset (rn_errChan s @ (case rn_returned s of Some e \<Rightarrow> [e] | None \<Rightarrow> []))" by simp
  then have "x \<in> set (sent_values (rn_http s) @ sent_values (rn_grpc s))" using assms(1) unfolding run_inv_def by (metis set_mset_mset)
  then have "x = e \<or> x = e'" using e by (simp add: sent_values_def)
  then show ?thesis using e x by blast
qed

section \<open>Properties\<close>

text \<open>
  C35. Running the server: however the two goroutines and the caller are interleaved, at most five steps
  are taken; what is returned is what one of the servers ended with; and when nothing can happen any
  more, \<^verbatim>\<open>Run\<close> has returned and both goroutines are done: none is left waiting at the channel.
\<close>

theorem server_run_completes:
  assumes "(run_step ^^ n) run_start s"
  shows "n \<le> 5 \<and> (\<forall>e. rn_returned s = Some e \<longrightarrow> rn_http s = Sent e \<or> rn_grpc s = Sent e) \<and>
    ((\<forall>s'. \<not> run_step s s') \<longrightarrow>
      (\<exists>e e'. rn_http s = Sent e \<and> rn_grpc s = Sent e' \<and> (rn_returned s = Some e \<or> rn_returned s = Some e')))"
proof -
  have inv: "run_inv s" using assms run_inv_reach by (metis relpowp_imp_rtranclp)
  have "n \<le> 5" using run_steps [OF assms] by (simp add: steps_left_def run_start_def)
  moreover have "rn_http s = Sent e \<or> rn_grpc s = Sent e" if "rn_returned s = Some e" for e
  proof -
    have "e \<in># mset (rn_errChan s @ (case rn_returned s of Some e \<Rightarrow> [e] | None \<Rightarrow> []))" using that by simp
    then have "e \<in> set (sent_values (rn_http s) @ sent_values (rn_grpc s))" using inv unfolding run_inv_def by (metis set_mset_mset)
    then show ?thesis by (auto simp: sent_values_def split: goroutine.splits)
  qed
  ultimately show ?thesis using run_final [OF inv] by blast
qed

theorem server_run_completes_witness:
  "(run_step ^^ 3) run_start \<lparr>rn_http = Serving, rn_grpc = Sent (Some (ServeError ''EOF'')), rn_errChan = [],
      rn_returned = Some (Some (ServeError ''EOF''))\<rparr> \<and> (3 :: nat) \<le> 5"
proof -
  let ?e = "Some (ServeError ''EOF'')"
  have 1: "run_step run_start \<lparr>rn_http = Serving, rn_grpc = Ended ?e, rn_errChan = [], rn_returned = None\<rparr>"
    using grpc_ends [of run_start ?e] by (simp add: run_start_def grpc_end_def)
  have 2: "run_step \<lparr>rn_http = Serving, rn_grpc = Ended ?e, rn_errChan = [], rn_returned = None\<rparr>
      \<lparr>rn_http = Serving, rn_grpc = Sent ?e, rn_errChan = [?e], rn_returned = None\<rparr>"
    using grpc_sends [of "\<lparr>rn_http = Serving, rn_grpc = Ended ?e, rn_errChan = [], rn_returned = None\<rparr>" ?e] by simp
  have 3: "run_step \<lparr>rn_http = Serving, rn_grpc = Sent ?e, rn_errChan = [?e], rn_returned = None\<rparr>
      \<lparr>rn_http = Serving, rn_grpc = Sent ?e, rn_errChan = [], rn_returned = Some ?e\<rparr>"
    using receives [of "\<lparr>rn_http = Serving, rn_grpc = Sent ?e, rn_errChan = [?e], rn_returned = None\<rparr>" ?e "[]"] by simp
  have "(run_step ^^ 3) run_start \<lparr>rn_http = Serving, rn_grpc = Sent ?e, rn_errChan = [], rn_returned = Some ?e\<rparr>"
    unfolding numeral_3_eq_3 relpowp.simps using 1 2 3 by (auto simp: relcompp_apply)
  from this server_run_completes [OF this] show ?thesis by blast
qed

text \<open>
  The readiness endpoint and the signal handler: it answers 200 exactly from the moment the handler
  is set up until \<^verbatim>\<open>run\<close> takes a signal, so during the whole delay before the shutdown it answers 500.
  Stopping twice, and only that, panics.
\<close>

theorem readiness_drains:
  assumes "sig_reach shutdownDelay evs sh"
  shows "hd (fst (NewReadinessHandler wr (signal_Ready sh))) =
      WriteHeader (if CallHandler \<in> set evs \<and> TakeSignal \<notin> set evs then 200 else 500) \<and>
    (sh_phase sh = Sleeping \<longrightarrow> hd (fst (NewReadinessHandler wr (signal_Ready sh))) = WriteHeader 500) \<and>
    (sh_panic sh \<longleftrightarrow> 2 \<le> count_list evs CallStop)"
  using sig_phase_inv [OF assms] by (auto simp: NewReadinessHandler_def signal_Ready_def Let_def split: prod.splits)

theorem readiness_drains_witness:
  "\<exists>sh. sig_reach 5 [TakeSignal, Signal, CallRun, CallHandler] sh \<and> sh_phase sh = Sleeping \<and>
    hd (fst (NewReadinessHandler (\<lambda>data. (int (length data), None)) (signal_Ready sh))) = WriteHeader 500"
proof -
  let ?s = "\<lambda>ready sigs phase. \<lparr>sh_ready = ready, sh_quit = False, sh_sigs = sigs, sh_phase = phase, sh_panic = False\<rparr>"
  have 1: "sig_reach 5 [CallHandler] (?s True False NotRunning)"
    by (rule sig_reach.Step [OF sig_reach.Start]) (simp add: sig_step_def NewSignalHandler_def)
  have 2: "sig_reach 5 [CallRun, CallHandler] (?s True False Selecting)"
    by (rule sig_reach.Step [OF 1]) (simp add: sig_step_def)
  have 3: "sig_reach 5 [Signal, CallRun, CallHandler] (?s True True Selecting)"
    by (rule sig_reach.Step [OF 2]) (simp add: sig_step_def)
  have 4: "sig_reach 5 [TakeSignal, Signal, CallRun, CallHandler] (?s False False Sleeping)"
    by (rule sig_reach.Step [OF 3]) (simp add: sig_step_def)
  from readiness_drains [OF 4, of "\<lambda>data. (int (length data), None)"] 4 show ?thesis
    by (intro exI [of _ "?s False False Sleeping"]) simp
qed

end
