(* ===== verification/App.thy ===== *)
theory App
  imports Server Telemetry
begin

text \<open>
  How a service is put together: \<^verbatim>\<open>pkg/appcommon/harness.go\<close>, with the logging context of
  \<^verbatim>\<open>pkg/ctxlog\<close>. The tracer, the metrics registry, the parsing of floats and the router are
  parameters.
\<close>

section \<open>\<^verbatim>\<open>pkg/ctxlog\<close>\<close>

text \<open>A logger is what it adds to each line; a line has a level, if any.\<close>

datatype ctx_line = CtxLine "severity option" "val list"

definition ContextWith :: "'u ctx \<Rightarrow> val list \<Rightarrow> 'u ctx" where
  "ContextWith ctx keyvals =
     (case cx_baggage ctx of
        None \<Rightarrow> ctx\<lparr>cx_baggage := Some keyvals\<rparr>
      | Some values \<Rightarrow> ctx\<lparr>cx_baggage := Some (values @ keyvals)\<rparr>)"

definition BaggageFrom :: "'u ctx \<Rightarrow> val list" where
  "BaggageFrom ctx = (case cx_baggage ctx of None \<Rightarrow> [] | Some values \<Rightarrow> values)"

definition ContextWithRequest :: "'u http_req \<Rightarrow> 'u ctx" where
  "ContextWithRequest r =
     (let ctx = hr_ctx r;
          (traceID, ok) = ExtractTraceID ctx;
          ctx = (if ok then ContextWith ctx [VStr ''traceID'', VStr traceID] else ctx)
      in ContextWith ctx [VStr ''request_uri'', VStr (hr_RequestURI r), VStr ''method'', VStr (hr_Method r)])"

text \<open>\<open>For\<close> gives a logger with the baggage; its methods log at their level.\<close>

definition log_For :: "val list \<Rightarrow> 'u ctx \<Rightarrow> val list" where
  "log_For logger ctx = logger @ BaggageFrom ctx"

definition log_Debug :: "val list \<Rightarrow> val list \<Rightarrow> ctx_line" where
  "log_Debug logger keyvals = CtxLine (Some LevelDebug) (logger @ keyvals)"

definition log_Info :: "val list \<Rightarrow> val list \<Rightarrow> ctx_line" where
  "log_Info logger keyvals = CtxLine (Some LevelInfo) (logger @ keyvals)"

definition log_Warn :: "val list \<Rightarrow> val list \<Rightarrow> ctx_line" where
  "log_Warn logger keyvals = CtxLine (Some LevelWarn) (logger @ keyvals)"

definition log_Error :: "val list \<Rightarrow> val list \<Rightarrow> ctx_line" where
  "log_Error logger keyvals = CtxLine (Some LevelError) (logger @ keyvals)"

section \<open>Configuration and errors\<close>

record app_Config =
  ac_InstrumentBuckets :: string
  ac_EnableAuth :: bool
  ac_ServiceName :: string
  ac_ServerConfig :: server_Config

text \<open>The loop of \<^verbatim>\<open>parseFloats\<close> over the values from the \<open>i\<close>-th on.\<close>

fun parse_loop :: "(string \<Rightarrow> string + 'f) \<Rightarrow> nat \<Rightarrow> string list \<Rightarrow> string + 'f list" where
  "parse_loop ParseFloat i [] = Inr []"
| "parse_loop ParseFloat i (s # strs) =
     (case ParseFloat s of
        Inl err \<Rightarrow> Inl (''can't parse value '' @ dec i @ '': '' @ err)
      | Inr v \<Rightarrow> map_sum id ((#) v) (parse_loop ParseFloat (i + 1) strs))"

definition parseFloats :: "(string \<Rightarrow> string + 'f) \<Rightarrow> string \<Rightarrow> string + 'f list" where
  "parseFloats ParseFloat str =
     (if str = [] then Inl ''empty string'' else parse_loop ParseFloat 0 (split_at (CHR '','') str))"

text \<open>\<^verbatim>\<open>AppError.Error\<close>: the loop from the \<open>i\<close>-th of \<open>n\<close> errors on.\<close>

fun app_error_loop :: "nat \<Rightarrow> nat \<Rightarrow> string list \<Rightarrow> string" where
  "app_error_loop n i [] = []"
| "app_error_loop n i (err # errs) =
     ''error '' @ dec (i + 1) @ '': '' @ err @ (if i + 1 < n then '', '' else []) @ app_error_loop n (i + 1) errs"

definition AppError_Error :: "string list \<Rightarrow> string" where
  "AppError_Error ae = app_error_loop (length ae) 0 ae"

section \<open>The application\<close>

record ('rt, 'u) app =
  app_Server :: "('rt, 'u) server option"
  app_closers :: "(unit \<Rightarrow> string option) list"

text \<open>All closers are called, whatever they return; \<open>None\<close> is no error.\<close>

fun close_loop :: "(unit \<Rightarrow> string option) list \<Rightarrow> string list \<Rightarrow> string list" where
  "close_loop [] errs = errs"
| "close_loop (closerFunc # closers) errs =
     close_loop closers (case closerFunc () of Some err \<Rightarrow> errs @ [err] | None \<Rightarrow> errs)"

definition app_Close :: "('rt, 'u) app \<Rightarrow> string list option" where
  "app_Close app = (let errs = close_loop (app_closers app) [] in if errs \<noteq> [] then Some errs else None)"

record ('rt, 'u, 'f, 'g) app_env =
  ae_net :: "('rt, 'u) net_lib"
  ae_mw :: "'u mw_env"
  ae_lower :: "string \<Rightarrow> string"
  ae_router :: 'rt
  ae_matcher :: "'rt \<Rightarrow> 'u route_matcher"
  ae_ParseFloat :: "string \<Rightarrow> string + 'f"
  ae_tracer :: bool
  ae_NewTracer :: "string \<Rightarrow> string + (unit \<Rightarrow> string option)"
  ae_tracing :: "('u http_req \<Rightarrow> string) \<Rightarrow> 'u handler \<Rightarrow> 'u handler"
  ae_reglib :: "'g reg_lib"
  ae_registry :: 'g
  ae_Register :: "string option"
  ae_CommitUnixTimestamp :: string

text \<open>
  The metrics of the instrumentation are registered one after the other. It keeps the buckets of its
  histogram for durations.
\<close>

definition NewInstrument :: "'g reg_lib \<Rightarrow> 'g \<Rightarrow> string \<Rightarrow> 'f list \<Rightarrow> 'f list \<Rightarrow> ('f list \<times> 'g) res" where
  "NewInstrument lib reg pre DefBuckets defBuckets =
     (let defBuckets = (if defBuckets = [] then DefBuckets else defBuckets)
      in case MustRegister lib (map (metric_of pre)
             [(''request_duration_seconds'', [''method'', ''route'', ''status_code'']),
              (''request_message_bytes'', [''method'', ''route'']),
              (''response_message_bytes'', [''method'', ''route'']),
              (''inflight_requests'', [''method'', ''route''])]) reg of
           Ok reg \<Rightarrow> Ok (defBuckets, reg)
         | Err e \<Rightarrow> Err e
         | Panic \<Rightarrow> Panic)"

definition Tracer_Wrap :: "('rt, 'u, 'f, 'g) app_env \<Rightarrow> 'u handler \<Rightarrow> 'u handler" where
  "Tracer_Wrap env next_h = ae_tracing env (operationName (ae_lower env) (ae_matcher env (ae_router env))) next_h"

definition app_middlewares :: "('rt, 'u, 'f, 'g) app_env \<Rightarrow> app_Config \<Rightarrow> ('u handler \<Rightarrow> 'u handler) list" where
  "app_middlewares env cfg =
     (let limit = sc_HTTPMaxRequestSizeLimit (ac_ServerConfig cfg);
          authMiddleware = (if ac_EnableAuth cfg then HTTPAuth_Wrap (ae_mw env) else HTTPFakeAuth_Wrap (ae_mw env));
          middlewares = [Tracer_Wrap env,
            Instrument_Wrap (ae_mw env) (ae_lower env) (ae_matcher env (ae_router env)),
            authMiddleware,
            Log_Wrap (ae_mw env)]
      in if 0 < sint limit then middlewares @ [RequestLimits_Wrap (ae_mw env) limit] else middlewares)"

definition registerVersionMetrics :: "('rt, 'u, 'f, 'g) app_env \<Rightarrow> string option" where
  "registerVersionMetrics env =
     (case ae_Register env of
        Some err \<Rightarrow> Some err
      | None \<Rightarrow>
          (case ae_ParseFloat env (ae_CommitUnixTimestamp env) of
             Inl err \<Rightarrow> Some (''can't parse CommitUnixTimestamp: '' @ err)
           | Inr t \<Rightarrow> None))"

text \<open>
  What \<^verbatim>\<open>New\<close> returns: the application, the error, whether the deferred function closed the
  application, and the listeners that are open.
\<close>

record ('rt, 'u) new_result =
  nr_app :: "('rt, 'u) app"
  nr_err :: "string option"
  nr_closed :: bool
  nr_open :: "listener list"

definition app_New :: "('rt, 'u, 'f, 'g) app_env \<Rightarrow> app_Config \<Rightarrow> string \<Rightarrow> 'f list \<Rightarrow> ('rt, 'u) new_result res" where
  "app_New env cfg metricPrefix DefBuckets =
     (let app = \<lparr>app_Server = None, app_closers = []\<rparr>;
          fail = (\<lambda>app err opened. Ok \<lparr>nr_app = app, nr_err = Some err, nr_closed = True, nr_open = opened\<rparr>)
      in if ac_ServiceName cfg = []
         then Ok \<lparr>nr_app = app, nr_err = Some ''service name can't be empty'', nr_closed = False, nr_open = []\<rparr>
         else
           (case parseFloats (ae_ParseFloat env) (ac_InstrumentBuckets cfg) of
              Inl err \<Rightarrow> fail app (''can't parse instrument buckets: '' @ err) []
            | Inr defBuckets \<Rightarrow>
                (case NewInstrument (ae_reglib env) (ae_registry env) metricPrefix DefBuckets defBuckets of
                   Err e \<Rightarrow> Err e
                 | Panic \<Rightarrow> Panic
                 | Ok _ \<Rightarrow>
                     (case if ae_tracer env then Inr []
                           else map_sum id (\<lambda>closer. [closer]) (ae_NewTracer env (ac_ServiceName cfg)) of
                        Inl err \<Rightarrow> fail app err []
                      | Inr closers \<Rightarrow>
                          let app = app\<lparr>app_closers := app_closers app @ closers\<rparr>
                          in case NewServer (ae_net env) (ac_ServerConfig cfg) (Some (ae_router env)) (app_middlewares env cfg) of
                               (srv, Some err, opened) \<Rightarrow> fail app (''failed to start server: '' @ err) opened
                             | (srv, None, opened) \<Rightarrow>
                                 let app = app\<lparr>app_Server := srv\<rparr>
                                 in case registerVersionMetrics env of
                                      Some err \<Rightarrow> fail app err opened
                                    | None \<Rightarrow> Ok \<lparr>nr_app = app, nr_err = None, nr_closed = False, nr_open = opened\<rparr>))))"

section \<open>The handler of a service\<close>

text \<open>The handler of the router that a service was made with.\<close>

definition service_handler :: "('rt, 'u, 'f, 'g) app_env \<Rightarrow> app_Config \<Rightarrow> 'u handler" where
  "service_handler env cfg =
     (let pre = sc_PathPrefix (ac_ServerConfig cfg)
      in nl_serve (ae_net env) (if pre \<noteq> [] then nl_Subrouter (ae_net env) (ae_router env) pre else ae_router env))"

lemma app_New_Handler:
  assumes "app_New env cfg metricPrefix DefBuckets = Ok nr" and "app_Server (nr_app nr) = Some srv"
  shows "sv_Handler srv = Merge (app_middlewares env cfg) (service_handler env cfg)"
  using assms
  by (auto simp: app_New_def Let_def NewServer_def service_handler_def split: if_splits sum.splits res.splits prod.splits option.splits)

text \<open>\<^verbatim>\<open>Merge(f,g,h).Wrap(handler) == f.Wrap(g.Wrap(h.Wrap(handler)))\<close>, as its comment says.\<close>

lemma Merge_foldr: "Merge ms h = foldr (\<lambda>m. m) ms h"
  by (induction ms) (simp_all add: Merge_Cons Merge_Nil)

end
