(* ===== verification/App_Correct.thy ===== *)
theory App_Correct
  imports App
begin

text \<open>
  What holds of every request to a service, whatever its handler does, and of starting a service.
\<close>

section \<open>Hypotheses\<close>

text \<open>The tracing library puts a span into the context and calls the handler.\<close>

definition tracing_ok :: "('rt, 'u, 'f, 'g) app_env \<Rightarrow> bool" where
  "tracing_ok env \<longleftrightarrow>
     (\<forall>op h r. \<exists>ctx. cx_user ctx = cx_user (hr_ctx r) \<and> ae_tracing env op h r = h (r\<lparr>hr_ctx := ctx\<rparr>))"

section \<open>Through the middlewares\<close>

text \<open>The handler behind the logging middleware.\<close>

definition limited :: "('rt, 'u, 'f, 'g) app_env \<Rightarrow> app_Config \<Rightarrow> 'u handler" where
  "limited env cfg =
     (let limit = sc_HTTPMaxRequestSizeLimit (ac_ServerConfig cfg)
      in if 0 < sint limit then RequestLimits_Wrap (ae_mw env) limit (service_handler env cfg) else service_handler env cfg)"

definition authenticated :: "('rt, 'u, 'f, 'g) app_env \<Rightarrow> app_Config \<Rightarrow> 'u handler" where
  "authenticated env cfg =
     (if ac_EnableAuth cfg then HTTPAuth_Wrap (ae_mw env) else HTTPFakeAuth_Wrap (ae_mw env)) (Log_Wrap (ae_mw env) (limited env cfg))"

lemma Merge_app:
  "Merge (app_middlewares env cfg) (service_handler env cfg) =
    Tracer_Wrap env (Instrument_Wrap (ae_mw env) (ae_lower env) (ae_matcher env (ae_router env)) (authenticated env cfg))"
  by (simp add: app_middlewares_def authenticated_def limited_def Let_def Merge_Cons Merge_Nil)

lemma limited_well_behaved:
  assumes "well_behaved (service_handler env cfg)"
  shows "well_behaved (limited env cfg)"
  using assms limits.wrap_ok by (auto simp: limited_def Let_def)

text \<open>The tracer keeps the contract if its library does what it should, and so does the whole chain.\<close>

lemma tracer_middleware:
  assumes "tracing_ok env"
  shows "middleware (Tracer_Wrap env)"
proof
  fix h :: "'b handler" assume "well_behaved h"
  then show "well_behaved (Tracer_Wrap env h)"
    using assms unfolding tracing_ok_def well_behaved_def Tracer_Wrap_def by metis
qed

lemma service_well_behaved:
  assumes "tracing_ok env" and "well_behaved (service_handler env cfg)"
  shows "well_behaved (Merge (app_middlewares env cfg) (service_handler env cfg))"
  using tracer_middleware [OF assms(1)] auth.middleware_axioms fake_auth.middleware_axioms logging.middleware_axioms
    limits.middleware_axioms instrument.middleware_axioms
  by (intro Merge_well_behaved assms(2)) (auto simp: app_middlewares_def Let_def split: if_splits)

text \<open>
  How a request \<open>r\<close> may end behind the instrumentation, with what was logged, and \<open>metrics\<close> what the handler
  of the router measured itself. It is refused for want of an organisation, with the line of the refusal; or
  refused by the limit on bodies, with the warning about it and the line of the request; or the handler is
  called, with some body and context, and the line of the request follows those of the handler.
\<close>

definition outcome :: "('rt, 'u, 'f, 'g) app_env \<Rightarrow> app_Config \<Rightarrow> 'u http_req \<Rightarrow> observation list \<Rightarrow> run \<Rightarrow> bool" where
  "outcome env cfg r metrics run \<longleftrightarrow>
     (ac_EnableAuth cfg \<and> (\<exists>err. me_ExtractOrgIDFromHTTPRequest (ae_mw env) r = Inl err \<and>
        run_calls run = http_Error_calls (ae_mw env) err 401) \<and>
      metrics = [] \<and> run_logs run = [logRequest (ae_mw env) [] r 401]) \<or>
     (\<exists>user q. q = r\<lparr>hr_ctx := (hr_ctx r)\<lparr>cx_user := user\<rparr>\<rparr> \<and>
       (if ac_EnableAuth cfg then me_ExtractOrgIDFromHTTPRequest (ae_mw env) r = Inr user
        else user = me_InjectOrgID (ae_mw env) (cx_user (hr_ctx r)) ''fake'') \<and>
       ((\<exists>line msg code. 0 < sint (sc_HTTPMaxRequestSizeLimit (ac_ServerConfig cfg)) \<and> code \<in> {408, 413, 499, 500} \<and>
           run_calls run = http_Error_calls (ae_mw env) msg code \<and> metrics = [] \<and>
           run_logs run = [me_spanlog (ae_mw env) line, request_line (ae_mw env) q run]) \<or>
        (\<exists>body ctx. let inner = service_handler env cfg (q\<lparr>hr_Body := body, hr_ctx := ctx\<rparr>)
         in cx_user ctx = user \<and> run_calls run = run_calls inner \<and> metrics = run_metrics inner \<and>
            run_logs run = run_logs inner @ [request_line (ae_mw env) q run])))"

text \<open>The limit either refuses, with one line, or calls the handler.\<close>

lemma limited_cases:
  obtains (refused) line msg code where "0 < sint (sc_HTTPMaxRequestSizeLimit (ac_ServerConfig cfg))" "code \<in> {408, 413, 499, 500}"
      "run_calls (limited env cfg q) = http_Error_calls (ae_mw env) msg code" "run_metrics (limited env cfg q) = []"
      "run_logs (limited env cfg q) = [me_spanlog (ae_mw env) line]"
  | (called) body ctx where "cx_user ctx = cx_user (hr_ctx q)"
      "run_calls (limited env cfg q) = run_calls (service_handler env cfg (q\<lparr>hr_Body := body, hr_ctx := ctx\<rparr>))"
      "run_metrics (limited env cfg q) = run_metrics (service_handler env cfg (q\<lparr>hr_Body := body, hr_ctx := ctx\<rparr>))"
      "run_logs (limited env cfg q) = run_logs (service_handler env cfg (q\<lparr>hr_Body := body, hr_ctx := ctx\<rparr>))"
proof (cases "0 < sint (sc_HTTPMaxRequestSizeLimit (ac_ServerConfig cfg))")
  case False
  then show ?thesis by (intro called [of "hr_ctx q" "hr_Body q"]) (simp_all add: limited_def)
next
  case True
  let ?limit = "sc_HTTPMaxRequestSizeLimit (ac_ServerConfig cfg)"
  let ?ctx = "(hr_ctx q)\<lparr>cx_trace := me_NewSpan (ae_mw env) (cx_trace (hr_ctx q))\<rparr>"
  have l: "limited env cfg q = RequestLimits_Wrap (ae_mw env) ?limit (service_handler env cfg) q" using True by (simp add: limited_def)
  obtain data err where read: "ReadAll_LimitReader (hr_Body q) (sint (?limit + 1)) = (data, err)" by fastforce
  show ?thesis
  proof (cases err)
    case (Some e)
    then show ?thesis using True
      by (intro refused [where code = "if isNetworkError err then 408 else if re_Canceled e \<or> re_UnexpectedEOF e then 499 else 500"
            and msg = "''failed to read request body: '' @ re_text e"
            and line = "\<lparr>ll_level = LevelWarn, ll_keyvals = [(''msg'', VStr ''failed to read request body''), (''err'', VStr (re_text e))]\<rparr>"])
        (simp_all add: l RequestLimits_Wrap_def read StatusClientClosedRequest_def Let_def)
  next
    case None
    then show ?thesis
    proof (cases "sint ?limit < int (length data)")
      case True
      then show ?thesis using \<open>0 < sint ?limit\<close> None
        by (intro refused [where code = 413]) (simp_all add: l RequestLimits_Wrap_def read Let_def)
    next
      case False
      then show ?thesis using None
        by (intro called [of ?ctx "\<lparr>b_data = data, b_err = None, b_with = False\<rparr>"])
          (simp_all add: l RequestLimits_Wrap_def read Let_def)
    qed
  qed
qed

lemma logged_outcome:
  fixes r :: "'u http_req" and user :: 'u
  defines "q \<equiv> r\<lparr>hr_ctx := (hr_ctx r)\<lparr>cx_user := user\<rparr>\<rparr>"
  assumes "well_behaved (service_handler env cfg)"
    and "if ac_EnableAuth cfg then me_ExtractOrgIDFromHTTPRequest (ae_mw env) r = Inr user
        else user = me_InjectOrgID (ae_mw env) (cx_user (hr_ctx r)) ''fake''"
  shows "outcome env cfg r (run_metrics (Log_Wrap (ae_mw env) (limited env cfg) q)) (Log_Wrap (ae_mw env) (limited env cfg) q)"
proof -
  note log = Log_Wrap_well_behaved [OF limited_well_behaved [OF assms(2)], of "ae_mw env" q]
  have line: "request_line (ae_mw env) q (run\<lparr>run_logs := ls\<rparr>) = request_line (ae_mw env) q run" for run ls
    by (rule request_line_cong) simp
  show ?thesis unfolding outcome_def
  proof (rule disjI2, rule exI [of _ user], rule exI [of _ q], intro conjI)
    show "(\<exists>line msg code. 0 < sint (sc_HTTPMaxRequestSizeLimit (ac_ServerConfig cfg)) \<and> code \<in> {408, 413, 499, 500} \<and>
           run_calls (Log_Wrap (ae_mw env) (limited env cfg) q) = http_Error_calls (ae_mw env) msg code \<and>
           run_metrics (Log_Wrap (ae_mw env) (limited env cfg) q) = [] \<and>
           run_logs (Log_Wrap (ae_mw env) (limited env cfg) q) =
             [me_spanlog (ae_mw env) line, request_line (ae_mw env) q (Log_Wrap (ae_mw env) (limited env cfg) q)]) \<or>
        (\<exists>body ctx. let inner = service_handler env cfg (q\<lparr>hr_Body := body, hr_ctx := ctx\<rparr>)
         in cx_user ctx = user \<and> run_calls (Log_Wrap (ae_mw env) (limited env cfg) q) = run_calls inner \<and>
            run_metrics (Log_Wrap (ae_mw env) (limited env cfg) q) = run_metrics inner \<and>
            run_logs (Log_Wrap (ae_mw env) (limited env cfg) q) =
              run_logs inner @ [request_line (ae_mw env) q (Log_Wrap (ae_mw env) (limited env cfg) q)])"
    proof (cases rule: limited_cases [of cfg env q])
      case (refused line msg code)
      show ?thesis
        by (intro disjI1 exI [of _ line] exI [of _ msg] exI [of _ code] conjI refused(1,2)) (simp_all add: log line refused(3-))
    next
      case (called body ctx)
      have "cx_user (hr_ctx q) = user" by (simp add: q_def)
      then show ?thesis unfolding Let_def
        by (intro disjI2 exI [of _ body] exI [of _ ctx]) (simp add: log line called)
    qed
  qed (use assms(3) in \<open>simp_all add: q_def\<close>)
qed

lemma authenticated_outcome:
  assumes "well_behaved (service_handler env cfg)"
  shows "outcome env cfg r (run_metrics (authenticated env cfg r)) (authenticated env cfg r)"
    and "\<not> run_panic (authenticated env cfg r)"
proof -
  have "well_behaved (authenticated env cfg)"
    by (auto simp: authenticated_def intro!: auth.wrap_ok fake_auth.wrap_ok logging.wrap_ok limited_well_behaved [OF assms])
  then show "\<not> run_panic (authenticated env cfg r)" by (simp add: well_behaved_def)
  show "outcome env cfg r (run_metrics (authenticated env cfg r)) (authenticated env cfg r)"
  proof (cases "ac_EnableAuth cfg")
    case False
    then show ?thesis using logged_outcome [OF assms, of r "me_InjectOrgID (ae_mw env) (cx_user (hr_ctx r)) ''fake''"]
      by (simp add: authenticated_def HTTPFakeAuth_Wrap_def)
  next
    case True
    show ?thesis
    proof (cases "me_ExtractOrgIDFromHTTPRequest (ae_mw env) r")
      case (Inl err)
      then show ?thesis using True by (simp add: outcome_def authenticated_def HTTPAuth_Wrap_def)
    next
      case (Inr user)
      then show ?thesis using True logged_outcome [OF assms, of r user]
        by (simp add: authenticated_def HTTPAuth_Wrap_def)
    qed
  qed
qed

lemma outcome_metrics: "outcome env cfg r metrics (run\<lparr>run_metrics := ms\<rparr>) = outcome env cfg r metrics run"
proof -
  have "request_line e q (run\<lparr>run_metrics := ms\<rparr>) = request_line e q run" for e :: "'b mw_env" and q
    by (rule request_line_cong) simp
  then show ?thesis by (simp add: outcome_def Let_def)
qed

text \<open>What the instrumentation adds around what the handlers measure.\<close>

lemma Instrument_metrics:
  assumes "\<not> run_panic (h (r\<lparr>hr_ctx := (hr_ctx r)\<lparr>cx_begin := Some (me_Now env)\<rparr>\<rparr>))"
    and "q = r\<lparr>hr_ctx := (hr_ctx r)\<lparr>cx_begin := Some (me_Now env)\<rparr>\<rparr>"
  shows "Instrument_Wrap env lower matcher h r = (h q)\<lparr>run_metrics :=
    InflightInc (hr_Method r) (Instrument_getRouteName lower matcher q) # run_metrics (h q) @
      [RequestBodySize (hr_Method r) (Instrument_getRouteName lower matcher q) (foldl reqBody_Read 0 (run_reads (h q))),
       ResponseBodySize (hr_Method r) (Instrument_getRouteName lower matcher q) (snd (me_CaptureMetrics env (run_calls (h q)))),
       RequestDuration (hr_Method r) (Instrument_getRouteName lower matcher q) (fst (me_CaptureMetrics env (run_calls (h q))))
         (if snd (ExtractSampledTraceID (hr_ctx q)) then Some (fst (ExtractSampledTraceID (hr_ctx q))) else None),
       InflightDec (hr_Method r) (Instrument_getRouteName lower matcher q)]\<rparr>"
  using assms by (simp add: Instrument_Wrap_def Let_def split_beta)

text \<open>The way from the server to the authentication: only the context changes.\<close>

lemma service_request:
  assumes "tracing_ok env" and "well_behaved (service_handler env cfg)"
  obtains ctx route written traceID where "cx_user ctx = cx_user (hr_ctx r)"
    and "Merge (app_middlewares env cfg) (service_handler env cfg) r =
      (let run = authenticated env cfg (r\<lparr>hr_ctx := ctx\<rparr>) in run\<lparr>run_metrics := InflightInc (hr_Method r) route # run_metrics run @
        [RequestBodySize (hr_Method r) route (foldl reqBody_Read 0 (run_reads run)), ResponseBodySize (hr_Method r) route written,
         RequestDuration (hr_Method r) route (fst (me_CaptureMetrics (ae_mw env) (run_calls run))) traceID,
         InflightDec (hr_Method r) route]\<rparr>)"
    and "route = Instrument_getRouteName (ae_lower env) (ae_matcher env (ae_router env)) (r\<lparr>hr_ctx := ctx\<rparr>)"
    and "written = snd (me_CaptureMetrics (ae_mw env) (run_calls (authenticated env cfg (r\<lparr>hr_ctx := ctx\<rparr>))))"
    and "traceID = (if snd (ExtractSampledTraceID ctx) then Some (fst (ExtractSampledTraceID ctx)) else None)"
proof -
  let ?i = "Instrument_Wrap (ae_mw env) (ae_lower env) (ae_matcher env (ae_router env)) (authenticated env cfg)"
  obtain ctx where ctx: "cx_user ctx = cx_user (hr_ctx r)" "Tracer_Wrap env ?i r = ?i (r\<lparr>hr_ctx := ctx\<rparr>)"
    using assms(1) unfolding tracing_ok_def Tracer_Wrap_def by metis
  let ?ctx = "ctx\<lparr>cx_begin := Some (me_Now (ae_mw env))\<rparr>" and ?r = "r\<lparr>hr_ctx := ctx\<rparr>"
  have q: "r\<lparr>hr_ctx := ?ctx\<rparr> = ?r\<lparr>hr_ctx := (hr_ctx ?r)\<lparr>cx_begin := Some (me_Now (ae_mw env))\<rparr>\<rparr>" by simp
  have "\<not> run_panic (authenticated env cfg (?r\<lparr>hr_ctx := (hr_ctx ?r)\<lparr>cx_begin := Some (me_Now (ae_mw env))\<rparr>\<rparr>))"
    by (rule authenticated_outcome(2) [OF assms(2)])
  note i = Instrument_metrics [where h = "authenticated env cfg", OF this q, of "ae_lower env" "ae_matcher env (ae_router env)"]
  show ?thesis
  proof (rule that [of ?ctx])
    show "cx_user ?ctx = cx_user (hr_ctx r)" using ctx(1) by simp
    show "Merge (app_middlewares env cfg) (service_handler env cfg) r =
      (let run = authenticated env cfg (r\<lparr>hr_ctx := ?ctx\<rparr>) in run\<lparr>run_metrics :=
        InflightInc (hr_Method r) (Instrument_getRouteName (ae_lower env) (ae_matcher env (ae_router env)) (r\<lparr>hr_ctx := ?ctx\<rparr>)) # run_metrics run @
        [RequestBodySize (hr_Method r) (Instrument_getRouteName (ae_lower env) (ae_matcher env (ae_router env)) (r\<lparr>hr_ctx := ?ctx\<rparr>)) (foldl reqBody_Read 0 (run_reads run)),
         ResponseBodySize (hr_Method r) (Instrument_getRouteName (ae_lower env) (ae_matcher env (ae_router env)) (r\<lparr>hr_ctx := ?ctx\<rparr>)) (snd (me_CaptureMetrics (ae_mw env) (run_calls (authenticated env cfg (r\<lparr>hr_ctx := ?ctx\<rparr>))))),
         RequestDuration (hr_Method r) (Instrument_getRouteName (ae_lower env) (ae_matcher env (ae_router env)) (r\<lparr>hr_ctx := ?ctx\<rparr>)) (fst (me_CaptureMetrics (ae_mw env) (run_calls run)))
           (if snd (ExtractSampledTraceID ?ctx) then Some (fst (ExtractSampledTraceID ?ctx)) else None),
         InflightDec (hr_Method r) (Instrument_getRouteName (ae_lower env) (ae_matcher env (ae_router env)) (r\<lparr>hr_ctx := ?ctx\<rparr>))]\<rparr>)"
      unfolding Merge_app ctx(2) i Let_def by simp
  qed (rule refl)+
qed

section \<open>An example\<close>

text \<open>A registry that takes every name once, and a service that echoes bodies of at most four bytes, with the
  organisation in a header.\<close>

definition list_registry :: "metric_desc list reg_lib" where
  "list_registry =
     \<lparr>rg_Register = (\<lambda>d reg. if full_name (d_metric d) \<in> (full_name \<circ> d_metric) ` set reg then None else Some (reg @ [d]))\<rparr>"

definition example_app :: "(unit, string option, nat, metric_desc list) app_env" where
  "example_app =
     \<lparr>ae_net = \<lparr>nl_Listen = (\<lambda>addr. Inr (Listener addr)), nl_Subrouter = (\<lambda>r pre. r), nl_serve = (\<lambda>r. echo)\<rparr>,
      ae_mw = example_mw, ae_lower = (\<lambda>s. s), ae_router = (), ae_matcher = (\<lambda>r. None), ae_ParseFloat = (\<lambda>s. Inr (length s)),
      ae_tracer = False, ae_NewTracer = (\<lambda>name. Inr (\<lambda>u. None)), ae_tracing = (\<lambda>op h. h), ae_reglib = list_registry, ae_registry = [], ae_Register = None,
      ae_CommitUnixTimestamp = ''0''\<rparr>"

definition example_config :: app_Config where
  "example_config =
     \<lparr>ac_InstrumentBuckets = ''1,2'', ac_EnableAuth = True, ac_ServiceName = ''echo'',
      ac_ServerConfig = \<lparr>sc_HTTPListenAddress = ''0.0.0.0'', sc_HTTPListenPort = 80, sc_HTTPConnLimit = 0,
        sc_ServerGracefulShutdownTimeout = 5, sc_HTTPServerReadTimeout = 30, sc_HTTPServerWriteTimeout = 35,
        sc_HTTPServerIdleTimeout = 30, sc_HTTPMaxRequestSizeLimit = 4, sc_GRPCListenPort = 95, sc_PathPrefix = []\<rparr>\<rparr>"

lemma example_tracing: "tracing_ok example_app"
  unfolding tracing_ok_def by (intro allI, rule_tac x = "hr_ctx r" in exI) (simp add: example_app_def)

lemma example_service: "service_handler example_app example_config = echo"
  by (simp add: service_handler_def example_app_def Let_def)

lemma example_well_behaved: "well_behaved (service_handler example_app example_config)"
  unfolding example_service by (simp add: well_behaved_def echo_def header_codes_def)

lemma example_mw [simp]: "ae_mw example_app = example_mw"
  by (simp add: example_app_def)

lemma example_started:
  obtains nr srv where "app_New example_app example_config [] [1] = Ok nr" and "app_Server (nr_app nr) = Some srv"
proof -
  have f: "parseFloats (\<lambda>s. Inr (length s)) ''1,2'' = (Inr [1, 1] :: string + nat list)" by code_simp
  have i: "\<exists>x. NewInstrument list_registry [] [] [1] [1, 1 :: nat] = Ok x"
    by (simp add: NewInstrument_def metric_of_def list_registry_def full_name.simps)
  show ?thesis using f i that
    by (auto simp: app_New_def example_app_def example_config_def NewServer_def registerVersionMetrics_def Let_def split: res.splits)
qed

lemma example_calls:
  assumes "app_New example_app example_config [] [1] = Ok nr" and "app_Server (nr_app nr) = Some srv"
  shows "run_calls (sv_Handler srv (example_request ''7'')) = [Write ''abc'' 3 None]"
proof -
  obtain ctx where "run_calls (sv_Handler srv (example_request ''7'')) =
      run_calls (authenticated example_app example_config ((example_request ''7'')\<lparr>hr_ctx := ctx\<rparr>))"
    by (rule service_request [OF example_tracing example_well_behaved, of "example_request ''7''"])
      (simp add: app_New_Handler [OF assms] Let_def)
  also have "\<dots> = run_calls (limited example_app example_config ((example_request ''7'')\<lparr>hr_ctx := ctx\<lparr>cx_user := Some ''7''\<rparr>\<rparr>))"
  proof -
    have "ac_EnableAuth example_config" by (simp add: example_config_def)
    moreover have "me_ExtractOrgIDFromHTTPRequest example_mw ((example_request ''7'')\<lparr>hr_ctx := ctx\<rparr>) = Inr (Some ''7'')"
      by (simp add: example_mw_def example_request_def)
    ultimately show ?thesis
      by (simp add: authenticated_def HTTPAuth_Wrap_def Log_Wrap_well_behaved [OF limited_well_behaved [OF example_well_behaved]])
  qed
  also have "\<dots> = [Write ''abc'' 3 None]"
    by (simp add: limited_def RequestLimits_Wrap_def ReadAll_LimitReader_def example_service Let_def)
      (simp add: example_config_def echo_def example_request_def)
  finally show ?thesis .
qed

section \<open>Properties\<close>

text \<open>
  C29. Every request to a service that was started is accounted for exactly once, whatever the handler does
  short of a panic, and whether it is refused on the way or not. Around what the handler of the router
  measures itself, if it is called, there is nothing but one measurement each: the number of requests in
  flight goes up first and down last, and the size of the request, the size of the response and the duration
  are observed, under the route, the status and the trace of the request. After what this handler logs
  itself, there is nothing but the one line of the request, with the last status that was set, and before
  it the warning of the limit on bodies if that refuses the request. No middleware panics.
\<close>

theorem every_request_accounted:
  assumes "app_New env cfg metricPrefix DefBuckets = Ok nr" and "app_Server (nr_app nr) = Some srv"
    and "tracing_ok env" and "well_behaved (service_handler env cfg)"
  shows "\<not> run_panic (sv_Handler srv r) \<and>
    (\<exists>ctx metrics. cx_user ctx = cx_user (hr_ctx r) \<and>
      outcome env cfg (r\<lparr>hr_ctx := ctx\<rparr>) metrics (sv_Handler srv r) \<and>
      (let route = Instrument_getRouteName (ae_lower env) (ae_matcher env (ae_router env)) (r\<lparr>hr_ctx := ctx\<rparr>);
           (code, written) = me_CaptureMetrics (ae_mw env) (run_calls (sv_Handler srv r));
           (traceID, sampled) = ExtractSampledTraceID ctx
       in run_metrics (sv_Handler srv r) = InflightInc (hr_Method r) route # metrics @
            [RequestBodySize (hr_Method r) route (foldl reqBody_Read 0 (run_reads (sv_Handler srv r))),
             ResponseBodySize (hr_Method r) route written,
             RequestDuration (hr_Method r) route code (if sampled then Some traceID else None),
             InflightDec (hr_Method r) route]))"
proof -
  obtain ctx route written traceID where user: "cx_user ctx = cx_user (hr_ctx r)"
    and run: "Merge (app_middlewares env cfg) (service_handler env cfg) r =
      (let run = authenticated env cfg (r\<lparr>hr_ctx := ctx\<rparr>) in run\<lparr>run_metrics := InflightInc (hr_Method r) route # run_metrics run @
        [RequestBodySize (hr_Method r) route (foldl reqBody_Read 0 (run_reads run)), ResponseBodySize (hr_Method r) route written,
         RequestDuration (hr_Method r) route (fst (me_CaptureMetrics (ae_mw env) (run_calls run))) traceID,
         InflightDec (hr_Method r) route]\<rparr>)"
    and labels: "route = Instrument_getRouteName (ae_lower env) (ae_matcher env (ae_router env)) (r\<lparr>hr_ctx := ctx\<rparr>)"
      "written = snd (me_CaptureMetrics (ae_mw env) (run_calls (authenticated env cfg (r\<lparr>hr_ctx := ctx\<rparr>))))"
      "traceID = (if snd (ExtractSampledTraceID ctx) then Some (fst (ExtractSampledTraceID ctx)) else None)"
    by (rule service_request [OF assms(3,4)])
  have "\<not> run_panic (sv_Handler srv r)"
    using service_well_behaved [OF assms(3,4)] unfolding app_New_Handler [OF assms(1,2)] well_behaved_def by blast
  then show ?thesis
    using authenticated_outcome(1) [OF assms(4), of "r\<lparr>hr_ctx := ctx\<rparr>"] user
    unfolding app_New_Handler [OF assms(1,2)] run labels Let_def
    by (intro conjI exI [of _ ctx] exI [of _ "run_metrics (authenticated env cfg (r\<lparr>hr_ctx := ctx\<rparr>))"])
      (simp_all add: outcome_metrics split_beta)
qed

theorem every_request_accounted_witness:
  "\<exists>nr srv. app_New example_app example_config [] [1] = Ok nr \<and> app_Server (nr_app nr) = Some srv \<and>
    length (run_logs (sv_Handler srv (example_request ''7''))) = 1 \<and> length (run_metrics (sv_Handler srv (example_request ''7''))) = 5"
proof -
  obtain nr srv where s: "app_New example_app example_config [] [1] = Ok nr" "app_Server (nr_app nr) = Some srv"
    by (rule example_started)
  obtain ctx metrics where o: "outcome example_app example_config ((example_request ''7'')\<lparr>hr_ctx := ctx\<rparr>) metrics (sv_Handler srv (example_request ''7''))"
    and m: "length (run_metrics (sv_Handler srv (example_request ''7''))) = length metrics + 5"
    using every_request_accounted [OF s example_tracing example_well_behaved, of "example_request ''7''"]
    unfolding Let_def split_beta by auto
  have calls: "run_calls (sv_Handler srv (example_request ''7'')) = [Write ''abc'' 3 None]"
    by (rule example_calls [OF s])
  have e: "http_Error_calls env msg code \<noteq> [Write ''abc'' 3 None]" for env :: "string option mw_env" and msg code
    by (simp add: http_Error_calls_def Let_def split: prod.splits)
  have "metrics = [] \<and> length (run_logs (sv_Handler srv (example_request ''7''))) = 1"
    using o unfolding outcome_def example_service Let_def calls by (auto simp: echo_def e [symmetric])
  then show ?thesis using s m by auto
qed

text \<open>
  C30. With authentication, a request without a valid organisation is answered by 401 with the reason,
  and nothing of the router is called: not even its body is read.
\<close>

theorem unauthenticated_refused:
  assumes "app_New env cfg metricPrefix DefBuckets = Ok nr" and "app_Server (nr_app nr) = Some srv"
    and "tracing_ok env" and "well_behaved (service_handler env cfg)" and "ac_EnableAuth cfg"
    and "\<And>ctx. me_ExtractOrgIDFromHTTPRequest (ae_mw env) (r\<lparr>hr_ctx := ctx\<rparr>) = Inl err"
  shows "run_calls (sv_Handler srv r) = http_Error_calls (ae_mw env) err 401 \<and> run_reads (sv_Handler srv r) = [] \<and>
    (\<exists>q route written traceID.
      run_logs (sv_Handler srv r) = [logRequest (ae_mw env) [] q 401] \<and>
      run_metrics (sv_Handler srv r) = [InflightInc (hr_Method r) route, RequestBodySize (hr_Method r) route 0,
        ResponseBodySize (hr_Method r) route written,
        RequestDuration (hr_Method r) route (fst (me_CaptureMetrics (ae_mw env) (http_Error_calls (ae_mw env) err 401))) traceID,
        InflightDec (hr_Method r) route])"
proof -
  obtain ctx route written traceID where m: "Merge (app_middlewares env cfg) (service_handler env cfg) r =
      (let run = authenticated env cfg (r\<lparr>hr_ctx := ctx\<rparr>) in run\<lparr>run_metrics := InflightInc (hr_Method r) route # run_metrics run @
        [RequestBodySize (hr_Method r) route (foldl reqBody_Read 0 (run_reads run)), ResponseBodySize (hr_Method r) route written,
         RequestDuration (hr_Method r) route (fst (me_CaptureMetrics (ae_mw env) (run_calls run))) traceID,
         InflightDec (hr_Method r) route]\<rparr>)"
    by (rule service_request [OF assms(3,4)])
  have "authenticated env cfg (r\<lparr>hr_ctx := ctx\<rparr>) = \<lparr>run_calls = http_Error_calls (ae_mw env) err 401, run_reads = [],
      run_logs = [logRequest (ae_mw env) [] (r\<lparr>hr_ctx := ctx\<rparr>) 401], run_metrics = [], run_panic = False\<rparr>"
    using assms(5,6) by (simp add: authenticated_def HTTPAuth_Wrap_def)
  then show ?thesis unfolding app_New_Handler [OF assms(1,2)] m by auto
qed

theorem unauthenticated_refused_witness:
  "\<exists>nr srv. app_New example_app example_config [] [1] = Ok nr \<and> app_Server (nr_app nr) = Some srv \<and>
    run_calls (sv_Handler srv (example_request [])) = [WriteHeader 401, Write (''no org id'' @ [CHR 0x0A]) 10 None]"
proof -
  obtain nr srv where s: "app_New example_app example_config [] [1] = Ok nr" "app_Server (nr_app nr) = Some srv"
    by (rule example_started)
  have auth: "ac_EnableAuth example_config" by (simp add: example_config_def)
  have "\<And>ctx. me_ExtractOrgIDFromHTTPRequest (ae_mw example_app) ((example_request [])\<lparr>hr_ctx := ctx\<rparr>) = Inl ''no org id''"
    by (simp add: example_mw_def example_request_def)
  from unauthenticated_refused [OF s example_tracing example_well_behaved auth this]
  have "run_calls (sv_Handler srv (example_request [])) = http_Error_calls example_mw ''no org id'' 401" by simp
  also have "\<dots> = [WriteHeader 401, Write (''no org id'' @ [CHR 0x0A]) 10 None]" by (simp add: http_Error_calls_def example_mw_def)
  finally show ?thesis using s by blast
qed

text \<open>
  C31. A request with a valid organisation and a body within the limit, read to its end, reaches the
  handler of the router with the same method, URL, headers and body and with the organisation in its
  context, and the client gets exactly what this handler writes.
\<close>

theorem authenticated_reaches_handler:
  assumes "app_New env cfg metricPrefix DefBuckets = Ok nr" and "app_Server (nr_app nr) = Some srv"
    and "tracing_ok env" and "well_behaved (service_handler env cfg)" and "ac_EnableAuth cfg"
    and "\<And>ctx. me_ExtractOrgIDFromHTTPRequest (ae_mw env) (r\<lparr>hr_ctx := ctx\<rparr>) = Inr user"
    and "0 < sint (sc_HTTPMaxRequestSizeLimit (ac_ServerConfig cfg))"
    and "sint (sc_HTTPMaxRequestSizeLimit (ac_ServerConfig cfg)) < 2 ^ 63 - 1"
    and "int (length (b_data (hr_Body r))) \<le> sint (sc_HTTPMaxRequestSizeLimit (ac_ServerConfig cfg))"
    and "b_err (hr_Body r) = None"
  shows "\<exists>ctx. cx_user ctx = user \<and>
    run_calls (sv_Handler srv r) =
      run_calls (service_handler env cfg (r\<lparr>hr_Body := \<lparr>b_data = b_data (hr_Body r), b_err = None, b_with = False\<rparr>, hr_ctx := ctx\<rparr>))"
proof -
  let ?limit = "sc_HTTPMaxRequestSizeLimit (ac_ServerConfig cfg)"
  obtain ctx route written traceID where "Merge (app_middlewares env cfg) (service_handler env cfg) r =
      (let run = authenticated env cfg (r\<lparr>hr_ctx := ctx\<rparr>) in run\<lparr>run_metrics := InflightInc (hr_Method r) route # run_metrics run @
        [RequestBodySize (hr_Method r) route (foldl reqBody_Read 0 (run_reads run)), ResponseBodySize (hr_Method r) route written,
         RequestDuration (hr_Method r) route (fst (me_CaptureMetrics (ae_mw env) (run_calls run))) traceID,
         InflightDec (hr_Method r) route]\<rparr>)"
    by (rule service_request [OF assms(3,4)])
  then have calls: "run_calls (sv_Handler srv r) = run_calls (authenticated env cfg (r\<lparr>hr_ctx := ctx\<rparr>))"
    unfolding app_New_Handler [OF assms(1,2)] by (simp add: Let_def)
  let ?q = "r\<lparr>hr_ctx := ctx\<lparr>cx_user := user\<rparr>\<rparr>"
  have "run_calls (authenticated env cfg (r\<lparr>hr_ctx := ctx\<rparr>)) = run_calls (Log_Wrap (ae_mw env) (limited env cfg) ?q)"
    using assms(5,6) by (simp add: authenticated_def HTTPAuth_Wrap_def)
  also have "\<dots> = run_calls (limited env cfg ?q)"
    unfolding Log_Wrap_well_behaved [OF limited_well_behaved [OF assms(4)]] by simp
  finally have inner: "run_calls (sv_Handler srv r) = run_calls (RequestLimits_Wrap (ae_mw env) ?limit (service_handler env cfg) ?q)"
    using calls assms(7) by (simp add: limited_def)
  obtain ctx' where "cx_user ctx' = cx_user (hr_ctx ?q)"
    "RequestLimits_Wrap (ae_mw env) ?limit (service_handler env cfg) ?q =
      (service_handler env cfg (?q\<lparr>hr_Body := \<lparr>b_data = b_data (hr_Body r), b_err = None, b_with = False\<rparr>, hr_ctx := ctx'\<rparr>))
        \<lparr>run_reads := [int (length (b_data (hr_Body r)))]\<rparr>"
    using request_limits_passes [of ?limit ?q "ae_mw env" "service_handler env cfg"] assms(7-10) by auto
  then show ?thesis unfolding inner by (intro exI [of _ ctx']) simp
qed

theorem authenticated_reaches_handler_witness:
  "\<exists>nr srv. app_New example_app example_config [] [1] = Ok nr \<and> app_Server (nr_app nr) = Some srv \<and>
    run_calls (sv_Handler srv (example_request ''7'')) = [Write ''abc'' 3 None]"
proof -
  obtain nr srv where s: "app_New example_app example_config [] [1] = Ok nr" "app_Server (nr_app nr) = Some srv"
    by (rule example_started)
  have auth: "ac_EnableAuth example_config" by (simp add: example_config_def)
  have user: "\<And>ctx. me_ExtractOrgIDFromHTTPRequest (ae_mw example_app) ((example_request ''7'')\<lparr>hr_ctx := ctx\<rparr>) = Inr (Some ''7'')"
    by (simp add: example_mw_def example_request_def)
  have "\<exists>ctx. cx_user ctx = Some ''7'' \<and> run_calls (sv_Handler srv (example_request ''7'')) =
      run_calls (service_handler example_app example_config ((example_request ''7'')
        \<lparr>hr_Body := \<lparr>b_data = b_data (hr_Body (example_request ''7'')), b_err = None, b_with = False\<rparr>, hr_ctx := ctx\<rparr>))"
    by (rule authenticated_reaches_handler [OF s example_tracing example_well_behaved auth user])
      (simp_all add: example_config_def example_request_def)
  then have "run_calls (sv_Handler srv (example_request ''7'')) = [Write ''abc'' 3 None]"
    unfolding example_service by (simp add: echo_def example_request_def)
  then show ?thesis using s by blast
qed

text \<open>
  When the gRPC port cannot be opened, starting a service reports success all the same: there is no
  error, but there is no server either, and the port opened first stays open.
\<close>

theorem app_New_without_server:
  assumes "ac_ServiceName cfg \<noteq> []" and "parseFloats (ae_ParseFloat env) (ac_InstrumentBuckets cfg) = Inr defBuckets"
    and "NewInstrument (ae_reglib env) (ae_registry env) metricPrefix DefBuckets defBuckets = Ok i"
    and "ae_NewTracer env (ac_ServiceName cfg) = Inr closer" and "registerVersionMetrics env = None"
    and "nl_Listen (ae_net env) (http_addr (ac_ServerConfig cfg)) = Inr l"
    and "nl_Listen (ae_net env) (grpc_addr (ac_ServerConfig cfg)) = Inl err"
  shows "\<exists>nr. app_New env cfg metricPrefix DefBuckets = Ok nr \<and> nr_err nr = None \<and> app_Server (nr_app nr) = None \<and>
    nr_open nr = [limit_listener (ac_ServerConfig cfg) l]"
  using assms by (auto simp: app_New_def NewServer_def Let_def)

theorem app_New_without_server_witness:
  "\<exists>nr. app_New (example_app\<lparr>ae_net := (ae_net example_app)\<lparr>nl_Listen :=
      (\<lambda>addr. if addr = ''0.0.0.0:95'' then Inl ''address already in use'' else Inr (Listener addr))\<rparr>\<rparr>) example_config [] [1] = Ok nr \<and>
    nr_err nr = None \<and> app_Server (nr_app nr) = None \<and> nr_open nr = [Listener ''0.0.0.0:80'']"
proof -
  let ?env = "example_app\<lparr>ae_net := (ae_net example_app)\<lparr>nl_Listen :=
      (\<lambda>addr. if addr = ''0.0.0.0:95'' then Inl ''address already in use'' else Inr (Listener addr))\<rparr>\<rparr>"
  have "Itoa 80 = ''80''" "Itoa 95 = ''95''" by code_simp+
  then have a: "http_addr (ac_ServerConfig example_config) = ''0.0.0.0:80''" "grpc_addr (ac_ServerConfig example_config) = ''0.0.0.0:95''"
    by (simp_all add: http_addr_def grpc_addr_def example_config_def)
  have n: "ac_ServiceName example_config \<noteq> []" by (simp add: example_config_def)
  have "parseFloats (\<lambda>s. Inr (length s)) ''1,2'' = (Inr [1, 1] :: string + nat list)" by code_simp
  then have f: "parseFloats (ae_ParseFloat ?env) (ac_InstrumentBuckets example_config) = Inr [1, 1]"
    by (simp add: example_app_def example_config_def)
  obtain i where i: "NewInstrument (ae_reglib ?env) (ae_registry ?env) [] [1] [1, 1 :: nat] = Ok i"
    by (simp add: NewInstrument_def metric_of_def list_registry_def full_name.simps example_app_def)
  have "limit_listener (ac_ServerConfig example_config) l = l" for l by (simp add: limit_listener_def example_config_def)
  moreover have "\<exists>nr. app_New ?env example_config [] [1] = Ok nr \<and> nr_err nr = None \<and> app_Server (nr_app nr) = None \<and>
      nr_open nr = [limit_listener (ac_ServerConfig example_config) (Listener ''0.0.0.0:80'')]"
    by (rule app_New_without_server [OF n f i]) (simp_all add: a example_app_def registerVersionMetrics_def)
  ultimately show ?thesis by simp
qed

end
