(* ===== verification/Registration.thy ===== *)
theory Registration
  imports WriteProxy_Correct App_Correct
begin

text \<open>
  The metrics that \<open>App\<close> registers for the instrumentation, with the library's own registry, and those of the
  recorders of the write proxy and of the remote write client, each with the registry that it is given:
  everything that is measured later is registered where it is counted, with these labels.
\<close>

section \<open>The metrics of the instrumentation\<close>

text \<open>The metric that an observation of the instrumentation is made on, and the values of its labels.\<close>

fun obs_metric :: "string \<Rightarrow> observation \<Rightarrow> metric_id \<times> string list" where
  "obs_metric pre (InflightInc method route) = ((pre, ''inflight_requests''), [method, route])"
| "obs_metric pre (InflightDec method route) = ((pre, ''inflight_requests''), [method, route])"
| "obs_metric pre (RequestBodySize method route read) = ((pre, ''request_message_bytes''), [method, route])"
| "obs_metric pre (ResponseBodySize method route written) = ((pre, ''response_message_bytes''), [method, route])"
| "obs_metric pre (RequestDuration method route code traceID) =
     ((pre, ''request_duration_seconds''), [method, route, Itoa code])"

lemma NewInstrument_Ok:
  assumes "NewInstrument lib reg pre DefBuckets defBuckets = Ok (buckets, reg')"
  shows "MustRegister lib (map (metric_of pre)
             [(''request_duration_seconds'', [''method'', ''route'', ''status_code'']),
              (''request_message_bytes'', [''method'', ''route'']),
              (''response_message_bytes'', [''method'', ''route'']),
              (''inflight_requests'', [''method'', ''route''])]) reg = Ok reg'"
  using assms unfolding NewInstrument_def Let_def by (simp del: MustRegister.simps split: res.splits)

lemma obs_fit:
  assumes "registry_ok lib valid descs" and "NewInstrument lib reg pre DefBuckets defBuckets = Ok (buckets, reg')"
  shows "has_metric (descs reg') (obs_metric pre obs)"
  using MustRegister_Ok [OF assms(1) NewInstrument_Ok [OF assms(2)]]
  by (cases obs) (simp_all add: has_metric_def metric_of_def)

section \<open>What the write proxy measures\<close>

lemma validate_loop_rejects:
  "e \<in> set (fst (validate_loop lib userID metrics first)) \<Longrightarrow> \<exists>reason. e = Measure (measureRejectedSamples userID reason)"
  by (induction lib userID metrics first rule: validate_loop.induct)
    (auto simp: Let_def split: option.splits prod.splits)

lemma set_ops_of: "op \<in> set (ops_of evs) \<longleftrightarrow> Measure op \<in> set evs"
  by (induction evs) (auto simp: ops_of_def split: px_event.splits)

lemma ops_of_ServeHTTP:
  assumes "op \<in> set (ops_of (fst (ServeHTTP ll b lib push org r)))"
  shows "(\<exists>userID n reason. op \<in> {measureReceivedRequest userID, measureIncomingRequest userID, measureReceivedSamples userID n,
      measureIncomingSamples userID n, measureRejectedSamples userID reason, measureConversionDuration userID}) \<or>
    (\<exists>ctx req. op \<in> set (fst (push ctx req)))"
proof -
  have "op = measureReceivedRequest u \<or> op = measureReceivedSamples u (length series) \<or> op \<in> set (fst (push ctx \<lparr>wr_Timeseries = series, wr_SkipLabelValidation = True\<rparr>))"
    if "Measure op \<in> set (fst (publish push ctx u series))" for ctx u series
    using that by (auto simp: publish_def Let_def split: prod.splits option.splits if_splits)
  then have p: "?thesis" if "Measure op \<in> set (fst (publish push ctx u series))" for ctx u series
    using that by blast
  have v: "?thesis" if "Measure op \<in> set (fst (validate_loop lib u metrics first))" for u metrics first
    using validate_loop_rejects [OF that] by blast
  show ?thesis
  proof (cases "extractMetricsFromRequest lib r")
    case (Inl err)
    then show ?thesis using assms
      by (auto simp: ServeHTTP_def set_ops_of split: prod.splits option.splits)
  next
    case (Inr metrics)
    obtain ctx u where u: "ExtractOrgID org = (ctx, u)" by fastforce
    obtain evs' res where val: "validate_loop lib u metrics None = (evs', res)" by fastforce
    have "Measure op \<in> set evs' \<or> op = measureIncomingRequest u \<or> op = measureIncomingSamples u (length metrics) \<or>
        op = measureConversionDuration u \<or> (\<exists>series. Measure op \<in> set (fst (publish push ctx u series)))"
      using assms
      by (auto simp: ServeHTTP_def set_ops_of Inr u val Let_def split: prod.splits option.splits sum.splits) (metis fst_conv)
    then show ?thesis using v [of u metrics None] p [of ctx u] val by auto
  qed
qed

lemma proxy_op_client:
  "op = measureOutOfOrderSamples p 1 \<or> (\<exists>failed. op = measure_op p' ''Write'' failed) \<Longrightarrow> \<not> proxy_op op"
  by (auto simp: measureOutOfOrderSamples_def measure_op_def proxy_counters_def)

lemma client_labels:
  "list_all ValidString (snd (op_metric (measureOutOfOrderSamples p n)))"
  "list_all ValidString (snd (op_metric (measure_op p ''Write'' failed)))"
proof -
  have "ValidString ''Write''" "ValidString ''error''" "ValidString ''success''" by code_simp+
  then show "list_all ValidString (snd (op_metric (measureOutOfOrderSamples p n)))"
    "list_all ValidString (snd (op_metric (measure_op p ''Write'' failed)))"
    by (simp_all add: measureOutOfOrderSamples_def measure_op_def)
qed

section \<open>Properties\<close>

text \<open>
  C39. What is measured is registered. Whatever registry each recorder is made on,
  every call on a recorder that the handler of the write proxy makes, with the measured client, is on a
  metric that its recorder has registered, with one value for each label, and so is every observation of the
  instrumentation. So a call of the client never panics, and the others panic exactly if the value of a
  label, as the organisation, the reason or the method, is not UTF-8.
\<close>

theorem measurements_registered:
  assumes "registry_ok lib valid descs" and "NewInstrument lib regI metricPrefix D bs = Ok (buckets, regI')"
    and "proxy_NewRecorder lib regP = Ok regP'" and "rw_NewRecorder lib pfx regC = Ok regC'" and "cl_recorder c = pfx"
  shows "(\<forall>op \<in> set (ops_of (fst (ServeHTTP ll b plib (measured_Write (client_Write rlib c) pfx) org r))).
      if proxy_op op then labels_fit (descs regP') (op_metric op) \<longleftrightarrow> list_all ValidString (snd (op_metric op))
      else labels_fit (descs regC') (op_metric op)) \<and>
    (\<forall>ob \<in> set (run_metrics (Instrument_Wrap env lower matcher h q)).
      labels_fit (descs regI') (obs_metric metricPrefix ob) \<longleftrightarrow> list_all ValidString (snd (obs_metric metricPrefix ob)))"
proof -
  have "if proxy_op op then labels_fit (descs regP') (op_metric op) \<longleftrightarrow> list_all ValidString (snd (op_metric op))
      else labels_fit (descs regC') (op_metric op)"
    if "op \<in> set (ops_of (fst (ServeHTTP ll b plib (measured_Write (client_Write rlib c) pfx) org r)))" for op
    using ops_of_ServeHTTP [OF that]
  proof
    assume "\<exists>userID n reason. op \<in> {measureReceivedRequest userID, measureIncomingRequest userID, measureReceivedSamples userID n,
        measureIncomingSamples userID n, measureRejectedSamples userID reason, measureConversionDuration userID}"
    then show ?thesis using proxy_ops_registered [OF assms(1,3)] by (auto simp: labels_fit_def)
  next
    assume "\<exists>ctx req. op \<in> set (fst (measured_Write (client_Write rlib c) pfx ctx req))"
    then have op: "op = measureOutOfOrderSamples pfx 1 \<or> (\<exists>failed. op = measure_op pfx ''Write'' failed)"
      using client_ops [of rlib c pfx] unfolding assms(5) by blast
    then show ?thesis using proxy_op_client [OF op] rw_ops_registered [OF assms(1,4)] client_labels
      by (auto simp: labels_fit_def)
  qed
  moreover have "labels_fit (descs regI') (obs_metric metricPrefix ob) \<longleftrightarrow> list_all ValidString (snd (obs_metric metricPrefix ob))" for ob
    using obs_fit [OF assms(1,2), of ob] by (simp add: labels_fit_def)
  ultimately show ?thesis by blast
qed

lemma list_registry_ok: "registry_ok list_registry (\<lambda>name. True) (\<lambda>reg. reg)"
  by (simp add: registry_ok_def list_registry_def)

theorem measurements_registered_witness:
  "\<exists>regP regC. proxy_NewRecorder list_registry [] = Ok regP \<and> rw_NewRecorder list_registry ''p'' [] = Ok regC \<and>
    (\<forall>op \<in> set (ops_of (fst (ServeHTTP pair_lib [] one_lib (measured_Write (client_Write (plain_lib 200) (plain_client 200)) ''p'') None
        \<lparr>px_ContentType = ''RT-metric-binary'', px_Body = Some (Inr [])\<rparr>))).
      \<not> proxy_op op \<longrightarrow> labels_fit regC (op_metric op))"
proof -
  obtain regI where regI: "NewInstrument list_registry [] ''proxy'' [1 :: nat] [] = Ok ([1], regI)"
    by (simp add: NewInstrument_def list_registry_def metric_of_def)
  have "\<exists>regP. proxy_NewRecorder list_registry [] = Ok regP" "\<exists>regC. rw_NewRecorder list_registry ''p'' [] = Ok regC"
    unfolding proxy_NewRecorder_def rw_NewRecorder_eq MustRegister_Ok_iff [OF list_registry_ok]
    by (simp_all add: metric_of_def full_name_apart suffix_Cons)
  then obtain regP regC where regP: "proxy_NewRecorder list_registry [] = Ok regP"
    and regC: "rw_NewRecorder list_registry ''p'' [] = Ok regC" by blast
  have c: "cl_recorder (plain_client 200) = ''p''" by (simp add: plain_client_def)
  note m = measurements_registered [OF list_registry_ok regI regP regC c, THEN conjunct1]
  show ?thesis
    by (intro exI [of _ regP] exI [of _ regC] conjI regP regC ballI impI) (drule bspec [OF m], simp)
qed

end
