(* ===== verification/SeriesIter.thy ===== *)
theory SeriesIter
  imports Whisper Chunks SeriesBatch Strings
begin

text \<open>
  \<^verbatim>\<open>pkg/graphite/convert/series.go\<close>: a series in memory and the iterator over its samples that the
  block builder is given. The iterator is refined from one over a list.
\<close>

section \<open>The iterator\<close>

record 'v MimirSeries =
  ms_l :: labels
  ms_s :: "'v sample list"

definition NewMimirSeries :: "labels \<Rightarrow> 'v sample list \<Rightarrow> 'v MimirSeries" where
  "NewMimirSeries l samples = \<lparr>ms_l = l, ms_s = samples\<rparr>"

definition ms_Labels :: "'v MimirSeries \<Rightarrow> labels" where
  "ms_Labels s = ms_l s"

record 'v mimirSeriesIterator =
  mi_idx :: int
  mi_s :: "'v MimirSeries"
  mi_err :: "go_err option"

datatype ValueType = ValNone | ValFloat

definition ms_Iterator :: "'v MimirSeries \<Rightarrow> 'v mimirSeriesIterator" where
  "ms_Iterator s = \<lparr>mi_idx = -1, mi_s = s, mi_err = None\<rparr>"

definition mi_len :: "'v mimirSeriesIterator \<Rightarrow> int" where
  "mi_len i = int (length (ms_s (mi_s i)))"

lemma mi_len_idx [simp]: "mi_len (i\<lparr>mi_idx := x\<rparr>) = mi_len i"
  by (simp add: mi_len_def)

definition mi_Next :: "'v mimirSeriesIterator \<Rightarrow> ValueType \<times> 'v mimirSeriesIterator" where
  "mi_Next i =
     (if mi_err i \<noteq> None then (ValNone, i)
      else
        let i = i\<lparr>mi_idx := mi_idx i + 1\<rparr>
        in if mi_len i \<le> mi_idx i then (ValNone, i\<lparr>mi_idx := mi_len i\<rparr>) else (ValFloat, i))"

text \<open>Indexing a slice: a panic out of its bounds.\<close>

definition slice_at :: "'a list \<Rightarrow> int \<Rightarrow> 'a res" where
  "slice_at xs i = (if 0 \<le> i \<and> i < int (length xs) then Ok (xs ! nat i) else Panic)"

definition mi_At :: "'v mimirSeriesIterator \<Rightarrow> (int \<times> 'v) res" where
  "mi_At i =
     (case slice_at (ms_s (mi_s i)) (mi_idx i) of
        Ok s \<Rightarrow> Ok (s_ts s, s_value s) | Err e \<Rightarrow> Err e | Panic \<Rightarrow> Panic)"

definition mi_AtT :: "'v mimirSeriesIterator \<Rightarrow> int res" where
  "mi_AtT i =
     (case slice_at (ms_s (mi_s i)) (mi_idx i) of
        Ok s \<Rightarrow> Ok (s_ts s) | Err e \<Rightarrow> Err e | Panic \<Rightarrow> Panic)"

definition mi_Err :: "'v mimirSeriesIterator \<Rightarrow> go_err option" where
  "mi_Err i = mi_err i"

text \<open>\<^verbatim>\<open>sort.Search\<close>: a binary search.\<close>

function Search_loop :: "(nat \<Rightarrow> bool) \<Rightarrow> nat \<Rightarrow> nat \<Rightarrow> nat" where
  "Search_loop f i j =
     (if i < j then
        let h = (i + j) div 2
        in if \<not> f h then Search_loop f (h + 1) j else Search_loop f i h
      else i)"
  by pat_completeness auto
termination by (relation "measure (\<lambda>(f, i, j). j - i)") auto

declare Search_loop.simps [simp del]

definition sort_Search :: "nat \<Rightarrow> (nat \<Rightarrow> bool) \<Rightarrow> nat" where
  "sort_Search n f = Search_loop f 0 n"

definition ErrNoSamples :: "int \<Rightarrow> go_err" where
  "ErrNoSamples ts = ErrText (''no samples with timestamp >= '' @ appendInt ts 0)"

definition mi_Seek :: "int \<Rightarrow> 'v mimirSeriesIterator \<Rightarrow> ValueType res \<times> 'v mimirSeriesIterator" where
  "mi_Seek ts i =
     (if mi_err i \<noteq> None then (Ok ValNone, i)
      else
        case (if -1 < mi_idx i then mi_AtT i else Ok (ts - 1)) of
          Panic \<Rightarrow> (Panic, i)
        | Err e \<Rightarrow> (Err e, i)
        | Ok curT \<Rightarrow>
            if ts \<le> curT then (Ok ValFloat, i)
            else
              (case slice_at (ms_s (mi_s i)) (mi_len i - 1) of
                 Panic \<Rightarrow> (Panic, i)
               | Err e \<Rightarrow> (Err e, i)
               | Ok s \<Rightarrow>
                   if s_ts s < ts then (Ok ValNone, i\<lparr>mi_err := Some (ErrNoSamples ts)\<rparr>)
                   else (Ok ValFloat, i\<lparr>mi_idx :=
                      int (sort_Search (length (ms_s (mi_s i)) - 1) (\<lambda>idx. ts \<le> s_ts (ms_s (mi_s i) ! idx)))\<rparr>)))"

text \<open>A reader that calls \<^verbatim>\<open>Next\<close> and \<^verbatim>\<open>At\<close> until there is nothing left, and then \<^verbatim>\<open>Err\<close>.\<close>

function drain :: "'v mimirSeriesIterator \<Rightarrow> (int \<times> 'v) res list \<times> go_err option" where
  "drain i =
     (case mi_Next i of
        (ValNone, i) \<Rightarrow> ([], mi_Err i)
      | (ValFloat, i) \<Rightarrow> apfst ((#) (mi_At i)) (drain i))"
  by pat_completeness auto
termination
  by (relation "measure (\<lambda>i. nat (mi_len i - mi_idx i))")
    (auto simp: mi_Next_def mi_len_def Let_def split: if_splits)

declare drain.simps [simp del]

section \<open>Binary search\<close>

lemma Search_loop_spec:
  assumes mono: "\<And>a b. a \<le> b \<Longrightarrow> b < n \<Longrightarrow> f a \<Longrightarrow> f b"
  shows "i \<le> j \<Longrightarrow> j \<le> n \<Longrightarrow> i \<le> Search_loop f i j \<and> Search_loop f i j \<le> j \<and>
    (\<forall>k. i \<le> k \<longrightarrow> k < Search_loop f i j \<longrightarrow> \<not> f k) \<and> (Search_loop f i j < j \<longrightarrow> f (Search_loop f i j))"
proof (induction "j - i" arbitrary: i j rule: less_induct)
  case less
  show ?case
  proof (cases "i < j")
    case True
    define h where "h = (i + j) div 2"
    have h: "i \<le> h" "h < j" using True by (auto simp: h_def)
    show ?thesis
    proof (cases "f h")
      case True
      then have "Search_loop f i j = Search_loop f i h" using \<open>i < j\<close> by (simp add: Search_loop.simps [of f i j] h_def Let_def)
      moreover have "i \<le> Search_loop f i h \<and> Search_loop f i h \<le> h \<and>
          (\<forall>k. i \<le> k \<longrightarrow> k < Search_loop f i h \<longrightarrow> \<not> f k) \<and> (Search_loop f i h < h \<longrightarrow> f (Search_loop f i h))"
        using h less.prems by (intro less.hyps) auto
      ultimately show ?thesis using True h by (cases "Search_loop f i h < h") auto
    next
      case False
      then have "Search_loop f i j = Search_loop f (h + 1) j" using \<open>i < j\<close> by (simp add: Search_loop.simps [of f i j] h_def Let_def)
      moreover have "h + 1 \<le> Search_loop f (h + 1) j \<and> Search_loop f (h + 1) j \<le> j \<and>
          (\<forall>k. h + 1 \<le> k \<longrightarrow> k < Search_loop f (h + 1) j \<longrightarrow> \<not> f k) \<and>
          (Search_loop f (h + 1) j < j \<longrightarrow> f (Search_loop f (h + 1) j))"
        using h less.prems by (intro less.hyps) auto
      moreover have "\<not> f k" if "k \<le> h" for k
        using mono [of k h] that False h less.prems by auto
      ultimately show ?thesis using h by (metis Suc_eq_plus1 not_less_eq_eq le_trans le_add1)
    qed
  next
    case False
    then have "Search_loop f i j = i" by (simp add: Search_loop.simps [of f i j])
    then show ?thesis using False less.prems by simp
  qed
qed

text \<open>The code leaves the last sample out of the search: it is known to be late enough.\<close>

lemma sort_Search_first:
  assumes "sorted (map s_ts ss)" and "ss \<noteq> []" and "ts \<le> s_ts (last ss)"
  defines "r \<equiv> sort_Search (length ss - 1) (\<lambda>idx. ts \<le> s_ts (ss ! idx))"
  shows "r < length ss" and "ts \<le> s_ts (ss ! r)" and "k < r \<Longrightarrow> s_ts (ss ! k) < ts"
proof -
  let ?f = "\<lambda>idx. ts \<le> s_ts (ss ! idx)"
  have mono: "?f b" if "a \<le> b" "b < length ss" "?f a" for a b
    using sorted_nth_mono [OF assms(1), of a b] that by simp
  have S: "0 \<le> Search_loop ?f 0 (length ss - 1) \<and> Search_loop ?f 0 (length ss - 1) \<le> length ss - 1 \<and>
    (\<forall>k. 0 \<le> k \<longrightarrow> k < Search_loop ?f 0 (length ss - 1) \<longrightarrow> \<not> ?f k) \<and>
    (Search_loop ?f 0 (length ss - 1) < length ss - 1 \<longrightarrow> ?f (Search_loop ?f 0 (length ss - 1)))"
    by (rule Search_loop_spec [of "length ss"]) (use mono in auto)
  have r: "r \<le> length ss - 1" "\<forall>k < r. \<not> ts \<le> s_ts (ss ! k)" "r < length ss - 1 \<longrightarrow> ts \<le> s_ts (ss ! r)"
    using S unfolding r_def sort_Search_def by simp_all
  show "r < length ss" using r(1) assms(2) by (cases ss) simp_all
  show "ts \<le> s_ts (ss ! r)"
  proof (cases "r < length ss - 1")
    case False
    then have "r = length ss - 1" using r(1) by simp
    then show ?thesis using assms(2,3) by (simp add: last_conv_nth)
  qed (use r(3) in blast)
  show "k < r \<Longrightarrow> s_ts (ss ! k) < ts" using r(2) by auto
qed

section \<open>The specification: a cursor over a list\<close>

datatype 'v cursor = Start | On "'v sample" | End

text \<open>Where the iterator stands and what is still to come.\<close>

definition view_iter :: "'v mimirSeriesIterator \<Rightarrow> 'v cursor \<times> 'v sample list" where
  "view_iter i =
     (let s = ms_s (mi_s i)
      in if mi_idx i < 0 then (Start, s)
         else if mi_idx i < int (length s) then (On (s ! nat (mi_idx i)), drop (nat (mi_idx i) + 1) s)
         else (End, []))"

fun spec_Next :: "'v cursor \<times> 'v sample list \<Rightarrow> ValueType \<times> 'v cursor \<times> 'v sample list" where
  "spec_Next (c, []) = (ValNone, End, [])"
| "spec_Next (c, s # ss) = (ValFloat, On s, ss)"

text \<open>The first sample from the current one on that is late enough, if there is one.\<close>

definition spec_Seek :: "int \<Rightarrow> 'v cursor \<times> 'v sample list \<Rightarrow> ('v cursor \<times> 'v sample list) option" where
  "spec_Seek ts cs =
     (case dropWhile (\<lambda>s. s_ts s < ts) ((case fst cs of On s \<Rightarrow> [s] | _ \<Rightarrow> []) @ snd cs) of
        [] \<Rightarrow> None
      | s # ss \<Rightarrow> Some (On s, ss))"

text \<open>The states that an iterator over samples in order of time can be in.\<close>

definition iter_ok :: "'v mimirSeriesIterator \<Rightarrow> bool" where
  "iter_ok i \<longleftrightarrow> sorted (map s_ts (ms_s (mi_s i))) \<and> -1 \<le> mi_idx i \<and> mi_idx i \<le> mi_len i"

lemma spec_Seek_view:
  assumes "iter_ok i" and "mi_idx i < mi_len i"
  shows "spec_Seek ts (view_iter i) =
    (case dropWhile (\<lambda>s. s_ts s < ts) (drop (nat (max 0 (mi_idx i))) (ms_s (mi_s i))) of
       [] \<Rightarrow> None | s # ss \<Rightarrow> Some (On s, ss))"
proof (cases "mi_idx i < 0")
  case True
  then show ?thesis by (simp add: spec_Seek_def view_iter_def Let_def max_def)
next
  case False
  then have "drop (nat (mi_idx i)) (ms_s (mi_s i)) = ms_s (mi_s i) ! nat (mi_idx i) # drop (Suc (nat (mi_idx i))) (ms_s (mi_s i))"
    using assms(2) by (intro Cons_nth_drop_Suc [symmetric]) (simp add: mi_len_def nat_less_iff)
  then show ?thesis using False assms(2)
    by (simp add: spec_Seek_def view_iter_def mi_len_def Let_def)
qed

lemma dropWhile_at:
  assumes "r < length ss" and "\<not> P (ss ! r)" and "\<And>k. p \<le> k \<Longrightarrow> k < r \<Longrightarrow> P (ss ! k)" and "p \<le> r"
  shows "dropWhile P (drop p ss) = ss ! r # drop (Suc r) ss"
proof -
  have "drop p ss = take (r - p) (drop p ss) @ drop r ss"
    using assms(4) by (metis append_take_drop_id drop_drop le_add_diff_inverse2)
  moreover have "\<forall>x \<in> set (take (r - p) (drop p ss)). P x"
    using assms(1,3,4) by (auto simp: in_set_conv_nth)
  moreover have "drop r ss = ss ! r # drop (Suc r) ss" using assms(1) by (rule Cons_nth_drop_Suc [symmetric])
  ultimately show ?thesis using assms(2) by (metis dropWhile.simps(2) dropWhile_append2)
qed

lemma Seek_inside:
  assumes "iter_ok i" and "mi_err i = None" and "mi_idx i < mi_len i" and "ms_s (mi_s i) \<noteq> []"
  shows "case mi_Seek ts i of
       (Panic, j) \<Rightarrow> fst (view_iter i) = End \<or> ms_s (mi_s i) = []
     | (Ok ValFloat, j) \<Rightarrow> iter_ok j \<and> mi_err j = None \<and> spec_Seek ts (view_iter i) = Some (view_iter j)
     | (Ok ValNone, j) \<Rightarrow> spec_Seek ts (view_iter i) = None \<and> mi_err j = Some (ErrNoSamples ts) \<and> mi_Next j = (ValNone, j)
     | (Err e, j) \<Rightarrow> False"
proof -
  let ?s = "ms_s (mi_s i)"
  define p where "p = nat (max 0 (mi_idx i))"
  have srt: "sorted (map s_ts ?s)" and lo: "-1 \<le> mi_idx i" using assms(1) by (simp_all add: iter_ok_def)
  have p: "p < length ?s" using assms(3,4) by (simp add: p_def mi_len_def nat_less_iff)
  have last: "slice_at ?s (mi_len i - 1) = Ok (last ?s)"
  proof -
    have "nat (mi_len i - 1) = length ?s - 1" by (simp add: mi_len_def nat_diff_distrib')
    then show ?thesis using assms(4) by (simp add: slice_at_def mi_len_def last_conv_nth Suc_leI)
  qed
  have spec: "spec_Seek ts (view_iter i) = (case dropWhile (\<lambda>s. s_ts s < ts) (drop p ?s) of [] \<Rightarrow> None | s # ss \<Rightarrow> Some (On s, ss))"
    using spec_Seek_view [OF assms(1,3)] by (simp add: p_def)
  have here: "mi_AtT i = Ok (s_ts (?s ! p))" "mi_idx i = int p" if "0 \<le> mi_idx i"
    using that p by (auto simp: p_def mi_AtT_def slice_at_def)
  consider (stay) "0 \<le> mi_idx i" "ts \<le> s_ts (?s ! p)" | (none) "s_ts (last ?s) < ts" | (search) "0 \<le> mi_idx i \<longrightarrow> s_ts (?s ! p) < ts" "ts \<le> s_ts (last ?s)"
    by linarith
  then show ?thesis
  proof cases
    case stay
    then have "mi_Seek ts i = (Ok ValFloat, i)" using here assms(2) by (simp add: mi_Seek_def)
    moreover have "spec_Seek ts (view_iter i) = Some (On (?s ! p), drop (Suc p) ?s)"
      unfolding spec using dropWhile_at [OF p, of "\<lambda>s. s_ts s < ts" p] stay(2) by simp
    moreover have "view_iter i = (On (?s ! p), drop (Suc p) ?s)"
      using stay(1) here p by (simp add: view_iter_def Let_def)
    ultimately show ?thesis using assms(1,2) by simp
  next
    case none
    have le: "s_ts x \<le> s_ts (last ?s)" if "x \<in> set ?s" for x
    proof -
      obtain k where k: "k < length ?s" "?s ! k = x" using \<open>x \<in> set ?s\<close> by (auto simp: in_set_conv_nth)
      then show ?thesis using sorted_nth_mono [OF srt, of k "length ?s - 1"] assms(4) by (simp add: last_conv_nth)
    qed
    have "s_ts x < ts" if "x \<in> set (drop p ?s)" for x using le [OF in_set_dropD [OF that]] none by simp
    then have "dropWhile (\<lambda>s. s_ts s < ts) (drop p ?s) = []" by simp
    then have "spec_Seek ts (view_iter i) = None" unfolding spec by (simp only: list.case)
    moreover have "0 \<le> mi_idx i \<longrightarrow> s_ts (?s ! p) < ts" using le [OF nth_mem [OF p]] none by simp
    ultimately show ?thesis using here last none assms(2) by (auto simp: mi_Seek_def mi_Next_def)
  next
    case search
    define r where "r = sort_Search (length ?s - 1) (\<lambda>idx. ts \<le> s_ts (?s ! idx))"
    have r: "r < length ?s" "ts \<le> s_ts (?s ! r)" "\<And>k. k < r \<Longrightarrow> s_ts (?s ! k) < ts"
      using sort_Search_first [OF srt assms(4) search(2)] by (simp_all add: r_def)
    have "p \<le> r"
    proof (cases "0 \<le> mi_idx i")
      case True
      have "\<not> r < p" using sorted_nth_mono [OF srt, of r p] r(2) p search(1) True by fastforce
      then show ?thesis by simp
    qed (simp add: p_def)
    then have "dropWhile (\<lambda>s. s_ts s < ts) (drop p ?s) = ?s ! r # drop (Suc r) ?s"
      using r by (intro dropWhile_at) auto
    then have "spec_Seek ts (view_iter i) = Some (On (?s ! r), drop (Suc r) ?s)" unfolding spec by (simp only: list.case)
    moreover have "view_iter (i\<lparr>mi_idx := int r\<rparr>) = (On (?s ! r), drop (Suc r) ?s)"
      using r(1) by (simp add: view_iter_def Let_def)
    moreover have "mi_Seek ts i = (Ok ValFloat, i\<lparr>mi_idx := int r\<rparr>)"
      using here last search assms(2) by (auto simp: mi_Seek_def r_def)
    ultimately show ?thesis
      using r(1) srt assms(2) by (simp add: iter_ok_def mi_len_def)
  qed
qed

section \<open>Properties\<close>

text \<open>
  C24. The iterator refines the cursor over the list of its samples, but for \<open>Seek\<close> where no sample is left.
  \<open>Next\<close> always moves the cursor by one; \<open>At\<close> gives the sample under it and panics where there is none. \<open>Seek\<close>,
  on samples in order of time, before the end of a series that has some, moves to the first sample from the
  current one on that is not before the given time; if there is none it gives \<open>ValNone\<close>, as it should, and an
  error that stops the iterator. At the end, and on a series without samples, the contract of \<open>Seek\<close> asks for
  \<open>ValNone\<close> as well, but the code panics there, always.
\<close>

theorem iterator_refines_cursor:
  assumes "iter_ok i" and "mi_err i = None"
  shows "(let (r, j) = mi_Next i in iter_ok j \<and> mi_err j = None \<and> (r, view_iter j) = spec_Next (view_iter i)) \<and>
    mi_At i = (case fst (view_iter i) of On s \<Rightarrow> Ok (s_ts s, s_value s) | _ \<Rightarrow> Panic) \<and>
    (if fst (view_iter i) = End \<or> ms_s (mi_s i) = []
     then spec_Seek ts (view_iter i) = None \<and> mi_Seek ts i = (Panic, i)
     else
       (case spec_Seek ts (view_iter i) of
          Some cs \<Rightarrow> \<exists>j. mi_Seek ts i = (Ok ValFloat, j) \<and> iter_ok j \<and> mi_err j = None \<and> view_iter j = cs
        | None \<Rightarrow> \<exists>j. mi_Seek ts i = (Ok ValNone, j) \<and> mi_err j = Some (ErrNoSamples ts) \<and> mi_Next j = (ValNone, j)))"
proof (intro conjI)
  let ?s = "ms_s (mi_s i)"
  have b: "-1 \<le> mi_idx i" "mi_idx i \<le> int (length ?s)" "sorted (map s_ts ?s)"
    using assms(1) by (simp_all add: iter_ok_def mi_len_def)
  consider (before) "mi_idx i = -1" | (inside) "0 \<le> mi_idx i" "mi_idx i < int (length ?s)" | (after) "mi_idx i = int (length ?s)"
    using b by linarith
  then show "let (r, j) = mi_Next i in iter_ok j \<and> mi_err j = None \<and> (r, view_iter j) = spec_Next (view_iter i)"
  proof cases
    case before
    then show ?thesis using b assms(2)
      by (cases ?s) (simp_all add: mi_Next_def iter_ok_def mi_len_def view_iter_def Let_def)
  next
    case inside
    then obtain n where n: "mi_idx i = int n" "n < length ?s" by (metis nonneg_int_cases of_nat_less_iff)
    then show ?thesis using b assms(2)
      by (cases "Suc n < length ?s")
        (simp_all add: mi_Next_def iter_ok_def mi_len_def view_iter_def Let_def nat_add_distrib
          flip: Cons_nth_drop_Suc)
  next
    case after
    then show ?thesis using b assms(2)
      by (simp add: mi_Next_def iter_ok_def mi_len_def view_iter_def Let_def)
  qed
  show "mi_At i = (case fst (view_iter i) of On s \<Rightarrow> Ok (s_ts s, s_value s) | _ \<Rightarrow> Panic)"
    by (simp add: mi_At_def slice_at_def view_iter_def Let_def)
  have past: "fst (view_iter i) = End \<or> ?s = [] \<longleftrightarrow> \<not> (mi_idx i < mi_len i \<and> ?s \<noteq> [])"
    using b by (auto simp: view_iter_def mi_len_def Let_def)
  show "if fst (view_iter i) = End \<or> ?s = []
     then spec_Seek ts (view_iter i) = None \<and> mi_Seek ts i = (Panic, i)
     else
       (case spec_Seek ts (view_iter i) of
          Some cs \<Rightarrow> \<exists>j. mi_Seek ts i = (Ok ValFloat, j) \<and> iter_ok j \<and> mi_err j = None \<and> view_iter j = cs
        | None \<Rightarrow> \<exists>j. mi_Seek ts i = (Ok ValNone, j) \<and> mi_err j = Some (ErrNoSamples ts) \<and> mi_Next j = (ValNone, j))"
  proof (cases "mi_idx i < mi_len i \<and> ?s \<noteq> []")
    case True
    then have "\<not> (fst (view_iter i) = End \<or> ?s = [])" using past by blast
    then show ?thesis
      using Seek_inside [OF assms _ _, of ts] True by (auto split: prod.splits res.splits ValueType.splits)
  next
    case False
    then have "mi_Seek ts i = (Panic, i)"
      using assms b by (cases "mi_idx i = -1") (auto simp: mi_Seek_def mi_AtT_def slice_at_def mi_len_def)
    moreover have "spec_Seek ts (view_iter i) = None"
      using False b(2) by (cases "mi_idx i < 0") (auto simp: spec_Seek_def view_iter_def mi_len_def Let_def)
    ultimately show ?thesis using False past by simp
  qed
qed

theorem iterator_refines_cursor_witness:
  "let s = NewMimirSeries [] [\<lparr>s_value = 7 :: nat, s_ts = 10\<rparr>, \<lparr>s_value = 8, s_ts = 20\<rparr>, \<lparr>s_value = 9, s_ts = 30\<rparr>];
       (r, j) = mi_Seek 15 (snd (mi_Next (ms_Iterator s)))
   in r = Ok ValFloat \<and> mi_At j = Ok (20, 8) \<and> fst (mi_Seek 15 (snd (mi_Next (snd (mi_Next (snd (mi_Next (snd (mi_Next (ms_Iterator s))))))))))
      = Panic"
proof -
  define s where "s = NewMimirSeries [] [\<lparr>s_value = 7 :: nat, s_ts = 10\<rparr>, \<lparr>s_value = 8, s_ts = 20\<rparr>, \<lparr>s_value = 9, s_ts = 30\<rparr>]"
  define i where "i = \<lparr>mi_idx = 0, mi_s = s, mi_err = None\<rparr>"
  have "snd (mi_Next (ms_Iterator s)) = i"
    by (simp add: i_def s_def mi_Next_def ms_Iterator_def mi_len_def NewMimirSeries_def)
  moreover obtain r j where k: "mi_Seek 15 i = (r, j)" by fastforce
  moreover have "r = Ok ValFloat \<and> view_iter j = (On \<lparr>s_value = 8, s_ts = 20\<rparr>, [\<lparr>s_value = 9, s_ts = 30\<rparr>])"
  proof -
    have ok: "iter_ok i" "mi_err i = None" by (simp_all add: i_def s_def iter_ok_def mi_len_def NewMimirSeries_def)
    have sk: "spec_Seek 15 (view_iter i) = Some (On \<lparr>s_value = 8, s_ts = 20\<rparr>, [\<lparr>s_value = 9, s_ts = 30\<rparr>])"
      "fst (view_iter i) \<noteq> End" "ms_s (mi_s i) \<noteq> []"
      by (simp_all add: i_def s_def spec_Seek_def view_iter_def NewMimirSeries_def Let_def)
    show ?thesis
      using iterator_refines_cursor [OF ok, of 15] k sk by simp
  qed
  moreover have "mi_At j = Ok (20, 8)" if "view_iter j = (On \<lparr>s_value = 8, s_ts = 20\<rparr>, [\<lparr>s_value = 9, s_ts = 30\<rparr>])"
    using that by (auto simp: mi_At_def slice_at_def view_iter_def Let_def split: if_splits)
  moreover have "fst (mi_Seek 15 (snd (mi_Next (snd (mi_Next (snd (mi_Next (snd (mi_Next (ms_Iterator s))))))))))  = Panic"
    unfolding s_def by code_simp
  ultimately show ?thesis unfolding s_def [symmetric] by (simp add: Let_def)
qed

section \<open>Reading everything\<close>

lemma drain_from:
  assumes "mi_err i = None" and "-1 \<le> mi_idx i" and "mi_idx i \<le> mi_len i"
  shows "drain i = (map (\<lambda>s. Ok (s_ts s, s_value s)) (snd (view_iter i)), None)"
  using assms
proof (induction i rule: drain.induct)
  case (1 i)
  let ?s = "ms_s (mi_s i)"
  show ?case
  proof (cases "mi_len i \<le> mi_idx i + 1")
    case True
    then have "drain i = ([], None)" using 1(2) by (simp add: drain.simps [of i] mi_Next_def Let_def mi_Err_def)
    moreover have "snd (view_iter i) = []"
      using True 1(3) by (cases "mi_idx i = -1") (auto simp: view_iter_def mi_len_def Let_def)
    ultimately show ?thesis by simp
  next
    case False
    let ?j = "i\<lparr>mi_idx := mi_idx i + 1\<rparr>"
    have n: "mi_Next i = (ValFloat, ?j)" using False 1(2) by (simp add: mi_Next_def Let_def mi_len_def)
    define k where "k = nat (mi_idx i + 1)"
    have k: "mi_idx i + 1 = int k" "k < length ?s" using False 1(3) by (auto simp: k_def mi_len_def)
    have "drain ?j = (map (\<lambda>s. Ok (s_ts s, s_value s)) (snd (view_iter ?j)), None)"
      using 1(2,3) False by (intro 1(1) [OF n [symmetric] refl]) (simp_all add: mi_len_def)
    moreover have "mi_At ?j = Ok (s_ts (?s ! k), s_value (?s ! k))" using k by (simp add: mi_At_def slice_at_def)
    moreover have "snd (view_iter i) = drop k ?s" "snd (view_iter ?j) = drop (Suc k) ?s"
      using k 1(3,4) False by (auto simp: view_iter_def mi_len_def Let_def nat_add_distrib k_def)
    then have "snd (view_iter i) = ?s ! k # snd (view_iter ?j)" using k(2) by (simp add: Cons_nth_drop_Suc)
    ultimately show ?thesis using n by (simp add: drain.simps [of i])
  qed
qed

lemma drain_Iterator:
  "drain (ms_Iterator s) = (map (\<lambda>x. Ok (s_ts x, s_value x)) (ms_s s), None)"
  using drain_from [of "ms_Iterator s"] by (simp add: ms_Iterator_def mi_len_def view_iter_def Let_def)

text \<open>What a reader of the iterator is given, as the block builder takes it.\<close>

definition samples_of :: "'v MimirSeries \<Rightarrow> 'v sample_iter" where
  "samples_of s =
     (let (xs, e) = drain (ms_Iterator s)
      in \<lparr>it_samples = map (\<lambda>r. case r of Ok x \<Rightarrow> Some x | _ \<Rightarrow> None) xs, it_err = e\<rparr>)"

lemma samples_of_eq: "samples_of s = \<lparr>it_samples = map (\<lambda>x. Some (s_ts x, s_value x)) (ms_s s), it_err = None\<rparr>"
  by (simp add: samples_of_def drain_Iterator comp_def)

end
