(* ===== verification/Pass1.thy ===== *)
theory Pass1
  imports Files USTable_Correct Tags SeriesIter
begin

text \<open>
  \<^verbatim>\<open>pkg/graphite/convert/whisperconverter/pass1.go\<close>: worker threads take whisper files from a channel
  and append their samples, split into days, to one table per day; a table of the finished metrics
  lets a later run resume. Everything that the threads can interleave is a step of the relation
  \<open>pass1_step\<close>; an append is atomic, because a table locks.
\<close>

section \<open>Data\<close>

record 'v TimeSeries =
  ts_Labels :: labels
  ts_Samples :: "'v sample list"

definition no_data :: "'v TimeSeries" where
  "no_data = \<lparr>ts_Labels = [], ts_Samples = []\<rparr>"

text \<open>
  What a run is given: the converter, the conversion of a file, the builder of label sets and its
  fresh state, the codec of the tables, and the metrics that were finished before.
\<close>

record ('v, 'b) pass1_env =
  pe_c :: WhisperConverter
  pe_convert :: "string \<Rightarrow> whisper_err + 'v sample list"
  pe_labels :: "'b label_lib"
  pe_nil :: 'b
  pe_codec :: "'v TimeSeries codec"
  pe_skippable :: "bytes \<Rightarrow> int option"

text \<open>
  A worker waits for a file, or writes the remaining blocks of a metric, or has seen the channel
  closed. \<open>st_files\<close> is what has not been received yet; \<open>st_down\<close> says that the process is gone, by
  \<^verbatim>\<open>os.Exit\<close> or a panic.
\<close>

datatype 'v worker = Waiting | Writing bytes "'v sample list list" | Finished

record 'v pass1_state =
  st_files :: "string list"
  st_workers :: "'v worker list"
  st_tables :: "int \<Rightarrow> ustable option"
  st_progress :: ustable
  st_counts :: progress
  st_down :: bool

section \<open>Opening\<close>

text \<open>
  The tables of the days, by day number; \<open>Err\<close> stands for the exit of the process. The threads open
  them in any order, but each has a file of its own.
\<close>

fun open_loop ::
    "'v codec \<Rightarrow> (int \<Rightarrow> disk_file) \<Rightarrow> bool \<Rightarrow> int list \<Rightarrow> (int \<Rightarrow> ustable option) \<Rightarrow> (int \<Rightarrow> ustable option) res" where
  "open_loop cd disk overwrite [] m = Ok m"
| "open_loop cd disk overwrite (d # ds) m =
     (case NewUSTableForAppend cd (disk d) overwrite of
        (Ok _, Some t) \<Rightarrow> open_loop cd disk overwrite ds (m(d \<mapsto> t))
      | (Ok _, None) \<Rightarrow> Panic
      | (Err e, _) \<Rightarrow> Err e
      | (Panic, _) \<Rightarrow> Panic)"

definition openIntermediateFiles ::
    "'v codec \<Rightarrow> WhisperConverter \<Rightarrow> (int \<Rightarrow> disk_file) \<Rightarrow> bool \<Rightarrow> (int \<Rightarrow> ustable option) res" where
  "openIntermediateFiles cd c disk resumeIntermediate = open_loop cd disk (\<not> resumeIntermediate) (wc_dates c) Map.empty"

section \<open>The worker threads\<close>

datatype 'v taken = Skip | Crash | Convert bytes "'v sample list list"

definition take_file :: "('v, 'b) pass1_env \<Rightarrow> string \<Rightarrow> 'v taken" where
  "take_file env fname =
     (case getMetricName (pe_c env) fname of
        Ok metricName \<Rightarrow>
          if to_bytes metricName \<in> dom (pe_skippable env) then Skip
          else
            (case pe_convert env fname of
               Inl err \<Rightarrow> Skip
             | Inr samples \<Rightarrow> Convert (to_bytes metricName) (SplitSamplesByDays samples))
      | _ \<Rightarrow> Crash)"

text \<open>The record of a block.\<close>

definition series_for :: "('v, 'b) pass1_env \<Rightarrow> bytes \<Rightarrow> 'v sample list \<Rightarrow> 'v TimeSeries" where
  "series_for env metricName block =
     \<lparr>ts_Labels = LabelsFromUntaggedName (pe_labels env) metricName (pe_nil env), ts_Samples = block\<rparr>"

definition write_block ::
    "('v, 'b) pass1_env \<Rightarrow> bytes \<Rightarrow> 'v sample list \<Rightarrow> 'v pass1_state \<Rightarrow> 'v pass1_state" where
  "write_block env metricName block s =
     (let day = rounded (s_ts (hd block))
      in case st_tables s day of
           None \<Rightarrow> s
         | Some t \<Rightarrow>
             (case ustable_append (pe_codec env) t metricName (series_for env metricName block) of
                (Ok _, t) \<Rightarrow> s\<lparr>st_tables := (st_tables s)(day \<mapsto> t)\<rparr>
              | (_, t) \<Rightarrow> s\<lparr>st_tables := (st_tables s)(day \<mapsto> t), st_down := True\<rparr>))"

definition finish_metric :: "('v, 'b) pass1_env \<Rightarrow> bytes \<Rightarrow> 'v pass1_state \<Rightarrow> 'v pass1_state" where
  "finish_metric env metricName s =
     (case ustable_append (pe_codec env) (st_progress s) metricName no_data of
        (Ok _, t) \<Rightarrow> s\<lparr>st_progress := t, st_counts := fst (IncProcessed (st_counts s))\<rparr>
      | (_, t) \<Rightarrow> s\<lparr>st_progress := t, st_down := True\<rparr>)"

text \<open>
  The steps of \<open>createIntermediateFromChan\<close>: receiving a file that is skipped, that brings the
  process down, or whose blocks are shuffled into any order; writing one block; finishing a metric;
  and seeing the closed channel.
\<close>

inductive pass1_step :: "('v, 'b) pass1_env \<Rightarrow> 'v pass1_state \<Rightarrow> 'v pass1_state \<Rightarrow> bool" for env where
  Take_Skip: "\<lbrakk>\<not> st_down s; i < length (st_workers s); st_workers s ! i = Waiting; st_files s = f # fs;
      take_file env f = Skip\<rbrakk> \<Longrightarrow>
    pass1_step env s (s\<lparr>st_files := fs, st_counts := IncSkipped (st_counts s)\<rparr>)"
| Take_Crash: "\<lbrakk>\<not> st_down s; i < length (st_workers s); st_workers s ! i = Waiting; st_files s = f # fs;
      take_file env f = Crash\<rbrakk> \<Longrightarrow>
    pass1_step env s (s\<lparr>st_files := fs, st_down := True\<rparr>)"
| Take_Convert: "\<lbrakk>\<not> st_down s; i < length (st_workers s); st_workers s ! i = Waiting; st_files s = f # fs;
      take_file env f = Convert metricName blocks; mset shuffled = mset blocks\<rbrakk> \<Longrightarrow>
    pass1_step env s (s\<lparr>st_files := fs, st_workers := (st_workers s)[i := Writing metricName shuffled]\<rparr>)"
| Write: "\<lbrakk>\<not> st_down s; i < length (st_workers s); st_workers s ! i = Writing metricName (block # blocks)\<rbrakk> \<Longrightarrow>
    pass1_step env s (write_block env metricName block (s\<lparr>st_workers := (st_workers s)[i := Writing metricName blocks]\<rparr>))"
| Finish: "\<lbrakk>\<not> st_down s; i < length (st_workers s); st_workers s ! i = Writing metricName []\<rbrakk> \<Longrightarrow>
    pass1_step env s (finish_metric env metricName (s\<lparr>st_workers := (st_workers s)[i := Waiting]\<rparr>))"
| Closed: "\<lbrakk>\<not> st_down s; i < length (st_workers s); st_workers s ! i = Waiting; st_files s = []\<rbrakk> \<Longrightarrow>
    pass1_step env s (s\<lparr>st_workers := (st_workers s)[i := Finished]\<rparr>)"



section \<open>The whole pass\<close>

text \<open>
  The state in which the threads start: the directory is made, the tables and the table of finished
  metrics are opened. The latter is never overwritten, whatever \<open>resumeIntermediate\<close> says. \<open>None\<close> is
  a pass that never gets there: without threads nobody receives the first date to open a table for, and an
  index may not return. The names are those that \<open>getWhisperListIntoChan\<close> sends.
\<close>

definition CommandPass1 ::
    "('v, 'b) pass1_env \<Rightarrow> go_err option \<Rightarrow> (int \<Rightarrow> disk_file) \<Rightarrow> disk_file \<Rightarrow> bool \<Rightarrow> string list \<Rightarrow> progress
      \<Rightarrow> (('v, 'b) pass1_env \<times> 'v pass1_state) res option" where
  "CommandPass1 env mkdirErr disk progressDisk resumeIntermediate files counts =
     (case mkdirErr of Some e \<Rightarrow> Some (Err e) | None \<Rightarrow>
      if wc_threads (pe_c env) < 0 then Some Panic
      else if wc_threads (pe_c env) = 0 \<and> wc_dates (pe_c env) \<noteq> [] then None
      else
        case openIntermediateFiles (pe_codec env) (pe_c env) disk resumeIntermediate of
          Err e \<Rightarrow> Some (Err e)
        | Panic \<Rightarrow> Some Panic
        | Ok tables \<Rightarrow>
            (case NewUSTableForAppendWithIndex (pe_codec env) progressDisk False of
               None \<Rightarrow> None
             | Some (Err e) \<Rightarrow> Some (Err e)
             | Some Panic \<Rightarrow> Some Panic
             | Some (Ok (progressFile, skippableMetrics)) \<Rightarrow>
                 Some (Ok (env\<lparr>pe_skippable := skippableMetrics\<rparr>,
                   \<lparr>st_files = files, st_workers = replicate (nat (wc_threads (pe_c env))) Waiting,
                    st_tables = tables, st_progress = progressFile, st_counts = counts, st_down = False\<rparr>))))"

text \<open>
  Every name has been sent and all threads have ended; the deferred calls close every table, errors
  being ignored.
\<close>

definition all_finished :: "'v pass1_state \<Rightarrow> bool" where
  "all_finished s \<longleftrightarrow> \<not> st_down s \<and> st_files s = [] \<and> (\<forall>w \<in> set (st_workers s). w = Finished)"

definition pass1_close :: "'v pass1_state \<Rightarrow> (int \<Rightarrow> ustable option) \<times> ustable" where
  "pass1_close s = (\<lambda>d. map_option (\<lambda>t. snd (ustable_close t)) (st_tables s d), snd (ustable_close (st_progress s)))"

section \<open>The threads make progress\<close>

fun file_cost :: "'v taken \<Rightarrow> nat" where
  "file_cost (Convert metricName blocks) = length blocks + 2"
| "file_cost t = 1"

fun worker_cost :: "'v worker \<Rightarrow> nat" where
  "worker_cost Waiting = 1"
| "worker_cost (Writing metricName blocks) = length blocks + 2"
| "worker_cost Finished = 0"

definition work_left :: "('v, 'b) pass1_env \<Rightarrow> 'v pass1_state \<Rightarrow> nat" where
  "work_left env s =
     (if st_down s then 0
      else 1 + (\<Sum>f \<leftarrow> st_files s. file_cost (take_file env f)) + (\<Sum>w \<leftarrow> st_workers s. worker_cost w))"

lemma write_block_fields [simp]:
  "st_files (write_block env k b s) = st_files s" "st_workers (write_block env k b s) = st_workers s"
  "st_progress (write_block env k b s) = st_progress s" "st_counts (write_block env k b s) = st_counts s"
  by (simp_all add: write_block_def Let_def split: option.splits prod.splits res.splits)

lemma finish_metric_fields [simp]:
  "st_files (finish_metric env k s) = st_files s" "st_workers (finish_metric env k s) = st_workers s"
  "st_tables (finish_metric env k s) = st_tables s"
  by (simp_all add: finish_metric_def split: prod.splits res.splits)

lemma sum_list_map_update:
  "i < length xs \<Longrightarrow> sum_list (map f (xs[i := x])) + f (xs ! i) = sum_list (map f xs) + f x" for f :: "'a \<Rightarrow> nat"
proof (induction xs arbitrary: i)
  case (Cons y ys)
  then show ?case by (cases i) auto
qed simp

lemma pass1_step_decreases:
  assumes "pass1_step env s s'"
  shows "work_left env s' < work_left env s"
  using assms
proof (cases rule: pass1_step.cases)
  case (Take_Convert i f fs k blocks shuffled)
  have "length shuffled = length blocks" using Take_Convert(7) by (metis mset_eq_length)
  then show ?thesis using Take_Convert sum_list_map_update [of i "st_workers s" worker_cost "Writing k shuffled"]
    by (simp add: work_left_def)
next
  case (Write i k b bs)
  then show ?thesis using sum_list_map_update [of i "st_workers s" worker_cost "Writing k bs"] by (simp add: work_left_def)
next
  case (Finish i k)
  then show ?thesis using sum_list_map_update [of i "st_workers s" worker_cost Waiting] by (simp add: work_left_def)
next
  case (Closed i)
  then show ?thesis using sum_list_map_update [of i "st_workers s" worker_cost Finished] by (simp add: work_left_def)
qed (simp_all add: work_left_def)

section \<open>What is done and what is left\<close>

text \<open>
  An abstraction of the state, over the files \<open>fs\<close> of the run and the days \<open>D\<close> that have tables: the
  set \<open>R\<close> of recorded blocks with day and metric, and the set \<open>K\<close> of metrics marked as finished.
\<close>

definition day_of_block :: "'v sample list \<Rightarrow> int" where
  "day_of_block b = rounded (s_ts (hd b))"

definition complete ::
    "int set \<Rightarrow> (int \<times> bytes \<times> 'v sample list) set \<Rightarrow> bytes \<Rightarrow> 'v sample list list \<Rightarrow> 'v sample list list \<Rightarrow> bool" where
  "complete D R k blocks rest \<longleftrightarrow>
     (\<forall>b \<in> set blocks. day_of_block b \<in> D \<longrightarrow> (day_of_block b, k, b) \<in> R \<or> b \<in> set rest)"

definition started ::
    "('v, 'b) pass1_env \<Rightarrow> int set \<Rightarrow> 'v worker list \<Rightarrow> (int \<times> bytes \<times> 'v sample list) set \<Rightarrow> string \<Rightarrow> bool" where
  "started env D ws R f \<longleftrightarrow>
     (\<exists>k blocks rest. take_file env f = Convert k blocks \<and> Writing k rest \<in> set ws \<and> complete D R k blocks rest)"

definition handled ::
    "('v, 'b) pass1_env \<Rightarrow> int set \<Rightarrow> (int \<times> bytes \<times> 'v sample list) set \<Rightarrow> bytes set \<Rightarrow> string \<Rightarrow> bool" where
  "handled env D R K f \<longleftrightarrow>
     take_file env f = Skip \<or> (\<exists>k blocks. take_file env f = Convert k blocks \<and> k \<in> K \<and> complete D R k blocks [])"

definition core ::
    "('v, 'b) pass1_env \<Rightarrow> string list \<Rightarrow> int set \<Rightarrow> string list \<Rightarrow> 'v worker list
      \<Rightarrow> (int \<times> bytes \<times> 'v sample list) set \<Rightarrow> bytes set \<Rightarrow> bool" where
  "core env fs D files ws R K \<longleftrightarrow>
     set files \<subseteq> set fs \<and>
     (\<forall>(d, k, b) \<in> R. d = day_of_block b \<and> (\<exists>f \<in> set fs. \<exists>blocks. take_file env f = Convert k blocks \<and> b \<in> set blocks)) \<and>
     (\<forall>k rest. Writing k rest \<in> set ws \<longrightarrow>
       (\<exists>f \<in> set fs. \<exists>blocks. take_file env f = Convert k blocks \<and> set rest \<subseteq> set blocks \<and> complete D R k blocks rest)) \<and>
     (\<forall>k \<in> K. \<exists>f \<in> set fs. \<exists>blocks. take_file env f = Convert k blocks \<and> complete D R k blocks []) \<and>
     (\<forall>f \<in> set fs. f \<in> set files \<or> handled env D R K f \<or> started env D ws R f) \<and>
     (Finished \<in> set ws \<longrightarrow> files = [])"

lemma coreD:
  assumes "core env fs D files ws R K"
  shows "set files \<subseteq> set fs"
    and "(d, k, b) \<in> R \<Longrightarrow> d = day_of_block b \<and> (\<exists>f \<in> set fs. \<exists>blocks. take_file env f = Convert k blocks \<and> b \<in> set blocks)"
    and "Writing k rest \<in> set ws \<Longrightarrow>
      \<exists>f \<in> set fs. \<exists>blocks. take_file env f = Convert k blocks \<and> set rest \<subseteq> set blocks \<and> complete D R k blocks rest"
    and "k \<in> K \<Longrightarrow> \<exists>f \<in> set fs. \<exists>blocks. take_file env f = Convert k blocks \<and> complete D R k blocks []"
    and "f \<in> set fs \<Longrightarrow> f \<in> set files \<or> handled env D R K f \<or> started env D ws R f"
    and "Finished \<in> set ws \<Longrightarrow> files = []"
  using assms unfolding core_def by blast+

lemma complete_mono: "complete D R k blocks rest \<Longrightarrow> R \<subseteq> R' \<Longrightarrow> complete D R' k blocks rest"
  by (auto simp: complete_def)

lemma in_set_updated: "x \<in> set ws \<Longrightarrow> x \<noteq> ws ! i \<Longrightarrow> x \<in> set (ws[i := w])"
  by (metis in_set_conv_nth length_list_update nth_list_update_neq)

lemma set_updated: "x \<in> set (ws[i := w]) \<Longrightarrow> x = w \<or> x \<in> set ws"
  using set_update_subset_insert by fastforce

lemma core_init: "core env fs D fs (replicate n Waiting) {} {}"
  by (auto simp: core_def)

text \<open>How the abstraction follows the steps.\<close>

lemma core_skip:
  assumes "core env fs D (f # files) ws R K" and "take_file env f = Skip"
  shows "core env fs D files ws R K"
  using assms unfolding core_def handled_def by (elim conjE) (intro conjI; auto)

lemma core_convert:
  assumes c: "core env fs D (f # files) ws R K" and f: "take_file env f = Convert k blocks"
    and i: "i < length ws" "ws ! i = Waiting" and m: "mset rest = mset blocks"
  shows "core env fs D files (ws[i := Writing k rest]) R K"
proof -
  let ?ws = "ws[i := Writing k rest]"
  have new: "Writing k rest \<in> set ?ws" using i(1) by (simp add: set_update_memI)
  have cmp: "complete D R k blocks rest" "set rest \<subseteq> set blocks" using mset_eq_setD [OF m] by (auto simp: complete_def)
  have old: "started env D ws R g \<Longrightarrow> started env D ?ws R g" for g
    using in_set_updated [of _ ws i "Writing k rest"] i(2) unfolding started_def by (metis worker.distinct(1))
  show ?thesis
    unfolding core_def
  proof (intro conjI)
    show "set files \<subseteq> set fs" using coreD(1) [OF c] by simp
    show "\<forall>l rs. Writing l rs \<in> set ?ws \<longrightarrow>
       (\<exists>f \<in> set fs. \<exists>blocks. take_file env f = Convert l blocks \<and> set rs \<subseteq> set blocks \<and> complete D R l blocks rs)"
    proof (intro allI impI)
      fix l rs assume "Writing l rs \<in> set ?ws"
      from set_updated [OF this] show "\<exists>f \<in> set fs. \<exists>blocks. take_file env f = Convert l blocks \<and> set rs \<subseteq> set blocks \<and> complete D R l blocks rs"
      proof
        assume "Writing l rs = Writing k rest"
        then show ?thesis using f cmp coreD(1) [OF c] by (intro bexI [of _ f] exI [of _ blocks]) auto
      qed (rule coreD(3) [OF c])
    qed
    show "\<forall>g \<in> set fs. g \<in> set files \<or> handled env D R K g \<or> started env D ?ws R g"
    proof
      fix g assume "g \<in> set fs"
      then have "g = f \<or> g \<in> set files \<or> handled env D R K g \<or> started env D ws R g" using coreD(5) [OF c] by fastforce
      moreover have "started env D ?ws R f" using f new cmp(1) by (auto simp: started_def)
      ultimately show "g \<in> set files \<or> handled env D R K g \<or> started env D ?ws R g" using old by blast
    qed
    show "Finished \<in> set ?ws \<longrightarrow> files = []"
      using coreD(6) [OF c] set_updated [of Finished ws i "Writing k rest"] by auto
  qed (use coreD(2,4) [OF c] in blast)+
qed

lemma core_write:
  assumes c: "core env fs D files ws R K" and i: "i < length ws" "ws ! i = Writing k (b # rest)"
    and R': "R' = (if day_of_block b \<in> D then insert (day_of_block b, k, b) R else R)"
  shows "core env fs D files (ws[i := Writing k rest]) R' K"
proof -
  let ?ws = "ws[i := Writing k rest]"
  have new: "Writing k rest \<in> set ?ws" using i(1) by (simp add: set_update_memI)
  have here: "Writing k (b # rest) \<in> set ws" using i by (metis nth_mem)
  have sub: "R \<subseteq> R'" using R' by auto
  have step: "complete D R k blocks (b # rest) \<Longrightarrow> complete D R' k blocks rest" for blocks
    using R' by (auto simp: complete_def)
  have mono: "complete D R l blocks rs \<Longrightarrow> complete D R' l blocks rs" for l blocks rs using sub complete_mono by blast
  have src: "\<exists>f \<in> set fs. \<exists>blocks. take_file env f = Convert k blocks \<and> set (b # rest) \<subseteq> set blocks \<and> complete D R k blocks (b # rest)"
    using coreD(3) [OF c here] .
  have st: "started env D ws R f \<Longrightarrow> started env D ?ws R' f" for f
  proof -
    assume "started env D ws R f"
    then obtain l blocks rs where s: "take_file env f = Convert l blocks" "Writing l rs \<in> set ws" "complete D R l blocks rs"
      by (auto simp: started_def)
    show "started env D ?ws R' f"
    proof (cases "Writing l rs = ws ! i")
      case True
      then show ?thesis using s new step i(2) by (auto simp: started_def)
    next
      case False
      then show ?thesis using s(1) in_set_updated [OF s(2) False] mono [OF s(3)] unfolding started_def by blast
    qed
  qed
  have hd: "handled env D R K f \<Longrightarrow> handled env D R' K f" for f using mono by (auto simp: handled_def)
  show ?thesis
    unfolding core_def
  proof (intro conjI)
    show "\<forall>(d, k, b) \<in> R'. d = day_of_block b \<and> (\<exists>f \<in> set fs. \<exists>blocks. take_file env f = Convert k blocks \<and> b \<in> set blocks)"
      using c src R' by (auto simp: core_def)
    show "\<forall>l rs. Writing l rs \<in> set ?ws \<longrightarrow>
       (\<exists>f \<in> set fs. \<exists>blocks. take_file env f = Convert l blocks \<and> set rs \<subseteq> set blocks \<and> complete D R' l blocks rs)"
    proof (intro allI impI)
      fix l rs assume "Writing l rs \<in> set ?ws"
      from set_updated [OF this] show "\<exists>f \<in> set fs. \<exists>blocks. take_file env f = Convert l blocks \<and> set rs \<subseteq> set blocks \<and> complete D R' l blocks rs"
      proof
        assume "Writing l rs = Writing k rest"
        then show ?thesis using src step by auto
      next
        assume "Writing l rs \<in> set ws"
        then show ?thesis using c mono unfolding core_def by blast
      qed
    qed
    show "\<forall>k \<in> K. \<exists>f \<in> set fs. \<exists>blocks. take_file env f = Convert k blocks \<and> complete D R' k blocks []"
      using c mono unfolding core_def by blast
    show "\<forall>f \<in> set fs. f \<in> set files \<or> handled env D R' K f \<or> started env D ?ws R' f"
      using c st hd unfolding core_def by blast
    show "Finished \<in> set ?ws \<longrightarrow> files = []"
      using c set_updated [of Finished ws i "Writing k rest"] by (auto simp: core_def)
  qed (use c in \<open>simp add: core_def\<close>)
qed

lemma core_finish:
  assumes c: "core env fs D files ws R K" and i: "i < length ws" "ws ! i = Writing k []"
  shows "core env fs D files (ws[i := Waiting]) R (insert k K)"
proof -
  let ?ws = "ws[i := Waiting]"
  have here: "Writing k [] \<in> set ws" using i by (metis nth_mem)
  then have src: "\<exists>f \<in> set fs. \<exists>blocks. take_file env f = Convert k blocks \<and> complete D R k blocks []"
    using c unfolding core_def by blast
  have st: "started env D ws R f \<Longrightarrow> handled env D R (insert k K) f \<or> started env D ?ws R f" for f
  proof -
    assume "started env D ws R f"
    then obtain l blocks rs where s: "take_file env f = Convert l blocks" "Writing l rs \<in> set ws" "complete D R l blocks rs"
      by (auto simp: started_def)
    show ?thesis
    proof (cases "Writing l rs = ws ! i")
      case True
      then show ?thesis using s i(2) by (auto simp: handled_def)
    next
      case False
      then show ?thesis using s in_set_updated [OF s(2)] by (auto simp: started_def)
    qed
  qed
  have hd: "handled env D R K f \<Longrightarrow> handled env D R (insert k K) f" for f by (auto simp: handled_def)
  show ?thesis
    using c src st hd set_updated [of _ ws i Waiting] unfolding core_def by (intro conjI) (blast+)
qed

lemma core_closed:
  assumes c: "core env fs D [] ws R K" and i: "i < length ws" "ws ! i = Waiting"
  shows "core env fs D [] (ws[i := Finished]) R K"
proof -
  have st: "started env D ws R f \<Longrightarrow> started env D (ws[i := Finished]) R f" for f
    using in_set_updated [of _ ws i Finished] i(2) unfolding started_def by (metis worker.distinct(1))
  show ?thesis
    using c st set_updated [of _ ws i Finished] unfolding core_def by (intro conjI) (blast+)
qed

section \<open>The tables\<close>

text \<open>
  A table that holds the records \<open>es\<close> and is ready for the next; \<open>exactly\<close> if it has nothing else in
  its file.
\<close>

definition holds :: "ustable \<Rightarrow> 'v entry list \<Rightarrow> bool" where
  "holds t es \<longleftrightarrow> positioned t es \<and> f_room (u_fd t) = None"

definition exactly :: "ustable \<Rightarrow> 'v entry list \<Rightarrow> bool" where
  "exactly t es \<longleftrightarrow> holds t es \<and> f_data (u_fd t) = encs es"

lemma append_holds:
  assumes "entry_ok cd (k, b, v)" and "holds t es"
  obtains t' where "ustable_append cd t k v = (Ok (), t')" and "holds t' (es @ [(k, b, v)])"
    and "exactly t es \<longrightarrow> exactly t' (es @ [(k, b, v)])"
proof -
  have p: "positioned t es" "f_room (u_fd t) = None" using assms(2) by (simp_all add: holds_def)
  have m: "u_mode t = APPEND" "cd_marshal cd v = Inr b" using p(1) assms(1) by (simp_all add: positioned_def)
  obtain rest where w: "file_write (u_fd t) (enc_record k b) =
      (Ok (), (u_fd t)\<lparr>f_data := encs es @ enc_record k b @ rest, f_off := length (encs es) + length (enc_record k b)\<rparr>)"
    using positioned_write [OF p] .
  let ?t = "t\<lparr>u_fd := (u_fd t)\<lparr>f_data := encs es @ enc_record k b @ rest, f_off := length (encs es) + length (enc_record k b)\<rparr>\<rparr>"
  have a: "ustable_append cd t k v = (Ok (), ?t)" using m w by (simp add: ustable_append_def write_record_eq)
  moreover have "holds ?t (es @ [(k, b, v)])" using m(1) p(2) by (simp add: holds_def positioned_def)
  moreover have "exactly ?t (es @ [(k, b, v)])" if "exactly t es"
  proof -
    have "f_data (u_fd t) = encs es" "f_off (u_fd t) = length (encs es)"
      using that p(1) by (simp_all add: exactly_def positioned_def)
    then have "write_at (f_data (u_fd t)) (f_off (u_fd t)) (enc_record k b) = encs es @ enc_record k b"
      by (simp add: write_at_def)
    then have "f_data (snd (file_write (u_fd t) (enc_record k b))) = encs es @ enc_record k b"
      using p(2) by (simp add: file_write_unlimited)
    then have "encs es @ enc_record k b @ rest = encs es @ enc_record k b" unfolding w by simp
    then show ?thesis using \<open>holds ?t _\<close> by (simp add: exactly_def)
  qed
  ultimately show ?thesis using that by blast
qed

text \<open>
  Every block that the run can write, and the mark of every metric, can be marshaled and read back;
  no file brings the process down.
\<close>

definition storable :: "('v, 'b) pass1_env \<Rightarrow> string list \<Rightarrow> bool" where
  "storable env fs \<longleftrightarrow>
     (\<forall>f \<in> set fs. take_file env f \<noteq> Crash) \<and>
     (\<forall>f \<in> set fs. \<forall>k blocks. take_file env f = Convert k blocks \<longrightarrow>
       entry_ok (pe_codec env) (k, [], no_data) \<and>
       (\<forall>b \<in> set blocks. \<exists>buf. entry_ok (pe_codec env) (k, buf, series_for env k b)))"

text \<open>
  The tables hold what they held before (\<open>old\<close>, \<open>oldp\<close>) and after it the entries \<open>L\<close> and \<open>P\<close>, which
  are the recorded blocks \<open>R\<close> and the marks \<open>K\<close>.
\<close>

definition ledger ::
    "('v, 'b) pass1_env \<Rightarrow> (int \<Rightarrow> 'v TimeSeries entry list) \<Rightarrow> 'v TimeSeries entry list \<Rightarrow> int set \<Rightarrow> 'v pass1_state
      \<Rightarrow> (int \<Rightarrow> 'v TimeSeries entry list) \<Rightarrow> 'v TimeSeries entry list
      \<Rightarrow> (int \<times> bytes \<times> 'v sample list) set \<Rightarrow> bytes set \<Rightarrow> bool" where
  "ledger env old oldp D s L P R K \<longleftrightarrow>
     dom (st_tables s) = D \<and> (\<forall>d t. st_tables s d = Some t \<longrightarrow> holds t (old d @ L d)) \<and>
     holds (st_progress s) (oldp @ P) \<and>
     (\<forall>d. \<forall>e \<in> set (L d). entry_ok (pe_codec env) e \<and> (\<exists>b. (d, fst e, b) \<in> R \<and> snd (snd e) = series_for env (fst e) b)) \<and>
     (\<forall>(d, k, b) \<in> R. d \<in> D \<and> (k, series_for env k b) \<in> kv ` set (L d)) \<and>
     (\<forall>e \<in> set P. entry_ok (pe_codec env) e \<and> fst (snd e) = []) \<and> K = fst ` set P"

text \<open>The same with nothing in the files but the entries, as in a first run.\<close>

definition all_exact :: "'v pass1_state \<Rightarrow> (int \<Rightarrow> 'v TimeSeries entry list) \<Rightarrow> 'v TimeSeries entry list \<Rightarrow> bool" where
  "all_exact s L P \<longleftrightarrow> (\<forall>d t. st_tables s d = Some t \<longrightarrow> exactly t (L d)) \<and> exactly (st_progress s) P"

definition pass1_inv ::
    "('v, 'b) pass1_env \<Rightarrow> string list \<Rightarrow> (int \<Rightarrow> 'v TimeSeries entry list) \<Rightarrow> 'v TimeSeries entry list \<Rightarrow> int set
      \<Rightarrow> bool \<Rightarrow> 'v pass1_state \<Rightarrow> bool" where
  "pass1_inv env fs old oldp D fresh s \<longleftrightarrow>
     \<not> st_down s \<and>
     (\<exists>L P R K. ledger env old oldp D s L P R K \<and> core env fs D (st_files s) (st_workers s) R K \<and>
       (fresh \<longrightarrow> all_exact s (\<lambda>d. old d @ L d) (oldp @ P)))"

lemma write_block_step:
  assumes l: "ledger env old oldp D s L P R K" and x: "fresh \<longrightarrow> all_exact s (\<lambda>d. old d @ L d) (oldp @ P)"
    and b: "entry_ok (pe_codec env) (k, buf, series_for env k b)" and down: "\<not> st_down s"
  shows "\<not> st_down (write_block env k b s) \<and>
    (\<exists>L'. ledger env old oldp D (write_block env k b s) L' P
        (if day_of_block b \<in> D then insert (day_of_block b, k, b) R else R) K \<and>
      (fresh \<longrightarrow> all_exact (write_block env k b s) (\<lambda>d. old d @ L' d) (oldp @ P)))"
proof (cases "st_tables s (day_of_block b)")
  case None
  then have "write_block env k b s = s" "day_of_block b \<notin> D"
    using l by (auto simp: write_block_def day_of_block_def ledger_def Let_def)
  then show ?thesis using l x down by auto
next
  case (Some t)
  let ?d = "day_of_block b"
  have D: "?d \<in> D" and h: "holds t (old ?d @ L ?d)" using l Some by (auto simp: ledger_def)
  obtain t' where a: "ustable_append (pe_codec env) t k (series_for env k b) = (Ok (), t')"
    and h': "holds t' ((old ?d @ L ?d) @ [(k, buf, series_for env k b)])"
    and x': "exactly t (old ?d @ L ?d) \<longrightarrow> exactly t' ((old ?d @ L ?d) @ [(k, buf, series_for env k b)])"
    using append_holds [OF b h] .
  let ?s = "s\<lparr>st_tables := (st_tables s)(?d \<mapsto> t')\<rparr>" and ?L = "L(?d := L ?d @ [(k, buf, series_for env k b)])"
  have w: "write_block env k b s = ?s"
    using Some a by (simp add: write_block_def day_of_block_def Let_def)
  have "ledger env old oldp D ?s ?L P (insert (?d, k, b) R) K"
    unfolding ledger_def
  proof (intro conjI)
    show "dom (st_tables ?s) = D" using l D by (auto simp: ledger_def)
    show "\<forall>d t. st_tables ?s d = Some t \<longrightarrow> holds t (old d @ ?L d)" using l h' by (auto simp: ledger_def)
    show "holds (st_progress ?s) (oldp @ P)" using l by (simp add: ledger_def)
    show "\<forall>d. \<forall>e \<in> set (?L d). entry_ok (pe_codec env) e \<and>
        (\<exists>b'. (d, fst e, b') \<in> insert (?d, k, b) R \<and> snd (snd e) = series_for env (fst e) b')"
    proof (intro allI ballI)
      fix d e assume "e \<in> set (?L d)"
      then consider "e \<in> set (L d)" | "d = ?d" "e = (k, buf, series_for env k b)" by (auto split: if_splits)
      then show "entry_ok (pe_codec env) e \<and> (\<exists>b'. (d, fst e, b') \<in> insert (?d, k, b) R \<and> snd (snd e) = series_for env (fst e) b')"
      proof cases
        case 1
        then show ?thesis using l unfolding ledger_def by blast
      next
        case 2
        then show ?thesis using b by auto
      qed
    qed
    show "\<forall>(d, k', b') \<in> insert (?d, k, b) R. d \<in> D \<and> (k', series_for env k' b') \<in> kv ` set (?L d)"
      using l D by (fastforce simp: ledger_def kv_def image_Un)
  qed (use l in \<open>simp_all add: ledger_def\<close>)
  moreover have "all_exact ?s (\<lambda>d. old d @ ?L d) (oldp @ P)" if fresh
    using x that x' Some by (auto simp: all_exact_def)
  ultimately show ?thesis using w D down by auto
qed

lemma finish_metric_step:
  assumes l: "ledger env old oldp D s L P R K" and x: "fresh \<longrightarrow> all_exact s (\<lambda>d. old d @ L d) (oldp @ P)"
    and b: "entry_ok (pe_codec env) (k, [], no_data)" and down: "\<not> st_down s"
  shows "\<not> st_down (finish_metric env k s) \<and>
    (\<exists>P'. ledger env old oldp D (finish_metric env k s) L P' R (insert k K) \<and>
      (fresh \<longrightarrow> all_exact (finish_metric env k s) (\<lambda>d. old d @ L d) (oldp @ P')))"
proof -
  have h: "holds (st_progress s) (oldp @ P)" using l by (simp add: ledger_def)
  obtain t' where a: "ustable_append (pe_codec env) (st_progress s) k no_data = (Ok (), t')"
    and h': "holds t' ((oldp @ P) @ [(k, [], no_data)])"
    and x': "exactly (st_progress s) (oldp @ P) \<longrightarrow> exactly t' ((oldp @ P) @ [(k, [], no_data)])"
    using append_holds [OF b h] .
  let ?s = "finish_metric env k s"
  have w: "?s = s\<lparr>st_progress := t', st_counts := fst (IncProcessed (st_counts s))\<rparr>"
    using a by (simp add: finish_metric_def)
  have "ledger env old oldp D ?s L (P @ [(k, [], no_data)]) R (insert k K)"
    using l h' b unfolding w ledger_def by simp
  moreover have "all_exact ?s (\<lambda>d. old d @ L d) (oldp @ P @ [(k, [], no_data)])" if fresh
    using x that x' unfolding w by (auto simp: all_exact_def)
  ultimately show ?thesis using w down by auto
qed

end
