(* ===== verification/Pass2.thy ===== *)
theory Pass2
  imports Paths Block_Properties SeriesIter Pass1
begin

text \<open>
  \<^verbatim>\<open>pkg/graphite/convert/whisperconverter/pass2.go\<close>: one block is made of the table of each day. The
  Prometheus library, the order in which a map is iterated and the sort functions are parameters;
  the blocks of different days have directories of their own, so the threads that make them do not
  touch one another.
\<close>

section \<open>Data\<close>

record metricsIndexEntry =
  mie_Labels :: labels
  mie_Pos :: int

record ('k, 'v, 'b, 'cw, 'iw) pass2_env =
  p2_c :: WhisperConverter
  p2_labels :: "'b label_lib"
  p2_nil :: 'b
  p2_codec :: "'v TimeSeries codec"
  p2_names :: "(bytes \<Rightarrow> int option) \<Rightarrow> bytes list"
  p2_sortIndex :: "metricsIndexEntry list \<Rightarrow> metricsIndexEntry list"
  p2_sortLabels :: "labels \<Rightarrow> labels"
  p2_lib :: "('k, 'v, 'cw, 'iw) tsdb_lib"
  p2_blk :: "'k block_env"
  p2_ulid :: "int \<Rightarrow> string"
  p2_cw :: 'cw
  p2_iw :: 'iw

section \<open>One block\<close>

text \<open>\<open>names\<close> are the keys of the index in the order of the iteration.\<close>

definition buildMetricsIndex ::
    "('k, 'v, 'b, 'cw, 'iw) pass2_env \<Rightarrow> bytes list \<Rightarrow> (bytes \<Rightarrow> int option) \<Rightarrow> metricsIndexEntry list" where
  "buildMetricsIndex env names nameIndex =
     p2_sortIndex env
       (map (\<lambda>name. \<lparr>mie_Labels = LabelsFromUntaggedName (p2_labels env) name (p2_nil env), mie_Pos = the (nameIndex name)\<rparr>) names)"

text \<open>The series of a record: the labels that are configured are added to those of the record.\<close>

definition series_of_record :: "('k, 'v, 'b, 'cw, 'iw) pass2_env \<Rightarrow> 'v TimeSeries \<Rightarrow> 'v MimirSeries" where
  "series_of_record env ms =
     (let lbls = ts_Labels ms;
          lbls = (if wc_customLabels (p2_c env) \<noteq> [] then p2_sortLabels env (lbls @ wc_customLabels (p2_c env)) else lbls)
      in NewMimirSeries lbls (ts_Samples ms))"

fun add_metrics ::
    "('k, 'v, 'b, 'cw, 'iw) pass2_env \<Rightarrow> metricsIndexEntry list \<Rightarrow> ustable \<Rightarrow> ('k, 'cw) builder \<Rightarrow> ('k, 'cw) builder res" where
  "add_metrics env [] t builder = Ok builder"
| "add_metrics env (info # infos) t builder =
     (case ustable_ReadAt (p2_codec env) t (mie_Pos info) of
        (Err e, t) \<Rightarrow> Err e
      | (Panic, t) \<Rightarrow> Panic
      | (Ok (key, value), t) \<Rightarrow>
          (case value of
             None \<Rightarrow> Err ErrBadData
           | Some ms \<Rightarrow>
               let s = series_of_record env ms
               in case AddSeriesWithSamples (p2_lib env) (p2_blk env) (ms_Labels s) (samples_of s) builder of
                    (Some e, builder) \<Rightarrow> Err e
                  | (None, builder) \<Rightarrow> add_metrics env infos t builder))"

text \<open>
  The table of a day, and the block made of it, if any: its metadata, its index and its chunks.
  The index of the table may not return, which is \<open>None\<close>.
\<close>

definition createOneBlock ::
    "('k, 'v, 'b, 'cw, 'iw) pass2_env \<Rightarrow> int \<Rightarrow> disk_file \<Rightarrow> string \<Rightarrow> (block_meta \<times> 'iw \<times> 'cw) option res option" where
  "createOneBlock env day disk blocksDir =
     (case newUSTableForRead disk of
        Err e \<Rightarrow> Some (Err e)
      | Panic \<Rightarrow> Some Panic
      | Ok i \<Rightarrow>
          (case ustable_Index (p2_codec env) i of
             None \<Rightarrow> None
           | Some (Err e, i) \<Rightarrow> Some (Err e)
           | Some (Panic, i) \<Rightarrow> Some Panic
           | Some (Ok index, i) \<Rightarrow>
               let names = p2_names env index
               in if names = [] then Some (Ok None)
                  else
                    (case NewBuilder (p2_blk env) (p2_ulid env day) blocksDir DefaultOptions (p2_cw env) of
                       Err e \<Rightarrow> Some (Err e)
                     | Panic \<Rightarrow> Some Panic
                     | Ok builder \<Rightarrow>
                         (case add_metrics env (buildMetricsIndex env names index) i builder of
                            Err e \<Rightarrow> Some (Err e)
                          | Panic \<Rightarrow> Some Panic
                          | Ok builder \<Rightarrow>
                              (case FinishBlock (p2_lib env) (p2_blk env) (\<lambda>meta. meta) (p2_iw env) (p2_cw env) builder of
                                 (Some e, _) \<Rightarrow> Some (Err e)
                               | (None, b) \<Rightarrow> Some (Ok b))))))"

section \<open>All blocks\<close>

text \<open>A date without a table is the exit of the process, here \<open>Err\<close>.\<close>

fun intermediate_loop :: "int set \<Rightarrow> (int \<Rightarrow> disk_file) \<Rightarrow> int list \<Rightarrow> progress \<Rightarrow> int list res \<times> progress" where
  "intermediate_loop skippableDates disk [] progress = (Ok [], progress)"
| "intermediate_loop skippableDates disk (d # ds) progress =
     (if d \<in> skippableDates then intermediate_loop skippableDates disk ds (IncSkipped progress)
      else if d_data (disk d) = None then (Err ENOENT, progress)
      else
        (case intermediate_loop skippableDates disk ds progress of
           (Ok paths, progress) \<Rightarrow> (Ok (d # paths), progress)
         | (r, progress) \<Rightarrow> (r, progress)))"

text \<open>
  The paths that are sent, and \<open>None\<close> if the share of the worker is never found. \<open>walked\<close> and
  \<open>readMeta\<close> describe the directory of the blocks.
\<close>

definition getIntermediateListIntoChan ::
    "WhisperConverter \<Rightarrow> string list \<Rightarrow> (string \<Rightarrow> int option) \<Rightarrow> bool \<Rightarrow> (int \<Rightarrow> disk_file) \<Rightarrow> progress
      \<Rightarrow> (int list res \<times> progress) option" where
  "getIntermediateListIntoChan c walked readMeta overwriteBlocks disk progress =
     (let skippableDates = (if overwriteBlocks then {} else GetFinishedBlockDates walked readMeta)
      in case intermediate_loop skippableDates disk (wc_dates c) progress of
           (Ok paths, progress) \<Rightarrow>
             map_option (\<lambda>r. (r, progress)) (PathsForWorker paths (wc_workerCount c) (wc_workerID c))
         | (r, progress) \<Rightarrow> Some (r, progress))"

text \<open>
  The work of all threads together: every path is received by one of them. An error is the exit of
  the process; which of the other blocks are finished then depends on the threads.
\<close>

fun createBlocksFromChan ::
    "('k, 'v, 'b, 'cw, 'iw) pass2_env \<Rightarrow> (int \<Rightarrow> disk_file) \<Rightarrow> string \<Rightarrow> int list \<Rightarrow> progress
      \<Rightarrow> ((int \<times> (block_meta \<times> 'iw \<times> 'cw) option) list res \<times> progress) option" where
  "createBlocksFromChan env disk blocksDir [] progress = Some (Ok [], progress)"
| "createBlocksFromChan env disk blocksDir (d # ds) progress =
     (case createOneBlock env d (disk d) blocksDir of
        None \<Rightarrow> None
      | Some (Err e) \<Rightarrow> Some (Err e, progress)
      | Some Panic \<Rightarrow> Some (Panic, progress)
      | Some (Ok b) \<Rightarrow>
          (case createBlocksFromChan env disk blocksDir ds (fst (IncProcessed progress)) of
             Some (Ok bs, progress) \<Rightarrow> Some (Ok ((d, b) # bs), progress)
           | r \<Rightarrow> r))"

text \<open>Without threads nobody receives what is sent.\<close>

definition CommandPass2 ::
    "('k, 'v, 'b, 'cw, 'iw) pass2_env \<Rightarrow> go_err option \<Rightarrow> string list \<Rightarrow> (string \<Rightarrow> int option) \<Rightarrow> (int \<Rightarrow> disk_file)
      \<Rightarrow> string \<Rightarrow> bool \<Rightarrow> progress \<Rightarrow> ((int \<times> (block_meta \<times> 'iw \<times> 'cw) option) list res \<times> progress) option" where
  "CommandPass2 env mkdirErr walked readMeta disk blocksDir overwriteBlocks progress =
     (case mkdirErr of Some e \<Rightarrow> Some (Err e, progress) | None \<Rightarrow>
      if wc_threads (p2_c env) < 0 then Some (Panic, progress)
      else
        case getIntermediateListIntoChan (p2_c env) walked readMeta overwriteBlocks disk progress of
          None \<Rightarrow> None
        | Some (Err e, progress) \<Rightarrow> Some (Err e, progress)
        | Some (Panic, progress) \<Rightarrow> Some (Panic, progress)
        | Some (Ok paths, progress) \<Rightarrow>
            if wc_threads (p2_c env) = 0 \<and> paths \<noteq> [] then None
            else createBlocksFromChan env disk blocksDir paths progress)"

section \<open>Reading the records into the builder\<close>

text \<open>
  What is relied on: the iteration gives every key once, sorting the index permutes it; the system
  calls succeed and the index writer starts empty.
\<close>

definition pass2_ok :: "('cw \<Rightarrow> nat) \<Rightarrow> ('k, 'v, 'b, 'cw, 'k index_log) pass2_env \<Rightarrow> bool" where
  "pass2_ok room env \<longleftrightarrow>
     (\<forall>m. finite (dom m) \<longrightarrow> distinct (p2_names env m) \<and> set (p2_names env m) = dom m) \<and>
     (\<forall>xs. mset (p2_sortIndex env xs) = mset xs) \<and>
     lib_ok room (p2_lib env) \<and> p2_blk env = no_faults \<and> p2_iw env = ([], [])"

lemma pass2_okD:
  assumes "pass2_ok room env"
  shows "finite (dom m) \<Longrightarrow> distinct (p2_names env m) \<and> set (p2_names env m) = dom m"
    and "mset (p2_sortIndex env xs) = mset xs" and "lib_ok room (p2_lib env)" and "p2_blk env = no_faults"
    and "p2_iw env = ([], [])"
  using assms by (simp_all add: pass2_ok_def)

text \<open>A series as the builder is given it.\<close>

definition block_series :: "('k, 'v, 'b, 'cw, 'iw) pass2_env \<Rightarrow> 'v TimeSeries \<Rightarrow> labels \<times> 'v sample_iter" where
  "block_series env ms = (ms_Labels (series_of_record env ms), samples_of (series_of_record env ms))"

lemma add_metrics_reads:
  assumes "\<forall>(info, ms) \<in> set rs. \<forall>t'. f_data (u_fd t') = f_data (u_fd t) \<longrightarrow> u_mode t' = u_mode t \<longrightarrow>
      (\<exists>k. fst (ustable_ReadAt (p2_codec env) t' (mie_Pos info)) = Ok (k, Some ms))"
    and "p2_blk env = no_faults"
    and "add_series_list (p2_lib env) no_faults (map (\<lambda>(info, ms). block_series env ms) rs) b = (None, b')"
  shows "add_metrics env (map fst rs) t b = Ok b'"
  using assms
proof (induction rs arbitrary: t b)
  case (Cons r rs)
  obtain info ms where r: "r = (info, ms)" by fastforce
  obtain k where k: "fst (ustable_ReadAt (p2_codec env) t (mie_Pos info)) = Ok (k, Some ms)"
    using Cons.prems(1) r by fastforce
  obtain t1 where t1: "ustable_ReadAt (p2_codec env) t (mie_Pos info) = (Ok (k, Some ms), t1)"
    using k by (cases "ustable_ReadAt (p2_codec env) t (mie_Pos info)") simp
  obtain b1 where b1: "AddSeriesWithSamples (p2_lib env) no_faults (fst (block_series env ms)) (snd (block_series env ms)) b = (None, b1)"
    "add_series_list (p2_lib env) no_faults (map (\<lambda>(info, ms). block_series env ms) rs) b1 = (None, b')"
    using Cons.prems(3) r by (auto simp: block_series_def split: prod.splits option.splits)
  have "\<forall>(info, ms) \<in> set rs. \<forall>t'. f_data (u_fd t') = f_data (u_fd t1) \<longrightarrow> u_mode t' = u_mode t1 \<longrightarrow>
      (\<exists>k. fst (ustable_ReadAt (p2_codec env) t' (mie_Pos info)) = Ok (k, Some ms))"
    using Cons.prems(1) ReadAt_keeps [OF t1] by simp
  from Cons.IH [OF this Cons.prems(2) b1(2)] show ?case
    using t1 b1(1) r Cons.prems(2) by (simp add: block_series_def Let_def)
qed simp

end
