(* ===== verification/Pass1_Correct.thy ===== *)
theory Pass1_Correct
  imports Pass1
begin

text \<open>
  The first pass is correct: its threads neither block nor run for ever, everything in the files is
  recorded exactly as it should be, and a run that was killed can be resumed.
\<close>

section \<open>The invariant holds\<close>

lemma ledger_frame [simp]:
  "ledger env old oldp D (s\<lparr>st_files := x\<rparr>) L P R K = ledger env old oldp D s L P R K"
  "ledger env old oldp D (s\<lparr>st_workers := ws\<rparr>) L P R K = ledger env old oldp D s L P R K"
  "ledger env old oldp D (s\<lparr>st_counts := c\<rparr>) L P R K = ledger env old oldp D s L P R K"
  by (simp_all add: ledger_def)

lemma all_exact_frame [simp]:
  "all_exact (s\<lparr>st_files := x\<rparr>) L P = all_exact s L P" "all_exact (s\<lparr>st_workers := ws\<rparr>) L P = all_exact s L P"
  "all_exact (s\<lparr>st_counts := c\<rparr>) L P = all_exact s L P"
  by (simp_all add: all_exact_def)

lemma pass1_step_inv:
  assumes "pass1_step env s s'" and ok: "storable env fs" and inv: "pass1_inv env fs old oldp D fresh s"
  shows "pass1_inv env fs old oldp D fresh s'"
proof -
  obtain L P R K where down: "\<not> st_down s" and l: "ledger env old oldp D s L P R K"
    and c: "core env fs D (st_files s) (st_workers s) R K" and x: "fresh \<longrightarrow> all_exact s (\<lambda>d. old d @ L d) (oldp @ P)"
    using inv unfolding pass1_inv_def by blast
  show ?thesis
    using assms(1)
  proof (cases rule: pass1_step.cases)
    case (Take_Skip i f files)
    have "core env fs D files (st_workers s) R K" using core_skip c Take_Skip by metis
    then show ?thesis using Take_Skip(1) down l x unfolding pass1_inv_def
      by (intro conjI exI [of _ L] exI [of _ P] exI [of _ R] exI [of _ K]) simp_all
  next
    case (Take_Crash i f files)
    then have "f \<in> set fs" using coreD(1) [OF c] by simp
    then show ?thesis using ok Take_Crash by (simp add: storable_def)
  next
    case (Take_Convert i f files k blocks rest)
    have "core env fs D (f # files) (st_workers s) R K" using c Take_Convert by simp
    from core_convert [OF this] have "core env fs D files ((st_workers s)[i := Writing k rest]) R K"
      using Take_Convert by blast
    then show ?thesis using Take_Convert(1) down l x unfolding pass1_inv_def
      by (intro conjI exI [of _ L] exI [of _ P] exI [of _ R] exI [of _ K]) simp_all
  next
    case (Write i k b rest)
    let ?s = "s\<lparr>st_workers := (st_workers s)[i := Writing k rest]\<rparr>"
    have "Writing k (b # rest) \<in> set (st_workers s)" using Write by (metis nth_mem)
    from coreD(3) [OF c this] obtain f blocks where f: "f \<in> set fs" "take_file env f = Convert k blocks" "b \<in> set blocks" by auto
    then obtain buf where e: "entry_ok (pe_codec env) (k, buf, series_for env k b)" using ok unfolding storable_def by blast
    let ?R = "if day_of_block b \<in> D then insert (day_of_block b, k, b) R else R"
    have l': "ledger env old oldp D ?s L P R K" and x': "fresh \<longrightarrow> all_exact ?s (\<lambda>d. old d @ L d) (oldp @ P)"
      and d': "\<not> st_down ?s" using l x down by simp_all
    obtain L' where "\<not> st_down (write_block env k b ?s)" "ledger env old oldp D (write_block env k b ?s) L' P ?R K"
      "fresh \<longrightarrow> all_exact (write_block env k b ?s) (\<lambda>d. old d @ L' d) (oldp @ P)"
      using write_block_step [OF l' x' e d'] by blast
    moreover have "core env fs D (st_files s) ((st_workers s)[i := Writing k rest]) ?R K"
      by (rule core_write [OF c _ _ refl]) (use Write in auto)
    ultimately show ?thesis unfolding Write(1) pass1_inv_def by (intro conjI exI) simp_all
  next
    case (Finish i k)
    let ?s = "s\<lparr>st_workers := (st_workers s)[i := Waiting]\<rparr>"
    have "Writing k [] \<in> set (st_workers s)" using Finish by (metis nth_mem)
    from coreD(3) [OF c this] obtain f blocks where f: "f \<in> set fs" "take_file env f = Convert k blocks" by auto
    then have e: "entry_ok (pe_codec env) (k, [], no_data)" using ok unfolding storable_def by blast
    have l': "ledger env old oldp D ?s L P R K" and x': "fresh \<longrightarrow> all_exact ?s (\<lambda>d. old d @ L d) (oldp @ P)"
      and d': "\<not> st_down ?s" using l x down by simp_all
    obtain P' where "\<not> st_down (finish_metric env k ?s)" "ledger env old oldp D (finish_metric env k ?s) L P' R (insert k K)"
      "fresh \<longrightarrow> all_exact (finish_metric env k ?s) (\<lambda>d. old d @ L d) (oldp @ P')"
      using finish_metric_step [OF l' x' e d'] by blast
    moreover have "core env fs D (st_files s) ((st_workers s)[i := Waiting]) R (insert k K)"
      by (rule core_finish [OF c]) (use Finish in auto)
    ultimately show ?thesis unfolding Finish(1) pass1_inv_def by (intro conjI exI) simp_all
  next
    case (Closed i)
    have "core env fs D [] ((st_workers s)[i := Finished]) R K"
      by (rule core_closed) (use c Closed in auto)
    then show ?thesis using Closed down l x unfolding pass1_inv_def
      by (intro conjI exI [of _ L] exI [of _ P] exI [of _ R] exI [of _ K]) simp_all
  qed
qed

lemma pass1_steps_inv:
  assumes "(pass1_step env)\<^sup>*\<^sup>* s s'" and "storable env fs" and "pass1_inv env fs old oldp D fresh s"
  shows "pass1_inv env fs old oldp D fresh s'"
  using assms by (induction rule: rtranclp_induct) (auto intro: pass1_step_inv)

section \<open>No thread blocks\<close>

lemma pass1_progress:
  assumes c: "core env fs D (st_files s) (st_workers s) R K" and ws: "st_workers s \<noteq> []" and "\<not> st_down s"
  shows "all_finished s \<or> (\<exists>s'. pass1_step env s s')"
proof (cases "\<exists>i < length (st_workers s). st_workers s ! i \<noteq> Finished")
  case True
  then obtain i where i: "i < length (st_workers s)" "st_workers s ! i \<noteq> Finished" by blast
  show ?thesis
  proof (cases "st_workers s ! i")
    case Waiting
    show ?thesis
    proof (cases "st_files s")
      case Nil
      then show ?thesis using pass1_step.Closed assms(3) i(1) Waiting by blast
    next
      case (Cons f files)
      show ?thesis
      proof (cases "take_file env f")
        case Skip
        show ?thesis using pass1_step.Take_Skip [OF assms(3) i(1) Waiting Cons Skip] by blast
      next
        case Crash
        show ?thesis using pass1_step.Take_Crash [OF assms(3) i(1) Waiting Cons Crash] by blast
      next
        case (Convert k blocks)
        show ?thesis using pass1_step.Take_Convert [OF assms(3) i(1) Waiting Cons Convert refl] by blast
      qed
    qed
  next
    case (Writing k blocks)
    show ?thesis
    proof (cases blocks)
      case Nil
      then show ?thesis using pass1_step.Finish [OF assms(3) i(1), of k env] Writing by blast
    next
      case (Cons b rest)
      then show ?thesis using pass1_step.Write [OF assms(3) i(1), of k b rest env] Writing by blast
    qed
  qed (use i in simp)
next
  case False
  then have "\<forall>w \<in> set (st_workers s). w = Finished" by (metis in_set_conv_nth)
  moreover have "st_files s = []" using coreD(6) [OF c] calculation ws by (cases "st_workers s") auto
  ultimately show ?thesis using assms(3) by (simp add: all_finished_def)
qed

lemma workers_kept: "pass1_step env s s' \<Longrightarrow> length (st_workers s') = length (st_workers s)"
  by (induction rule: pass1_step.induct) simp_all

lemma workers_kept_run: "(pass1_step env)\<^sup>*\<^sup>* s s' \<Longrightarrow> length (st_workers s') = length (st_workers s)"
  by (induction rule: rtranclp_induct) (simp_all add: workers_kept)

lemma pass1_steps_bounded: "((pass1_step env) ^^ n) s s' \<Longrightarrow> n + work_left env s' \<le> work_left env s"
proof (induction n arbitrary: s')
  case (Suc n)
  then obtain t where "((pass1_step env) ^^ n) s t" "pass1_step env t s'" by auto
  then show ?case using Suc.IH pass1_step_decreases by fastforce
qed simp

text \<open>A run can always be continued to its end.\<close>

lemma pass1_reaches_end:
  assumes "storable env fs" and "pass1_inv env fs old oldp D fresh s" and "st_workers s \<noteq> []"
  shows "\<exists>s'. (pass1_step env)\<^sup>*\<^sup>* s s' \<and> all_finished s'"
  using assms(2,3)
proof (induction "work_left env s" arbitrary: s rule: less_induct)
  case less
  obtain R K where "core env fs D (st_files s) (st_workers s) R K" "\<not> st_down s"
    using less.prems(1) unfolding pass1_inv_def by blast
  then consider "all_finished s" | s1 where "pass1_step env s s1" using pass1_progress less.prems(2) by blast
  then show ?case
  proof cases
    case 2
    have "pass1_inv env fs old oldp D fresh s1" by (rule pass1_step_inv [OF 2 assms(1) less.prems(1)])
    moreover have "st_workers s1 \<noteq> []" using workers_kept [OF 2] less.prems(2) by (metis length_0_conv)
    ultimately obtain s' where "(pass1_step env)\<^sup>*\<^sup>* s1 s'" "all_finished s'"
      using less.hyps [OF pass1_step_decreases [OF 2]] by blast
    then show ?thesis using 2 by (meson converse_rtranclp_into_rtranclp)
  qed blast
qed

section \<open>Opening what an earlier run left\<close>

text \<open>
  What is on disk under the name of a table: nothing, or the records \<open>es\<close> and then nothing more, the
  trailer, or the beginning of a record that was being written, cut so that it is noticed: before its
  value, or where the codec refuses the rest of the value filled up with zeros.
\<close>

definition torn_record :: "'v codec \<Rightarrow> bytes \<Rightarrow> bool" where
  "torn_record cd tail \<longleftrightarrow> (\<exists>k b v. entry_ok cd (k, b, v) \<and> strict_prefix tail (enc_record k b) \<and> cut_noticed cd k b tail)"

definition leaves :: "'v codec \<Rightarrow> 'v entry list \<Rightarrow> disk_file \<Rightarrow> bool" where
  "leaves cd es d \<longleftrightarrow>
     d_open d = None \<and> d_room d = None \<and> (\<forall>e \<in> set es. entry_ok cd e) \<and>
     (es = [] \<and> d_data d = None \<or>
      (\<exists>tail. d_data d = Some (encs es @ tail) \<and> (tail = [] \<or> tail = trailer \<or> torn_record cd tail)))"

text \<open>For the table of finished metrics the record that was cut is a mark, which has no value.\<close>

definition leaves_marks :: "'v codec \<Rightarrow> 'v entry list \<Rightarrow> disk_file \<Rightarrow> bool" where
  "leaves_marks cd es d \<longleftrightarrow>
     d_open d = None \<and> d_room d = None \<and> (\<forall>e \<in> set es. entry_ok cd e) \<and>
     (es = [] \<and> d_data d = None \<or>
      (\<exists>tail. d_data d = Some (encs es @ tail) \<and>
        (tail = [] \<or> tail = trailer \<or> (\<exists>k. k \<noteq> [] \<and> int (length k) \<le> max_alloc \<and> strict_prefix tail (enc_record k [])))))"

lemma holds_new: "holds \<lparr>u_fd = \<lparr>f_data = [], f_off = 0, f_room = None\<rparr>, u_mode = APPEND\<rparr> []"
  by (simp add: holds_def positioned_def)

lemma open_new:
  assumes "d_open d = None" and "d_room d = None" and "overwrite \<or> d_data d = None"
  shows "newUSTableForAppend d overwrite = Ok (\<lparr>u_fd = \<lparr>f_data = [], f_off = 0, f_room = None\<rparr>, u_mode = APPEND\<rparr>, True)"
  using assms by (auto simp: newUSTableForAppend_def Let_def)

lemma open_left:
  assumes "leaves cd es d"
  shows "\<exists>t. NewUSTableForAppend cd d False = (Ok (), Some t) \<and> holds t es"
proof (cases "d_data d")
  case None
  then show ?thesis using assms open_new [of d False] holds_new by (auto simp: leaves_def NewUSTableForAppend_def)
next
  case (Some data)
  then obtain tail where tail: "data = encs es @ tail" "tail = [] \<or> tail = trailer \<or> torn_record cd tail"
    using assms by (auto simp: leaves_def)
  have err: "at g tail \<Longrightarrow> \<exists>e g'. slv_body cd g = (Err e, g')" for g
    using tail(2) slv_body_end slv_body_trailer slv_body_torn unfolding torn_record_def by metis
  have ok: "\<forall>e \<in> set es. entry_ok cd e" using assms by (simp add: leaves_def)
  obtain t where "NewUSTableForAppend cd \<lparr>d_data = Some data, d_open = None, d_room = None\<rparr> False = (Ok (), Some t)"
    "positioned t es" "f_room (u_fd t) = None"
    using reopen_positioned [OF ok tail(1) err, of None] by metis
  moreover have "d = \<lparr>d_data = Some data, d_open = None, d_room = None\<rparr>" using assms Some by (simp add: leaves_def)
  ultimately show ?thesis by (auto simp: holds_def)
qed

lemma readAt_torn_mark:
  assumes k: "k \<noteq> []" "int (length k) \<le> max_alloc" and pre: "strict_prefix p (enc_record k [])" and at: "at f p"
  shows "\<exists>e. readAt cd f (-1) False = (Err e, f) \<and> e \<noteq> ErrSeek None"
proof -
  have "\<exists>e f'. readAt_body cd f (int (f_off f)) False = (Err e, f') \<and> f_data f' = f_data f \<and> f_room f' = f_room f \<and> e \<noteq> ErrSeek None"
  proof (cases "length p < 8")
    case True
    then show ?thesis using binary_read_at [OF at] by (auto simp: readAt_body_def)
  next
    case False
    from pre obtain q z where p: "p = le_enc 8 (int (length k)) @ q" and qz: "k @ le_enc 8 0 = q @ z" "z \<noteq> []"
      unfolding enc_record_def using False by (elim strict_prefix_append_long) auto
    have at': "at f (le_enc 8 (int (length k)) @ q)" using at p by simp
    note rd = binary_read_len [OF at' k(2)]
    have n: "int (length k) \<noteq> 0" "make_ok (int (length k))" using k by (simp_all add: make_ok_def)
    show ?thesis
    proof (cases "q = []")
      case True
      then have "file_read (adv f 8) (length k) = (Err EOF, adv f 8)" using k(1) by (simp add: file_read_at [OF rd(2)])
      then show ?thesis using rd(1) n by (simp add: readAt_body_def sentinelCode_def)
    next
      case False
      let ?n = "min (length k) (length q)"
      have key: "file_read (adv f 8) (length k) = (Ok (take (length k) q), adv f (8 + ?n))"
        using False by (simp add: file_read_at [OF rd(2)])
      have "at (adv f 8) (take ?n q @ drop ?n q)" using rd(2) by (simp only: append_take_drop_id)
      from at_adv [OF this] have at2: "at (adv f (8 + ?n)) (drop ?n q)" by simp
      have "length q < length k + 8"
        using qz by (metis length_append length_le_enc length_greater_0_conv less_add_same_cancel1)
      then have "length (drop ?n q) < 8" by simp
      then show ?thesis using rd(1) n key binary_read_at [OF at2] by (auto simp: readAt_body_def sentinelCode_def)
    qed
  qed
  then obtain e f' where b: "readAt_body cd f (int (f_off f)) False = (Err e, f')" "f_data f' = f_data f" "f_room f' = f_room f"
    "e \<noteq> ErrSeek None" by blast
  have "f'\<lparr>f_off := f_off f\<rparr> = f" using b(2,3) by simp
  then have "readAt cd f (-1) False = (Err e, f)" using b(1) by (simp add: readAt_def file_seek_current_0 file_seek_start)
  then show ?thesis using b(4) by blast
qed

lemma open_marks:
  assumes "leaves_marks cd es d"
  shows "\<exists>t m. NewUSTableForAppendWithIndex cd d False = Some (Ok (t, m)) \<and> holds t es \<and> dom m = fst ` set es"
proof (cases "d_data d")
  case None
  then show ?thesis using assms open_new [of d False] holds_new by (auto simp: leaves_marks_def NewUSTableForAppendWithIndex_def)
next
  case (Some data)
  have ok: "\<forall>e \<in> set es. entry_ok cd e" using assms by (simp add: leaves_marks_def)
  obtain tail where data: "data = encs es @ tail" and tail: "tail = [] \<or> tail = trailer \<or>
      (\<exists>k. k \<noteq> [] \<and> int (length k) \<le> max_alloc \<and> strict_prefix tail (enc_record k []))"
    using assms Some by (auto simp: leaves_marks_def)
  let ?f = "\<lparr>f_data = data, f_off = 0, f_room = None\<rparr>"
  let ?g = "adv ?f (length (encs es))"
  have at0: "at ?f (encs es @ tail)" by (simp add: at_def data)
  have atg: "at ?g tail" using at_adv [OF at0] .
  have "\<exists>e. readAt cd ?g (-1) False = (Err e, ?g) \<and> e \<noteq> ErrSeek None"
    using tail readAt_end [of ?g] readAt_trailer [of ?g "[]"] readAt_torn_mark [OF _ _ _ atg] atg by fastforce
  then have ix: "index_loop cd ?f Map.empty = Some (Ok (positions 0 es Map.empty), ?g)"
    using index_loop_skip [OF ok at0, of Map.empty]
    by (auto simp: index_loop.simps [of cd ?g] file_seek_current_0 errors_is_ErrSeek_def)
  have "newUSTableForAppend d False = Ok (\<lparr>u_fd = ?f, u_mode = APPEND\<rparr>, False)"
    using assms Some by (simp add: newUSTableForAppend_def leaves_marks_def Let_def)
  then have "NewUSTableForAppendWithIndex cd d False = Some (Ok (\<lparr>u_fd = ?g, u_mode = APPEND\<rparr>, positions 0 es Map.empty))"
    using ix file_seek_start [of ?f 0] by (simp add: NewUSTableForAppendWithIndex_def ustable_Index_def)
  moreover have "holds \<lparr>u_fd = ?g, u_mode = APPEND\<rparr> es" by (simp add: holds_def positioned_def data)
  ultimately show ?thesis by (auto simp: dom_positions)
qed

lemma open_loop_holds:
  assumes "\<forall>d \<in> set ds. leaves cd (old d) (disk d)" and "\<forall>d t. m d = Some t \<longrightarrow> holds t (old d)"
  shows "\<exists>m'. open_loop cd disk False ds m = Ok m' \<and> dom m' = dom m \<union> set ds \<and> (\<forall>d t. m' d = Some t \<longrightarrow> holds t (old d))"
  using assms
proof (induction ds arbitrary: m)
  case (Cons d ds)
  obtain t where t: "NewUSTableForAppend cd (disk d) False = (Ok (), Some t)" "holds t (old d)"
    using open_left Cons.prems(1) by (metis list.set_intros(1))
  have up: "\<forall>d' t'. (m(d \<mapsto> t)) d' = Some t' \<longrightarrow> holds t' (old d')" using Cons.prems(2) t(2) by simp
  have ds: "\<forall>d \<in> set ds. leaves cd (old d) (disk d)" using Cons.prems(1) by simp
  obtain m' where
    "open_loop cd disk False ds (m(d \<mapsto> t)) = Ok m'" "dom m' = dom (m(d \<mapsto> t)) \<union> set ds" "\<forall>d t. m' d = Some t \<longrightarrow> holds t (old d)"
    using Cons.IH [OF ds up] by blast
  then show ?case using t(1) by (intro exI [of _ m']) auto
qed simp

text \<open>A run in which nothing is on disk, or everything is overwritten, starts with exact tables.\<close>

lemma open_loop_new:
  fixes cd :: "'v codec"
  assumes "\<forall>d \<in> set ds. d_open (disk d) = None \<and> d_room (disk d) = None \<and> (overwrite \<or> d_data (disk d) = None)"
    and "\<forall>d t. m d = Some t \<longrightarrow> exactly t ([] :: 'v entry list)"
  shows "\<exists>m'. open_loop cd disk overwrite ds m = Ok m' \<and> dom m' = dom m \<union> set ds \<and> (\<forall>d t. m' d = Some t \<longrightarrow> exactly t ([] :: 'v entry list))"
  using assms
proof (induction ds arbitrary: m)
  case (Cons d ds)
  let ?t = "\<lparr>u_fd = \<lparr>f_data = [], f_off = 0, f_room = None\<rparr>, u_mode = APPEND\<rparr>"
  have t: "NewUSTableForAppend cd (disk d) overwrite = (Ok (), Some ?t)"
    using Cons.prems(1) open_new [of "disk d" overwrite] by (simp add: NewUSTableForAppend_def)
  have "exactly ?t ([] :: 'v entry list)" using holds_new by (simp add: exactly_def)
  then have up: "\<forall>d' t'. (m(d \<mapsto> ?t)) d' = Some t' \<longrightarrow> exactly t' ([] :: 'v entry list)" using Cons.prems(2) by simp
  have ds: "\<forall>d \<in> set ds. d_open (disk d) = None \<and> d_room (disk d) = None \<and> (overwrite \<or> d_data (disk d) = None)"
    using Cons.prems(1) by simp
  obtain m' where
    "open_loop cd disk overwrite ds (m(d \<mapsto> ?t)) = Ok m'" "dom m' = dom (m(d \<mapsto> ?t)) \<union> set ds"
    "\<forall>d t. m' d = Some t \<longrightarrow> exactly t ([] :: 'v entry list)"
    using Cons.IH [OF ds up] by blast
  then show ?case using t by (intro exI [of _ m']) auto
qed simp

section \<open>Starting a run\<close>

lemma env_skippable_simps [simp]:
  "pe_c (env\<lparr>pe_skippable := m\<rparr>) = pe_c env" "pe_codec (env\<lparr>pe_skippable := m\<rparr>) = pe_codec env"
  "pe_skippable (env\<lparr>pe_skippable := m\<rparr>) = m" "series_for (env\<lparr>pe_skippable := m\<rparr>) = series_for env"
  by (simp_all add: series_for_def fun_eq_iff)

definition start_state :: "('v, 'b) pass1_env \<Rightarrow> (int \<Rightarrow> ustable option) \<Rightarrow> ustable \<Rightarrow> string list \<Rightarrow> progress \<Rightarrow> 'v pass1_state" where
  "start_state env m t files counts =
     \<lparr>st_files = files, st_workers = replicate (nat (wc_threads (pe_c env))) Waiting, st_tables = m, st_progress = t,
      st_counts = counts, st_down = False\<rparr>"

lemma start_inv:
  fixes env :: "('v, 'b) pass1_env"
  assumes "dom m = D" and "\<forall>d t. m d = Some t \<longrightarrow> holds t (old d)" and "holds t oldp"
    and "fresh \<Longrightarrow> (\<forall>d t. m d = Some t \<longrightarrow> exactly t (old d)) \<and> exactly t oldp"
  shows "pass1_inv env files old oldp D fresh (start_state env m t files counts)"
proof -
  let ?s = "start_state env m t files counts"
  have "ledger env old oldp D ?s (\<lambda>d. []) [] {} {}" using assms(1-3) by (simp add: ledger_def start_state_def)
  moreover have "core env files D (st_files ?s) (st_workers ?s) {} {}" by (simp add: start_state_def core_init)
  moreover have "fresh \<longrightarrow> all_exact ?s (\<lambda>d. old d @ []) (oldp @ [])" using assms(4) by (simp add: all_exact_def start_state_def)
  moreover have "\<not> st_down ?s" by (simp add: start_state_def)
  ultimately show ?thesis unfolding pass1_inv_def by blast
qed

text \<open>A run that resumes.\<close>

lemma start_resume:
  fixes env :: "('v, 'b) pass1_env"
  assumes "\<forall>d \<in> set (wc_dates (pe_c env)). leaves (pe_codec env) (old d) (disk d)"
    and "leaves_marks (pe_codec env) oldp pdisk" and "0 < wc_threads (pe_c env)"
  obtains skip s0 where "CommandPass1 env None disk pdisk True files counts = Some (Ok (env\<lparr>pe_skippable := skip\<rparr>, s0))"
    and "dom skip = fst ` set oldp" and "pass1_inv (env\<lparr>pe_skippable := skip\<rparr>) files old oldp (set (wc_dates (pe_c env))) False s0"
    and "st_workers s0 \<noteq> []"
proof -
  obtain m where m: "open_loop (pe_codec env) disk False (wc_dates (pe_c env)) Map.empty = Ok m"
    "dom m = set (wc_dates (pe_c env))" "\<forall>d t. m d = Some t \<longrightarrow> holds t (old d)"
    using open_loop_holds [OF assms(1), of Map.empty] by auto
  obtain t skip where t: "NewUSTableForAppendWithIndex (pe_codec env) pdisk False = Some (Ok (t, skip))" "holds t oldp"
    "dom skip = fst ` set oldp" using open_marks [OF assms(2)] by blast
  have "CommandPass1 env None disk pdisk True files counts
      = Some (Ok (env\<lparr>pe_skippable := skip\<rparr>, start_state (env\<lparr>pe_skippable := skip\<rparr>) m t files counts))"
    using assms(3) m(1) t(1) by (simp add: CommandPass1_def openIntermediateFiles_def start_state_def)
  moreover have "pass1_inv (env\<lparr>pe_skippable := skip\<rparr>) files old oldp (set (wc_dates (pe_c env))) False
      (start_state (env\<lparr>pe_skippable := skip\<rparr>) m t files counts)"
    using m(2,3) t(2) by (intro start_inv) simp_all
  ultimately show ?thesis using that t(3) assms(3) by (simp add: start_state_def)
qed

text \<open>A run that finds nothing on disk.\<close>

definition absent :: "disk_file \<Rightarrow> bool" where
  "absent d \<longleftrightarrow> d_open d = None \<and> d_room d = None \<and> d_data d = None"

lemma start_fresh:
  fixes env :: "('v, 'b) pass1_env"
  assumes "\<forall>d \<in> set (wc_dates (pe_c env)). absent (disk d)" and "absent pdisk" and "0 < wc_threads (pe_c env)"
  obtains s0 where "CommandPass1 env None disk pdisk resume files counts = Some (Ok (env\<lparr>pe_skippable := Map.empty\<rparr>, s0))"
    and "pass1_inv (env\<lparr>pe_skippable := Map.empty\<rparr>) files (\<lambda>d. []) [] (set (wc_dates (pe_c env))) True s0"
    and "st_workers s0 \<noteq> []"
proof -
  obtain m where m: "open_loop (pe_codec env) disk (\<not> resume) (wc_dates (pe_c env)) Map.empty = Ok m"
    "dom m = set (wc_dates (pe_c env))" "\<forall>d t. m d = Some t \<longrightarrow> exactly t ([] :: 'v TimeSeries entry list)"
    using open_loop_new [where cd = "pe_codec env" and ds = "wc_dates (pe_c env)" and disk = disk and m = Map.empty and overwrite = "\<not> resume"] assms(1) by (auto simp: absent_def)
  let ?t = "\<lparr>u_fd = \<lparr>f_data = [], f_off = 0, f_room = None\<rparr>, u_mode = APPEND\<rparr>"
  have t: "NewUSTableForAppendWithIndex (pe_codec env) pdisk False = Some (Ok (?t, Map.empty))"
    using assms(2) open_new [of pdisk False] by (simp add: NewUSTableForAppendWithIndex_def absent_def)
  have "exactly ?t ([] :: 'v TimeSeries entry list)" using holds_new by (simp add: exactly_def)
  then have "pass1_inv (env\<lparr>pe_skippable := Map.empty\<rparr>) files (\<lambda>d. []) [] (set (wc_dates (pe_c env))) True
      (start_state (env\<lparr>pe_skippable := Map.empty\<rparr>) m ?t files counts)"
    using m(2,3) by (intro start_inv) (auto simp: exactly_def)
  moreover have "CommandPass1 env None disk pdisk resume files counts
      = Some (Ok (env\<lparr>pe_skippable := Map.empty\<rparr>, start_state (env\<lparr>pe_skippable := Map.empty\<rparr>) m ?t files counts))"
    using assms(3) m(1) t by (simp add: CommandPass1_def openIntermediateFiles_def start_state_def)
  ultimately show ?thesis using that assms(3) by (simp add: start_state_def)
qed

text \<open>A run that overwrites the tables but not the marks.\<close>

lemma start_overwrite:
  fixes env :: "('v, 'b) pass1_env"
  assumes "\<forall>d \<in> set (wc_dates (pe_c env)). d_open (disk d) = None \<and> d_room (disk d) = None"
    and "leaves_marks (pe_codec env) oldp pdisk" and "0 < wc_threads (pe_c env)"
  obtains skip s0 where "CommandPass1 env None disk pdisk False files counts = Some (Ok (env\<lparr>pe_skippable := skip\<rparr>, s0))"
    and "dom skip = fst ` set oldp" and "pass1_inv (env\<lparr>pe_skippable := skip\<rparr>) files (\<lambda>d. []) oldp (set (wc_dates (pe_c env))) False s0"
    and "st_workers s0 \<noteq> []"
proof -
  obtain m where m: "open_loop (pe_codec env) disk True (wc_dates (pe_c env)) Map.empty = Ok m"
    "dom m = set (wc_dates (pe_c env))" "\<forall>d t. m d = Some t \<longrightarrow> exactly t ([] :: 'v TimeSeries entry list)"
    using open_loop_new [where cd = "pe_codec env" and ds = "wc_dates (pe_c env)" and disk = disk and m = Map.empty and overwrite = True] assms(1) by auto
  obtain t skip where t: "NewUSTableForAppendWithIndex (pe_codec env) pdisk False = Some (Ok (t, skip))" "holds t oldp"
    "dom skip = fst ` set oldp" using open_marks [OF assms(2)] by blast
  have "CommandPass1 env None disk pdisk False files counts
      = Some (Ok (env\<lparr>pe_skippable := skip\<rparr>, start_state (env\<lparr>pe_skippable := skip\<rparr>) m t files counts))"
    using assms(3) m(1) t(1) by (simp add: CommandPass1_def openIntermediateFiles_def start_state_def)
  moreover have "pass1_inv (env\<lparr>pe_skippable := skip\<rparr>) files (\<lambda>d. []) oldp (set (wc_dates (pe_c env))) False
      (start_state (env\<lparr>pe_skippable := skip\<rparr>) m t files counts)"
    using m(2,3) t(2) by (intro start_inv) (auto simp: exactly_def)
  ultimately show ?thesis using that t(3) assms(3) by (simp add: start_state_def)
qed

section \<open>Reading the result\<close>

text \<open>What a reader gets from the closed table of a day: the records \<open>es\<close> and then the sentinel.\<close>

definition reads_back :: "'v codec \<Rightarrow> ustable option \<Rightarrow> 'v entry list \<Rightarrow> bool" where
  "reads_back cd t es \<longleftrightarrow>
     (\<exists>u r. t = Some u \<and> newUSTableForRead \<lparr>d_data = Some (f_data (u_fd u)), d_open = None, d_room = None\<rparr> = Ok r \<and>
       (\<forall>n. fst (next_n cd r (length es + n)) = map got es @ replicate n (Err ErrAtSentinel)))"

lemma finished_result:
  assumes inv: "pass1_inv env fs old oldp D fresh s" and fin: "all_finished s" and old: "\<forall>d \<in> D. \<forall>e \<in> set (old d). entry_ok (pe_codec env) e"
  obtains L where "\<forall>d \<in> D. reads_back (pe_codec env) (fst (pass1_close s) d) (old d @ L d)"
    and "\<forall>f \<in> set fs. \<forall>k blocks. take_file env f = Convert k blocks \<longrightarrow>
      (\<forall>b \<in> set blocks. day_of_block b \<in> D \<longrightarrow> (k, series_for env k b) \<in> kv ` set (L (day_of_block b)))"
    and "\<forall>d. \<forall>e \<in> set (L d). \<exists>f \<in> set fs. \<exists>k blocks b. take_file env f = Convert k blocks \<and> b \<in> set blocks \<and>
      day_of_block b = d \<and> kv e = (k, series_for env k b)"
    and "\<forall>d t. d \<in> D \<longrightarrow> fst (pass1_close s) d = Some t \<longrightarrow> (\<exists>rest. f_data (u_fd t) = encs (old d @ L d) @ trailer @ rest)"
    and "\<forall>d. \<forall>e \<in> set (L d). entry_ok (pe_codec env) e"
proof -
  obtain L P R K where l: "ledger env old oldp D s L P R K" and c: "core env fs D (st_files s) (st_workers s) R K"
    using inv unfolding pass1_inv_def by blast
  have settled: "handled env D R K f" if "f \<in> set fs" for f
    using coreD(5) [OF c that] fin by (auto simp: all_finished_def started_def)
  have closed: "\<exists>u rest. fst (pass1_close s) d = Some u \<and> f_data (u_fd u) = encs (old d @ L d) @ trailer @ rest" if "d \<in> D" for d
  proof -
    obtain t where t: "st_tables s d = Some t" "holds t (old d @ L d)" using l \<open>d \<in> D\<close> unfolding ledger_def by blast
    obtain u rest where "ustable_close t = (Ok (), u)" "f_data (u_fd u) = encs (old d @ L d) @ trailer @ rest"
      using close_positioned [of t "old d @ L d"] t(2) unfolding holds_def by blast
    then show ?thesis using t(1) by (simp add: pass1_close_def)
  qed
  have okL: "\<forall>d. \<forall>e \<in> set (L d). entry_ok (pe_codec env) e" using l unfolding ledger_def by blast
  show ?thesis
  proof (rule that [of L])
    show "\<forall>d \<in> D. reads_back (pe_codec env) (fst (pass1_close s) d) (old d @ L d)"
    proof
      fix d assume d: "d \<in> D"
      obtain u rest where u: "fst (pass1_close s) d = Some u" "f_data (u_fd u) = encs (old d @ L d) @ trailer @ rest"
        using closed [OF d] by blast
      have "\<forall>e \<in> set (old d @ L d). entry_ok (pe_codec env) e" using old d okL by auto
      from close_read [OF this u(2)] show "reads_back (pe_codec env) (fst (pass1_close s) d) (old d @ L d)"
        unfolding reads_back_def u(1) by metis
    qed
    show "\<forall>f \<in> set fs. \<forall>k blocks. take_file env f = Convert k blocks \<longrightarrow>
      (\<forall>b \<in> set blocks. day_of_block b \<in> D \<longrightarrow> (k, series_for env k b) \<in> kv ` set (L (day_of_block b)))"
      using settled l unfolding handled_def complete_def ledger_def by fastforce
    show "\<forall>d. \<forall>e \<in> set (L d). \<exists>f \<in> set fs. \<exists>k blocks b. take_file env f = Convert k blocks \<and> b \<in> set blocks \<and>
      day_of_block b = d \<and> kv e = (k, series_for env k b)"
    proof (intro allI ballI)
      fix d e assume e: "e \<in> set (L d)"
      then obtain b where "(d, fst e, b) \<in> R" "snd (snd e) = series_for env (fst e) b" using l unfolding ledger_def by blast
      with coreD(2) [OF c this(1)] show "\<exists>f \<in> set fs. \<exists>k blocks b. take_file env f = Convert k blocks \<and> b \<in> set blocks \<and>
        day_of_block b = d \<and> kv e = (k, series_for env k b)" unfolding kv_def by metis
    qed
  qed (use closed okL in fastforce)+
qed

section \<open>Resuming after a crash\<close>

lemma take_file_skippable:
  "take_file (env\<lparr>pe_skippable := m\<rparr>) f =
     (case take_file (env\<lparr>pe_skippable := Map.empty\<rparr>) f of
        Convert k blocks \<Rightarrow> if k \<in> dom m then Skip else Convert k blocks
      | t \<Rightarrow> t)"
  by (auto simp: take_file_def split: res.splits sum.splits)

lemma take_file_name:
  "take_file env f = Convert k blocks \<Longrightarrow>
    \<exists>name. getMetricName (pe_c env) f = Ok name \<and> k = to_bytes name \<and> k \<notin> dom (pe_skippable env)"
  by (auto simp: take_file_def split: res.splits sum.splits if_splits)

lemma storable_skippable:
  assumes "storable (env\<lparr>pe_skippable := Map.empty\<rparr>) fs"
  shows "storable (env\<lparr>pe_skippable := m\<rparr>) fs"
  using assms unfolding storable_def take_file_skippable [where env = env and m = m]
  by (auto split: taken.splits if_splits)

text \<open>
  What a killed process leaves of a table: the file as it was, and perhaps the beginning of the
  record that was being written. For the tables of the days only a cut that is noticed is allowed here
  (\<open>torn_record\<close>); \<open>unnoticed_cut_corrupts\<close> says what any other leads to. A mark in the table of finished
  metrics has no value, so every cut of it is noticed.
\<close>

definition killed :: "'v codec \<Rightarrow> ustable \<Rightarrow> disk_file \<Rightarrow> bool" where
  "killed cd t d \<longleftrightarrow> d_open d = None \<and> d_room d = None \<and>
     (\<exists>tail. d_data d = Some (f_data (u_fd t) @ tail) \<and> (tail = [] \<or> torn_record cd tail))"

definition killed_marks :: "ustable \<Rightarrow> disk_file \<Rightarrow> bool" where
  "killed_marks t d \<longleftrightarrow> d_open d = None \<and> d_room d = None \<and>
     (\<exists>tail. d_data d = Some (f_data (u_fd t) @ tail) \<and>
       (tail = [] \<or> (\<exists>k. k \<noteq> [] \<and> int (length k) \<le> max_alloc \<and> strict_prefix tail (enc_record k []))))"

text \<open>The state of a first run at any time, as what the next run will find.\<close>

lemma killed_leaves:
  fixes env :: "('v, 'b) pass1_env"
  assumes inv: "pass1_inv env fs (\<lambda>d. []) [] D True s"
    and disk: "\<forall>d \<in> D. \<exists>t. st_tables s d = Some t \<and> killed (pe_codec env) t (disk d)"
    and pdisk: "killed_marks (st_progress s) pdisk"
  obtains L P where "\<forall>d \<in> D. leaves (pe_codec env) (L d) (disk d)" and "leaves_marks (pe_codec env) P pdisk"
    and "\<forall>d. \<forall>e \<in> set (L d). \<exists>f \<in> set fs. \<exists>k blocks b. take_file env f = Convert k blocks \<and> b \<in> set blocks \<and>
      day_of_block b = d \<and> kv e = (k, series_for env k b)"
    and "\<forall>k \<in> fst ` set P. \<exists>f \<in> set fs. \<exists>blocks. take_file env f = Convert k blocks \<and>
      (\<forall>b \<in> set blocks. day_of_block b \<in> D \<longrightarrow> (k, series_for env k b) \<in> kv ` set (L (day_of_block b)))"
proof -
  obtain L P R K where l: "ledger env (\<lambda>d. []) [] D s L P R K" and c: "core env fs D (st_files s) (st_workers s) R K"
    and x: "all_exact s L P"
    using inv unfolding pass1_inv_def by auto
  have ok: "\<forall>d. \<forall>e \<in> set (L d). entry_ok (pe_codec env) e" "\<forall>e \<in> set P. entry_ok (pe_codec env) e"
    using l unfolding ledger_def by blast+
  have R: "(d, k, b) \<in> R \<Longrightarrow> (k, series_for env k b) \<in> kv ` set (L d)" for d k b
    using l unfolding ledger_def by blast
  show ?thesis
  proof (rule that [of L P])
    show "\<forall>d \<in> D. leaves (pe_codec env) (L d) (disk d)"
    proof
      fix d assume "d \<in> D"
      then obtain t where t: "st_tables s d = Some t" "killed (pe_codec env) t (disk d)" using disk by blast
      then have "f_data (u_fd t) = encs (L d)" using x by (simp add: all_exact_def exactly_def)
      then show "leaves (pe_codec env) (L d) (disk d)" using t(2) ok(1) by (auto simp: leaves_def killed_def)
    qed
    have "f_data (u_fd (st_progress s)) = encs P" using x by (simp add: all_exact_def exactly_def)
    then show "leaves_marks (pe_codec env) P pdisk" using pdisk ok(2) by (auto simp: leaves_marks_def killed_marks_def)
    show "\<forall>d. \<forall>e \<in> set (L d). \<exists>f \<in> set fs. \<exists>k blocks b. take_file env f = Convert k blocks \<and> b \<in> set blocks \<and>
      day_of_block b = d \<and> kv e = (k, series_for env k b)"
    proof (intro allI ballI)
      fix d e assume e: "e \<in> set (L d)"
      then obtain b where b: "(d, fst e, b) \<in> R" "snd (snd e) = series_for env (fst e) b" using l unfolding ledger_def by blast
      from coreD(2) [OF c b(1)] b(2) show "\<exists>f \<in> set fs. \<exists>k blocks b. take_file env f = Convert k blocks \<and> b \<in> set blocks \<and>
        day_of_block b = d \<and> kv e = (k, series_for env k b)" unfolding kv_def by metis
    qed
    show "\<forall>k \<in> fst ` set P. \<exists>f \<in> set fs. \<exists>blocks. take_file env f = Convert k blocks \<and>
      (\<forall>b \<in> set blocks. day_of_block b \<in> D \<longrightarrow> (k, series_for env k b) \<in> kv ` set (L (day_of_block b)))"
    proof
      fix k assume "k \<in> fst ` set P"
      then have "k \<in> K" using l by (simp add: ledger_def)
      from coreD(4) [OF c this] R show "\<exists>f \<in> set fs. \<exists>blocks. take_file env f = Convert k blocks \<and>
        (\<forall>b \<in> set blocks. day_of_block b \<in> D \<longrightarrow> (k, series_for env k b) \<in> kv ` set (L (day_of_block b)))"
        unfolding complete_def by fastforce
    qed
  qed
qed

text \<open>
  What the tables of a finished run must be: \<open>T d\<close> are the records in the closed table of day \<open>d\<close>,
  they have the block of that day of every file, and nothing but such blocks.
\<close>

definition complete_tables ::
    "('v, 'b) pass1_env \<Rightarrow> string list \<Rightarrow> int set \<Rightarrow> 'v pass1_state \<Rightarrow> (int \<Rightarrow> 'v TimeSeries entry list) \<Rightarrow> bool" where
  "complete_tables env files days s T \<longleftrightarrow>
     (\<forall>d \<in> days. \<exists>u rest. fst (pass1_close s) d = Some u \<and> f_data (u_fd u) = encs (T d) @ trailer @ rest) \<and>
     (\<forall>d \<in> days. \<forall>e \<in> set (T d). entry_ok (pe_codec env) e) \<and>
     (\<forall>d \<in> days. reads_back (pe_codec env) (fst (pass1_close s) d) (T d)) \<and>
     (\<forall>f \<in> set files. \<forall>k blocks. take_file env f = Convert k blocks \<longrightarrow>
       (\<forall>b \<in> set blocks. day_of_block b \<in> days \<longrightarrow> (k, series_for env k b) \<in> kv ` set (T (day_of_block b)))) \<and>
     (\<forall>d. \<forall>e \<in> set (T d). \<exists>f \<in> set files. \<exists>k blocks b. take_file env f = Convert k blocks \<and> b \<in> set blocks \<and>
       day_of_block b = d \<and> kv e = (k, series_for env k b))"

lemma finished_complete:
  assumes "pass1_inv env files (\<lambda>d. []) oldp days fresh s" and "all_finished s"
  shows "\<exists>T. complete_tables env files days s T"
proof -
  obtain L where L: "\<forall>d \<in> days. reads_back (pe_codec env) (fst (pass1_close s) d) ([] @ L d)"
    "\<forall>f \<in> set files. \<forall>k blocks. take_file env f = Convert k blocks \<longrightarrow>
      (\<forall>b \<in> set blocks. day_of_block b \<in> days \<longrightarrow> (k, series_for env k b) \<in> kv ` set (L (day_of_block b)))"
    "\<forall>d. \<forall>e \<in> set (L d). \<exists>f \<in> set files. \<exists>k blocks b. take_file env f = Convert k blocks \<and> b \<in> set blocks \<and>
      day_of_block b = d \<and> kv e = (k, series_for env k b)"
    "\<forall>d t. d \<in> days \<longrightarrow> fst (pass1_close s) d = Some t \<longrightarrow> (\<exists>rest. f_data (u_fd t) = encs ([] @ L d) @ trailer @ rest)"
    "\<forall>d. \<forall>e \<in> set (L d). entry_ok (pe_codec env) e"
    by (rule finished_result [OF assms]) simp
  have "\<forall>d \<in> days. \<exists>u rest. fst (pass1_close s) d = Some u \<and> f_data (u_fd u) = encs (L d) @ trailer @ rest"
  proof
    fix d assume d: "d \<in> days"
    then obtain u where "fst (pass1_close s) d = Some u" using L(1) by (auto simp: reads_back_def)
    then show "\<exists>u rest. fst (pass1_close s) d = Some u \<and> f_data (u_fd u) = encs (L d) @ trailer @ rest" using L(4) d by simp
  qed
  then show ?thesis using L(1-3,5) unfolding complete_tables_def append_Nil by blast
qed

text \<open>
  The end of a run that resumed: what the earlier run had marked is in the old records \<open>L\<close>, all the
  rest is in the new ones.
\<close>

lemma resumed_complete:
  fixes env :: "('v, 'b) pass1_env"
  defines "env1 \<equiv> env\<lparr>pe_skippable := Map.empty\<rparr>"
  assumes inv3: "pass1_inv (env\<lparr>pe_skippable := skip\<rparr>) files L P days False s3" and fin: "all_finished s3"
    and olds: "\<forall>d \<in> days. \<forall>e \<in> set (L d). entry_ok (pe_codec (env\<lparr>pe_skippable := skip\<rparr>)) e"
    and src: "\<forall>d. \<forall>e \<in> set (L d). \<exists>f \<in> set files. \<exists>k blocks b. take_file env1 f = Convert k blocks \<and> b \<in> set blocks \<and>
      day_of_block b = d \<and> kv e = (k, series_for env k b)"
    and marked: "\<forall>k \<in> fst ` set P. \<exists>f \<in> set files. \<exists>blocks. take_file env1 f = Convert k blocks \<and>
      (\<forall>b \<in> set blocks. day_of_block b \<in> days \<longrightarrow> (k, series_for env k b) \<in> kv ` set (L (day_of_block b)))"
    and dom: "dom skip = fst ` set P" and inj: "inj_on (getMetricName (pe_c env)) (set files)"
  shows "\<exists>T. complete_tables env1 files days s3 T"
proof -
  let ?env2 = "env\<lparr>pe_skippable := skip\<rparr>"
  have tf: "take_file ?env2 f = (case take_file env1 f of Convert k blocks \<Rightarrow> if k \<in> dom skip then Skip else Convert k blocks | t \<Rightarrow> t)" for f
    unfolding env1_def by (rule take_file_skippable)
  have old: "(k, series_for env k b) \<in> kv ` set (L (day_of_block b))"
    if f: "f \<in> set files" "take_file env1 f = Convert k blocks" "b \<in> set blocks" "day_of_block b \<in> days" "k \<in> dom skip" for f k blocks b
  proof -
    obtain f' blocks' where f': "f' \<in> set files" "take_file env1 f' = Convert k blocks'"
      "\<forall>b \<in> set blocks'. day_of_block b \<in> days \<longrightarrow> (k, series_for env k b) \<in> kv ` set (L (day_of_block b))"
      using marked dom f(5) by blast
    have "f' = f" using take_file_name [OF f(2)] take_file_name [OF f'(2)] f(1) f'(1) inj by (auto simp: env1_def inj_on_def)
    then show ?thesis using f'(2,3) f(2-4) by auto
  qed
  have unskip: "take_file env1 f = Convert k blocks" if "take_file ?env2 f = Convert k blocks" for f k blocks
    using that by (auto simp: tf split: taken.splits if_splits)
  obtain N where N: "\<forall>d \<in> days. reads_back (pe_codec env) (fst (pass1_close s3) d) (L d @ N d)"
    and new: "\<forall>f \<in> set files. \<forall>k blocks. take_file ?env2 f = Convert k blocks \<longrightarrow>
      (\<forall>b \<in> set blocks. day_of_block b \<in> days \<longrightarrow> (k, series_for env k b) \<in> kv ` set (N (day_of_block b)))"
    and srcN: "\<forall>d. \<forall>e \<in> set (N d). \<exists>f \<in> set files. \<exists>k blocks b. take_file ?env2 f = Convert k blocks \<and> b \<in> set blocks \<and>
      day_of_block b = d \<and> kv e = (k, series_for env k b)"
    and data: "\<forall>d t. d \<in> days \<longrightarrow> fst (pass1_close s3) d = Some t \<longrightarrow> (\<exists>rest. f_data (u_fd t) = encs (L d @ N d) @ trailer @ rest)"
    and ok: "\<forall>d. \<forall>e \<in> set (N d). entry_ok (pe_codec env) e"
    using finished_result [OF inv3 fin olds] unfolding env_skippable_simps .
  have mem: "(k, series_for env k b) \<in> kv ` set (L (day_of_block b) @ N (day_of_block b))"
    if f: "f \<in> set files" "take_file env1 f = Convert k blocks" "b \<in> set blocks" "day_of_block b \<in> days" for f k blocks b
  proof (cases "k \<in> dom skip")
    case True
    then show ?thesis using old [OF f] by (simp only: set_append image_Un Un_iff simp_thms)
  next
    case False
    then have "take_file ?env2 f = Convert k blocks" using f(2) tf by simp
    then have "(k, series_for env k b) \<in> kv ` set (N (day_of_block b))" using new f by blast
    then show ?thesis by (simp only: set_append image_Un Un_iff simp_thms)
  qed
  have closed: "\<exists>u rest. fst (pass1_close s3) d = Some u \<and> f_data (u_fd u) = encs (L d @ N d) @ trailer @ rest" if "d \<in> days" for d
  proof -
    obtain u where "fst (pass1_close s3) d = Some u" using N \<open>d \<in> days\<close> by (auto simp: reads_back_def)
    then show ?thesis using data \<open>d \<in> days\<close> by simp
  qed
  have srcT: "\<exists>f \<in> set files. \<exists>k blocks b. take_file env1 f = Convert k blocks \<and> b \<in> set blocks \<and>
      day_of_block b = d \<and> kv e = (k, series_for env k b)" if "e \<in> set (L d @ N d)" for d e
    using that src srcN unskip by (simp only: set_append Un_iff) blast
  have oks: "\<forall>d \<in> days. \<forall>e \<in> set (L d @ N d). entry_ok (pe_codec env) e" using olds ok by auto
  have "complete_tables env1 files days s3 (\<lambda>d. L d @ N d)"
    unfolding complete_tables_def env1_def env_skippable_simps
    using closed oks N mem srcT unfolding env1_def by blast
  then show ?thesis by blast
qed

text \<open>A first run, killed in any state, and the run that resumes it.\<close>

lemma resumed_run:
  fixes env :: "('v, 'b) pass1_env"
  defines "days \<equiv> set (wc_dates (pe_c env))" and "env1 \<equiv> env\<lparr>pe_skippable := Map.empty\<rparr>"
  assumes "\<forall>d \<in> days. absent (disk d)" and "absent pdisk" and "0 < wc_threads (pe_c env)"
    and "CommandPass1 env None disk pdisk resume files counts = Some (Ok (env1, s0))" and "storable env1 files"
    and "inj_on (getMetricName (pe_c env)) (set files)"
    and "(pass1_step env1)\<^sup>*\<^sup>* s0 s"
    and "\<forall>d \<in> days. \<exists>t. st_tables s d = Some t \<and> killed (pe_codec env) t (disk' d)"
    and "killed_marks (st_progress s) pdisk'"
  shows "\<exists>env2 s2. CommandPass1 env None disk' pdisk' True files counts' = Some (Ok (env2, s2)) \<and>
    (\<forall>s3. (pass1_step env2)\<^sup>*\<^sup>* s2 s3 \<longrightarrow> \<not> st_down s3 \<and> (all_finished s3 \<longrightarrow> (\<exists>T. complete_tables env1 files days s3 T)))"
proof -
  obtain s1 where s1: "CommandPass1 env None disk pdisk resume files counts = Some (Ok (env1, s1))"
    "pass1_inv env1 files (\<lambda>d. []) [] days True s1"
    using start_fresh [OF assms(3,4,5) [unfolded days_def], of resume files counts] unfolding env1_def days_def by metis
  then have "s1 = s0" using assms(6) by simp
  then have inv: "pass1_inv env1 files (\<lambda>d. []) [] days True s" using pass1_steps_inv [OF assms(9,7)] s1(2) by simp
  have disk': "\<forall>d \<in> days. \<exists>t. st_tables s d = Some t \<and> killed (pe_codec env1) t (disk' d)" using assms(10) by (simp add: env1_def)
  obtain L P where left: "\<forall>d \<in> days. leaves (pe_codec env) (L d) (disk' d)" "leaves_marks (pe_codec env) P pdisk'"
    and src: "\<forall>d. \<forall>e \<in> set (L d). \<exists>f \<in> set files. \<exists>k blocks b. take_file env1 f = Convert k blocks \<and> b \<in> set blocks \<and>
      day_of_block b = d \<and> kv e = (k, series_for env k b)"
    and marked: "\<forall>k \<in> fst ` set P. \<exists>f \<in> set files. \<exists>blocks. take_file env1 f = Convert k blocks \<and>
      (\<forall>b \<in> set blocks. day_of_block b \<in> days \<longrightarrow> (k, series_for env k b) \<in> kv ` set (L (day_of_block b)))"
    using killed_leaves [OF inv disk' assms(11)] unfolding env1_def env_skippable_simps .
  obtain skip s2 where s2: "CommandPass1 env None disk' pdisk' True files counts' = Some (Ok (env\<lparr>pe_skippable := skip\<rparr>, s2))"
    "dom skip = fst ` set P" "pass1_inv (env\<lparr>pe_skippable := skip\<rparr>) files L P days False s2"
    using start_resume [OF left(1) [unfolded days_def] left(2) assms(5), of files counts'] unfolding days_def by metis
  let ?env2 = "env\<lparr>pe_skippable := skip\<rparr>"
  have ok2: "storable ?env2 files" using storable_skippable assms(7) unfolding env1_def .
  have olds: "\<forall>d \<in> days. \<forall>e \<in> set (L d). entry_ok (pe_codec ?env2) e" using left(1) by (simp add: leaves_def)
  show ?thesis
  proof (intro exI [of _ ?env2] exI [of _ s2] conjI allI impI)
    show "CommandPass1 env None disk' pdisk' True files counts' = Some (Ok (?env2, s2))" by (rule s2(1))
    fix s3 assume run: "(pass1_step ?env2)\<^sup>*\<^sup>* s2 s3"
    have inv3: "pass1_inv ?env2 files L P days False s3" by (rule pass1_steps_inv [OF run ok2 s2(3)])
    then show "\<not> st_down s3" by (simp add: pass1_inv_def)
    assume fin: "all_finished s3"
    show "\<exists>T. complete_tables env1 files days s3 T"
      unfolding env1_def by (rule resumed_complete [OF inv3 fin olds src [unfolded env1_def] marked [unfolded env1_def] s2(2) assms(8)])
  qed
qed

section \<open>An example run\<close>

text \<open>
  Two files, one of which cannot be converted; the other has a sample on each of two days. The codec
  writes one byte for a series of these.
\<close>

definition run_block :: "nat \<Rightarrow> nat sample list" where
  "run_block n = [\<lparr>s_value = n, s_ts = int n * 86400000 + 1000\<rparr>]"

definition run_series :: "nat \<Rightarrow> nat TimeSeries" where
  "run_series n = \<lparr>ts_Labels = LabelsFromUntaggedName pair_lib (to_bytes ''p.a'') [], ts_Samples = run_block n\<rparr>"

definition run_codec :: "nat TimeSeries codec" where
  "run_codec =
     \<lparr>cd_marshal = (\<lambda>ts. Inr (map (\<lambda>s. of_nat (s_value s) + 1) (ts_Samples ts))),
      cd_unmarshal = (\<lambda>b. case b of [w] \<Rightarrow> Inr (run_series (unat w - 1)) | _ \<Rightarrow> Inl 0),
      cd_new = no_data\<rparr>"

text \<open>The points of the file, one second after the midnights.\<close>

definition run_archives :: "string \<Rightarrow> nat archive option" where
  "run_archives f =
     (if f = ''/w/a.wsp''
      then Some \<lparr>a_retentions = [200000], a_dump = (\<lambda>i. Some [\<lparr>w_ts = 86401, w_value = 1\<rparr>, \<lparr>w_ts = 1, w_value = 0\<rparr>, \<lparr>w_ts = 0, w_value = 9\<rparr>])\<rparr>
      else None)"

definition run_env :: "(nat, (bytes \<times> bytes) list) pass1_env" where
  "run_env =
     \<lparr>pe_c = example_converter,
      pe_convert = WhisperToMimirSamples (sort_key w_ts) (\<lambda>t. 1000 * uint t) run_archives,
      pe_labels = pair_lib, pe_nil = [], pe_codec = run_codec, pe_skippable = Map.empty\<rparr>"

abbreviation run_files :: "string list" where
  "run_files \<equiv> [''/w/a.wsp'', ''/w/b.wsp'']"

abbreviation no_disk :: disk_file where
  "no_disk \<equiv> \<lparr>d_data = None, d_open = None, d_room = None\<rparr>"

lemma run_split: "SplitSamplesByDays (run_block 0 @ run_block 1) = [run_block 0, run_block 1]"
  by code_simp

lemma run_name: "getMetricName example_converter ''/w/a.wsp'' = Ok ''p.a''" "getMetricName example_converter ''/w/b.wsp'' = Ok ''p.b''"
  by code_simp+

lemma run_env_simps [simp]:
  "pe_c run_env = example_converter" "pe_codec run_env = run_codec"
  "run_env\<lparr>pe_skippable := Map.empty\<rparr> = run_env"
  by (simp_all add: run_env_def)

lemma run_convert:
  "pe_convert run_env ''/w/a.wsp'' = Inr (run_block 0 @ run_block 1)" "pe_convert run_env ''/w/b.wsp'' = Inl OpenFailed"
  unfolding run_env_def by code_simp+

lemma run_take:
  "take_file run_env ''/w/a.wsp'' = Convert (to_bytes ''p.a'') [run_block 0, run_block 1]"
  "take_file run_env ''/w/b.wsp'' = Skip"
  using run_split run_name run_convert by (simp_all add: take_file_def) (simp add: run_env_def)

lemma run_entry_ok:
  "n < 255 \<Longrightarrow> entry_ok run_codec (to_bytes ''p.a'', [of_nat n + 1], series_for run_env (to_bytes ''p.a'') (run_block n))"
  "entry_ok run_codec (to_bytes ''p.a'', [], no_data)"
proof -
  assume n: "n < 255"
  have "of_nat n + 1 = (of_nat (n + 1) :: 8 word)" by simp
  then have "unat (of_nat n + 1 :: 8 word) = n + 1" using n by (simp only: unat_of_nat take_bit_nat_def) simp
  then show "entry_ok run_codec (to_bytes ''p.a'', [of_nat n + 1], series_for run_env (to_bytes ''p.a'') (run_block n))"
    by (simp add: run_codec_def decodes_def series_for_def run_env_def run_series_def run_block_def to_bytes_def max_alloc_def)
qed (simp add: run_codec_def decodes_def no_data_def to_bytes_def max_alloc_def)

lemma run_storable: "storable run_env run_files"
proof -
  have "\<exists>buf. entry_ok run_codec (to_bytes ''p.a'', buf, series_for run_env (to_bytes ''p.a'') (run_block n))" if "n < 255" for n
    using run_entry_ok(1) [OF that] by blast
  then show ?thesis using run_entry_ok(2) by (auto simp: storable_def run_take)
qed

lemma run_day: "day_of_block (run_block 1) = 1"
  by (simp add: day_of_block_def run_block_def day_of_ms_def ms_per_day_def)

lemma run_leaves: "leaves run_codec [] no_disk" "leaves_marks run_codec [] no_disk"
  by (simp_all add: leaves_def leaves_marks_def)

lemma run_start:
  obtains s0 where
    "CommandPass1 run_env None (\<lambda>d. no_disk) no_disk resume run_files NewProgress = Some (Ok (run_env, s0))"
    and "pass1_inv run_env run_files (\<lambda>d. []) [] {0, 1} True s0" and "st_workers s0 \<noteq> []"
  using start_fresh [of run_env "\<lambda>d. no_disk" no_disk resume run_files NewProgress] by (auto simp: absent_def)

text \<open>The first step of that run, and what is left if it is killed then, with a table cut in a record.\<close>

lemma run_step:
  assumes "CommandPass1 run_env None (\<lambda>d. no_disk) no_disk resume run_files NewProgress = Some (Ok (run_env, s0))"
  obtains s where "pass1_step run_env s0 s" and "st_tables s = st_tables s0" and "st_progress s = st_progress s0"
proof -
  have "st_workers s0 = [Waiting, Waiting]" "st_files s0 = run_files" "\<not> st_down s0"
    using assms by (auto simp: CommandPass1_def numeral_2_eq_2 split: res.splits option.splits)
  then show ?thesis
    using that run_take pass1_step.Take_Convert [OF _ _ _ _ _ refl, of s0 0 "''/w/a.wsp''" "[''/w/b.wsp'']" run_env] by fastforce
qed

abbreviation run_left :: "nat pass1_state \<Rightarrow> int \<Rightarrow> disk_file" where
  "run_left s d \<equiv> \<lparr>d_data = Some (f_data (u_fd (the (st_tables s d))) @ [3]), d_open = None, d_room = None\<rparr>"

abbreviation run_left_marks :: "nat pass1_state \<Rightarrow> disk_file" where
  "run_left_marks s \<equiv> \<lparr>d_data = Some (f_data (u_fd (st_progress s))), d_open = None, d_room = None\<rparr>"

lemma run_killed:
  obtains s0 s where
    "CommandPass1 run_env None (\<lambda>d. no_disk) no_disk False run_files NewProgress = Some (Ok (run_env, s0))"
    and "pass1_step run_env s0 s"
    and "\<forall>d \<in> {0, 1}. \<exists>t. st_tables s d = Some t \<and> killed run_codec t (run_left s d)"
    and "killed_marks (st_progress s) (run_left_marks s)"
proof -
  obtain s0 where s0: "CommandPass1 run_env None (\<lambda>d. no_disk) no_disk False run_files NewProgress = Some (Ok (run_env, s0))"
    "pass1_inv run_env run_files (\<lambda>d. []) [] {0, 1} True s0" by (rule run_start)
  obtain s where s: "pass1_step run_env s0 s" "st_tables s = st_tables s0" "st_progress s = st_progress s0" by (rule run_step [OF s0(1)])
  have tables: "dom (st_tables s) = {0, 1}" using s0(2) s(2) by (auto simp: pass1_inv_def ledger_def)
  have "entry_ok run_codec (to_bytes ''p.a'', [of_nat 0 + 1], series_for run_env (to_bytes ''p.a'') (run_block 0))"
    by (rule run_entry_ok(1)) simp
  moreover have "strict_prefix [3] (enc_record (to_bytes ''p.a'') [of_nat 0 + 1])" by code_simp
  ultimately have torn: "torn_record run_codec [3]"
    unfolding torn_record_def by (intro exI conjI) (assumption, assumption, simp add: cut_noticed_def)
  have kill: "killed run_codec t \<lparr>d_data = Some (f_data (u_fd t) @ [3]), d_open = None, d_room = None\<rparr>" for t
    unfolding killed_def using torn by (intro conjI exI [of _ "[3]"]) simp_all
  have "\<forall>d \<in> {0, 1}. \<exists>t. st_tables s d = Some t \<and> killed run_codec t (run_left s d)"
  proof
    fix d :: int assume "d \<in> {0, 1}"
    then have "d \<in> dom (st_tables s)" using tables by auto
    then show "\<exists>t. st_tables s d = Some t \<and> killed run_codec t (run_left s d)" using kill by auto
  qed
  then show ?thesis using that [OF s0(1) s(1)] by (simp add: killed_marks_def)
qed

section \<open>Properties\<close>

text \<open>
  C22. The threads of the first pass neither deadlock nor run for ever, with any number of threads
  above zero and in every interleaving: the number of steps is bounded by the work of the files, in
  every state that can be reached either a thread can go on or all have ended with every file
  received, and the process is never down.
\<close>

theorem pass1_always_finishes:
  fixes env :: "('v, 'b) pass1_env"
  assumes "\<forall>d \<in> set (wc_dates (pe_c env)). leaves (pe_codec env) (old d) (disk d)"
    and "leaves_marks (pe_codec env) oldp pdisk" and "0 < wc_threads (pe_c env)"
    and "CommandPass1 env None disk pdisk True files counts = Some (Ok (env', s0))" and "storable env' files"
    and "((pass1_step env') ^^ n) s0 s"
  shows "n < work_left env' s0 \<and> \<not> st_down s \<and> (all_finished s \<or> (\<exists>s'. pass1_step env' s s'))"
proof -
  obtain skip s1 where s1: "CommandPass1 env None disk pdisk True files counts = Some (Ok (env\<lparr>pe_skippable := skip\<rparr>, s1))"
    "pass1_inv (env\<lparr>pe_skippable := skip\<rparr>) files old oldp (set (wc_dates (pe_c env))) False s1" "st_workers s1 \<noteq> []"
    using start_resume [OF assms(1-3)] .
  then have eq: "s1 = s0" "env\<lparr>pe_skippable := skip\<rparr> = env'" using assms(4) by simp_all
  have run: "(pass1_step env')\<^sup>*\<^sup>* s0 s" using assms(6) by (metis relpowp_imp_rtranclp)
  have inv: "pass1_inv env' files old oldp (set (wc_dates (pe_c env))) False s"
    using pass1_steps_inv [OF run assms(5)] s1(2) eq by simp
  have "st_workers s \<noteq> []" using workers_kept_run [OF run] s1(3) eq(1) by auto
  moreover obtain R K where "core env' files (set (wc_dates (pe_c env))) (st_files s) (st_workers s) R K" and down: "\<not> st_down s"
    using inv unfolding pass1_inv_def by blast
  ultimately have "all_finished s \<or> (\<exists>s'. pass1_step env' s s')" using pass1_progress by blast
  moreover have "0 < work_left env' s" using down by (simp add: work_left_def)
  ultimately show ?thesis using pass1_steps_bounded [OF assms(6)] down by simp
qed

theorem pass1_always_finishes_witness:
  "\<exists>env' s0 s. CommandPass1 run_env None (\<lambda>d. no_disk) no_disk True run_files NewProgress = Some (Ok (env', s0)) \<and>
    pass1_step env' s0 s \<and> 1 < work_left env' s0 \<and> \<not> st_down s \<and> (all_finished s \<or> (\<exists>s'. pass1_step env' s s'))"
proof -
  have leaves: "\<forall>d \<in> set (wc_dates (pe_c run_env)). leaves (pe_codec run_env) [] no_disk" using run_leaves(1) by simp
  obtain s0 where s0: "CommandPass1 run_env None (\<lambda>d. no_disk) no_disk True run_files NewProgress = Some (Ok (run_env, s0))"
    by (rule run_start)
  obtain s where s: "pass1_step run_env s0 s" by (rule run_step [OF s0])
  then have "((pass1_step run_env) ^^ 1) s0 s" using relpowp_1 by metis
  from pass1_always_finishes [OF leaves _ _ s0 run_storable this] run_leaves(2) s0 s show ?thesis by force
qed

text \<open>
  What a finished pass has written, for every interleaving of its threads and every order of the
  blocks: the table of each day, closed and read back, has the old records and then new ones; the
  block of every file that was converted is among them under its metric name with the labels of the
  metric; and every new record is such a block.
\<close>

theorem pass1_writes_every_block:
  fixes env :: "('v, 'b) pass1_env"
  assumes "\<forall>d \<in> set (wc_dates (pe_c env)). leaves (pe_codec env) (old d) (disk d)"
    and "leaves_marks (pe_codec env) oldp pdisk" and "0 < wc_threads (pe_c env)"
    and "CommandPass1 env None disk pdisk True files counts = Some (Ok (env', s0))" and "storable env' files"
    and "(pass1_step env')\<^sup>*\<^sup>* s0 s" and "all_finished s"
  shows "\<exists>L. (\<forall>d \<in> set (wc_dates (pe_c env)). reads_back (pe_codec env) (fst (pass1_close s) d) (old d @ L d)) \<and>
    (\<forall>f \<in> set files. \<forall>k blocks. take_file env' f = Convert k blocks \<longrightarrow>
      (\<forall>b \<in> set blocks. day_of_block b \<in> set (wc_dates (pe_c env)) \<longrightarrow> (k, series_for env k b) \<in> kv ` set (L (day_of_block b)))) \<and>
    (\<forall>d. \<forall>e \<in> set (L d). \<exists>f \<in> set files. \<exists>k blocks b. take_file env' f = Convert k blocks \<and> b \<in> set blocks \<and>
      day_of_block b = d \<and> kv e = (k, series_for env k b))"
proof -
  obtain skip s1 where s1: "CommandPass1 env None disk pdisk True files counts = Some (Ok (env\<lparr>pe_skippable := skip\<rparr>, s1))"
    "pass1_inv (env\<lparr>pe_skippable := skip\<rparr>) files old oldp (set (wc_dates (pe_c env))) False s1"
    using start_resume [OF assms(1-3)] .
  then have eq: "s1 = s0" and env': "env' = env\<lparr>pe_skippable := skip\<rparr>" using assms(4) by simp_all
  have inv: "pass1_inv env' files old oldp (set (wc_dates (pe_c env))) False s"
    using pass1_steps_inv [OF assms(6,5)] s1(2) eq env' by simp
  have ok: "\<forall>d \<in> set (wc_dates (pe_c env)). \<forall>e \<in> set (old d). entry_ok (pe_codec env') e"
    using assms(1) env' by (auto simp: leaves_def)
  obtain L where "\<forall>d \<in> set (wc_dates (pe_c env)). reads_back (pe_codec env') (fst (pass1_close s) d) (old d @ L d)"
    "\<forall>f \<in> set files. \<forall>k blocks. take_file env' f = Convert k blocks \<longrightarrow>
      (\<forall>b \<in> set blocks. day_of_block b \<in> set (wc_dates (pe_c env)) \<longrightarrow> (k, series_for env' k b) \<in> kv ` set (L (day_of_block b)))"
    "\<forall>d. \<forall>e \<in> set (L d). \<exists>f \<in> set files. \<exists>k blocks b. take_file env' f = Convert k blocks \<and> b \<in> set blocks \<and>
      day_of_block b = d \<and> kv e = (k, series_for env' k b)"
    by (rule finished_result [OF inv assms(7) ok])
  then show ?thesis unfolding env' env_skippable_simps by blast
qed

theorem pass1_writes_every_block_witness:
  "\<exists>env' s0 s T. CommandPass1 run_env None (\<lambda>d. no_disk) no_disk True run_files NewProgress = Some (Ok (env', s0)) \<and>
    (pass1_step env')\<^sup>*\<^sup>* s0 s \<and> all_finished s \<and> reads_back run_codec (fst (pass1_close s) 1) T \<and>
    (to_bytes ''p.a'', series_for run_env (to_bytes ''p.a'') (run_block 1)) \<in> kv ` set T"
proof -
  have leaves: "\<forall>d \<in> set (wc_dates (pe_c run_env)). leaves (pe_codec run_env) [] no_disk" using run_leaves(1) by simp
  obtain s0 where s0: "CommandPass1 run_env None (\<lambda>d. no_disk) no_disk True run_files NewProgress = Some (Ok (run_env, s0))"
    "pass1_inv run_env run_files (\<lambda>d. []) [] {0, 1} True s0" "st_workers s0 \<noteq> []" by (rule run_start)
  obtain s where s: "(pass1_step run_env)\<^sup>*\<^sup>* s0 s" "all_finished s" using pass1_reaches_end [OF run_storable s0(2,3)] by blast
  have marks: "leaves_marks (pe_codec run_env) [] no_disk" and threads: "0 < wc_threads (pe_c run_env)" using run_leaves(2) by simp_all
  obtain L where L: "\<forall>d \<in> set (wc_dates (pe_c run_env)). reads_back (pe_codec run_env) (fst (pass1_close s) d) ([] @ L d)"
    and "\<forall>f \<in> set run_files. \<forall>k blocks. take_file run_env f = Convert k blocks \<longrightarrow>
      (\<forall>b \<in> set blocks. day_of_block b \<in> set (wc_dates (pe_c run_env)) \<longrightarrow> (k, series_for run_env k b) \<in> kv ` set (L (day_of_block b)))"
    using pass1_writes_every_block [OF leaves marks threads s0(1) run_storable s] by blast
  then have "(to_bytes ''p.a'', series_for run_env (to_bytes ''p.a'') (run_block 1)) \<in> kv ` set (L (day_of_block (run_block 1)))"
    using run_take(1) run_day by simp
  moreover have "reads_back run_codec (fst (pass1_close s) 1) (L 1)" using L by simp
  ultimately show ?thesis using s0(1) s unfolding run_day by blast
qed

text \<open>
  C4. A first run that is killed at any moment, with a record cut short in any of its tables so that the cut
  is noticed (before the value, or where the codec refuses what is there of it), and then resumed loses and
  repeats no metric that it had finished and invents nothing: the second run opens what the first
  left, and whenever it has ended, the table of every day reads back to records among which there is
  the block of that day of every file, and only such blocks. The files must have different metric
  names.
\<close>

theorem pass1_crash_resume:
  fixes env :: "('v, 'b) pass1_env"
  defines "days \<equiv> set (wc_dates (pe_c env))" and "env1 \<equiv> env\<lparr>pe_skippable := Map.empty\<rparr>"
  assumes "\<forall>d \<in> days. absent (disk d)" and "absent pdisk" and "0 < wc_threads (pe_c env)"
    and "CommandPass1 env None disk pdisk resume files counts = Some (Ok (env1, s0))" and "storable env1 files"
    and "inj_on (getMetricName (pe_c env)) (set files)"
    and "(pass1_step env1)\<^sup>*\<^sup>* s0 s"
    and "\<forall>d \<in> days. \<exists>t. st_tables s d = Some t \<and> killed (pe_codec env) t (disk' d)"
    and "killed_marks (st_progress s) pdisk'"
  shows "\<exists>env2 s2. CommandPass1 env None disk' pdisk' True files counts' = Some (Ok (env2, s2)) \<and>
    (\<forall>s3. (pass1_step env2)\<^sup>*\<^sup>* s2 s3 \<longrightarrow> \<not> st_down s3 \<and> (all_finished s3 \<longrightarrow>
      (\<exists>T. (\<forall>d \<in> days. reads_back (pe_codec env) (fst (pass1_close s3) d) (T d)) \<and>
        (\<forall>f \<in> set files. \<forall>k blocks. take_file env1 f = Convert k blocks \<longrightarrow>
          (\<forall>b \<in> set blocks. day_of_block b \<in> days \<longrightarrow> (k, series_for env k b) \<in> kv ` set (T (day_of_block b)))) \<and>
        (\<forall>d. \<forall>e \<in> set (T d). \<exists>f \<in> set files. \<exists>k blocks b. take_file env1 f = Convert k blocks \<and> b \<in> set blocks \<and>
          day_of_block b = d \<and> kv e = (k, series_for env k b)))))"
proof -
  obtain env2 s2 where r: "CommandPass1 env None disk' pdisk' True files counts' = Some (Ok (env2, s2))"
    "\<forall>s3. (pass1_step env2)\<^sup>*\<^sup>* s2 s3 \<longrightarrow> \<not> st_down s3 \<and> (all_finished s3 \<longrightarrow> (\<exists>T. complete_tables env1 files days s3 T))"
    using resumed_run [OF assms(3-11) [unfolded days_def env1_def]] unfolding days_def env1_def by blast
  have eq: "pe_codec env1 = pe_codec env" "series_for env1 = series_for env" by (simp_all add: env1_def)
  show ?thesis
    using r unfolding complete_tables_def eq by (intro exI [of _ env2] exI [of _ s2]) blast
qed

theorem pass1_crash_resume_witness:
  "\<exists>s0 s env2 s2. CommandPass1 run_env None (\<lambda>d. no_disk) no_disk False run_files NewProgress = Some (Ok (run_env, s0)) \<and>
    pass1_step run_env s0 s \<and>
    CommandPass1 run_env None (run_left s) (run_left_marks s) True run_files NewProgress = Some (Ok (env2, s2)) \<and>
    (\<forall>s3. (pass1_step env2)\<^sup>*\<^sup>* s2 s3 \<and> all_finished s3 \<longrightarrow>
      (\<exists>T. reads_back run_codec (fst (pass1_close s3) 1) T \<and>
        (to_bytes ''p.a'', series_for run_env (to_bytes ''p.a'') (run_block 1)) \<in> kv ` set T))"
proof -
  obtain s0 s where s0: "CommandPass1 run_env None (\<lambda>d. no_disk) no_disk False run_files NewProgress = Some (Ok (run_env, s0))"
    and step: "pass1_step run_env s0 s"
    and left: "\<forall>d \<in> {0, 1}. \<exists>t. st_tables s d = Some t \<and> killed run_codec t (run_left s d)"
    and m: "killed_marks (st_progress s) (run_left_marks s)" by (rule run_killed)
  have k: "\<forall>d \<in> set (wc_dates (pe_c run_env)). \<exists>t. st_tables s d = Some t \<and> killed (pe_codec run_env) t (run_left s d)"
    using left by simp
  have run: "(pass1_step (run_env\<lparr>pe_skippable := Map.empty\<rparr>))\<^sup>*\<^sup>* s0 s" using step by auto
  have start: "CommandPass1 run_env None (\<lambda>d. no_disk) no_disk False run_files NewProgress = Some (Ok (run_env\<lparr>pe_skippable := Map.empty\<rparr>, s0))"
    using s0 by simp
  have st: "storable (run_env\<lparr>pe_skippable := Map.empty\<rparr>) run_files" using run_storable by simp
  have none: "\<forall>d \<in> set (wc_dates (pe_c run_env)). absent no_disk" "absent no_disk" and threads: "0 < wc_threads (pe_c run_env)"
    by (simp_all add: absent_def)
  have i: "inj_on (getMetricName (pe_c run_env)) (set run_files)" using run_name by (auto simp: inj_on_def)
  obtain env2 s2 where e2: "CommandPass1 run_env None (run_left s) (run_left_marks s) True run_files NewProgress = Some (Ok (env2, s2))"
    and r: "\<forall>s3. (pass1_step env2)\<^sup>*\<^sup>* s2 s3 \<longrightarrow> \<not> st_down s3 \<and> (all_finished s3 \<longrightarrow>
      (\<exists>T. (\<forall>d \<in> set (wc_dates (pe_c run_env)). reads_back (pe_codec run_env) (fst (pass1_close s3) d) (T d)) \<and>
        (\<forall>f \<in> set run_files. \<forall>k blocks. take_file (run_env\<lparr>pe_skippable := Map.empty\<rparr>) f = Convert k blocks \<longrightarrow>
          (\<forall>b \<in> set blocks. day_of_block b \<in> set (wc_dates (pe_c run_env)) \<longrightarrow> (k, series_for run_env k b) \<in> kv ` set (T (day_of_block b)))) \<and>
        (\<forall>d. \<forall>e \<in> set (T d). \<exists>f \<in> set run_files. \<exists>k blocks b. take_file (run_env\<lparr>pe_skippable := Map.empty\<rparr>) f = Convert k blocks \<and>
          b \<in> set blocks \<and> day_of_block b = d \<and> kv e = (k, series_for run_env k b))))"
    using pass1_crash_resume [OF none(1) none(2) threads start st i run k m, of NewProgress] by (elim exE conjE)
  have "\<exists>T. reads_back run_codec (fst (pass1_close s3) 1) T \<and>
        (to_bytes ''p.a'', series_for run_env (to_bytes ''p.a'') (run_block 1)) \<in> kv ` set T"
    if fin: "(pass1_step env2)\<^sup>*\<^sup>* s2 s3 \<and> all_finished s3" for s3
  proof -
    obtain T where T: "\<forall>d \<in> set (wc_dates (pe_c run_env)). reads_back (pe_codec run_env) (fst (pass1_close s3) d) (T d)"
      "\<forall>f \<in> set run_files. \<forall>k blocks. take_file (run_env\<lparr>pe_skippable := Map.empty\<rparr>) f = Convert k blocks \<longrightarrow>
        (\<forall>b \<in> set blocks. day_of_block b \<in> set (wc_dates (pe_c run_env)) \<longrightarrow> (k, series_for run_env k b) \<in> kv ` set (T (day_of_block b)))"
      using r fin by blast
    then have "(to_bytes ''p.a'', series_for run_env (to_bytes ''p.a'') (run_block 1)) \<in> kv ` set (T (day_of_block (run_block 1)))"
      using run_take(1) run_day by simp
    moreover have "reads_back run_codec (fst (pass1_close s3) 1) (T 1)" using T(1) by simp
    ultimately show ?thesis unfolding run_day by blast
  qed
  then show ?thesis using s0 step e2 by blast
qed

text \<open>
  C23. Without the resume option the tables of the days are overwritten but the table of finished
  metrics is not: after a run that had finished a metric, the next run deletes its records and does
  not write them again. The closed tables have no record of it.
\<close>

theorem pass1_without_resume_drops_finished:
  fixes env :: "('v, 'b) pass1_env"
  defines "days \<equiv> set (wc_dates (pe_c env))"
  assumes "\<forall>d \<in> days. d_open (disk d) = None \<and> d_room (disk d) = None"
    and "leaves_marks (pe_codec env) marks pdisk" and "0 < wc_threads (pe_c env)"
    and "CommandPass1 env None disk pdisk False files counts = Some (Ok (env', s0))" and "storable env' files"
    and "(pass1_step env')\<^sup>*\<^sup>* s0 s" and "all_finished s"
  shows "\<exists>T. (\<forall>d \<in> days. reads_back (pe_codec env) (fst (pass1_close s) d) (T d)) \<and>
    (\<forall>k \<in> fst ` set marks. \<forall>d \<in> days. k \<notin> fst ` set (T d))"
proof -
  obtain skip s1 where s1: "CommandPass1 env None disk pdisk False files counts = Some (Ok (env\<lparr>pe_skippable := skip\<rparr>, s1))"
    "dom skip = fst ` set marks" "pass1_inv (env\<lparr>pe_skippable := skip\<rparr>) files (\<lambda>d. []) marks days False s1"
    using start_overwrite [OF assms(2) [unfolded days_def] assms(3,4), of files counts] unfolding days_def by metis
  then have eq: "s1 = s0" and env': "env' = env\<lparr>pe_skippable := skip\<rparr>" using assms(5) by simp_all
  have inv: "pass1_inv env' files (\<lambda>d. []) marks days False s"
    using pass1_steps_inv [OF assms(7,6)] s1(3) eq env' by simp
  obtain T where T: "\<forall>d \<in> days. reads_back (pe_codec env') (fst (pass1_close s) d) ([] @ T d)"
    and src: "\<forall>d. \<forall>e \<in> set (T d). \<exists>f \<in> set files. \<exists>k blocks b. take_file env' f = Convert k blocks \<and> b \<in> set blocks \<and>
      day_of_block b = d \<and> kv e = (k, series_for env' k b)"
    by (rule finished_result [OF inv assms(8)]) simp
  have "k \<notin> fst ` set marks" if e: "e \<in> set (T d)" "k = fst e" for e k d
  proof -
    obtain f k' blocks b where f: "take_file env' f = Convert k' blocks" "kv e = (k', series_for env' k' b)" using src e(1) by blast
    then have "k = k'" using e(2) by (simp add: kv_def)
    then show ?thesis using take_file_name [OF f(1)] s1(2) by (auto simp: env')
  qed
  then have "\<forall>k \<in> fst ` set marks. \<forall>d \<in> days. k \<notin> fst ` set (T d)" by blast
  then show ?thesis using T unfolding env' env_skippable_simps append_Nil by blast
qed

theorem pass1_without_resume_drops_finished_witness:
  "\<exists>env' s0 s T. CommandPass1 run_env None (\<lambda>d. no_disk)
      \<lparr>d_data = Some (encs [(to_bytes ''p.a'', [], no_data :: nat TimeSeries)] @ trailer), d_open = None, d_room = None\<rparr>
      False run_files NewProgress = Some (Ok (env', s0)) \<and>
    (pass1_step env')\<^sup>*\<^sup>* s0 s \<and> all_finished s \<and> reads_back run_codec (fst (pass1_close s) 1) T \<and> to_bytes ''p.a'' \<notin> fst ` set T"
proof -
  let ?marks = "[(to_bytes ''p.a'', [], no_data :: nat TimeSeries)]"
  let ?p = "\<lparr>d_data = Some (encs ?marks @ trailer), d_open = None, d_room = None\<rparr>"
  have marks: "leaves_marks (pe_codec run_env) ?marks ?p" using run_entry_ok(2) by (simp add: leaves_marks_def)
  have free: "\<forall>d \<in> set (wc_dates (pe_c run_env)). d_open no_disk = None \<and> d_room no_disk = None" and threads: "0 < wc_threads (pe_c run_env)"
    by simp_all
  obtain skip s0 where s0: "CommandPass1 run_env None (\<lambda>d. no_disk) ?p False run_files NewProgress = Some (Ok (run_env\<lparr>pe_skippable := skip\<rparr>, s0))"
    "pass1_inv (run_env\<lparr>pe_skippable := skip\<rparr>) run_files (\<lambda>d. []) ?marks (set (wc_dates (pe_c run_env))) False s0" "st_workers s0 \<noteq> []"
    by (rule start_overwrite [OF free marks threads, of run_files NewProgress])
  have ok: "storable (run_env\<lparr>pe_skippable := skip\<rparr>) run_files" by (rule storable_skippable) (use run_storable in simp)
  obtain s where s: "(pass1_step (run_env\<lparr>pe_skippable := skip\<rparr>))\<^sup>*\<^sup>* s0 s" "all_finished s" using pass1_reaches_end [OF ok s0(2,3)] by blast
  show ?thesis
    using pass1_without_resume_drops_finished [OF free marks threads s0(1) ok s] s0(1) s by fastforce
qed

end
