(* ===== verification/Pass2_Correct.thy ===== *)
theory Pass2_Correct
  imports Pass2 Pass1_Correct
begin

text \<open>
  The second pass is correct, and the two passes together: from the table of a day to its block, and
  from whisper files to blocks.
\<close>

section \<open>Permutations\<close>

lemma mset_map_perm:
  assumes "mset ys = mset (map f xs)"
  shows "\<exists>xs'. mset xs' = mset xs \<and> ys = map f xs'"
  using assms
proof (induction ys arbitrary: xs)
  case (Cons y ys)
  have "y \<in> set (map f xs)" using mset_eq_setD [OF Cons.prems] by auto
  then obtain x where x: "x \<in> set xs" "f x = y" by auto
  then obtain zs where zs: "mset xs = mset (x # zs)" by (metis ex_mset mset.simps(2) multi_member_split set_mset_mset)
  then have "mset ys = mset (map f zs)" using Cons.prems x(2) by simp
  from Cons.IH [OF this] obtain xs' where "mset xs' = mset zs" "ys = map f xs'" by blast
  then show ?case using x(2) zs by (intro exI [of _ "x # xs'"]) simp
qed simp

lemma kept_series_mset:
  assumes "mset ss = mset ss'"
  shows "mset (kept_series lib opts ss) = mset (kept_series lib opts ss')"
  using assms by (simp add: kept_series_def)

lemma block_of_mset:
  assumes "mset D = mset D'"
  shows "block_of lib blockID D r \<longleftrightarrow> block_of lib blockID D' r"
proof -
  have "length D = length D'" "set D = set D'" using assms mset_eq_length mset_eq_setD by blast+
  moreover have "chunk_total D = chunk_total D'"
  proof -
    have "sum_mset (image_mset (\<lambda>d. length (snd d)) (mset D)) = sum_mset (image_mset (\<lambda>d. length (snd d)) (mset D'))" by (simp only: assms)
    then show ?thesis unfolding chunk_total_def by (simp only: mset_map [symmetric] sum_mset_sum_list)
  qed
  moreover have "chunk_samples (t_chunk lib) D = chunk_samples (t_chunk lib) D'"
    using concat_data(3) [of "map snd D" D'] assms by (simp add: chunk_samples_def)
  ultimately show ?thesis using assms by (simp add: block_of_def block_symbols_def)
qed

section \<open>The block of a table\<close>

lemma createOneBlock_ok:
  fixes env :: "('k, 'v, 'b, 'cw, 'k index_log) pass2_env"
  assumes ok: "pass2_ok room env" and es: "\<forall>e \<in> set es. entry_ok (p2_codec env) e" "es \<noteq> []"
    and disk: "d_open disk = None" "d_data disk = Some (encs es @ trailer @ rest)"
    and ss: "mset ss = mset (map (\<lambda>k. block_series env (the (map_of (rev (map kv es)) k))) (remdups (map fst es)))"
    and add: "\<forall>s \<in> set ss. addable (p2_lib env) DefaultOptions s"
    and total: "chunk_total (kept_series (p2_lib env) DefaultOptions ss) \<le> room (p2_cw env)"
    and uniq: "distinct (map fst (kept_series (p2_lib env) DefaultOptions ss))"
      "[] \<notin> fst ` set (kept_series (p2_lib env) DefaultOptions ss)"
  shows "\<exists>r. createOneBlock env day disk dir = Some (Ok (Some r)) \<and>
    block_of (p2_lib env) (p2_ulid env day) (kept_series (p2_lib env) DefaultOptions ss) r"
proof -
  let ?lib = "p2_lib env" and ?v = "\<lambda>k. the (map_of (rev (map kv es)) k)" and ?m = "positions 0 es Map.empty"
  obtain t where t: "newUSTableForRead disk = Ok t" "f_data (u_fd t) = encs es @ trailer @ rest" "u_mode t = READ"
    using disk by (simp add: newUSTableForRead_def)
  obtain t1 where ix: "ustable_Index (p2_codec env) t = Some (Ok ?m, t1)" and t1: "f_data (u_fd t1) = encs es @ trailer @ rest" "u_mode t1 = READ"
    using Index_records [OF es(1) t(2,3)] t(2,3) by simp
  have dom: "dom ?m = fst ` set es" by (simp add: dom_positions)
  then have names: "distinct (p2_names env ?m)" "set (p2_names env ?m) = fst ` set es"
    using pass2_okD(1) [OF ok, of ?m] by simp_all
  then have names_mset: "mset (p2_names env ?m) = mset (remdups (map fst es))"
    using set_eq_iff_mset_eq_distinct [of "p2_names env ?m" "remdups (map fst es)"] by simp
  let ?mk = "\<lambda>name. \<lparr>mie_Labels = LabelsFromUntaggedName (p2_labels env) name (p2_nil env), mie_Pos = the (?m name)\<rparr>"
  have "mset (buildMetricsIndex env (p2_names env ?m) ?m) = mset (map ?mk (p2_names env ?m))"
    by (simp only: buildMetricsIndex_def pass2_okD(2) [OF ok])
  from mset_map_perm [OF this] obtain ns where ns: "mset ns = mset (p2_names env ?m)"
    "buildMetricsIndex env (p2_names env ?m) ?m = map ?mk ns" by blast
  let ?rs = "map (\<lambda>k. (?mk k, ?v k)) ns" and ?ss = "map (\<lambda>k. block_series env (?v k)) ns"
  have same: "mset ?ss = mset ss" using ss ns(1) names_mset by simp
  have keys: "k \<in> fst ` set es" if "k \<in> set ns" for k using that mset_eq_setD [OF ns(1)] names(2) by simp
  have reads: "\<exists>k'. fst (ustable_ReadAt (p2_codec env) t' (mie_Pos (?mk k))) = Ok (k', Some (?v k))"
    if "k \<in> set ns" "f_data (u_fd t') = f_data (u_fd t1)" "u_mode t' = u_mode t1" for k t'
    using positions_ReadAt [OF es(1) _ _ keys [OF that(1)], of t' "trailer @ rest" Map.empty] that(2,3) t1 by auto
  obtain b :: "('k, 'cw) builder" where b: "NewBuilder no_faults (p2_ulid env day) dir DefaultOptions (p2_cw env) = Ok b"
    by (rule exE [OF example_builder])
  note new = NewBuilder_inv [OF b]
  have kept: "mset (kept_series ?lib DefaultOptions ?ss) = mset (kept_series ?lib DefaultOptions ss)"
    by (rule kept_series_mset [OF same])
  have ctotal: "chunk_total (kept_series ?lib DefaultOptions ?ss) = chunk_total (kept_series ?lib DefaultOptions ss)"
    unfolding chunk_total_def using kept by (metis (no_types, lifting) mset_map sum_mset_sum_list)
  have "\<forall>s \<in> set ?ss. addable ?lib (bd_opts b) s" using add mset_eq_setD [OF same] new(2) by simp
  moreover have "chunk_total (kept_series ?lib (bd_opts b) ?ss) \<le> room (bd_chunks b)" using total ctotal new(2,4) by simp
  ultimately obtain b' where b': "add_series_list ?lib no_faults ?ss b = (None, b')"
    "blk_inv ?lib b' (kept_series ?lib DefaultOptions ?ss)" "bd_blockID b' = p2_ulid env day"
    using add_series_list_inv [OF pass2_okD(3) [OF ok] new(1), of ?ss] new(2,3) by auto
  have rss: "map (\<lambda>(info, ms). block_series env ms) ?rs = ?ss" by simp
  have am: "add_metrics env (map fst ?rs) t1 b = Ok b'"
    by (rule add_metrics_reads) (use reads in fastforce, rule pass2_okD(4) [OF ok], simp only: rss b'(1))
  have fs: "map fst ?rs = buildMetricsIndex env (p2_names env ?m) ?m" using ns(2) by (simp add: comp_def)
  have labels: "mset (map fst (kept_series ?lib DefaultOptions ?ss)) = mset (map fst (kept_series ?lib DefaultOptions ss))"
    using kept by simp
  have "distinct (map fst (kept_series ?lib DefaultOptions ?ss))" "[] \<notin> fst ` set (kept_series ?lib DefaultOptions ?ss)"
    using uniq mset_eq_imp_distinct_iff [OF labels] mset_eq_setD [OF kept] by simp_all
  from finish_block [OF pass2_okD(3) [OF ok] b'(2,3) _ this, of "p2_cw env"] total ctotal
  obtain r where r: "FinishBlock ?lib no_faults (\<lambda>m. m) ([], []) (p2_cw env) b' = (None, Some r)"
    "block_of ?lib (p2_ulid env day) (kept_series ?lib DefaultOptions ?ss) r" by auto
  have "p2_names env ?m \<noteq> []" using names(2) es(2) by auto
  then have "createOneBlock env day disk dir = Some (Ok (Some r))"
    using t(1) ix b am [unfolded fs] r(1) pass2_okD(4,5) [OF ok] by (simp add: createOneBlock_def Let_def)
  then show ?thesis using r(2) block_of_mset [OF kept] by blast
qed

section \<open>Sharing the days\<close>

text \<open>The days that a run need not convert again.\<close>

definition finished_days :: "bool \<Rightarrow> string list \<Rightarrow> (string \<Rightarrow> int option) \<Rightarrow> int set" where
  "finished_days overwriteBlocks walked readMeta =
     (if overwriteBlocks then {} else GetFinishedBlockDates walked readMeta)"

lemma intermediate_loop_spec:
  assumes "\<forall>d \<in> set ds. d \<in> F \<or> d_data (disk d) \<noteq> None"
  shows "\<exists>q. intermediate_loop F disk ds p = (Ok (filter (\<lambda>d. d \<notin> F) ds), q) \<and>
    skippedCount q = skippedCount p + of_nat (length (filter (\<lambda>d. d \<in> F) ds)) \<and> processedCount q = processedCount p"
  using assms
proof (induction ds arbitrary: p)
  case (Cons d ds)
  have ds: "\<forall>d \<in> set ds. d \<in> F \<or> d_data (disk d) \<noteq> None" using Cons.prems by simp
  show ?case
  proof (cases "d \<in> F")
    case True
    then show ?thesis using Cons.IH [OF ds, of "IncSkipped p"] by (auto simp: algebra_simps)
  next
    case False
    then show ?thesis using Cons.IH [OF ds, of p] Cons.prems by auto
  qed
qed simp

lemma getIntermediateListIntoChan_eq:
  assumes "\<forall>d \<in> set (wc_dates c). d \<in> finished_days overwriteBlocks walked readMeta \<or> d_data (disk d) \<noteq> None"
  shows "\<exists>q. (\<forall>n k. getIntermediateListIntoChan (c\<lparr>wc_workerCount := n, wc_workerID := k\<rparr>) walked readMeta overwriteBlocks disk p =
      map_option (\<lambda>r. (r, q)) (PathsForWorker (filter (\<lambda>d. d \<notin> finished_days overwriteBlocks walked readMeta) (wc_dates c)) n k)) \<and>
    skippedCount q = skippedCount p + of_nat (length (filter (\<lambda>d. d \<in> finished_days overwriteBlocks walked readMeta) (wc_dates c)))"
proof -
  obtain q where q: "intermediate_loop (finished_days overwriteBlocks walked readMeta) disk (wc_dates c) p =
      (Ok (filter (\<lambda>d. d \<notin> finished_days overwriteBlocks walked readMeta) (wc_dates c)), q)"
    "skippedCount q = skippedCount p + of_nat (length (filter (\<lambda>d. d \<in> finished_days overwriteBlocks walked readMeta) (wc_dates c)))"
    using intermediate_loop_spec [OF assms, of p] by blast
  then show ?thesis
    by (intro exI [of _ q]) (simp add: getIntermediateListIntoChan_def finished_days_def Let_def)
qed

text \<open>The second pass after the example run, with a library that stores the chunks in a list.\<close>

definition run_env2 ::
    "((int \<times> nat) list, nat, (bytes \<times> bytes) list, (int \<times> nat) list option list, (int \<times> nat) list index_log) pass2_env" where
  "run_env2 =
     \<lparr>p2_c = example_converter, p2_labels = pair_lib, p2_nil = [], p2_codec = run_codec,
      p2_names = (\<lambda>m. sorted_list_of_set (dom m)), p2_sortIndex = (\<lambda>xs. xs), p2_sortLabels = (\<lambda>ls. ls),
      p2_lib = store_lib, p2_blk = no_faults, p2_ulid = (\<lambda>d. ''B''), p2_cw = [], p2_iw = ([], [])\<rparr>"

lemma run_env2_ok: "pass2_ok store_room run_env2"
  by (simp add: pass2_ok_def run_env2_def store_lib_ok)

lemma run_env2_simps [simp]:
  "p2_codec run_env2 = run_codec" "wc_customLabels (p2_c run_env2) = []" "p2_lib run_env2 = store_lib" "p2_cw run_env2 = []"
  "p2_ulid run_env2 d = ''B''"
  by (simp_all add: run_env2_def)

section \<open>Properties\<close>

text \<open>
  C26. The days of the second pass of a group of workers, if every day that is to be converted has a table.
  With at least as many days without a finished block as workers, the days that the workers take are together
  exactly these, each once. With fewer, as at the end of a resumed conversion, no worker takes any day: the
  days that are left are not converted. The days with a finished block are counted as skipped in both cases.
\<close>

theorem pass2_shares_days:
  assumes "\<forall>d \<in> set (wc_dates c). d \<in> finished_days overwriteBlocks walked readMeta \<or> d_data (disk d) \<noteq> None"
    and "0 < n"
  shows "\<exists>ps q. (\<forall>k<n. getIntermediateListIntoChan (c\<lparr>wc_workerCount := int n, wc_workerID := int k\<rparr>) walked readMeta
        overwriteBlocks disk p = Some (Ok (ps k), q)) \<and>
    (let days = filter (\<lambda>d. d \<notin> finished_days overwriteBlocks walked readMeta) (wc_dates c)
     in if n \<le> length days then (\<Sum>k<n. mset (ps k)) = mset days else \<forall>k<n. ps k = []) \<and>
    GetSkippedCount q = GetSkippedCount p + of_nat (length (filter (\<lambda>d. d \<in> finished_days overwriteBlocks walked readMeta) (wc_dates c)))"
proof -
  let ?days = "filter (\<lambda>d. d \<notin> finished_days overwriteBlocks walked readMeta) (wc_dates c)"
  obtain q where q: "\<forall>n k. getIntermediateListIntoChan (c\<lparr>wc_workerCount := n, wc_workerID := k\<rparr>) walked readMeta overwriteBlocks disk p =
      map_option (\<lambda>r. (r, q)) (PathsForWorker ?days n k)"
    "skippedCount q = skippedCount p + of_nat (length (filter (\<lambda>d. d \<in> finished_days overwriteBlocks walked readMeta) (wc_dates c)))"
    using getIntermediateListIntoChan_eq [OF assms(1), of p] by blast
  show ?thesis
  proof (cases "n \<le> length ?days")
    case True
    then have "\<forall>k<n. PathsForWorker ?days (int n) (int k) = Some (Ok (share ?days n k))"
      using PathsForWorker_share [OF assms(2)] by blast
    then show ?thesis
      using q share_partition [OF assms(2), of ?days] True
      by (intro exI [of _ "share ?days n"] exI [of _ q]) (simp add: GetSkippedCount_def Let_def)
  next
    case False
    then have "\<forall>k<n. PathsForWorker ?days (int n) (int k) = Some (Ok [])" by (simp add: PathsForWorker_def)
    then show ?thesis using q False
      by (intro exI [of _ "\<lambda>k. []"] exI [of _ q]) (simp add: GetSkippedCount_def Let_def)
  qed
qed

theorem pass2_shares_days_witness:
  "(\<exists>ps q. (\<forall>k<2. getIntermediateListIntoChan (example_converter\<lparr>wc_dates := [0, 1, 2]\<rparr>\<lparr>wc_workerCount := int 2, wc_workerID := int k\<rparr>)
        [''/b/X/meta.json''] (\<lambda>p. Some 86400000) False (\<lambda>d. no_disk\<lparr>d_data := Some []\<rparr>) NewProgress = Some (Ok (ps k), q)) \<and>
    (\<Sum>k<2. mset (ps k)) = {#0, 2#} \<and> GetSkippedCount q = GetSkippedCount NewProgress + 1) \<and>
   (\<exists>ps q. (\<forall>k<3. getIntermediateListIntoChan (example_converter\<lparr>wc_dates := [0, 1, 2]\<rparr>\<lparr>wc_workerCount := int 3, wc_workerID := int k\<rparr>)
        [''/b/X/meta.json''] (\<lambda>p. Some 86400000) False (\<lambda>d. no_disk\<lparr>d_data := Some []\<rparr>) NewProgress = Some (Ok (ps k), q)) \<and>
    (\<forall>k<3. ps k = []))"
proof -
  have f: "finished_days False [''/b/X/meta.json''] (\<lambda>p. Some 86400000) = {1}"
    by (simp add: finished_days_def GetFinishedBlockDates_def metaFilter_def List.map_filter_simps day_of_ms_def ms_per_day_def)
  let ?c = "example_converter\<lparr>wc_dates := [0, 1, 2]\<rparr>" and ?disk = "\<lambda>d. no_disk\<lparr>d_data := Some []\<rparr>"
  have tables: "\<forall>d \<in> set (wc_dates ?c). d \<in> finished_days False [''/b/X/meta.json''] (\<lambda>p. Some 86400000) \<or> d_data (?disk d) \<noteq> None"
    by simp
  have days: "filter (\<lambda>d. d \<notin> finished_days False [''/b/X/meta.json''] (\<lambda>p. Some 86400000)) (wc_dates ?c) = [0, 2]"
    "filter (\<lambda>d. d \<in> finished_days False [''/b/X/meta.json''] (\<lambda>p. Some 86400000)) (wc_dates ?c) = [1]"
    by (simp_all add: f)
  have w: "\<exists>ps q. (\<forall>k<n. getIntermediateListIntoChan (?c\<lparr>wc_workerCount := int n, wc_workerID := int k\<rparr>)
        [''/b/X/meta.json''] (\<lambda>p. Some 86400000) False ?disk NewProgress = Some (Ok (ps k), q)) \<and>
    (let days = [0, 2] in if n \<le> length days then (\<Sum>k<n. mset (ps k)) = mset days else \<forall>k<n. ps k = []) \<and>
    GetSkippedCount q = GetSkippedCount NewProgress + of_nat (length [1 :: int])" if "0 < n" for n
    using pass2_shares_days [OF tables that, of NewProgress] unfolding days .
  have l: "length [0 :: int, 2] = 2" "\<not> (3 :: nat) \<le> 2" by simp_all
  obtain ps q where two: "\<forall>k<2. getIntermediateListIntoChan (?c\<lparr>wc_workerCount := int 2, wc_workerID := int k\<rparr>)
        [''/b/X/meta.json''] (\<lambda>p. Some 86400000) False ?disk NewProgress = Some (Ok (ps k), q)"
    "(\<Sum>k<2. mset (ps k)) = {#0, 2#}" "GetSkippedCount q = GetSkippedCount NewProgress + 1"
    using w [of 2, OF zero_less_numeral] unfolding Let_def l(1) if_P [OF order.refl] by auto
  obtain ps' q' where three: "\<forall>k<3. getIntermediateListIntoChan (?c\<lparr>wc_workerCount := int 3, wc_workerID := int k\<rparr>)
        [''/b/X/meta.json''] (\<lambda>p. Some 86400000) False ?disk NewProgress = Some (Ok (ps' k), q')" "\<forall>k<3. ps' k = []"
    using w [of 3, OF zero_less_numeral] unfolding Let_def l(1) if_not_P [OF l(2)] by blast
  show ?thesis using two three by blast
qed

text \<open>
  When fewer days are left than there are workers, as at the end of a resumed conversion, the
  second pass converts none of them: every worker reports success and has made no block.
\<close>

theorem pass2_drops_last_days:
  assumes "\<forall>d \<in> set (wc_dates (p2_c env)). d \<in> finished_days overwriteBlocks walked readMeta \<or> d_data (disk d) \<noteq> None"
    and "length (filter (\<lambda>d. d \<notin> finished_days overwriteBlocks walked readMeta) (wc_dates (p2_c env))) < n" and "k < n"
    and "0 \<le> wc_threads (p2_c env)"
  shows "\<exists>q. CommandPass2 (env\<lparr>p2_c := (p2_c env)\<lparr>wc_workerCount := int n, wc_workerID := int k\<rparr>\<rparr>) None walked readMeta disk
    blocksDir overwriteBlocks p = Some (Ok [], q)"
proof -
  obtain q where q: "\<forall>n k. getIntermediateListIntoChan ((p2_c env)\<lparr>wc_workerCount := n, wc_workerID := k\<rparr>) walked readMeta overwriteBlocks disk p =
      map_option (\<lambda>r. (r, q)) (PathsForWorker (filter (\<lambda>d. d \<notin> finished_days overwriteBlocks walked readMeta) (wc_dates (p2_c env))) n k)"
    using getIntermediateListIntoChan_eq [OF assms(1), of p] by blast
  have "PathsForWorker (filter (\<lambda>d. d \<notin> finished_days overwriteBlocks walked readMeta) (wc_dates (p2_c env))) (int n) (int k) = Some (Ok [])"
    using assms(2,3) by (simp add: PathsForWorker_def)
  then show ?thesis using q assms(4) by (intro exI [of _ q]) (simp add: CommandPass2_def)
qed

theorem pass2_drops_last_days_witness:
  "\<exists>q q'. CommandPass2 (run_env2\<lparr>p2_c := (p2_c run_env2)\<lparr>wc_workerCount := int 3, wc_workerID := int 0\<rparr>\<rparr>) None [] (\<lambda>p. None)
      (\<lambda>d. no_disk\<lparr>d_data := Some []\<rparr>) ''d'' False NewProgress = Some (Ok [], q) \<and>
    CommandPass2 (run_env2\<lparr>p2_c := (p2_c run_env2)\<lparr>wc_workerCount := int 3, wc_workerID := int 2\<rparr>\<rparr>) None [] (\<lambda>p. None)
      (\<lambda>d. no_disk\<lparr>d_data := Some []\<rparr>) ''d'' False NewProgress = Some (Ok [], q')"
proof -
  have c: "p2_c run_env2 = example_converter" by (simp add: run_env2_def)
  have "\<exists>q. CommandPass2 (run_env2\<lparr>p2_c := (p2_c run_env2)\<lparr>wc_workerCount := int 3, wc_workerID := int k\<rparr>\<rparr>) None [] (\<lambda>p. None)
      (\<lambda>d. no_disk\<lparr>d_data := Some []\<rparr>) ''d'' False NewProgress = Some (Ok [], q)" if "k < 3" for k
    by (rule pass2_drops_last_days) (use that in \<open>simp_all add: c finished_days_def GetFinishedBlockDates_def List.map_filter_simps\<close>)
  from this [of 0] this [of 2] show ?thesis by simp
qed

end
