(* ===== verification/Convert.thy ===== *)
theory Convert
  imports Pass2_Correct
begin

text \<open>
  The conversion from end to end: whisper files go through the first pass to the tables of the days
  and through the second to their blocks. What the block of a day must hold is said here in terms of
  the files alone.
\<close>

section \<open>What a block must hold\<close>

text \<open>The series of a day: for every file that has samples on that day, its labels and those samples.\<close>

definition file_series :: "('v, 'b) pass1_env \<Rightarrow> int \<Rightarrow> string \<Rightarrow> (labels \<times> 'v sample_iter) option" where
  "file_series env d f =
     (case (getMetricName (pe_c env) f, pe_convert env f) of
        (Ok name, Inr samples) \<Rightarrow>
          let day = filter (\<lambda>s. day_of_ms (s_ts s) = d) samples
          in if day = [] then None
             else Some (LabelsFromUntaggedName (pe_labels env) (to_bytes name) (pe_nil env),
                    \<lparr>it_samples = map (\<lambda>s. Some (s_ts s, s_value s)) day, it_err = None\<rparr>)
      | _ \<Rightarrow> None)"

definition day_series :: "('v, 'b) pass1_env \<Rightarrow> string list \<Rightarrow> int \<Rightarrow> (labels \<times> 'v sample_iter) list" where
  "day_series env files d = List.map_filter (file_series env d) (remdups files)"

lemma file_series_skippable [simp]: "file_series (env\<lparr>pe_skippable := m\<rparr>) d = file_series env d"
  by (rule ext) (auto simp: file_series_def Let_def split: res.splits sum.splits)

text \<open>
  What the files must be like: their archives are as the whisper library makes them, their points
  are dated in seconds, and they have different names without empty nodes.
\<close>

definition archive_ok :: "'v archive \<Rightarrow> bool" where
  "archive_ok w \<longleftrightarrow>
     sorted (a_retentions w) \<and>
     (\<forall>i<length (a_retentions w). \<exists>ps. a_dump w i = Some ps \<and> distinct (filter (\<lambda>t. t \<noteq> 0) (map w_ts ps)))"

definition converts :: "('v, 'b) pass1_env \<Rightarrow> bool" where
  "converts env \<longleftrightarrow>
     (\<exists>srt open_archive. sorts_by w_ts srt \<and> (\<forall>f w. open_archive f = Some w \<longrightarrow> archive_ok w) \<and>
       pe_convert env = WhisperToMimirSamples srt (\<lambda>t. 1000 * uint t) open_archive)"

definition well_named :: "WhisperConverter \<Rightarrow> string list \<Rightarrow> bool" where
  "well_named c files \<longleftrightarrow>
     inj_on (getMetricName c) (set files) \<and>
     (\<forall>f \<in> set files. \<forall>name. getMetricName c f = Ok name \<longrightarrow> [] \<notin> set (split_at 0x2E (to_bytes name)))"

section \<open>Samples\<close>

lemma converts_sorted:
  assumes "converts env" and "pe_convert env f = Inr samples"
  shows "sorted_wrt (<) (0 # map s_ts samples)" and "\<forall>s \<in> set samples. s_ts s < 2 ^ 63" and "sorted (map s_ts samples)"
proof -
  let ?ms = "\<lambda>t :: 32 word. 1000 * uint t"
  obtain srt open_archive where o: "sorts_by w_ts srt" "\<forall>f w. open_archive f = Some w \<longrightarrow> archive_ok w"
    "pe_convert env = WhisperToMimirSamples srt ?ms open_archive" using assms(1) unfolding converts_def by blast
  obtain w pts where w: "open_archive f = Some w" "ReadPoints srt w = Inr pts" "ToMimirSamples ?ms pts = Inr samples"
    using assms(2) o(3) by (auto simp: WhisperToMimirSamples_def split: option.splits sum.splits)
  have c: "sorts_by w_ts srt" "archive_ok w" "ReadPoints srt w = Inr pts" "ToMimirSamples ?ms pts = Inr samples"
    using o w by blast+
  have p: "sorted_wrt (<) (map w_ts pts)" "0 \<notin> w_ts ` set pts"
    using ReadPoints_sorted [OF c(1) _ _ c(3)] c(2) by (simp_all add: archive_ok_def)
  have samples: "map s_ts samples = map (?ms \<circ> w_ts) pts" using c(4) by (auto simp: ToMimirSamples_def split: if_splits)
  have mono: "?ms a < ?ms b" if "a < b" for a b :: "32 word" using that by (simp add: word_less_def)
  have "sorted_wrt (<) (map ?ms (map w_ts pts))" using p(1) mono by (simp add: sorted_wrt_map) (erule sorted_wrt_mono_rel [rotated], simp)
  moreover have "0 < ?ms t" if "t \<in> w_ts ` set pts" for t
  proof -
    have "t \<noteq> 0" using that p(2) by metis
    then have "0 < t" by (simp add: word_gt_0)
    then show ?thesis using mono [of 0 t] by simp
  qed
  ultimately show sorted: "sorted_wrt (<) (0 # map s_ts samples)" unfolding samples by auto
  then show "sorted (map s_ts samples)" by (simp add: strict_sorted_imp_sorted)
  have "?ms t < 2 ^ 63" for t :: "32 word"
  proof -
    have "uint t < 2 ^ 32" using uint_lt2p [of t] by simp
    then show ?thesis by simp
  qed
  moreover have "s_ts ` set samples \<subseteq> range ?ms" using samples by (metis (no_types, lifting) image_subsetI list.set_map range_eqI comp_apply image_iff)
  ultimately show "\<forall>s \<in> set samples. s_ts s < 2 ^ 63" by fastforce
qed

lemma split_block:
  assumes "sorted (map s_ts samples)"
  shows "b \<in> set (SplitSamplesByDays samples) \<longleftrightarrow>
    b \<noteq> [] \<and> b = filter (\<lambda>s. day_of_ms (s_ts s) = day_of_block b) samples"
proof
  let ?day = "\<lambda>d. filter (\<lambda>s. day_of_ms (s_ts s) = d) samples"
  have split: "set (SplitSamplesByDays samples) = ?day ` (\<lambda>s. day_of_ms (s_ts s)) ` set samples"
    using runs_sorted [OF assms] by (simp add: SplitSamplesByDays_runs day_of_def [abs_def])
  have hd: "day_of_block (?day d) = d" if "?day d \<noteq> []" for d
    using hd_in_set [OF that] by (auto simp: day_of_block_def)
  show "b \<noteq> [] \<and> b = ?day (day_of_block b)" if b: "b \<in> set (SplitSamplesByDays samples)"
  proof -
    obtain s where s: "s \<in> set samples" "b = ?day (day_of_ms (s_ts s))" using b split by auto
    then have "b \<noteq> []" by (auto simp: filter_empty_conv)
    then show ?thesis using hd s(2) by metis
  qed
  show "b \<in> set (SplitSamplesByDays samples)" if b: "b \<noteq> [] \<and> b = ?day (day_of_block b)"
  proof -
    obtain s where "s \<in> set b" using b by (cases b) auto
    then have "s \<in> set samples" "day_of_ms (s_ts s) = day_of_block b" using b by (metis (mono_tags, lifting) mem_Collect_eq set_filter)+
    then show ?thesis unfolding split using b by (metis image_eqI)
  qed
qed

section \<open>Labels\<close>

lemma names_sorted_iff: "names_sorted p ls \<longleftrightarrow> sorted_wrt (<) (p # map lname ls)"
proof (induction ls arbitrary: p)
  case (Cons l ls)
  then show ?case by (auto intro: order.strict_trans)
qed simp

lemma Nil_less: "[] < (xs :: bytes) \<longleftrightarrow> xs \<noteq> []"
  by (cases xs) auto

lemma untagged_names_sorted:
  assumes "builder_ok lib view"
  shows "names_sorted [] (LabelsFromUntaggedName lib name b)" and "LabelsFromUntaggedName lib name b \<noteq> []"
proof -
  let ?ls = "LabelsFromUntaggedName lib name b"
  have "[] \<noteq> metric_name" "[] \<notin> range node_name" by (auto simp: metric_name_def node_name_def to_bytes_def)
  then have "lookup_label ?ls [] = None" by (intro untagged_lookup(3) [OF assms]) auto
  then have "[] \<notin> set (map lname ?ls)" by (auto simp: lookup_label_def map_of_eq_None_iff image_image)
  then show "names_sorted [] ?ls"
    using untagged_lookup(4) [OF assms, of name b] by (force simp: names_sorted_iff name_sorted_def Nil_less)
  show "?ls \<noteq> []" using untagged_lookup(1) [OF assms, of name b] by (auto simp: lookup_label_def)
qed

section \<open>The records of a day are its series\<close>

definition record_series :: "('v, 'b) pass1_env \<Rightarrow> bytes \<Rightarrow> 'v sample list \<Rightarrow> labels \<times> 'v sample_iter" where
  "record_series env k b =
     (LabelsFromUntaggedName (pe_labels env) k (pe_nil env),
      \<lparr>it_samples = map (\<lambda>s. Some (s_ts s, s_value s)) b, it_err = None\<rparr>)"

lemma block_series_record:
  "wc_customLabels (p2_c env2) = [] \<Longrightarrow> block_series env2 (series_for env k b) = record_series env k b"
  by (simp add: block_series_def series_of_record_def series_for_def record_series_def samples_of_eq ms_Labels_def
      NewMimirSeries_def)

lemma file_series_record:
  assumes "converts env" and "pe_skippable env = Map.empty"
  shows "file_series env d f = Some s \<longleftrightarrow>
    (\<exists>k blocks b. take_file env f = Convert k blocks \<and> b \<in> set blocks \<and> day_of_block b = d \<and> s = record_series env k b)"
proof -
  let ?day = "\<lambda>samples. filter (\<lambda>s. day_of_ms (s_ts s) = d) samples"
  have split: "b \<in> set (SplitSamplesByDays samples) \<and> day_of_block b = d \<longleftrightarrow> b \<noteq> [] \<and> b = ?day samples"
    if "pe_convert env f = Inr samples" for b samples
  proof -
    have "day_of_block (?day samples) = d" if "?day samples \<noteq> []"
      using hd_in_set [OF that] by (auto simp: day_of_block_def)
    then show ?thesis using split_block [OF converts_sorted(3) [OF assms(1) that], of b] by metis
  qed
  show ?thesis
  proof (cases "getMetricName (pe_c env) f")
    case (Ok name)
    show ?thesis
    proof (cases "pe_convert env f")
      case (Inr samples)
      then have "take_file env f = Convert (to_bytes name) (SplitSamplesByDays samples)"
        using Ok assms(2) by (simp add: take_file_def)
      then have "(\<exists>k blocks b. take_file env f = Convert k blocks \<and> b \<in> set blocks \<and> day_of_block b = d \<and> s = record_series env k b)
          \<longleftrightarrow> (\<exists>b. (b \<in> set (SplitSamplesByDays samples) \<and> day_of_block b = d) \<and> s = record_series env (to_bytes name) b)" by auto
      also have "\<dots> \<longleftrightarrow> ?day samples \<noteq> [] \<and> s = record_series env (to_bytes name) (?day samples)"
        unfolding split [OF Inr] by auto
      also have "\<dots> \<longleftrightarrow> file_series env d f = Some s"
        using Ok Inr by (auto simp: file_series_def record_series_def Let_def)
      finally show ?thesis by blast
    qed (use Ok assms(2) in \<open>simp add: file_series_def take_file_def\<close>)
  qed (simp_all add: file_series_def take_file_def)
qed

text \<open>The label set of a file tells which file it is.\<close>

lemma record_inj:
  assumes w: "well_named (pe_c env) files" and lib: "builder_ok (pe_labels env) view" and f: "f \<in> set files" "f' \<in> set files"
    and t: "take_file env f = Convert k blocks" "take_file env f' = Convert k' blocks'"
    and same: "fst (record_series env k b) = fst (record_series env k' b')"
  shows "f = f' \<and> k = k' \<and> blocks = blocks'"
proof -
  obtain name name' where n: "getMetricName (pe_c env) f = Ok name" "k = to_bytes name"
    "getMetricName (pe_c env) f' = Ok name'" "k' = to_bytes name'" using take_file_name t by metis
  have nodes: "[] \<notin> set (split_at 0x2E k)" "[] \<notin> set (split_at 0x2E k')" using w f n unfolding well_named_def by blast+
  have "k = k'" by (rule untagged_inj [OF lib nodes]) (use same in \<open>simp add: record_series_def\<close>)
  then have "f = f'" using n w f by (auto simp: well_named_def inj_on_def)
  then show ?thesis using t by simp
qed

lemma distinct_day_series:
  assumes "converts env" and "pe_skippable env = Map.empty" and "well_named (pe_c env) files" and "builder_ok (pe_labels env) view"
  shows "distinct (map fst (day_series env files d))"
proof -
  let ?fs = "filter (\<lambda>f. file_series env d f \<noteq> None) (remdups files)"
  have eq: "map fst (day_series env files d) = map (\<lambda>f. fst (the (file_series env d f))) ?fs"
    by (simp add: day_series_def List.map_filter_def)
  have "inj_on (\<lambda>f. fst (the (file_series env d f))) (set ?fs)"
  proof (rule inj_onI)
    fix f f' assume f: "f \<in> set ?fs" "f' \<in> set ?fs" and same: "fst (the (file_series env d f)) = fst (the (file_series env d f'))"
    then obtain s s' where s: "file_series env d f = Some s" "file_series env d f' = Some s'" by auto
    from s(1) obtain k blocks b where r: "take_file env f = Convert k blocks" "s = record_series env k b"
      unfolding file_series_record [OF assms(1,2)] by blast
    from s(2) obtain k' blocks' b' where r': "take_file env f' = Convert k' blocks'" "s' = record_series env k' b'"
      unfolding file_series_record [OF assms(1,2)] by blast
    have "fst (record_series env k b) = fst (record_series env k' b')" using same s r(2) r'(2) by simp
    then show "f = f'" using record_inj [OF assms(3,4) _ _ r(1) r'(1)] f by auto
  qed
  then show ?thesis unfolding eq by (simp add: distinct_map)
qed

lemma table_series:
  assumes c: "converts env" "pe_skippable env = Map.empty" and w: "well_named (pe_c env) files" and lib: "builder_ok (pe_labels env) view"
    and custom: "wc_customLabels (p2_c env2) = []"
    and all: "\<And>f k blocks b. f \<in> set files \<Longrightarrow> take_file env f = Convert k blocks \<Longrightarrow> b \<in> set blocks \<Longrightarrow> day_of_block b = d \<Longrightarrow>
      (k, series_for env k b) \<in> kv ` set es"
    and src: "\<And>e. e \<in> set es \<Longrightarrow> \<exists>f \<in> set files. \<exists>k blocks b. take_file env f = Convert k blocks \<and> b \<in> set blocks \<and>
      day_of_block b = d \<and> kv e = (k, series_for env k b)"
  shows "mset (day_series env files d) =
    mset (map (\<lambda>k. block_series env2 (the (map_of (rev (map kv es)) k))) (remdups (map fst es)))"
proof -
  let ?s = "\<lambda>k. block_series env2 (the (map_of (rev (map kv es)) k))"
  have val: "\<exists>f \<in> set files. \<exists>blocks b. take_file env f = Convert k blocks \<and> b \<in> set blocks \<and> day_of_block b = d \<and>
      ?s k = record_series env k b" if "k \<in> fst ` set es" for k
  proof -
    have "k \<in> dom (map_of (rev (map kv es)))" using that by (simp add: dom_map_of_conv_image_fst image_image kv_def)
    then obtain v where v: "map_of (rev (map kv es)) k = Some v" by blast
    then have "(k, v) \<in> kv ` set es" using map_of_SomeD by fastforce
    then obtain e where "e \<in> set es" "kv e = (k, v)" by auto
    with src [OF this(1)] obtain f blocks b where "f \<in> set files" "take_file env f = Convert k blocks" "b \<in> set blocks"
      "day_of_block b = d" "v = series_for env k b" by auto
    then show ?thesis using v block_series_record [OF custom] by fastforce
  qed
  have sub: "?s ` fst ` set es \<subseteq> set (day_series env files d)"
  proof
    fix x assume "x \<in> ?s ` fst ` set es"
    then obtain k where "k \<in> fst ` set es" "x = ?s k" by blast
    with val [OF this(1)] have "\<exists>f \<in> set files. file_series env d f = Some x"
      unfolding file_series_record [OF c] by metis
    then show "x \<in> set (day_series env files d)" by (force simp: day_series_def List.map_filter_def)
  qed
  have sup: "set (day_series env files d) \<subseteq> ?s ` fst ` set es"
  proof
    fix x assume "x \<in> set (day_series env files d)"
    then obtain f where f: "f \<in> set files" "file_series env d f = Some x" by (auto simp: day_series_def List.map_filter_def)
    then obtain k blocks b where b: "take_file env f = Convert k blocks" "b \<in> set blocks" "day_of_block b = d" "x = record_series env k b"
      unfolding file_series_record [OF c] by blast
    from all [OF f(1) b(1-3)] have k: "k \<in> fst ` set es" by (force simp: kv_def)
    with val obtain f' blocks' b' where f': "f' \<in> set files" "take_file env f' = Convert k blocks'" "b' \<in> set blocks'"
      "day_of_block b' = d" "?s k = record_series env k b'" by blast
    have "f' = f" using record_inj [OF w lib f(1) f'(1) b(1) f'(2)] by (simp add: record_series_def)
    then have "file_series env d f = Some (?s k)" unfolding file_series_record [OF c] using f'(2-5) by blast
    then show "x \<in> ?s ` fst ` set es" using f(2) k by auto
  qed
  have "inj_on ?s (fst ` set es)"
  proof (rule inj_onI)
    fix k k' assume k: "k \<in> fst ` set es" "k' \<in> fst ` set es" and same: "?s k = ?s k'"
    obtain f blocks b where f: "f \<in> set files" "take_file env f = Convert k blocks" "?s k = record_series env k b" using val [OF k(1)] by blast
    obtain f' blocks' b' where f': "f' \<in> set files" "take_file env f' = Convert k' blocks'" "?s k' = record_series env k' b'" using val [OF k(2)] by blast
    show "k = k'" using record_inj [OF w lib f(1) f'(1) f(2) f'(2)] same f(3) f'(3) by (metis)
  qed
  then have "distinct (map ?s (remdups (map fst es)))" by (simp add: distinct_map)
  moreover have "distinct (day_series env files d)" using distinct_day_series [OF c w lib] by (simp add: distinct_map)
  ultimately show ?thesis using sub sup by (intro set_eq_iff_mset_eq_distinct [THEN iffD1]) auto
qed

section \<open>The block of a day\<close>

text \<open>The chunks of a series of the day: all its samples, 120 in a chunk.\<close>

definition series_chunks :: "('k, 'v, 'cw, 'iw) tsdb_lib \<Rightarrow> labels \<times> 'v sample_iter \<Rightarrow> labels \<times> 'k chunk_meta list" where
  "series_chunks lib s =
     (fst s, map (meta_of (t_chunk lib)) (chop samplesPerChunk (map the (it_samples (snd s)))))"

lemma day_series_samples:
  assumes "converts env" and "builder_ok (pe_labels env) view" and "s \<in> set (day_series env files d)"
  obtains ss where "it_samples (snd s) = map Some ss" and "it_err (snd s) = None" and "ss \<noteq> []"
    and "sorted_wrt (<) (0 # map fst ss)" and "\<forall>x \<in> set ss. day_of_ms (fst x) = d \<and> fst x < 2 ^ 63"
    and "names_sorted [] (fst s)" and "fst s \<noteq> []"
proof -
  obtain f where "file_series env d f = Some s" using assms(3) by (auto simp: day_series_def List.map_filter_def)
  then obtain name samples where n: "pe_convert env f = Inr samples"
    and day: "filter (\<lambda>s. day_of_ms (s_ts s) = d) samples \<noteq> []"
    and s: "s = (LabelsFromUntaggedName (pe_labels env) (to_bytes name) (pe_nil env),
      \<lparr>it_samples = map (\<lambda>s. Some (s_ts s, s_value s)) (filter (\<lambda>s. day_of_ms (s_ts s) = d) samples), it_err = None\<rparr>)"
    by (auto simp: file_series_def Let_def split: res.splits sum.splits if_splits)
  let ?ss = "map (\<lambda>s. (s_ts s, s_value s)) (filter (\<lambda>s. day_of_ms (s_ts s) = d) samples)"
  note sorted = converts_sorted [OF assms(1) n]
  have "sorted_wrt (<) (0 # map fst ?ss)"
    using sorted(1) by (auto simp: comp_def sorted_wrt_map intro: sorted_wrt_filter)
  moreover have "\<forall>x \<in> set ?ss. day_of_ms (fst x) = d \<and> fst x < 2 ^ 63" using sorted(2) by auto
  ultimately show ?thesis
    using that [of ?ss] s day untagged_names_sorted [OF assms(2)] by (simp add: comp_def)
qed

lemma day_series_chunks:
  assumes "chunk_lib_ok (t_chunk lib)" and "it_samples (snd s) = map Some ss" and "it_err (snd s) = None"
    and "sorted_wrt (<) (0 # map fst ss)"
  shows "samplesToChunks (t_chunk lib) (snd s) 0 0 = Inr (snd (series_chunks lib s))"
proof -
  have all: "taken 0 0 (map Some ss) = ss" by (induction ss) (auto simp: in_block_def)
  have "map_sum (\<lambda>_. ()) id (samplesToChunks (t_chunk lib) (snd s) 0 0) = Inr (map (meta_of (t_chunk lib)) (chop samplesPerChunk ss))"
    using samplesToChunks_spec [OF assms(1,3), of 0 0] sorted_accepted [OF assms(4)] all by (simp add: assms(2))
  then show ?thesis
    by (cases "samplesToChunks (t_chunk lib) (snd s) 0 0") (simp_all add: series_chunks_def assms(2) comp_def)
qed

lemma series_chunks_nonempty:
  assumes "it_samples (snd s) = map Some ss" and "ss \<noteq> []"
  shows "snd (series_chunks lib s) \<noteq> []"
proof -
  have "chop samplesPerChunk ss \<noteq> []" using concat_chop [of samplesPerChunk ss] assms(2) by (auto simp: samplesPerChunk_def)
  then show ?thesis by (simp add: series_chunks_def assms(1) comp_def)
qed

lemma kept_day_series:
  assumes c: "converts env" and b: "builder_ok (pe_labels env) view" and lib: "chunk_lib_ok (t_chunk lib)"
  shows "kept_series lib DefaultOptions (day_series env files d) = map (series_chunks lib) (day_series env files d)"
    and "\<forall>s \<in> set (day_series env files d). addable lib DefaultOptions s"
    and "[] \<notin> fst ` set (day_series env files d)"
proof -
  have bounds: "lo_of DefaultOptions = 0" "hi_of DefaultOptions = 0" by (simp_all add: lo_of_def hi_of_def DefaultOptions_def)
  have one: "samplesToChunks (t_chunk lib) (snd s) 0 0 = Inr (snd (series_chunks lib s)) \<and> snd (series_chunks lib s) \<noteq> [] \<and>
      names_sorted [] (fst s) \<and> fst s \<noteq> []" if "s \<in> set (day_series env files d)" for s
  proof (rule day_series_samples [OF c b that])
    fix ss assume ss: "it_samples (snd s) = map Some ss" "it_err (snd s) = None" "ss \<noteq> []" "sorted_wrt (<) (0 # map fst ss)"
      "names_sorted [] (fst s)" "fst s \<noteq> []"
    show ?thesis using day_series_chunks [OF lib ss(1,2,4)] series_chunks_nonempty [OF ss(1,3)] ss(5,6) by simp
  qed
  have "kept_series lib DefaultOptions ss = map (series_chunks lib) ss"
    if "\<forall>s \<in> set ss. samplesToChunks (t_chunk lib) (snd s) 0 0 = Inr (snd (series_chunks lib s)) \<and> snd (series_chunks lib s) \<noteq> []" for ss
    using that by (induction ss) (auto simp: kept_series_def bounds series_chunks_def)
  then show "kept_series lib DefaultOptions (day_series env files d) = map (series_chunks lib) (day_series env files d)"
    using one by blast
  show "\<forall>s \<in> set (day_series env files d). addable lib DefaultOptions s" using one by (auto simp: addable_def bounds)
  show "[] \<notin> fst ` set (day_series env files d)" using one by force
qed

text \<open>The first time in a block of the day lies on that day, so that a later run recognizes the block.\<close>

lemma block_of_day:
  assumes c: "converts env" and b: "builder_ok (pe_labels env) view" and "day_series env files d \<noteq> []"
    and "block_of lib blockID (map (series_chunks lib) (day_series env files d)) r"
  shows "rounded (bm_min (fst r)) = d"
proof -
  let ?D = "map (series_chunks lib) (day_series env files d)"
  let ?mins = "cm_min ` \<Union> (set ` snd ` set ?D)"
  have times: "day_of_ms t = d \<and> t < 2 ^ 63" if t: "t \<in> ?mins" for t
  proof -
    obtain x c where x: "x \<in> set ?D" "c \<in> set (snd x)" "t = cm_min c" using t by blast
    then obtain s where s: "s \<in> set (day_series env files d)" "c \<in> set (snd (series_chunks lib s))" by auto
    show ?thesis
    proof (rule day_series_samples [OF c b s(1)])
      fix ss assume ss: "it_samples (snd s) = map Some ss" "sorted_wrt (<) (0 # map fst ss)"
        "\<forall>x \<in> set ss. day_of_ms (fst x) = d \<and> fst x < 2 ^ 63"
      have "c \<in> set (map (meta_of (t_chunk lib)) (chop samplesPerChunk ss))" using s(2) ss(1) by (simp add: series_chunks_def comp_def)
      then have "cm_min c \<in> fst ` set ss" using chop_ordered [of ss "t_chunk lib" samplesPerChunk] ss(2) by fastforce
      then show ?thesis using ss(3) x(3) by auto
    qed
  qed
  have fin: "finite ?mins" by simp
  obtain s rest where s: "day_series env files d = s # rest" using assms(3) by (cases "day_series env files d") auto
  then have s_in: "s \<in> set (day_series env files d)" by simp
  have "snd (series_chunks lib s) \<noteq> []"
    by (rule day_series_samples [OF c b s_in]) (rule series_chunks_nonempty)
  then have ne: "?mins \<noteq> {}" using s by (cases "snd (series_chunks lib s)") auto
  have "Min ?mins \<in> ?mins" using fin ne by (rule Min_in)
  moreover from times [OF this] have "Min ?mins \<le> 2 ^ 63 - 1" by linarith
  moreover have "bm_min (fst r) = Min (insert (2 ^ 63 - 1) ?mins)" using assms(4) by (auto simp: block_of_def)
  ultimately have "bm_min (fst r) \<in> ?mins" by (simp only: Min_insert [OF fin ne] min_absorb2)
  then show ?thesis using times by simp
qed

lemma convert_table:
  fixes env :: "('v, 'b) pass1_env" and env2 :: "('k, 'v, 'c, 'cw, 'k index_log) pass2_env"
  defines "env1 \<equiv> env\<lparr>pe_skippable := Map.empty\<rparr>"
  assumes files: "converts env" "well_named (pe_c env) files" "builder_ok (pe_labels env) view"
    and tables: "complete_tables env1 files days s T"
    and second: "pass2_ok room env2" "p2_codec env2 = pe_codec env" "wc_customLabels (p2_c env2) = []"
    and day: "d \<in> days" "day_series env files d \<noteq> []"
      "chunk_total (map (series_chunks (p2_lib env2)) (day_series env files d)) \<le> room (p2_cw env2)"
  shows "\<exists>u r. fst (pass1_close s) d = Some u \<and>
    createOneBlock env2 d \<lparr>d_data = Some (f_data (u_fd u)), d_open = None, d_room = None\<rparr> dir = Some (Ok (Some r)) \<and>
    block_of (p2_lib env2) (p2_ulid env2 d) (map (series_chunks (p2_lib env2)) (day_series env files d)) r \<and>
    rounded (bm_min (fst r)) = d"
proof -
  let ?lib = "p2_lib env2"
  have c: "converts env1" "pe_skippable env1 = Map.empty" using files(1) by (simp_all add: env1_def converts_def)
  have w: "well_named (pe_c env1) files" "builder_ok (pe_labels env1) view" using files(2,3) by (simp_all add: env1_def)
  have ser: "day_series env1 files d = day_series env files d" by (simp add: env1_def day_series_def)
  obtain u rest where u: "fst (pass1_close s) d = Some u" "f_data (u_fd u) = encs (T d) @ trailer @ rest"
    using tables day(1) unfolding complete_tables_def by blast
  have es: "\<forall>e \<in> set (T d). entry_ok (p2_codec env2) e"
    using tables day(1) second(2) unfolding complete_tables_def by (simp add: env1_def)
  have "mset (day_series env1 files d) =
      mset (map (\<lambda>k. block_series env2 (the (map_of (rev (map kv (T d))) k))) (remdups (map fst (T d))))"
    using tables day(1) unfolding complete_tables_def by (intro table_series [OF c w second(3)]) blast+
  note table = this [unfolded ser]
  have "T d \<noteq> []" using table day(2) by auto
  note kept = kept_day_series [OF c(1) w(2) lib_okD(1) [OF pass2_okD(3) [OF second(1)]], of files d, unfolded ser]
  have labels: "map fst (map (series_chunks ?lib) ss) = map fst ss" for ss by (simp add: series_chunks_def comp_def)
  have uniq: "distinct (map fst (map (series_chunks ?lib) (day_series env files d)))"
    unfolding labels by (rule distinct_day_series [OF c w, of d, unfolded ser])
  have nonempty: "[] \<notin> fst ` set (map (series_chunks ?lib) (day_series env files d))"
    using kept(3) by (simp add: series_chunks_def image_image)
  let ?disk = "\<lparr>d_data = Some (f_data (u_fd u)), d_open = None, d_room = None\<rparr>"
  have "\<exists>r. createOneBlock env2 d ?disk dir = Some (Ok (Some r)) \<and>
    block_of ?lib (p2_ulid env2 d) (kept_series ?lib DefaultOptions (day_series env files d)) r"
    using u(2) day(3) uniq nonempty kept(1)
    by (intro createOneBlock_ok [OF second(1) es \<open>T d \<noteq> []\<close> _ _ table kept(2)]) simp_all
  then obtain r where r: "createOneBlock env2 d ?disk dir = Some (Ok (Some r))"
    "block_of ?lib (p2_ulid env2 d) (map (series_chunks ?lib) (day_series env files d)) r" unfolding kept(1) by blast
  then show ?thesis using u(1) block_of_day [OF files(1,3) day(2) r(2)] by blast
qed

section \<open>An example conversion\<close>

lemma run_converts: "converts run_env"
proof -
  have "archive_ok w" if "run_archives f = Some w" for f w
    using that by (auto simp: run_archives_def archive_ok_def split: if_splits)
  moreover have "pe_convert run_env = WhisperToMimirSamples (sort_key w_ts) (\<lambda>t. 1000 * uint t) run_archives"
    by (simp add: run_env_def)
  ultimately show ?thesis unfolding converts_def using sorts_by_sort_key by blast
qed

lemma run_named: "well_named (pe_c run_env) run_files"
proof -
  have "[] \<notin> set (split_at 0x2E (to_bytes ''p.a''))" "[] \<notin> set (split_at 0x2E (to_bytes ''p.b''))" by code_simp+
  then show ?thesis using run_name by (auto simp: well_named_def inj_on_def)
qed

lemma run_builder: "builder_ok (pe_labels run_env) map_of"
  using pair_lib_ok by (simp add: run_env_def)

lemma run_series:
  "day_series run_env run_files 1 = [record_series run_env (to_bytes ''p.a'') (run_block 1)]"
proof -
  have "filter (\<lambda>s. day_of_ms (s_ts s) = 1) (run_block 0 @ run_block 1) = run_block 1"
    by (simp add: run_block_def day_of_ms_def ms_per_day_def)
  then show ?thesis
    using run_name run_convert
    by (simp add: day_series_def file_series_def record_series_def List.map_filter_simps run_block_def)
qed

lemma run_total:
  "chunk_total (map (series_chunks store_lib) (day_series run_env run_files 1)) = 1"
  by (simp add: run_series record_series_def series_chunks_def run_block_def chunk_total_def chop_short samplesPerChunk_def)

text \<open>What the theorems say of the example: a block with one series for the second day.\<close>

lemma run_result:
  assumes "block_of store_lib ''B'' (map (series_chunks store_lib) (day_series run_env run_files 1)) r"
  shows "NumSeries (bm_stats (fst r)) = 1"
  using assms by (auto simp: block_of_def run_series)

section \<open>Properties\<close>

text \<open>
  C1. The conversion from end to end. A first pass with any number of threads, run in any
  interleaving on whisper files with different names, and then the second pass on the table of a day,
  give one block whose index holds exactly one series for every file that has samples on that day:
  its labels are the nodes of the file's name, its chunks hold the file's samples of that day in
  order, 120 in a chunk; the series are sorted by their labels; and the minimum time in the metadata
  lies on that day, so that a later run finds the day finished.
\<close>

theorem conversion_end_to_end:
  fixes env :: "('v, 'b) pass1_env" and env2 :: "('k, 'v, 'c, 'cw, 'k index_log) pass2_env"
  defines "env1 \<equiv> env\<lparr>pe_skippable := Map.empty\<rparr>"
  assumes files: "converts env" "well_named (pe_c env) files" "builder_ok (pe_labels env) view"
    and disks: "\<forall>d \<in> set (wc_dates (pe_c env)). absent (disk d)" "absent pdisk" "0 < wc_threads (pe_c env)"
    and run: "CommandPass1 env None disk pdisk resume files counts = Some (Ok (env1, s0))" "storable env1 files"
      "(pass1_step env1)\<^sup>*\<^sup>* s0 s" "all_finished s"
    and second: "pass2_ok room env2" "p2_codec env2 = pe_codec env" "wc_customLabels (p2_c env2) = []"
    and day: "d \<in> set (wc_dates (pe_c env))" "day_series env files d \<noteq> []"
      "chunk_total (map (series_chunks (p2_lib env2)) (day_series env files d)) \<le> room (p2_cw env2)"
  shows "\<exists>u r. fst (pass1_close s) d = Some u \<and>
    createOneBlock env2 d \<lparr>d_data = Some (f_data (u_fd u)), d_open = None, d_room = None\<rparr> dir = Some (Ok (Some r)) \<and>
    block_of (p2_lib env2) (p2_ulid env2 d) (map (series_chunks (p2_lib env2)) (day_series env files d)) r \<and>
    rounded (bm_min (fst r)) = d"
proof -
  obtain s1 where s1: "CommandPass1 env None disk pdisk resume files counts = Some (Ok (env1, s1))"
    "pass1_inv env1 files (\<lambda>d. []) [] (set (wc_dates (pe_c env))) True s1"
    using start_fresh [OF disks, of resume files counts] unfolding env1_def by metis
  then have "pass1_inv env1 files (\<lambda>d. []) [] (set (wc_dates (pe_c env))) True s" using pass1_steps_inv [OF run(3,2)] run(1) by simp
  then obtain T where "complete_tables env1 files (set (wc_dates (pe_c env))) s T" using finished_complete run(4) by blast
  then show ?thesis unfolding env1_def by (rule convert_table [OF files _ second day])
qed

theorem conversion_end_to_end_witness:
  "\<exists>s0 s u r. CommandPass1 run_env None (\<lambda>d. no_disk) no_disk False run_files NewProgress = Some (Ok (run_env, s0)) \<and>
    (pass1_step run_env)\<^sup>*\<^sup>* s0 s \<and> all_finished s \<and> fst (pass1_close s) 1 = Some u \<and>
    createOneBlock run_env2 1 \<lparr>d_data = Some (f_data (u_fd u)), d_open = None, d_room = None\<rparr> ''d'' = Some (Ok (Some r)) \<and>
    NumSeries (bm_stats (fst r)) = 1 \<and> rounded (bm_min (fst r)) = 1"
proof -
  obtain s0 where s0: "CommandPass1 run_env None (\<lambda>d. no_disk) no_disk False run_files NewProgress = Some (Ok (run_env, s0))"
    "pass1_inv run_env run_files (\<lambda>d. []) [] {0, 1} True s0" "st_workers s0 \<noteq> []" by (rule run_start)
  obtain s where s: "(pass1_step run_env)\<^sup>*\<^sup>* s0 s" "all_finished s" using pass1_reaches_end [OF run_storable s0(2,3)] by blast
  have "\<exists>u r. fst (pass1_close s) 1 = Some u \<and>
    createOneBlock run_env2 1 \<lparr>d_data = Some (f_data (u_fd u)), d_open = None, d_room = None\<rparr> ''d'' = Some (Ok (Some r)) \<and>
    block_of (p2_lib run_env2) (p2_ulid run_env2 1) (map (series_chunks (p2_lib run_env2)) (day_series run_env run_files 1)) r \<and>
    rounded (bm_min (fst r)) = 1"
    by (rule conversion_end_to_end [OF run_converts run_named run_builder _ _ _ _ _ _ s(2) run_env2_ok, where disk = "\<lambda>d. no_disk"
        and pdisk = no_disk and resume = False and counts = NewProgress and ?s0.0 = s0])
      (use s0(1) s(1) run_storable run_total in \<open>simp_all add: absent_def run_series store_room_def\<close>)
  then show ?thesis using s0(1) s run_result by (metis run_env2_simps(3,5))
qed

text \<open>
  C2. The same after a crash: the first pass is killed in any state, with a record cut short in any
  of its tables, before its value or so that the codec refuses what is there of the value, and resumed; the
  blocks made from the tables that the second run leaves hold exactly
  what the blocks of an undisturbed run hold.
\<close>

theorem conversion_survives_crash:
  fixes env :: "('v, 'b) pass1_env" and env2 :: "('k, 'v, 'c, 'cw, 'k index_log) pass2_env"
  defines "env1 \<equiv> env\<lparr>pe_skippable := Map.empty\<rparr>"
  assumes files: "converts env" "well_named (pe_c env) files" "builder_ok (pe_labels env) view"
    and disks: "\<forall>d \<in> set (wc_dates (pe_c env)). absent (disk d)" "absent pdisk" "0 < wc_threads (pe_c env)"
    and run: "CommandPass1 env None disk pdisk resume files counts = Some (Ok (env1, s0))" "storable env1 files"
      "(pass1_step env1)\<^sup>*\<^sup>* s0 s"
    and crash: "\<forall>d \<in> set (wc_dates (pe_c env)). \<exists>t. st_tables s d = Some t \<and> killed (pe_codec env) t (disk' d)"
      "killed_marks (st_progress s) pdisk'"
    and second: "pass2_ok room env2" "p2_codec env2 = pe_codec env" "wc_customLabels (p2_c env2) = []"
    and day: "d \<in> set (wc_dates (pe_c env))" "day_series env files d \<noteq> []"
      "chunk_total (map (series_chunks (p2_lib env2)) (day_series env files d)) \<le> room (p2_cw env2)"
  shows "\<exists>env' s2. CommandPass1 env None disk' pdisk' True files counts' = Some (Ok (env', s2)) \<and>
    (\<forall>s3. (pass1_step env')\<^sup>*\<^sup>* s2 s3 \<longrightarrow> all_finished s3 \<longrightarrow>
      (\<exists>u r. fst (pass1_close s3) d = Some u \<and>
        createOneBlock env2 d \<lparr>d_data = Some (f_data (u_fd u)), d_open = None, d_room = None\<rparr> dir = Some (Ok (Some r)) \<and>
        block_of (p2_lib env2) (p2_ulid env2 d) (map (series_chunks (p2_lib env2)) (day_series env files d)) r \<and>
        rounded (bm_min (fst r)) = d))"
proof -
  have inj: "inj_on (getMetricName (pe_c env)) (set files)" using files(2) by (simp add: well_named_def)
  obtain env' s2 where r: "CommandPass1 env None disk' pdisk' True files counts' = Some (Ok (env', s2))"
    "\<forall>s3. (pass1_step env')\<^sup>*\<^sup>* s2 s3 \<longrightarrow> \<not> st_down s3 \<and>
      (all_finished s3 \<longrightarrow> (\<exists>T. complete_tables env1 files (set (wc_dates (pe_c env))) s3 T))"
    using resumed_run [OF disks run(1,2) [unfolded env1_def] inj run(3) [unfolded env1_def] crash] unfolding env1_def by blast
  show ?thesis
    using r convert_table [OF files _ second day] unfolding env1_def by (intro exI [of _ env'] exI [of _ s2]) blast
qed

theorem conversion_survives_crash_witness:
  "\<exists>s0 s env' s2. CommandPass1 run_env None (\<lambda>d. no_disk) no_disk False run_files NewProgress = Some (Ok (run_env, s0)) \<and>
    pass1_step run_env s0 s \<and>
    CommandPass1 run_env None (run_left s) (run_left_marks s) True run_files NewProgress = Some (Ok (env', s2)) \<and>
    (\<forall>s3. (pass1_step env')\<^sup>*\<^sup>* s2 s3 \<longrightarrow> all_finished s3 \<longrightarrow>
      (\<exists>u r. fst (pass1_close s3) 1 = Some u \<and>
        createOneBlock run_env2 1 \<lparr>d_data = Some (f_data (u_fd u)), d_open = None, d_room = None\<rparr> ''d'' = Some (Ok (Some r)) \<and>
        NumSeries (bm_stats (fst r)) = 1 \<and> rounded (bm_min (fst r)) = 1))"
proof -
  obtain s0 s where s0: "CommandPass1 run_env None (\<lambda>d. no_disk) no_disk False run_files NewProgress = Some (Ok (run_env, s0))"
    and step: "pass1_step run_env s0 s"
    and left: "\<forall>d \<in> {0, 1}. \<exists>t. st_tables s d = Some t \<and> killed run_codec t (run_left s d)"
    and marks: "killed_marks (st_progress s) (run_left_marks s)" by (rule run_killed)
  have "\<exists>env' s2. CommandPass1 run_env None (run_left s) (run_left_marks s) True run_files NewProgress = Some (Ok (env', s2)) \<and>
    (\<forall>s3. (pass1_step env')\<^sup>*\<^sup>* s2 s3 \<longrightarrow> all_finished s3 \<longrightarrow>
      (\<exists>u r. fst (pass1_close s3) 1 = Some u \<and>
        createOneBlock run_env2 1 \<lparr>d_data = Some (f_data (u_fd u)), d_open = None, d_room = None\<rparr> ''d'' = Some (Ok (Some r)) \<and>
        block_of (p2_lib run_env2) (p2_ulid run_env2 1) (map (series_chunks (p2_lib run_env2)) (day_series run_env run_files 1)) r \<and>
        rounded (bm_min (fst r)) = 1))"
    by (rule conversion_survives_crash [OF run_converts run_named run_builder _ _ _ _ _ _ _ marks run_env2_ok, where disk = "\<lambda>d. no_disk"
        and pdisk = no_disk and resume = False and counts = NewProgress and ?s0.0 = s0])
      (use s0 step left run_storable run_total in \<open>simp_all add: absent_def run_series store_room_def r_into_rtranclp\<close>)
  then show ?thesis using s0 step run_result unfolding run_env2_simps by blast
qed

end
