(* ===== verification/Command.thy ===== *)
theory Command
  imports Pass2_Correct
begin

text \<open>
  \<^verbatim>\<open>cmd/mimir-whisper-converter/main.go\<close>: the checks of the flags, the list of dates, the labels that
  the user adds, and which command is run with what. Standard library: \<^verbatim>\<open>time.Parse\<close> of a date and
  the reader of \<^verbatim>\<open>encoding/csv\<close> are written out; compiling a regular expression and
  \<^verbatim>\<open>labels.FromStrings\<close> are parameters.
\<close>

section \<open>Dates\<close>

definition is_digit :: "char \<Rightarrow> bool" where
  "is_digit c \<longleftrightarrow> c \<in> set ''0123456789''"

definition daysIn :: "int \<Rightarrow> int \<Rightarrow> int" where
  "daysIn m y = days_before ! nat m - days_before ! nat (m - 1) + (if m = 2 \<and> is_leap y then 1 else 0)"

text \<open>\<^verbatim>\<open>time.Parse("2006-01-02", s)\<close>, as a day number.\<close>

definition parse_date :: "string \<Rightarrow> int option" where
  "parse_date s =
     (let year = take 4 s; month = take 2 (drop 5 s); day = drop 8 s
      in if length s = 10 \<and> s ! 4 = CHR ''-'' \<and> s ! 7 = CHR ''-'' \<and> list_all is_digit (year @ month @ day)
         then (let y = int (undec year); m = int (undec month); d = int (undec day)
               in if 1 \<le> m \<and> m \<le> 12 \<and> 1 \<le> d \<and> d \<le> daysIn m y then Some (day_number (y, m, d)) else None)
         else None)"

text \<open>The loop over the dates; a step adds a day.\<close>

function date_loop :: "int \<Rightarrow> int \<Rightarrow> int list" where
  "date_loop d endDate = (if endDate < d then [] else d # date_loop (d + 1) endDate)"
  by pat_completeness auto
termination by (relation "measure (\<lambda>(d, e). nat (e + 1 - d))") auto

declare date_loop.simps [simp del]

section \<open>Custom labels\<close>

text \<open>
  The reader of \<^verbatim>\<open>encoding/csv\<close> as it is made: lines with their ends normalized, fields separated by
  commas, quotes as in RFC 4180, empty lines skipped, all records of the same length. An error is
  \<open>None\<close>.
\<close>

definition csv_lines :: "string \<Rightarrow> string list" where
  "csv_lines s =
     (let ps = split_at newline s
      in map (\<lambda>p. dropCR p @ [newline]) (butlast ps) @ (if last ps = [] then [] else [dropCR (last ps)]))"

datatype csv_mode = Start | Plain | Quoted

text \<open>The rest of the line, the lines after it, the field so far and the fields of the record.\<close>

function csv_record :: "csv_mode \<Rightarrow> string \<Rightarrow> string list \<Rightarrow> string \<Rightarrow> string list \<Rightarrow> (string list \<times> string list) option" where
  "csv_record Start line ls field flds =
     (case line of
        c # cs \<Rightarrow> if c = CHR 0x22 then csv_record Quoted cs ls [] flds else csv_record Plain line ls [] flds
      | [] \<Rightarrow> csv_record Plain [] ls [] flds)"
| "csv_record Plain line ls field flds =
     (case line of
        [] \<Rightarrow> Some (flds @ [field], ls)
      | c # cs \<Rightarrow>
          if c = CHR '','' then csv_record Start cs ls [] (flds @ [field])
          else if c = newline \<and> cs = [] then Some (flds @ [field], ls)
          else if c = CHR 0x22 then None
          else csv_record Plain cs ls (field @ [c]) flds)"
| "csv_record Quoted line ls field flds =
     (case line of
        [] \<Rightarrow> (case ls of [] \<Rightarrow> None | l # ls \<Rightarrow> csv_record Quoted l ls field flds)
      | c # cs \<Rightarrow>
          if c \<noteq> CHR 0x22 then csv_record Quoted cs ls (field @ [c]) flds
          else if cs = [] \<or> cs = [newline] then Some (flds @ [field], ls)
          else if hd cs = CHR 0x22 then csv_record Quoted (tl cs) ls (field @ [CHR 0x22]) flds
          else if hd cs = CHR '','' then csv_record Start (tl cs) ls [] (flds @ [field])
          else None)"
  by pat_completeness auto
termination
  by (relation "measures [\<lambda>(m, line, ls, field, flds). length line + (\<Sum>l \<leftarrow> ls. Suc (length l)),
      \<lambda>(m, line, ls, field, flds). if m = Start then 1 else 0]")
    (auto split: list.splits)

declare csv_record.simps [simp del]

lemma csv_record_shrinks:
  "csv_record m line ls field flds = Some (r, ls') \<Longrightarrow> (\<Sum>l \<leftarrow> ls'. Suc (length l)) \<le> (\<Sum>l \<leftarrow> ls. Suc (length l))"
proof (induction m line ls field flds rule: csv_record.induct)
  case (1 line ls field flds)
  then show ?case by (auto simp: csv_record.simps(1) [of line] split: list.splits if_splits)
next
  case (2 line ls field flds)
  then show ?case by (auto simp: csv_record.simps(2) [of line] split: list.splits if_splits)
next
  case (3 line ls field flds)
  then show ?case by (fastforce simp: csv_record.simps(3) [of line] split: list.splits if_splits)
qed

function csv_read_all :: "string list \<Rightarrow> nat option \<Rightarrow> string list option" where
  "csv_read_all [] n = Some []"
| "csv_read_all (l # ls) n =
     (if l = [] \<or> l = [newline] then csv_read_all ls n
      else
        (case csv_record Start l ls [] [] of
           None \<Rightarrow> None
         | Some (flds, ls') \<Rightarrow>
             if n \<noteq> None \<and> n \<noteq> Some (length flds) then None
             else map_option (\<lambda>rest. flds @ rest) (csv_read_all ls' (Some (length flds)))))"
  by pat_completeness auto
termination
  by (relation "measure (\<lambda>(ls, n). \<Sum>l \<leftarrow> ls. Suc (length l))") (auto dest!: csv_record_shrinks simp: less_Suc_eq_le intro: trans_le_add2)

text \<open>An error of the reader panics, and so does \<open>fromStrings\<close> on an odd number of strings.\<close>

definition ParseCustomLabels :: "(string list \<Rightarrow> labels res) \<Rightarrow> string \<Rightarrow> labels res" where
  "ParseCustomLabels fromStrings arg =
     (case csv_read_all (csv_lines arg) None of
        None \<Rightarrow> Panic
      | Some labelStrings \<Rightarrow> fromStrings labelStrings)"

section \<open>The command\<close>

record flags =
  fl_namePrefix :: string
  fl_whisperDirectory :: string
  fl_intermediateDirectory :: string
  fl_blocksDirectory :: string
  fl_fileFilterPattern :: string
  fl_threads :: int
  fl_workerCount :: int
  fl_workerID :: int
  fl_resumeIntermediate :: bool
  fl_resumeBlocks :: bool
  fl_targetWhisperFiles :: string
  fl_customLabels :: string
  fl_version :: bool
  fl_verbose :: bool
  fl_debug :: bool
  fl_quiet :: bool
  fl_startDate :: string
  fl_endDate :: string

definition default_flags :: flags where
  "default_flags =
     \<lparr>fl_namePrefix = [], fl_whisperDirectory = ''/opt/graphite/storage/whisper'',
      fl_intermediateDirectory = ''/tmp/intermediate/'', fl_blocksDirectory = ''/tmp/blocks/data/'',
      fl_fileFilterPattern = ''.+'' @ [CHR 0x5C] @ ''.wsp$'', fl_threads = 10, fl_workerCount = 1, fl_workerID = 0,
      fl_resumeIntermediate = True, fl_resumeBlocks = True, fl_targetWhisperFiles = [], fl_customLabels = [],
      fl_version = False, fl_verbose = False, fl_debug = False, fl_quiet = False, fl_startDate = [], fl_endDate = []\<rparr>"

datatype log_level = AllowNone | AllowInfo | AllowDebug | AllowWarn

definition levelOption :: "flags \<Rightarrow> log_level" where
  "levelOption f =
     (if fl_quiet f then AllowNone else if fl_verbose f then AllowInfo else if fl_debug f then AllowDebug else AllowWarn)"

definition DATERANGE :: string where "DATERANGE = ''daterange''"
definition FILELIST :: string where "FILELIST = ''filelist''"
definition PASS1 :: string where "PASS1 = ''pass1''"
definition PASS2 :: string where "PASS2 = ''pass2''"

text \<open>What becomes of a command line: an exit with a code, a panic, or the run of a command.\<close>

datatype plan =
    Exit nat
  | Crash
  | RunDateRange WhisperConverter string
  | RunFileList WhisperConverter string
  | RunPass1 WhisperConverter string string bool
  | RunPass2 WhisperConverter string string bool

text \<open>The dates of a run, or \<open>None\<close> for the exit.\<close>

definition main_dates :: "flags \<Rightarrow> string \<Rightarrow> int list option" where
  "main_dates f command =
     (if command = DATERANGE \<or> command = FILELIST then Some []
      else if fl_startDate f = [] then None
      else case parse_date (fl_startDate f) of
        None \<Rightarrow> None
      | Some startDate \<Rightarrow>
          (case parse_date (fl_endDate f) of
             None \<Rightarrow> None
           | Some endDate \<Rightarrow> if endDate < startDate then None else Some (date_loop startDate endDate)))"

text \<open>\<open>compile\<close> is \<^verbatim>\<open>regexp.MustCompile\<close>: \<open>None\<close> for a pattern that panics.\<close>

definition main_plan ::
    "(string \<Rightarrow> (string \<Rightarrow> bool) option) \<Rightarrow> (string list \<Rightarrow> labels res) \<Rightarrow> flags \<Rightarrow> string list \<Rightarrow> plan" where
  "main_plan compile fromStrings f args =
     (if fl_version f then Exit 0
      else if length args \<noteq> 1 then Exit 1
      else if fl_workerCount f \<le> fl_workerID f then Exit 1
      else
        let command = hd args
        in if fl_whisperDirectory f = [] then Exit 1
           else
             (case main_dates f command of
                None \<Rightarrow> Exit 1
              | Some dates \<Rightarrow>
                  (case compile (fl_fileFilterPattern f) of
                     None \<Rightarrow> Crash
                   | Some fileFilter \<Rightarrow>
                       (case ParseCustomLabels fromStrings (fl_customLabels f) of
                          Ok customLabels \<Rightarrow>
                            let converter = fst (NewWhisperConverter (fl_namePrefix f) (fl_whisperDirectory f) fileFilter
                                  (fl_threads f) (fl_workerCount f) (fl_workerID f) customLabels dates)
                            in if command = DATERANGE then RunDateRange converter (fl_targetWhisperFiles f)
                               else if command = FILELIST then RunFileList converter (fl_targetWhisperFiles f)
                               else if command = PASS1 then
                                 RunPass1 converter (fl_targetWhisperFiles f) (fl_intermediateDirectory f) (fl_resumeIntermediate f)
                               else if command = PASS2 then
                                 RunPass2 converter (fl_intermediateDirectory f) (fl_blocksDirectory f) (fl_resumeBlocks f)
                               else Exit 1
                        | _ \<Rightarrow> Crash))))"

text \<open>The exit code after the command: an error of the file list or of a pass is reported by 1.\<close>

definition exit_code :: "go_err option \<Rightarrow> nat" where
  "exit_code err = (case err of Some e \<Rightarrow> 1 | None \<Rightarrow> 0)"

section \<open>Dates are read back\<close>

lemma month_day_valid:
  assumes "0 \<le> r" and "r \<le> 364 \<or> leap \<and> r = 365" and "month_day leap r = (m, d)"
  shows "1 \<le> m \<and> m \<le> 12 \<and> 1 \<le> d \<and>
    d \<le> days_before ! nat m - days_before ! nat (m - 1) + (if m = 2 \<and> leap then 1 else 0)"
proof (cases "leap \<and> r = 59")
  case True
  then have "m = 2" "d = 29" using assms(3) by (simp_all add: month_day_def)
  then show ?thesis using True by (simp add: days_before_def)
next
  case False
  define day where "day = (if leap \<and> 59 < r then r - 1 else r)"
  have day: "0 \<le> day" "day \<le> 364" using assms(1,2) by (auto simp: day_def)
  define k where "k = nat (day div 31)"
  have "k \<le> 11" using day by (simp add: k_def)
  then have "k = 0 \<or> k = 1 \<or> k = 2 \<or> k = 3 \<or> k = 4 \<or> k = 5 \<or> k = 6 \<or> k = 7 \<or> k = 8 \<or> k = 9 \<or> k = 10 \<or> k = 11"
    by presburger
  moreover have "31 * int k \<le> day" "day < 31 * int k + 31" using day by (simp_all add: k_def) presburger+
  moreover have "month_day leap r = (if days_before ! Suc k \<le> day then (int k + 2, day - days_before ! Suc k + 1)
      else (int k + 1, day - days_before ! k + 1))"
    unfolding month_day_def Let_def day_def [symmetric] k_def [symmetric] by (simp only: False if_False)
  ultimately show ?thesis
    using day assms(3) by (elim disjE) (auto simp: days_before_def split: if_splits)
qed

lemma civil_date_valid:
  assumes "civil_date z = (y, m, d)"
  shows "1 \<le> m \<and> m \<le> 12 \<and> 1 \<le> d \<and> d \<le> daysIn m y \<and> d \<le> 31"
proof -
  obtain a b c e r where z: "0 \<le> b" "b \<le> 3" "0 \<le> c" "c \<le> 24" "0 \<le> e" "e \<le> 3" "0 \<le> r" "r \<le> 365"
    "r = 365 \<longrightarrow> e = 3 \<and> (c = 24 \<longrightarrow> b = 3)" "year_yday z = (400 * a + 100 * b + 4 * c + e + 1, r)"
    by (rule year_yday_parts) blast
  have y: "y = 400 * a + 100 * b + 4 * c + e + 1" "month_day (is_leap y) r = (m, d)"
    using assms z(10) by (auto simp: civil_date_def)
  have "is_leap y" if "r = 365"
    using leap_last_day [of c b r e a] that z y(1) by simp
  then have "r \<le> 364 \<or> is_leap y \<and> r = 365" using z(8) by auto
  then have v: "1 \<le> m \<and> m \<le> 12 \<and> 1 \<le> d \<and> d \<le> daysIn m y"
    unfolding daysIn_def using month_day_valid [OF z(7) _ y(2)] by blast
  moreover have "daysIn m y \<le> 31"
  proof -
    have "m = 1 \<or> m = 2 \<or> m = 3 \<or> m = 4 \<or> m = 5 \<or> m = 6 \<or> m = 7 \<or> m = 8 \<or> m = 9 \<or> m = 10 \<or> m = 11 \<or> m = 12"
      using v by presburger
    then show ?thesis by (elim disjE) (simp_all add: daysIn_def days_before_def)
  qed
  ultimately show ?thesis by simp
qed

lemma dec_digits: "list_all is_digit (dec n)"
proof (induction n rule: dec.induct)
  case (1 n)
  have "list_all (\<lambda>d. is_digit (char_of (48 + d))) [0..<10]" by code_simp
  then have "is_digit (char_of (48 + d))" if "d < 10" for d :: nat using that by (simp add: list_all_iff)
  then show ?case using 1 by (simp add: dec.simps [of n])
qed

lemma length_dec: "n < 10 ^ Suc k \<Longrightarrow> length (dec n) \<le> Suc k"
proof (induction k arbitrary: n)
  case 0
  then show ?case by (simp add: dec.simps [of n])
next
  case (Suc k)
  then have "n div 10 < 10 ^ Suc k" by (simp add: less_mult_imp_div_less mult.commute)
  with Suc.IH show ?case by (fastforce simp: dec.simps [of n])
qed

lemma appendInt_digits:
  assumes "0 \<le> x" and "x < 10 ^ Suc k"
  shows "length (appendInt x (Suc k)) = Suc k \<and> list_all is_digit (appendInt x (Suc k)) \<and> int (undec (appendInt x (Suc k))) = x"
proof -
  have "nat x < 10 ^ Suc k" using assms by (simp add: nat_less_iff)
  then have "length (dec (nat x)) \<le> Suc k" by (rule length_dec)
  moreover have "list_all is_digit (replicate n (CHR ''0''))" for n
    by (induction n) (simp_all add: is_digit_def)
  ultimately show ?thesis using assms(1) dec_digits [of "nat x"] by (simp add: appendInt_def undec_zeros Let_def)
qed

lemma parse_format_date:
  assumes "0 \<le> fst (civil_date z)" and "fst (civil_date z) \<le> 9999"
  shows "parse_date (format_date (civil_date z)) = Some z"
proof -
  obtain y m d where c: "civil_date z = (y, m, d)" by (metis prod_cases3)
  note v = civil_date_valid [OF c]
  have "length (appendInt y 4) = 4 \<and> list_all is_digit (appendInt y 4) \<and> int (undec (appendInt y 4)) = y"
    using appendInt_digits [of y 3] assms c by (simp add: eval_nat_numeral)
  moreover have "length (appendInt m 2) = 2 \<and> list_all is_digit (appendInt m 2) \<and> int (undec (appendInt m 2)) = m"
    "length (appendInt d 2) = 2 \<and> list_all is_digit (appendInt d 2) \<and> int (undec (appendInt d 2)) = d"
    using appendInt_digits [of m 1] appendInt_digits [of d 1] v by (simp_all add: eval_nat_numeral)
  ultimately obtain ys ms ds where ys: "appendInt y 4 = ys" "length ys = 4" "list_all is_digit ys" "int (undec ys) = y"
    and ms: "appendInt m 2 = ms" "length ms = 2" "list_all is_digit ms" "int (undec ms) = m"
    and ds: "appendInt d 2 = ds" "length ds = 2" "list_all is_digit ds" "int (undec ds) = d" by blast
  have f: "format_date (civil_date z) = ys @ ''-'' @ ms @ ''-'' @ ds" by (simp add: format_date_def c ys(1) ms(1) ds(1))
  have parts: "take 4 (ys @ ''-'' @ ms @ ''-'' @ ds) = ys" "take 2 (drop 5 (ys @ ''-'' @ ms @ ''-'' @ ds)) = ms"
    "drop 8 (ys @ ''-'' @ ms @ ''-'' @ ds) = ds" "(ys @ ''-'' @ ms @ ''-'' @ ds) ! 4 = CHR ''-''"
    "(ys @ ''-'' @ ms @ ''-'' @ ds) ! 7 = CHR ''-''" "length (ys @ ''-'' @ ms @ ''-'' @ ds) = 10"
    using ys(2) ms(2) ds(2) by (simp_all add: nth_append)
  have "day_number (y, m, d) = z" using day_number_civil_date [of z] by (simp add: c)
  then show ?thesis unfolding f parse_date_def parts Let_def using v ys(3,4) ms(3,4) ds(3,4) by simp
qed

lemma date_loop_upto: "date_loop d e = [d..e]"
  by (induction d e rule: date_loop.induct) (simp add: date_loop.simps upto.simps)

section \<open>Labels are read back\<close>

text \<open>Fields written as comma separated values: quoted unless they are plain.\<close>

definition plain_field :: "string \<Rightarrow> bool" where
  "plain_field s \<longleftrightarrow> set s \<inter> {CHR '','', CHR 0x22, CHR 0x0D, newline} = {}"

definition csv_quoted :: "string \<Rightarrow> string" where
  "csv_quoted s = concat (map (\<lambda>c. if c = CHR 0x22 then [c, c] else [c]) s)"

definition csv_field :: "string \<Rightarrow> string" where
  "csv_field s = (if plain_field s then s else CHR 0x22 # csv_quoted s @ [CHR 0x22])"

lemma csv_plain:
  assumes "plain_field s"
  shows "csv_record Plain (s @ rest) ls field flds = csv_record Plain rest ls (field @ s) flds"
  using assms by (induction s arbitrary: field) (auto simp: csv_record.simps(2) [of "_ # _"] plain_field_def)

lemma csv_quoted_read:
  "csv_record Quoted (csv_quoted s @ rest) ls field flds = csv_record Quoted rest ls (field @ s) flds"
proof (induction s arbitrary: field)
  case (Cons c s)
  then show ?case
    by (cases "c = CHR 0x22") (simp_all add: csv_record.simps(3) [of "_ # _"] csv_quoted_def)
qed (simp add: csv_quoted_def)

lemma csv_field_start:
  assumes "rest = [] \<or> (\<exists>r. rest = CHR '','' # r)"
  shows "csv_record Start (csv_field s @ rest) ls [] flds =
    (case rest of [] \<Rightarrow> Some (flds @ [s], ls) | c # r \<Rightarrow> csv_record Start r ls [] (flds @ [s]))"
proof (cases "plain_field s")
  case True
  have "csv_record Start (s @ rest) ls [] flds = csv_record Plain (s @ rest) ls [] flds"
    using True assms by (cases s) (auto simp: csv_record.simps(1) [of "_ # _"] csv_record.simps(1) [of "[]"] plain_field_def)
  also have "\<dots> = csv_record Plain rest ls s flds" using csv_plain [OF True, of rest ls "[]"] by simp
  finally show ?thesis using True assms
    by (auto simp: csv_field_def csv_record.simps(2) [of "_ # _"] csv_record.simps(2) [of "[]"])
next
  case False
  have "csv_record Start (csv_field s @ rest) ls [] flds = csv_record Quoted (csv_quoted s @ CHR 0x22 # rest) ls [] flds"
    using False by (simp add: csv_field_def csv_record.simps(1) [of "_ # _"])
  also have "\<dots> = csv_record Quoted (CHR 0x22 # rest) ls s flds" by (simp add: csv_quoted_read)
  finally show ?thesis using assms by (auto simp: csv_record.simps(3) [of "_ # _"])
qed

lemma csv_record_join:
  assumes "fs \<noteq> []"
  shows "csv_record Start (join '','' (map csv_field fs)) ls [] flds = Some (flds @ fs, ls)"
  using assms
proof (induction fs arbitrary: flds)
  case (Cons f fs)
  then show ?case
  proof (cases fs)
    case Nil
    then show ?thesis using csv_field_start [of "[]" f ls flds] by simp
  next
    case (Cons g gs)
    have j: "join '','' (map csv_field (f # fs)) = csv_field f @ CHR '','' # join '','' (map csv_field fs)"
      by (simp add: Cons)
    show ?thesis using Cons.IH [of "flds @ [f]"] Cons unfolding j by (simp add: csv_field_start)
  qed
qed simp

lemma csv_join_no_CR:
  "join '','' (map csv_field fs) \<noteq> [] \<Longrightarrow> last (join '','' (map csv_field fs)) \<noteq> CHR 0x0D"
proof (induction fs)
  case (Cons f fs)
  have f: "last (csv_field f) \<noteq> CHR 0x0D" if "csv_field f \<noteq> []"
  proof (cases "plain_field f")
    case True
    then have "last f \<in> set f" using that by (simp add: csv_field_def)
    then show ?thesis using True by (auto simp: csv_field_def plain_field_def)
  qed (simp add: csv_field_def)
  show ?case
  proof (cases fs)
    case Nil
    then show ?thesis using Cons.prems f by simp
  next
    case (Cons g gs)
    have "join '','' (map csv_field (f # fs)) = csv_field f @ CHR '','' # join '','' (map csv_field fs)"
      by (simp add: Cons)
    then show ?thesis using Cons.IH by simp
  qed
qed simp

lemma newline_csv_join:
  assumes "\<forall>f \<in> set fs. newline \<notin> set f"
  shows "newline \<notin> set (join '','' (map csv_field fs))"
proof -
  have "newline \<notin> set (csv_field f)" if "newline \<notin> set f" for f
    using that by (auto simp: csv_field_def csv_quoted_def split: if_splits)
  then show ?thesis using assms
  proof (induction fs)
    case (Cons f fs)
    then show ?case by (cases fs) simp_all
  qed simp
qed

lemma split_at_single: "sep \<notin> set s \<Longrightarrow> split_at sep s = [s]"
  by (induction s) auto

section \<open>Properties\<close>

text \<open>
  C27. The flags that \<^verbatim>\<open>daterange\<close> prints are read back by the passes: for timestamps of the years 0 to
  9999 the output names a start and an end date, and a pass that is given them runs over every day
  from that of the earliest to that of the latest timestamp, once and in order.
\<close>

theorem daterange_feeds_passes:
  assumes "arrived \<noteq> []" and "\<forall>t \<in> set arrived. MinInt64 < t \<and> t < MaxInt64"
    and "\<forall>t \<in> set arrived. 0 \<le> fst (civil_date (day_of_ms t)) \<and> fst (civil_date (day_of_ms t)) \<le> 9999"
    and "command \<noteq> DATERANGE" and "command \<noteq> FILELIST"
  shows "\<exists>startDate endDate.
    collectTimestamps arrived = ''--start-date '' @ startDate @ '' --end-date '' @ endDate @ '' '' @ [newline] \<and>
    main_dates (f\<lparr>fl_startDate := startDate, fl_endDate := endDate\<rparr>) command =
      Some [day_of_ms (Min (set arrived))..day_of_ms (Max (set arrived))]"
proof -
  let ?lo = "Min (set arrived)" and ?hi = "Max (set arrived)"
  have T: "finite (set arrived)" "set arrived \<noteq> {}" using assms(1) by simp_all
  have mem: "?lo \<in> set arrived" "?hi \<in> set arrived" using T by simp_all
  have lo: "foldl min_step MaxInt64 arrived = ?lo"
    using foldl_min [of "\<lambda>x. x" MaxInt64 arrived] Min_covered [OF T subset_refl, of MaxInt64] assms(2) by auto
  have hi: "foldl max_step MinInt64 arrived = ?hi"
    using foldl_max [of "\<lambda>x. x" MinInt64 arrived] Max_covered [OF T subset_refl, of MinInt64] assms(2) by auto
  let ?s = "format_date (civil_date (day_of_ms ?lo))" and ?e = "format_date (civil_date (day_of_ms ?hi))"
  have s: "parse_date ?s = Some (day_of_ms ?lo)" and e: "parse_date ?e = Some (day_of_ms ?hi)"
    using assms(3) mem by (simp_all add: parse_format_date)
  have "?s \<noteq> []" using s by (auto simp: parse_date_def)
  moreover have "day_of_ms ?lo \<le> day_of_ms ?hi"
    using T by (auto simp: day_of_ms_def ms_per_day_def intro!: zdiv_mono1)
  ultimately have "main_dates (f\<lparr>fl_startDate := ?s, fl_endDate := ?e\<rparr>) command = Some [day_of_ms ?lo..day_of_ms ?hi]"
    using assms(4,5) s e by (simp add: main_dates_def date_loop_upto)
  moreover have "?lo \<noteq> MaxInt64" "?hi \<noteq> MinInt64" using mem assms(2) by auto
  then have "collectTimestamps arrived = ''--start-date '' @ ?s @ '' --end-date '' @ ?e @ '' '' @ [newline]"
    by (simp add: collectTimestamps_def print_range_def lo hi)
  ultimately show ?thesis by blast
qed

theorem daterange_feeds_passes_witness:
  "\<exists>startDate endDate.
    collectTimestamps [172800000, 3600000] = ''--start-date '' @ startDate @ '' --end-date '' @ endDate @ '' '' @ [newline] \<and>
    main_dates (default_flags\<lparr>fl_startDate := startDate, fl_endDate := endDate\<rparr>) PASS1 = Some [0, 1, 2]"
proof -
  have d: "day_of_ms 172800000 = 2" "day_of_ms 3600000 = 0" by code_simp+
  have c: "civil_date 2 = (1970, 1, 3)" "civil_date 0 = (1970, 1, 1)" by code_simp+
  have u: "[0..2 :: int] = [0, 1, 2]" by code_simp
  have "PASS1 \<noteq> DATERANGE" "PASS1 \<noteq> FILELIST" by (simp_all add: PASS1_def DATERANGE_def FILELIST_def)
  with daterange_feeds_passes [of "[172800000, 3600000]" PASS1 default_flags] show ?thesis
    by (simp add: d c u MinInt64_def MaxInt64_def)
qed

text \<open>
  What a pass is run with has been checked: the worker's number is below the number of workers,
  the directory of the whisper files is named, and the dates are consecutive days, at least one.
  Nothing is checked about a number of a worker below 0.
\<close>

theorem passes_run_checked:
  assumes "main_plan compile fromStrings f args = RunPass1 c target dir ow \<or>
    main_plan compile fromStrings f args = RunPass2 c dir blocks ow"
  shows "wc_workerID c < wc_workerCount c \<and> wc_whisperDirectory c \<noteq> [] \<and>
    (\<exists>lo hi. lo \<le> hi \<and> wc_dates c = [lo..hi])"
proof -
  have ne: "DATERANGE \<noteq> PASS1" "FILELIST \<noteq> PASS1" "DATERANGE \<noteq> PASS2" "FILELIST \<noteq> PASS2"
    by (simp_all add: DATERANGE_def FILELIST_def PASS1_def PASS2_def)
  have "hd args = PASS1 \<or> hd args = PASS2" and w: "fl_workerID f < fl_workerCount f" "fl_whisperDirectory f \<noteq> []"
    and p: "\<exists>dates filt labels. main_dates f (hd args) = Some dates \<and>
      c = fst (NewWhisperConverter (fl_namePrefix f) (fl_whisperDirectory f) filt (fl_threads f) (fl_workerCount f) (fl_workerID f) labels dates)"
    using assms by (auto simp: main_plan_def Let_def split: if_splits option.splits res.splits)
  then have cmd: "hd args \<noteq> DATERANGE" "hd args \<noteq> FILELIST" using ne by auto
  obtain dates filt labels where d: "main_dates f (hd args) = Some dates"
    "c = fst (NewWhisperConverter (fl_namePrefix f) (fl_whisperDirectory f) filt (fl_threads f) (fl_workerCount f) (fl_workerID f) labels dates)"
    using p by blast
  have "\<exists>lo hi. lo \<le> hi \<and> dates = [lo..hi]"
    using d(1) cmd by (auto simp: main_dates_def date_loop_upto not_less split: if_splits option.splits)
  then show ?thesis using d(2) w by (simp add: NewWhisperConverter_def)
qed

theorem passes_run_checked_witness:
  "\<exists>c. main_plan (\<lambda>p. Some (\<lambda>f. True)) (\<lambda>fs. Ok [])
      (default_flags\<lparr>fl_startDate := ''2024-02-28'', fl_endDate := ''2024-03-01''\<rparr>) [PASS1] =
        RunPass1 c [] ''/tmp/intermediate/'' True \<and>
    (\<exists>lo hi. lo \<le> hi \<and> wc_dates c = [lo..hi])"
proof -
  let ?f = "default_flags\<lparr>fl_startDate := ''2024-02-28'', fl_endDate := ''2024-03-01''\<rparr>"
  have d: "main_dates ?f PASS1 = Some [19781, 19782, 19783]"
    unfolding main_dates_def date_loop_upto by code_simp
  have l: "ParseCustomLabels (\<lambda>fs. Ok []) [] = Ok []" by (simp add: ParseCustomLabels_def csv_lines_def)
  obtain c where c: "main_plan (\<lambda>p. Some (\<lambda>f. True)) (\<lambda>fs. Ok []) ?f [PASS1] = RunPass1 c [] ''/tmp/intermediate/'' True"
    using d l by (simp add: main_plan_def default_flags_def PASS1_def DATERANGE_def FILELIST_def)
  from passes_run_checked [of "\<lambda>p. Some (\<lambda>f. True)" "\<lambda>fs. Ok []" ?f "[PASS1]" c "[]" "''/tmp/intermediate/''" True "[]", OF disjI1 [OF this]]
  show ?thesis using c by blast
qed

text \<open>
  Custom labels written as comma separated values, with quotes around the fields that need them,
  are read back exactly, as long as no field has a line break.
\<close>

theorem custom_labels_roundtrip:
  assumes "\<forall>f \<in> set fs. newline \<notin> set f" and "fs \<noteq> [[]]"
  shows "ParseCustomLabels fromStrings (join '','' (map csv_field fs)) = fromStrings fs"
proof (cases "fs = []")
  case True
  then show ?thesis by (simp add: ParseCustomLabels_def csv_lines_def)
next
  case False
  let ?arg = "join '','' (map csv_field fs)"
  have ne: "?arg \<noteq> []"
  proof (cases fs)
    case (Cons f gs)
    then show ?thesis using assms(2) by (cases gs) (auto simp: csv_field_def)
  qed (simp add: False)
  have nl: "newline \<notin> set ?arg" using assms(1) by (rule newline_csv_join)
  have "csv_lines ?arg = [?arg]"
    using ne csv_join_no_CR [OF ne] by (simp add: csv_lines_def split_at_single [OF nl] dropCR_def)
  moreover have "?arg \<noteq> [newline]" using nl by auto
  ultimately show ?thesis
    using ne csv_record_join [OF False, of "[]" "[]"] by (simp add: ParseCustomLabels_def)
qed

theorem custom_labels_roundtrip_witness:
  "ParseCustomLabels (\<lambda>fs. Ok [Label (to_bytes (hd fs)) (to_bytes (fs ! 1))]) ''archive,\"old, \"\"EU\"\"\"'' =
    Ok [Label (to_bytes ''archive'') (to_bytes ''old, \"EU\"'')]"
proof -
  have "join '','' (map csv_field [''archive'', ''old, \"EU\"'']) = ''archive,\"old, \"\"EU\"\"\"''" by code_simp
  with custom_labels_roundtrip [of "[''archive'', ''old, \"EU\"'']" "\<lambda>fs. Ok [Label (to_bytes (hd fs)) (to_bytes (fs ! 1))]"]
  show ?thesis by simp
qed

text \<open>
  C28. The flag \<^verbatim>\<open>resume-blocks\<close> does the opposite of what it says: it is passed on as the request to
  overwrite. With the flag set, as it is by default, a second pass takes every date again, whatever
  blocks are finished; without it, the finished dates are skipped.
\<close>

theorem resume_blocks_inverted:
  assumes "main_plan compile fromStrings f [PASS2] = RunPass2 c dir blocks ow"
    and "fl_workerCount f = 1" and "fl_workerID f = 0"
    and "\<forall>d \<in> set (wc_dates c). d_data (disk d) \<noteq> None"
  shows "\<exists>q. getIntermediateListIntoChan c walked readMeta ow disk p =
    Some (Ok (filter (\<lambda>d. fl_resumeBlocks f \<or> d \<notin> GetFinishedBlockDates walked readMeta) (wc_dates c)), q)"
proof -
  have "PASS2 \<noteq> DATERANGE" "PASS2 \<noteq> FILELIST" "PASS2 \<noteq> PASS1"
    by (simp_all add: DATERANGE_def FILELIST_def PASS1_def PASS2_def)
  then have ow: "ow = fl_resumeBlocks f" and c: "wc_workerCount c = 1" "wc_workerID c = 0"
    using assms(1-3) by (auto simp: main_plan_def Let_def NewWhisperConverter_def split: if_splits option.splits res.splits)
  let ?days = "filter (\<lambda>d. d \<notin> finished_days ow walked readMeta) (wc_dates c)"
  have days: "?days = filter (\<lambda>d. fl_resumeBlocks f \<or> d \<notin> GetFinishedBlockDates walked readMeta) (wc_dates c)"
    by (simp add: finished_days_def ow)
  obtain q where q: "\<forall>n k. getIntermediateListIntoChan (c\<lparr>wc_workerCount := n, wc_workerID := k\<rparr>) walked readMeta ow disk p =
      map_option (\<lambda>r. (r, q)) (PathsForWorker ?days n k)"
    using getIntermediateListIntoChan_eq [of c ow walked readMeta disk p] assms(4) by blast
  have "c\<lparr>wc_workerCount := 1, wc_workerID := 0\<rparr> = c" using c by simp
  moreover have "PathsForWorker ?days 1 0 = Some (Ok ?days)" by (rule PathsForWorker_alone)
  ultimately show ?thesis using q days by (intro exI [of _ q]) (metis option.map(2))
qed

theorem resume_blocks_inverted_witness:
  "\<exists>c q. main_plan (\<lambda>p. Some (\<lambda>f. True)) (\<lambda>fs. Ok [])
      (default_flags\<lparr>fl_startDate := ''1970-01-02'', fl_endDate := ''1970-01-03''\<rparr>) [PASS2] =
        RunPass2 c ''/tmp/intermediate/'' ''/tmp/blocks/data/'' True \<and>
    GetFinishedBlockDates [''/b/X/meta.json''] (\<lambda>p. Some 86400000) = {1} \<and>
    getIntermediateListIntoChan c [''/b/X/meta.json''] (\<lambda>p. Some 86400000) True (\<lambda>d. no_disk\<lparr>d_data := Some []\<rparr>) NewProgress =
      Some (Ok [1, 2], q)"
proof -
  let ?f = "default_flags\<lparr>fl_startDate := ''1970-01-02'', fl_endDate := ''1970-01-03''\<rparr>"
  have d: "main_dates ?f PASS2 = Some [1, 2]"
    unfolding main_dates_def date_loop_upto by code_simp
  have l: "ParseCustomLabels (\<lambda>fs. Ok []) [] = Ok []" by (simp add: ParseCustomLabels_def csv_lines_def)
  obtain c where c: "main_plan (\<lambda>p. Some (\<lambda>f. True)) (\<lambda>fs. Ok []) ?f [PASS2] =
      RunPass2 c ''/tmp/intermediate/'' ''/tmp/blocks/data/'' True" and dates: "wc_dates c = [1, 2]"
    using d l by (simp add: main_plan_def default_flags_def PASS1_def PASS2_def DATERANGE_def FILELIST_def NewWhisperConverter_def)
  have fin: "GetFinishedBlockDates [''/b/X/meta.json''] (\<lambda>p. Some 86400000) = {1}"
    by (simp add: GetFinishedBlockDates_def metaFilter_def List.map_filter_simps day_of_ms_def ms_per_day_def)
  have r: "fl_resumeBlocks ?f" "fl_workerCount ?f = 1" "fl_workerID ?f = 0" by (simp_all add: default_flags_def)
  have "\<forall>d \<in> set (wc_dates c). d_data ((\<lambda>d. no_disk\<lparr>d_data := Some []\<rparr>) d) \<noteq> None" by simp
  from resume_blocks_inverted [OF c r(2,3) this, of "[''/b/X/meta.json'']" "\<lambda>p. Some 86400000" NewProgress]
  show ?thesis using c fin r(1) dates by auto
qed

end
