(* ===== verification/Internal.thy ===== *)
theory Internal
  imports Server
begin

text \<open>
  The internal server of \<^verbatim>\<open>pkg/internalserver/internalserver_handler.go\<close> with its routes, and the
  registration of routes of \<^verbatim>\<open>pkg/route/registerer.go\<close>. Serving and shutting down are parameters, and so are
  the handlers of the libraries.
\<close>

section \<open>\<^verbatim>\<open>http.ServeMux\<close>\<close>

text \<open>
  A pattern is registered once. A path goes to the handler of the same pattern, else to that of the longest
  pattern that ends in a slash and starts the path. The redirection of a path without its slash and the
  cleaning of paths are left out.
\<close>

type_synonym 'h serve_mux = "(string \<times> 'h) list"

definition mux_Handle :: "string \<Rightarrow> 'h \<Rightarrow> 'h serve_mux \<Rightarrow> 'h serve_mux res" where
  "mux_Handle pattern handler mux = (if pattern \<in> fst ` set mux then Panic else Ok (mux @ [(pattern, handler)]))"

fun mux_HandleAll :: "(string \<times> 'h) list \<Rightarrow> 'h serve_mux \<Rightarrow> 'h serve_mux res" where
  "mux_HandleAll [] mux = Ok mux"
| "mux_HandleAll ((pattern, handler) # rs) mux =
     (case mux_Handle pattern handler mux of Ok mux \<Rightarrow> mux_HandleAll rs mux | Err e \<Rightarrow> Err e | Panic \<Rightarrow> Panic)"

definition mux_Handler :: "'h serve_mux \<Rightarrow> string \<Rightarrow> 'h option" where
  "mux_Handler mux path =
     (case map_of mux path of
        Some handler \<Rightarrow> Some handler
      | None \<Rightarrow>
          (case filter (\<lambda>m. suffix ''/'' (fst m) \<and> prefix (fst m) path) mux of
             [] \<Rightarrow> None
           | m # ms \<Rightarrow> Some (snd (foldl (\<lambda>a b. if length (fst a) < length (fst b) then b else a) m ms))))"

section \<open>The internal server\<close>

record 's internal_Config =
  ic_HTTPListenAddress :: string
  ic_HTTPListenPort :: int
  ic_ServerGracefulShutdownTimeout :: int
  ic_ReadinessProvider :: "'s \<Rightarrow> bool"

datatype 's internal_route = PromMetrics | Readiness "'s \<Rightarrow> bool" | PprofIndex | PprofCmdline | PprofProfile | PprofSymbol | PprofTrace

record 's internal_server =
  is_Addr :: string
  is_Handler :: "'s internal_route serve_mux"

definition internal_Handler :: "'s internal_Config \<Rightarrow> 's internal_server res" where
  "internal_Handler cfg =
     (case mux_HandleAll
        [(''/metrics'', PromMetrics),
         (''/healthz'', Readiness (ic_ReadinessProvider cfg)),
         (''/debug/pprof/'', PprofIndex),
         (''/debug/pprof/cmdline'', PprofCmdline),
         (''/debug/pprof/profile'', PprofProfile),
         (''/debug/pprof/symbol'', PprofSymbol),
         (''/debug/pprof/trace'', PprofTrace)] [] of
        Ok mux \<Rightarrow> Ok \<lparr>is_Addr = ic_HTTPListenAddress cfg @ '':'' @ Itoa (ic_HTTPListenPort cfg), is_Handler = mux\<rparr>
      | Err e \<Rightarrow> Err e
      | Panic \<Rightarrow> Panic)"

text \<open>The two functions that \<^verbatim>\<open>Handler\<close> returns.\<close>

definition internal_run :: "('s internal_server \<Rightarrow> serve_err) \<Rightarrow> 's internal_server \<Rightarrow> log_line list \<times> serve_err" where
  "internal_run ListenAndServe srv =
     ([\<lparr>ll_level = LevelInfo, ll_keyvals = [(''msg'', VStr ''Starting internal server''), (''addr'', VStr (is_Addr srv))]\<rparr>],
      ListenAndServe srv)"

definition internal_stop :: "(int \<Rightarrow> string option) \<Rightarrow> 's internal_Config \<Rightarrow> shutdown_call list" where
  "internal_stop shutdown cfg =
     [ShutdownLog (msg_line LevelInfo ''Shutting down internal server''), HTTPShutdown (ic_ServerGracefulShutdownTimeout cfg)] @
     (case shutdown (ic_ServerGracefulShutdownTimeout cfg) of
        Some err \<Rightarrow> [ShutdownLog \<lparr>ll_level = LevelError, ll_keyvals = [(''msg'', VStr ''Server shutdown error''), (''err'', VStr err)]\<rparr>]
      | None \<Rightarrow> []) @
     [ShutdownLog (msg_line LevelInfo ''Server shut down correctly'')]"

section \<open>Which path goes where\<close>

lemma internal_Handler_Ok: "\<exists>srv. internal_Handler cfg = Ok srv"
  by (simp add: internal_Handler_def mux_Handle_def)

lemma internal_endpoints:
  assumes "internal_Handler cfg = Ok srv"
  shows "mux_Handler (is_Handler srv) path =
    (if path = ''/metrics'' then Some PromMetrics
     else if path = ''/healthz'' then Some (Readiness (ic_ReadinessProvider cfg))
     else if path = ''/debug/pprof/cmdline'' then Some PprofCmdline
     else if path = ''/debug/pprof/profile'' then Some PprofProfile
     else if path = ''/debug/pprof/symbol'' then Some PprofSymbol
     else if path = ''/debug/pprof/trace'' then Some PprofTrace
     else if prefix ''/debug/pprof/'' path then Some PprofIndex
     else None)"
proof -
  have mux: "is_Handler srv = [(''/metrics'', PromMetrics), (''/healthz'', Readiness (ic_ReadinessProvider cfg)),
      (''/debug/pprof/'', PprofIndex), (''/debug/pprof/cmdline'', PprofCmdline), (''/debug/pprof/profile'', PprofProfile),
      (''/debug/pprof/symbol'', PprofSymbol), (''/debug/pprof/trace'', PprofTrace)]"
    using assms by (auto simp: internal_Handler_def mux_Handle_def)
  have "filter (\<lambda>m. suffix ''/'' (fst m) \<and> prefix (fst m) path) (is_Handler srv) =
      (if prefix ''/debug/pprof/'' path then [(''/debug/pprof/'', PprofIndex)] else [])"
    unfolding mux by (simp add: suffix_Cons)
  then show ?thesis unfolding mux_Handler_def by (simp add: mux)
qed

text \<open>The health check is the readiness handler, so it follows the provider.\<close>

lemma healthz_status:
  assumes "internal_Handler cfg = Ok srv"
  shows "\<exists>ready. mux_Handler (is_Handler srv) ''/healthz'' = Some (Readiness ready) \<and>
    hd (fst (NewReadinessHandler wr (ready s))) = WriteHeader (if ic_ReadinessProvider cfg s then 200 else 500)"
  unfolding internal_endpoints [OF assms] by (auto simp: NewReadinessHandler_def split: prod.splits)

section \<open>\<^verbatim>\<open>registerer.go\<close>\<close>

text \<open>A router of \<^verbatim>\<open>gorilla/mux\<close> as the routes that were added to it, in order.\<close>

datatype path_match = ExactPath string | PathPrefix string

record 'h mux_route =
  mr_path :: path_match
  mr_handler :: 'h
  mr_methods :: "string list"

type_synonym 'h mux_router = "'h mux_route list"

definition MuxRegisterer_RegisterRoute :: "string \<Rightarrow> 'h \<Rightarrow> string list \<Rightarrow> 'h mux_router \<Rightarrow> 'h mux_router" where
  "MuxRegisterer_RegisterRoute path handler methods router =
     router @ [\<lparr>mr_path = ExactPath path, mr_handler = handler, mr_methods = methods\<rparr>]"

definition MuxRegisterer_RegisterRoutesWithPrefix :: "string \<Rightarrow> 'h \<Rightarrow> string list \<Rightarrow> 'h mux_router \<Rightarrow> 'h mux_router" where
  "MuxRegisterer_RegisterRoutesWithPrefix pre handler methods router =
     router @ [\<lparr>mr_path = PathPrefix pre, mr_handler = handler, mr_methods = methods\<rparr>]"

text \<open>The other registerer hands on to functions, which change a state of their own.\<close>

record ('h, 's) func_registerer =
  fr_route :: "string \<Rightarrow> 'h \<Rightarrow> string list \<Rightarrow> 's \<Rightarrow> 's"
  fr_routesWithPrefix :: "string \<Rightarrow> 'h \<Rightarrow> string list \<Rightarrow> 's \<Rightarrow> 's"

definition NewFuncRegisterer ::
    "(string \<Rightarrow> 'h \<Rightarrow> string list \<Rightarrow> 's \<Rightarrow> 's) \<Rightarrow> (string \<Rightarrow> 'h \<Rightarrow> string list \<Rightarrow> 's \<Rightarrow> 's) \<Rightarrow> ('h, 's) func_registerer" where
  "NewFuncRegisterer f g = \<lparr>fr_route = f, fr_routesWithPrefix = g\<rparr>"

definition FuncRegisterer_RegisterRoute :: "('h, 's) func_registerer \<Rightarrow> string \<Rightarrow> 'h \<Rightarrow> string list \<Rightarrow> 's \<Rightarrow> 's" where
  "FuncRegisterer_RegisterRoute r path handler methods = fr_route r path handler methods"

definition FuncRegisterer_RegisterRoutesWithPrefix :: "('h, 's) func_registerer \<Rightarrow> string \<Rightarrow> 'h \<Rightarrow> string list \<Rightarrow> 's \<Rightarrow> 's" where
  "FuncRegisterer_RegisterRoutesWithPrefix r path handler methods = fr_routesWithPrefix r path handler methods"

text \<open>
  The interface \<^verbatim>\<open>Registerer\<close>: what is registered is appended to the routes. A registerer of functions
  has it if the functions do, as those of a registerer over a router.
\<close>

locale registerer =
  fixes routes :: "'s \<Rightarrow> 'h mux_router"
    and register :: "string \<Rightarrow> 'h \<Rightarrow> string list \<Rightarrow> 's \<Rightarrow> 's"
    and register_prefix :: "string \<Rightarrow> 'h \<Rightarrow> string list \<Rightarrow> 's \<Rightarrow> 's"
  assumes route: "routes (register p h ms s) = routes s @ [\<lparr>mr_path = ExactPath p, mr_handler = h, mr_methods = ms\<rparr>]"
    and route_prefix: "routes (register_prefix p h ms s) = routes s @ [\<lparr>mr_path = PathPrefix p, mr_handler = h, mr_methods = ms\<rparr>]"
begin

lemma earlier_routes_stay:
  "take (length (routes s)) (routes (register p h ms s)) = routes s"
  "take (length (routes s)) (routes (register_prefix p h ms s)) = routes s"
  by (simp_all add: route route_prefix)

lemma func_registerer:
  "registerer routes (FuncRegisterer_RegisterRoute (NewFuncRegisterer register register_prefix))
    (FuncRegisterer_RegisterRoutesWithPrefix (NewFuncRegisterer register register_prefix))"
  by unfold_locales
    (simp_all add: FuncRegisterer_RegisterRoute_def FuncRegisterer_RegisterRoutesWithPrefix_def NewFuncRegisterer_def route route_prefix)

end

interpretation mux: registerer "\<lambda>router. router" MuxRegisterer_RegisterRoute MuxRegisterer_RegisterRoutesWithPrefix
  by unfold_locales (simp_all add: MuxRegisterer_RegisterRoute_def MuxRegisterer_RegisterRoutesWithPrefix_def)

interpretation func: registerer "\<lambda>router. router"
  "FuncRegisterer_RegisterRoute (NewFuncRegisterer MuxRegisterer_RegisterRoute MuxRegisterer_RegisterRoutesWithPrefix)"
  "FuncRegisterer_RegisterRoutesWithPrefix (NewFuncRegisterer MuxRegisterer_RegisterRoute MuxRegisterer_RegisterRoutesWithPrefix)"
  by (rule mux.func_registerer)

end
