(* ===== verification/Lifecycle.thy ===== *)
theory Lifecycle
  imports Internal App
begin

text \<open>
  A service while it runs: \<^verbatim>\<open>appcommon.New\<close> adds the server, the internal server and the signal handler to
  a group of \<^verbatim>\<open>oklog/run\<close>, the signal handler being the readiness provider of the internal server. Of the
  group it matters, as documented, that it runs its actors concurrently and, when the first has returned,
  interrupts all of them once, in the order in which they were added.
\<close>

section \<open>The group\<close>

record life =
  lf_server :: run_state
  lf_internal :: "serve_err option"
  lf_signal :: signal_handler
  lf_stopped :: nat

text \<open>The actors are added with the functions that \<^verbatim>\<open>Handler\<close> returns, which makes the signal handler ready.\<close>

definition life_start :: life where
  "life_start =
     \<lparr>lf_server = run_start, lf_internal = None,
      lf_signal = NewSignalHandler\<lparr>sh_ready := True, sh_phase := NotRunning\<rparr>, lf_stopped = 0\<rparr>"

definition internal_config :: "int \<Rightarrow> string \<Rightarrow> int \<Rightarrow> life internal_Config" where
  "internal_config timeout address port =
     \<lparr>ic_HTTPListenAddress = address, ic_HTTPListenPort = port, ic_ServerGracefulShutdownTimeout = timeout,
      ic_ReadinessProvider = (\<lambda>s. signal_Ready (lf_signal s))\<rparr>"

definition actor_returned :: "life \<Rightarrow> bool" where
  "actor_returned s \<longleftrightarrow> rn_returned (lf_server s) \<noteq> None \<or> lf_internal s \<noteq> None \<or> sh_phase (lf_signal s) = Returned"

text \<open>The steps: those of the actors, and the three interrupts.\<close>

inductive life_step :: "int \<Rightarrow> life \<Rightarrow> life \<Rightarrow> bool" for delay where
  server: "run_step (lf_server s) r \<Longrightarrow> life_step delay s (s\<lparr>lf_server := r\<rparr>)"
| internal_ends: "lf_internal s = None \<Longrightarrow> life_step delay s (s\<lparr>lf_internal := Some err\<rparr>)"
| signal: "ev \<noteq> CallHandler \<Longrightarrow> ev \<noteq> CallStop \<Longrightarrow> sig_step delay ev (lf_signal s) = Some sh \<Longrightarrow>
    life_step delay s (s\<lparr>lf_signal := sh\<rparr>)"
| stop_server: "actor_returned s \<Longrightarrow> lf_stopped s = 0 \<Longrightarrow> life_step delay s (s\<lparr>lf_stopped := 1\<rparr>)"
| stop_internal: "lf_stopped s = 1 \<Longrightarrow> life_step delay s (s\<lparr>lf_stopped := 2\<rparr>)"
| stop_signal: "lf_stopped s = 2 \<Longrightarrow> sig_step delay CallStop (lf_signal s) = Some sh \<Longrightarrow>
    life_step delay s (s\<lparr>lf_signal := sh, lf_stopped := 3\<rparr>)"

inductive_cases life_stepE: "life_step delay s s'"

inductive life_reach :: "int \<Rightarrow> life \<Rightarrow> bool" for delay where
  start: "life_reach delay life_start"
| step: "life_reach delay s \<Longrightarrow> life_step delay s s' \<Longrightarrow> life_reach delay s'"

section \<open>The invariant\<close>

text \<open>
  \<open>quit\<close> is closed by the last interrupt only. Until then the signal handler has taken a signal exactly if
  it is not ready any more, and that is the only way for it to return.
\<close>

definition sig_ok :: "bool \<Rightarrow> signal_handler \<Rightarrow> bool" where
  "sig_ok stopped sh \<longleftrightarrow>
     \<not> sh_panic sh \<and> sh_quit sh = stopped \<and> sh_phase sh \<noteq> NotCalled \<and>
     (sh_phase sh \<in> {NotRunning, Selecting} \<longrightarrow> sh_ready sh) \<and> (sh_phase sh = Sleeping \<longrightarrow> \<not> sh_ready sh) \<and>
     (sh_phase sh = Returned \<and> \<not> stopped \<longrightarrow> \<not> sh_ready sh)"

definition life_inv :: "life \<Rightarrow> bool" where
  "life_inv s \<longleftrightarrow> lf_stopped s \<le> 3 \<and> sig_ok (lf_stopped s = 3) (lf_signal s) \<and> (lf_stopped s = 0 \<or> actor_returned s)"

lemma sig_ok_step:
  assumes "sig_step delay ev sh = Some sh'" and "ev \<noteq> CallHandler" and "ev \<noteq> CallStop" and "sig_ok stopped sh"
  shows "sig_ok stopped sh' \<and> (sh_phase sh = Returned \<longrightarrow> sh_phase sh' = Returned)"
  using assms by (cases ev) (simp_all add: sig_ok_def sig_step_def split: if_splits; force)+

lemma sig_ok_stop:
  assumes "sig_step delay CallStop sh = Some sh'" and "sig_ok False sh"
  shows "sig_ok True sh' \<and> sh_phase sh' = sh_phase sh"
  using assms by (auto simp: sig_ok_def sig_step_def split: if_splits)

lemma life_inv_start: "life_inv life_start"
  by (simp add: life_inv_def sig_ok_def life_start_def NewSignalHandler_def)

lemma run_step_returned: "run_step r r' \<Longrightarrow> rn_returned r \<noteq> None \<Longrightarrow> rn_returned r' \<noteq> None"
  by (auto elim: run_stepE)

lemma life_inv_step:
  assumes "life_step delay s s'" and "life_inv s"
  shows "life_inv s'"
  using assms
proof (cases rule: life_step.cases)
  case (server r)
  then show ?thesis using assms(2) run_step_returned [OF server(2)]
    by (auto simp: life_inv_def actor_returned_def)
next
  case (signal ev sh)
  then show ?thesis using assms(2) sig_ok_step [OF signal(4,2,3), of "lf_stopped s = 3"]
    by (auto simp: life_inv_def actor_returned_def)
next
  case (stop_signal sh)
  then show ?thesis using assms(2) sig_ok_stop [OF stop_signal(3)]
    by (auto simp: life_inv_def actor_returned_def)
qed (auto simp: life_inv_def actor_returned_def)

lemma life_inv_reach: "life_reach delay s \<Longrightarrow> life_inv s"
  by (induction rule: life_reach.induct) (auto intro: life_inv_start life_inv_step)

section \<open>Properties\<close>

text \<open>
  C37. The shutdown of a service, over all interleavings of its actors, the signals and the failures of the
  servers. Stopping the signal handler never panics. The server is shut down only after it or the internal
  server has failed by itself, or after the signal handler has returned, and then a health check is answered
  by 500 already: requests are not cut off while the service still says that it is ready. And when
  everything was interrupted the signal handler has returned or can take its next step towards that.
\<close>

theorem service_shutdown:
  assumes "life_reach delay s" and "internal_Handler (internal_config delay address port) = Ok srv"
  shows "\<not> sh_panic (lf_signal s) \<and>
    (\<forall>s'. lf_stopped s = 0 \<and> life_step delay s s' \<and> lf_stopped s' = 1 \<longrightarrow>
      rn_returned (lf_server s) \<noteq> None \<or> lf_internal s \<noteq> None \<or>
      (\<exists>ready. mux_Handler (is_Handler srv) ''/healthz'' = Some (Readiness ready) \<and>
        hd (fst (NewReadinessHandler wr (ready s))) = WriteHeader 500)) \<and>
    (lf_stopped s = 3 \<and> sh_phase (lf_signal s) \<noteq> Returned \<longrightarrow>
      (\<exists>ev \<in> {CallRun, TakeQuit, Wake}. sig_step delay ev (lf_signal s) \<noteq> None))"
proof (intro conjI allI impI)
  have inv: "life_inv s" by (rule life_inv_reach [OF assms(1)])
  then show "\<not> sh_panic (lf_signal s)" by (simp add: life_inv_def sig_ok_def)
  show "rn_returned (lf_server s) \<noteq> None \<or> lf_internal s \<noteq> None \<or>
      (\<exists>ready. mux_Handler (is_Handler srv) ''/healthz'' = Some (Readiness ready) \<and>
        hd (fst (NewReadinessHandler wr (ready s))) = WriteHeader 500)"
    if "lf_stopped s = 0 \<and> life_step delay s s' \<and> lf_stopped s' = 1" for s'
  proof -
    from that have ret: "actor_returned s" by (auto elim: life_stepE)
    have "\<not> signal_Ready (lf_signal s)" if "sh_phase (lf_signal s) = Returned"
      using inv that \<open>lf_stopped s = 0 \<and> _\<close> by (simp add: life_inv_def sig_ok_def signal_Ready_def)
    then show ?thesis using ret healthz_status [OF assms(2), of wr s]
      by (auto simp: actor_returned_def internal_config_def)
  qed
  show "\<exists>ev \<in> {CallRun, TakeQuit, Wake}. sig_step delay ev (lf_signal s) \<noteq> None"
    if "lf_stopped s = 3 \<and> sh_phase (lf_signal s) \<noteq> Returned"
    using inv that by (cases "sh_phase (lf_signal s)") (auto simp: life_inv_def sig_ok_def sig_step_def)
qed

text \<open>A signal arrives, is taken, and the service waits; then the server is shut down.\<close>

theorem service_shutdown_witness:
  "\<exists>s s' srv. life_reach 0 s \<and> life_step 0 s s' \<and> lf_stopped s' = 1 \<and> lf_internal s = None \<and>
    internal_Handler (internal_config 0 [] 8081) = Ok srv \<and>
    (\<exists>ready. mux_Handler (is_Handler srv) ''/healthz'' = Some (Readiness ready) \<and>
      hd (fst (NewReadinessHandler (\<lambda>data. (int (length data), None)) (ready s))) = WriteHeader 500)"
proof -
  let ?s = "\<lambda>ready sigs phase. life_start\<lparr>lf_signal := \<lparr>sh_ready = ready, sh_quit = False, sh_sigs = sigs, sh_phase = phase, sh_panic = False\<rparr>\<rparr>"
  have 0: "life_reach 0 (?s True False NotRunning)"
    using life_reach.start by (simp add: life_start_def NewSignalHandler_def)
  have 1: "life_reach 0 (?s True False Selecting)"
    by (rule life_reach.step [OF 0]) (use life_step.signal [of CallRun 0 "?s True False NotRunning"] in \<open>simp add: sig_step_def\<close>)
  have 2: "life_reach 0 (?s True True Selecting)"
    by (rule life_reach.step [OF 1]) (use life_step.signal [of Signal 0 "?s True False Selecting"] in \<open>simp add: sig_step_def\<close>)
  have 3: "life_reach 0 (?s False False Returned)"
    by (rule life_reach.step [OF 2]) (use life_step.signal [of TakeSignal 0 "?s True True Selecting"] in \<open>simp add: sig_step_def\<close>)
  have st: "life_step 0 (?s False False Returned) ((?s False False Returned)\<lparr>lf_stopped := 1\<rparr>)"
    by (rule life_step.stop_server) (simp_all add: actor_returned_def life_start_def)
  obtain srv where srv: "internal_Handler (internal_config 0 [] 8081) = Ok srv" using internal_Handler_Ok by blast
  let ?r = "?s False False Returned"
  have idle: "lf_stopped ?r = 0 \<and> life_step 0 ?r (?r\<lparr>lf_stopped := 1\<rparr>) \<and> lf_stopped (?r\<lparr>lf_stopped := 1\<rparr>) = 1"
    "rn_returned (lf_server ?r) = None" "lf_internal ?r = None"
    using st by (simp_all add: life_start_def run_start_def)
  then have "\<exists>ready. mux_Handler (is_Handler srv) ''/healthz'' = Some (Readiness ready) \<and>
      hd (fst (NewReadinessHandler (\<lambda>data. (int (length data), None)) (ready ?r))) = WriteHeader 500"
    using service_shutdown [OF 3 srv, of "\<lambda>data. (int (length data), None)", THEN conjunct2, THEN conjunct1, rule_format, OF idle(1)]
    by blast
  with 3 st srv idle show ?thesis by blast
qed

end
