(* ===== verification/Spec2Isabelle.thy ===== *)
theory Spec2Isabelle
  imports USTable_Properties Finished DateRun Registration Convert Command Lifecycle
begin

text \<open>
  Verification of mimir-graphite: the converter from Graphite's whisper files to TSDB blocks, and the
  parts from which its proxies are built. All paths below are relative to \<^verbatim>\<open>src/\<close>.

  \<^bold>\<open>The program.\<close> There are two halves.

  \<^item> \<^bold>\<open>The converter\<close> (\<^verbatim>\<open>cmd/mimir-whisper-converter\<close>, \<^verbatim>\<open>pkg/graphite/convert\<close>, \<^verbatim>\<open>pkg/tsdb\<close>) runs in four
    commands. \<^verbatim>\<open>filelist\<close> writes the names of the whisper files, \<^verbatim>\<open>daterange\<close> prints the first and the last
    day with samples. \<^verbatim>\<open>pass1\<close> reads every file, splits its samples into days and appends one record per
    file and day to the table of that day; a table of finished metrics lets a killed run be resumed.
    \<^verbatim>\<open>pass2\<close> turns the table of each day into a block with the block builder, which sorts symbols and
    series in batches on disk and merges them. Several workers, which are processes, share the files of the
    first pass and the days of the second.
  \<^item> \<^bold>\<open>The services\<close> (\<^verbatim>\<open>pkg/appcommon\<close>, \<^verbatim>\<open>pkg/server\<close>, \<^verbatim>\<open>pkg/internalserver\<close>, \<^verbatim>\<open>pkg/stopsignal\<close>,
    \<^verbatim>\<open>pkg/graphite/writeproxy\<close>, \<^verbatim>\<open>pkg/remotewrite\<close>, \<^verbatim>\<open>pkg/errorx\<close>, \<^verbatim>\<open>pkg/ctxlog\<close>, \<^verbatim>\<open>pkg/route\<close>). An
    application is a router behind middlewares, served over HTTP, with an internal server for metrics and
    health checks and a handler for stop signals. The write proxy turns posted metrics into time series and
    hands them to the remote write client.

  \<^bold>\<open>How it is modelled.\<close> Structs are records, enumerations and errors datatypes, operations functions on
  explicit states. An operation that can return an error or panic gives a \<open>res\<close> (\<open>Ok\<close>, \<open>Err\<close>, \<open>Panic\<close>) or
  a sum with the error on the left. Integers that can overflow are words or are reduced explicitly; other
  numbers are \<open>nat\<close> or \<open>int\<close>. Go strings that the code treats as bytes are lists of bytes, texts are
  lists of characters. Goroutines that interact are inductive step relations, and what is proved of them is
  proved for every interleaving. Loops are structural recursion or functions with a measure, so nothing
  depends on fuel; the two loops that may not end are partial functions whose value is then \<open>None\<close>:
  \<open>pfw_loop\<close> (a step of 0) and \<open>index_loop\<close> (a table with negative lengths). Libraries outside \<^verbatim>\<open>src/\<close> are
  records of functions that the definitions take as arguments (\<open>tsdb_lib\<close>, \<open>label_lib\<close>, \<open>px_lib\<close>, \<open>rw_lib\<close>,
  \<open>mw_env\<close>, \<open>net_lib\<close>, \<open>app_env\<close>, codecs); what is assumed of them stands in named predicates such as
  \<open>lib_ok\<close>, \<open>builder_ok\<close>, \<open>wire_ok\<close> and \<open>tracing_ok\<close>, and each has an instance that the witnesses run.
  What Go's own library does is modelled as far as the code uses it.

  \<^bold>\<open>The shared base.\<close>

  \<^item> \<open>Prelude\<close>: bytes, little-endian integers, lists, and the collections of simplification rules.
  \<^item> \<open>GoFile\<close>: files with an offset, reads, writes, seeks and a disk that may be full; \<open>GoHeap\<close>:
    \<^verbatim>\<open>container/heap\<close> for a comparison that has effects (locales \<open>peek_state\<close>, \<open>heap_order\<close>, \<open>peeking\<close>);
    \<open>Calendar\<close>, \<open>Strings\<close>, \<open>Url\<close>: the civil calendar, strings and paths, queries of URLs.

  \<^bold>\<open>The converter.\<close>

  \<^item> \<open>USTable\<close> models \<^verbatim>\<open>ustable.go\<close>, operation by operation over \<open>GoFile\<close>. \<open>USTable_Correct\<close> has the
    format of the file and what each operation does on it; \<open>USTable_Properties\<close> the round trips, also after
    a crash that cut the last record, the index, and the inputs on which it goes wrong. Recovery from a crash,
    here and in the passes, is proved for a cut that is noticed (\<open>cut_noticed\<close>): before the value, or where
    the codec refuses what is there of the value with zeros behind it, as \<open>readValue\<close> pads it. The codec of
    the program need not refuse a value that lost its last byte; what happens then is \<open>unnoticed_cut_corrupts\<close>.
  \<^item> \<open>Paths\<close> (\<^verbatim>\<open>paths.go\<close>): the shares of the workers and the days with a finished block; \<open>Finished\<close>: that a
    block which the builder made is found again (\<^verbatim>\<open>ReadMetaFile\<close>); \<open>Progress\<close> (\<^verbatim>\<open>progress.go\<close>).
  \<^item> \<open>Whisper\<close> (\<^verbatim>\<open>whisper.go\<close>): merging the archives of a file and splitting samples into days;
    \<open>DateRange\<close>, \<open>DateRun\<close> (\<^verbatim>\<open>daterange.go\<close>), where the whole command is a step relation; \<open>Files\<close>
    (\<^verbatim>\<open>filelist.go\<close>, \<^verbatim>\<open>whisperfiles.go\<close>, \<^verbatim>\<open>converter.go\<close>); \<open>SeriesIter\<close> (\<^verbatim>\<open>series.go\<close>), which refines a cursor over the samples, and panics in \<open>Seek\<close> at the end; \<open>Tags\<close>
    (\<^verbatim>\<open>tags.go\<close>), the labels of a metric.
  \<^item> \<open>Merge\<close>, \<open>SymbolsBatch\<close>, \<open>SeriesBatch\<close> (\<^verbatim>\<open>symbols_batch.go\<close>, \<^verbatim>\<open>series_batch.go\<close>): batches that are
    sorted, flushed and merged over a heap of files. The merge is proved once, in the locales \<open>file_source\<close>
    and \<open>file_merge\<close>, and interpreted for symbols and for series.
  \<^item> \<open>Chunks\<close>, \<open>Builder\<close> (\<^verbatim>\<open>builder.go\<close>): samples into chunks of 120, the builder and its batches, index,
    chunks and metadata. \<open>Builder_Correct\<close> has the invariant of the builder and \<open>Block_Properties\<close> says what
    a finished block holds.
  \<^item> \<open>Pass1\<close>, \<open>Pass2\<close> (\<^verbatim>\<open>pass1.go\<close>, \<^verbatim>\<open>pass2.go\<close>): the threads of the first pass as a step relation over
    the channel of files and the tables, whose lock makes an append atomic, and the blocks of the second. \<open>Pass1_Correct\<close> has its invariant, that the threads
    always finish, and what is left after a crash; \<open>Pass2_Correct\<close> the way from a table to a block.
  \<^item> \<open>Convert\<close> composes the passes: the specification of a day is given from the whisper files alone, and
    the two passes implement it, also when the first one is killed and resumed. \<open>Command\<close> (\<^verbatim>\<open>main.go\<close>) has
    the checks of the flags, the list of days and the custom labels.

  \<^bold>\<open>The services.\<close>

  \<^item> \<open>Errorx\<close> (\<^verbatim>\<open>pkg/errorx\<close>): errors with their HTTP and gRPC codes, to gRPC and back, also where
    the details of a status cannot be encoded.
  \<^item> \<open>Telemetry\<close>, \<open>RemoteWrite\<close>, \<open>WriteProxy\<close>: the recorders and the registry of metrics; the remote write
    client with its construction, its transports (\<^verbatim>\<open>transports.go\<close>) and its errors; the handler of the write
    proxy. \<open>WriteProxy_Correct\<close>: a request is written as a whole or not at all, which calls on the recorder are made
    (locale \<open>quiet_client\<close>), the answer of the remote server decides the status, and what goes over the wire.
  \<^item> \<open>Middleware\<close>, \<open>Middleware_Correct\<close> (\<^verbatim>\<open>pkg/server/middleware\<close>, \<^verbatim>\<open>bytereplacer\<close>): a handler is a function
    from a request to what it did (\<open>run\<close>); the contract of a middleware is the locale \<open>middleware\<close>, which
    every one of them interprets.
  \<^item> \<open>Flags\<close>: the flags of all configurations. \<open>Server\<close>: \<^verbatim>\<open>server.go\<close>, the readiness handler and the signal
    handler as step relations. \<open>Internal\<close>: the internal server and \<^verbatim>\<open>registerer.go\<close> (locale \<open>registerer\<close>).
  \<^item> \<open>App\<close>, \<open>App_Correct\<close> (\<^verbatim>\<open>harness.go\<close>, \<^verbatim>\<open>pkg/ctxlog\<close>): what every request to a service goes through, from
    the server to the handler of its router. \<open>Lifecycle\<close>: the server, the internal server and the signal
    handler in their group, from the start to the shutdown. \<open>Registration\<close>: whatever the instrumentation, the
    write proxy and its client measure is registered by their own recorder, so that a measurement panics only
    for a label that is not UTF-8.

  \<^bold>\<open>Bounds.\<close> The limits of the code are kept: 120 samples per chunk, 512 bytes of an error message, batches
  of as many symbols and series as the options say, int64 lengths in tables. Allocations are refused from \<open>max_alloc\<close> on, which is
  what makes a bad length a panic. Theorems on files assume that what is written fits these limits
  (\<open>entry_ok\<close>) and that there is room on the disk where it says so.

  \<^bold>\<open>Not modelled.\<close>

  \<^item> The set-up of the jaeger library (\<^verbatim>\<open>tracer.go\<close>): every line calls that library. Tracing elsewhere is a
    parameter that may change the context of a request.
  \<^item> Generated and test support code: \<^verbatim>\<open>errors.pb.go\<close>, the mocks, \<^verbatim>\<open>test_utils.go\<close>.
  \<^item> The text of the usage message, log lines of the converter, durations, and pooled memory
    (\<^verbatim>\<open>ReuseSlice\<close>, the pools of the builder), which have no effect on results.
  \<^item> Contents of formats that belong to libraries: protobuf, gob, snappy, JSON, the index and chunk files of
    Prometheus, whisper's own files below its points. They are codecs and libraries with stated laws.
  \<^item> Symbolic links and changes of the directory during a walk; cleaning and redirection of paths by
    \<^verbatim>\<open>http.ServeMux\<close>.
\<close>

end
